(* ===== verification/Prelude.thy ===== *)
theory Prelude
  imports Main "HOL-Library.AList" "HOL-Library.Sublist"
begin

text \<open>
  Shared vocabulary of the development.

  A Go map is an association list with distinct keys. Its order is the order in which a
  \<^verbatim>\<open>range\<close> statement visits it, which Go leaves open: a theorem for every list is a theorem
  for every iteration order. Reading is \<open>map_of\<close>, storing is \<open>AList.update\<close>.

  A function that returns \<^verbatim>\<open>(value, error)\<close> returns a sum: \<open>Inl\<close> is the error,
  \<open>Inr\<close> the value. A loop over a list that can stop with an error is \<open>fold_res\<close>.
\<close>

type_synonym ('k, 'v) gomap = "('k \<times> 'v) list"

abbreviation gokeys :: "('k, 'v) gomap \<Rightarrow> 'k set" where
  "gokeys m \<equiv> fst ` set m"

abbreviation gowf :: "('k, 'v) gomap \<Rightarrow> bool" where
  "gowf m \<equiv> distinct (map fst m)"

text \<open>Facts about association lists that the component proofs share.\<close>

named_theorems gomap_simps
named_theorems res_simps

lemma map_of_update [gomap_simps]:
  "map_of (AList.update k v m) x = (if x = k then Some v else map_of m x)"
  by (simp add: update_conv)

lemma gokeys_update [gomap_simps]: "gokeys (AList.update k v m) = insert k (gokeys m)"
  by (simp add: dom_update)

lemma gowf_update [gomap_simps]: "gowf m \<Longrightarrow> gowf (AList.update k v m)"
  by (rule distinct_update)

lemma update_new: "k \<notin> gokeys m \<Longrightarrow> AList.update k v m = m @ [(k, v)]"
  by (induction m) auto

lemma map_of_None_gokeys: "map_of m k = None \<longleftrightarrow> k \<notin> gokeys m"
  by (rule map_of_eq_None_iff)

lemma map_of_Some_gokeys: "map_of m k = Some v \<Longrightarrow> k \<in> gokeys m"
  by (force dest: map_of_SomeD)

lemma gokeys_lookup: "k \<in> gokeys m \<Longrightarrow> \<exists>v. map_of m k = Some v"
  by (metis map_of_None_gokeys not_None_eq)

lemma gowf_lookup: "gowf m \<Longrightarrow> (k, v) \<in> set m \<longleftrightarrow> map_of m k = Some v"
  by (metis map_of_eq_Some_iff)

subsection \<open>Results and loops that stop at the first error\<close>

fun bind_res :: "'e + 'a \<Rightarrow> ('a \<Rightarrow> 'e + 'b) \<Rightarrow> 'e + 'b" where
  "bind_res (Inl e) f = Inl e"
| "bind_res (Inr x) f = f x"

fun is_ok :: "'e + 'a \<Rightarrow> bool" where
  "is_ok (Inl e) = False"
| "is_ok (Inr x) = True"

fun fold_res :: "('x \<Rightarrow> 's \<Rightarrow> 'e + 's) \<Rightarrow> 'x list \<Rightarrow> 's \<Rightarrow> 'e + 's" where
  "fold_res f [] s = Inr s"
| "fold_res f (x # xs) s = (case f x s of Inl e \<Rightarrow> Inl e | Inr s' \<Rightarrow> fold_res f xs s')"

lemma bind_res_Inr [res_simps]: "bind_res r f = Inr y \<longleftrightarrow> (\<exists>x. r = Inr x \<and> f x = Inr y)"
  by (cases r) auto

lemma bind_res_Inl [res_simps]:
  "bind_res r f = Inl e \<longleftrightarrow> r = Inl e \<or> (\<exists>x. r = Inr x \<and> f x = Inl e)"
  by (cases r) auto

lemma is_ok_iff [res_simps]: "is_ok r \<longleftrightarrow> (\<exists>x. r = Inr x)"
  by (cases r) auto

lemma fold_res_Cons_Inr [res_simps]:
  "fold_res f (x # xs) s = Inr t \<longleftrightarrow> (\<exists>s'. f x s = Inr s' \<and> fold_res f xs s' = Inr t)"
  by (auto split: sum.splits)

lemma fold_res_append:
  "fold_res f (xs @ ys) s = bind_res (fold_res f xs s) (fold_res f ys)"
  by (induction xs arbitrary: s) (auto split: sum.splits)

text \<open>An invariant that each round keeps holds after the loop.\<close>

lemma fold_res_inv:
  assumes "fold_res f xs s = Inr t" and "P s"
    and "\<And>x s s'. x \<in> set xs \<Longrightarrow> P s \<Longrightarrow> f x s = Inr s' \<Longrightarrow> P s'"
  shows "P t"
  using assms
proof (induction xs arbitrary: s)
  case Nil
  then show ?case by simp
next
  case (Cons x xs)
  then obtain s' where s': "f x s = Inr s'" "fold_res f xs s' = Inr t"
    by (auto split: sum.splits)
  with Cons.prems have "P s'" by (meson list.set_intros(1))
  with s' Cons show ?case by (metis list.set_intros(2))
qed

lemma fold_res_each: "fold_res f xs s = Inr t \<Longrightarrow> x \<in> set xs \<Longrightarrow> \<exists>u u'. f x u = Inr u'"
  by (induction xs arbitrary: s) (auto split: sum.splits)

lemma fold_res_total:
  "(\<And>x u. x \<in> set xs \<Longrightarrow> \<exists>u'. f x u = Inr u') \<Longrightarrow> \<exists>t. fold_res f xs s = Inr t"
proof (induction xs arbitrary: s)
  case Nil
  then show ?case by simp
next
  case (Cons x xs)
  then obtain s' where "f x s = Inr s'" by (meson list.set_intros(1))
  moreover obtain t where "fold_res f xs s' = Inr t" using Cons by (meson list.set_intros(2))
  ultimately show ?case by simp
qed

lemma fold_res_cong [fundef_cong]:
  "xs = ys \<Longrightarrow> s = t \<Longrightarrow> (\<And>x u. x \<in> set ys \<Longrightarrow> f x u = g x u) \<Longrightarrow>
   fold_res f xs s = fold_res g ys t"
proof (induction xs arbitrary: ys s t)
  case Nil
  then show ?case by auto
next
  case (Cons x xs)
  then show ?case by (cases ys) (auto split: sum.splits)
qed

text \<open>A loop that builds a list and stops at the first error.\<close>

fun map_res :: "('a \<Rightarrow> 'e + 'b) \<Rightarrow> 'a list \<Rightarrow> 'e + 'b list" where
  "map_res f [] = Inr []"
| "map_res f (x # xs) =
     (case f x of Inl e \<Rightarrow> Inl e | Inr y \<Rightarrow>
       (case map_res f xs of Inl e \<Rightarrow> Inl e | Inr ys \<Rightarrow> Inr (y # ys)))"

lemma map_res_Inr: "map_res f xs = Inr ys \<longleftrightarrow> list_all2 (\<lambda>x y. f x = Inr y) xs ys"
proof (induction xs arbitrary: ys)
  case Nil
  then show ?case by auto
next
  case (Cons x xs)
  then show ?case by (auto simp: list_all2_Cons1 Cons.IH [symmetric] split: sum.splits)
qed

lemma map_res_id: "(\<And>x. x \<in> set xs \<Longrightarrow> f x = Inr x) \<Longrightarrow> map_res f xs = Inr xs"
  by (induction xs) auto

text \<open>A loop over a map that replaces each value, or stops.\<close>

fun entries_res :: "('k \<Rightarrow> 'v \<Rightarrow> 'e + 'w) \<Rightarrow> ('k, 'v) gomap \<Rightarrow> 'e + ('k, 'w) gomap" where
  "entries_res g [] = Inr []"
| "entries_res g ((k, v) # m) =
     (case g k v of Inl e \<Rightarrow> Inl e | Inr w \<Rightarrow>
       (case entries_res g m of Inl e \<Rightarrow> Inl e | Inr m' \<Rightarrow> Inr ((k, w) # m')))"

lemma entries_res_keys: "entries_res g m = Inr m' \<Longrightarrow> map fst m' = map fst m"
  by (induction m arbitrary: m') (auto split: sum.splits)

lemma entries_res_map_of:
  "entries_res g m = Inr m' \<Longrightarrow>
   (case map_of m k of None \<Rightarrow> map_of m' k = None | Some v \<Rightarrow> \<exists>w. map_of m' k = Some w \<and> g k v = Inr w)"
  by (induction m arbitrary: m') (auto split: sum.splits option.splits)

lemma entries_res_set:
  "entries_res g m = Inr m' \<Longrightarrow> (k, w) \<in> set m' \<Longrightarrow> \<exists>v. (k, v) \<in> set m \<and> g k v = Inr w"
proof (induction m arbitrary: m')
  case Nil
  then show ?case by simp
next
  case (Cons x m)
  obtain a b where x: "x = (a, b)" by (cases x)
  obtain c m1 where "g a b = Inr c" "entries_res g m = Inr m1" "m' = (a, c) # m1"
    using Cons.prems(1) x by (auto split: sum.splits)
  then show ?case using Cons.IH [of m1] Cons.prems(2) x by fastforce
qed

lemma entries_res_id:
  "(\<And>k v. (k, v) \<in> set m \<Longrightarrow> g k v = Inr v) \<Longrightarrow> entries_res g m = Inr m"
proof (induction m)
  case Nil
  then show ?case by simp
next
  case (Cons x m)
  then show ?case by (cases x) auto
qed

lemma fold_res_total_inv:
  assumes "P s" "\<And>x u. x \<in> set xs \<Longrightarrow> P u \<Longrightarrow> \<exists>u'. f x u = Inr u' \<and> P u'"
  shows "\<exists>t. fold_res f xs s = Inr t \<and> P t"
  using assms
proof (induction xs arbitrary: s)
  case Nil
  then show ?case by simp
next
  case (Cons x xs)
  obtain s' where s': "f x s = Inr s'" "P s'" using Cons.prems by (meson list.set_intros(1))
  have "\<exists>t. fold_res f xs s' = Inr t \<and> P t"
    by (rule Cons.IH [OF s'(2)]) (meson Cons.prems(2) list.set_intros(2))
  with s' show ?case by simp
qed

subsection \<open>Loops whose round may not return\<close>

text \<open>
  \<open>opt_map f xs\<close> is a loop that collects \<open>f x\<close>; it returns when every round returns.
\<close>

fun opt_map :: "('a \<Rightarrow> 'b option) \<Rightarrow> 'a list \<Rightarrow> 'b list option" where
  "opt_map f [] = Some []"
| "opt_map f (x # xs) =
     (case f x of None \<Rightarrow> None | Some y \<Rightarrow>
       (case opt_map f xs of None \<Rightarrow> None | Some ys \<Rightarrow> Some (y # ys)))"

lemma opt_map_Some: "opt_map f xs = Some ys \<longleftrightarrow> list_all2 (\<lambda>x y. f x = Some y) xs ys"
proof (induction xs arbitrary: ys)
  case Nil
  then show ?case by auto
next
  case (Cons x xs)
  then show ?case
    by (auto simp: list_all2_Cons1 Cons.IH [symmetric] split: option.splits)
qed

lemma opt_map_total: "(\<And>x. x \<in> set xs \<Longrightarrow> \<exists>y. f x = Some y) \<Longrightarrow> \<exists>ys. opt_map f xs = Some ys"
  by (induction xs) (auto split: option.splits)

lemma opt_map_length: "opt_map f xs = Some ys \<Longrightarrow> length ys = length xs"
  by (auto simp: opt_map_Some dest: list_all2_lengthD)

lemma opt_map_id: "(\<And>x. x \<in> set xs \<Longrightarrow> f x = Some x) \<Longrightarrow> opt_map f xs = Some xs"
  by (induction xs) auto

subsection \<open>Removing duplicates, keeping the first occurrence\<close>

fun dedup_from :: "'a list \<Rightarrow> 'a list \<Rightarrow> 'a list" where
  "dedup_from seen [] = []"
| "dedup_from seen (x # xs) =
     (if x \<in> set seen then dedup_from seen xs else x # dedup_from (x # seen) xs)"

lemma set_dedup_from: "set (dedup_from seen xs) = set xs - set seen"
  by (induction seen xs rule: dedup_from.induct) auto

lemma distinct_dedup_from: "distinct (dedup_from seen xs)"
  by (induction seen xs rule: dedup_from.induct) (auto simp: set_dedup_from)

end
