(* ===== verification/Go_Strings.thy ===== *)
theory Go_Strings
  imports Prelude "HOL-Library.Word"
begin

text \<open>
  The part of Go's \<^verbatim>\<open>strings\<close>, \<^verbatim>\<open>strconv\<close> and string type the program uses. A Go
  string is a sequence of bytes, and so is a \<open>string\<close> here: \<open>char\<close> is an 8-bit value.

  \<open>trim_space\<close> knows the UTF-8 encodings of every Unicode white space code point, as
  \<^verbatim>\<open>unicode.IsSpace\<close> does. \<open>to_lower\<close> and \<open>to_upper\<close> map the ASCII letters and leave every
  other byte alone; the program lowers keywords, operator and type names, which are ASCII.
\<close>

section \<open>Splitting and joining\<close>

text \<open>\<^verbatim>\<open>strings.Split(s, c)\<close> with a one-byte separator.\<close>

fun split_char :: "char \<Rightarrow> string \<Rightarrow> string list" where
  "split_char c [] = [[]]"
| "split_char c (x # xs) =
     (if x = c then [] # split_char c xs
      else (case split_char c xs of [] \<Rightarrow> [[x]] | p # ps \<Rightarrow> (x # p) # ps))"

text \<open>\<^verbatim>\<open>strings.Join(parts, sep)\<close>.\<close>

fun join_str :: "string \<Rightarrow> string list \<Rightarrow> string" where
  "join_str sep [] = []"
| "join_str sep [p] = p"
| "join_str sep (p # q # ps) = p @ sep @ join_str sep (q # ps)"

text \<open>\<^verbatim>\<open>strings.Index(s, sub)\<close>, \<open>None\<close> for -1.\<close>

fun str_index :: "string \<Rightarrow> string \<Rightarrow> nat option" where
  "str_index sub [] = (if sub = [] then Some 0 else None)"
| "str_index sub (c # cs) =
     (if prefix sub (c # cs) then Some 0 else map_option Suc (str_index sub cs))"

definition contains :: "string \<Rightarrow> string \<Rightarrow> bool" where
  "contains s sub = (str_index sub s \<noteq> None)"

lemma str_index_bound: "str_index sub s = Some i \<Longrightarrow> i + length sub \<le> length s"
  by (induction sub s arbitrary: i rule: str_index.induct)
     (auto dest: prefix_length_le split: if_splits)

lemma str_index_shrink:
  "str_index sub s = Some i \<Longrightarrow> sub \<noteq> [] \<Longrightarrow> length s - (i + length sub) < length s"
  using str_index_bound [of sub s i] by (cases sub) auto

lemma str_index_split:
  "str_index sub s = Some i \<Longrightarrow> s = take i s @ sub @ drop (i + length sub) s"
proof (induction sub s arbitrary: i rule: str_index.induct)
  case (1 sub)
  then show ?case by (auto split: if_splits)
next
  case (2 sub c cs)
  show ?case
  proof (cases "prefix sub (c # cs)")
    case True
    with 2 show ?thesis by (auto simp: prefix_def)
  next
    case False
    with 2 show ?thesis by auto
  qed
qed

text \<open>\<^verbatim>\<open>strings.Split(s, sep)\<close>; the program's separators are not empty.\<close>

function split_str :: "string \<Rightarrow> string \<Rightarrow> string list" where
  "split_str sep s =
     (case str_index sep s of
        None \<Rightarrow> [s]
      | Some i \<Rightarrow> if sep = [] then [s]
                  else take i s # split_str sep (drop (i + length sep) s))"
  by pat_completeness auto
termination
  by (relation "measure (\<lambda>(sep, s). length s)") (auto dest: str_index_shrink)

declare split_str.simps [simp del]

text \<open>\<^verbatim>\<open>strings.SplitN(s, sep, 2)\<close>: the part before the first separator, and the rest if any.\<close>

definition split2 :: "string \<Rightarrow> string \<Rightarrow> string \<times> string option" where
  "split2 sep s =
     (case str_index sep s of
        None \<Rightarrow> (s, None)
      | Some i \<Rightarrow> (take i s, Some (drop (i + length sep) s)))"

text \<open>
  \<^verbatim>\<open>strings.LastIndex(s, ".")\<close> and the two slices around it: what stands before the last
  occurrence of \<open>c\<close> and what stands after it.
\<close>

definition last_split :: "char \<Rightarrow> string \<Rightarrow> (string \<times> string) option" where
  "last_split c s =
     (if c \<in> set s
      then Some (rev (tl (dropWhile (\<lambda>x. x \<noteq> c) (rev s))), rev (takeWhile (\<lambda>x. x \<noteq> c) (rev s)))
      else None)"

text \<open>\<^verbatim>\<open>strings.ReplaceAll(s, old, new)\<close> for a one-byte \<open>old\<close>.\<close>

definition replace_char :: "char \<Rightarrow> string \<Rightarrow> string \<Rightarrow> string" where
  "replace_char c new s = concat (map (\<lambda>x. if x = c then new else [x]) s)"

definition has_prefix :: "string \<Rightarrow> string \<Rightarrow> bool" where
  "has_prefix s p = prefix p s"

definition has_suffix :: "string \<Rightarrow> string \<Rightarrow> bool" where
  "has_suffix s p = suffix p s"

lemma split_char_ne [simp]: "split_char c s \<noteq> []"
  by (induction s) (auto split: list.splits)

lemma split_char_no_sep: "p \<in> set (split_char c s) \<Longrightarrow> c \<notin> set p"
  by (induction s arbitrary: p) (auto split: if_splits list.splits)

lemma split_char_id: "c \<notin> set s \<Longrightarrow> split_char c s = [s]"
  by (induction s) auto

lemma join_str_Cons: "ps \<noteq> [] \<Longrightarrow> join_str sep (p # ps) = p @ sep @ join_str sep ps"
  by (cases ps) auto

lemma join_split_char [simp]: "join_str [c] (split_char c s) = s"
proof (induction s)
  case Nil
  then show ?case by simp
next
  case (Cons x xs)
  obtain p ps where "split_char c xs = p # ps" by (cases "split_char c xs") auto
  with Cons show ?case by (cases ps) auto
qed

lemma split_char_append:
  "c \<notin> set p \<Longrightarrow> split_char c (p @ c # s) = p # split_char c s"
  by (induction p) auto

lemma split_join_char:
  "ps \<noteq> [] \<Longrightarrow> (\<And>p. p \<in> set ps \<Longrightarrow> c \<notin> set p) \<Longrightarrow> split_char c (join_str [c] ps) = ps"
  by (induction "[c]" ps rule: join_str.induct) (auto simp: split_char_id split_char_append)

lemma join_char_inject:
  assumes "join_str [c] ps = join_str [c] qs" "ps \<noteq> []" "qs \<noteq> []"
    and "\<And>p. p \<in> set ps \<Longrightarrow> c \<notin> set p" "\<And>q. q \<in> set qs \<Longrightarrow> c \<notin> set q"
  shows "ps = qs"
  using assms split_join_char by metis

lemma join_str_append:
  "ps \<noteq> [] \<Longrightarrow> qs \<noteq> [] \<Longrightarrow> join_str sep (ps @ qs) = join_str sep ps @ sep @ join_str sep qs"
  by (induction sep ps rule: join_str.induct) (auto simp: join_str_Cons)

lemma join_str_eq_Nil: "join_str [c] ps = [] \<longleftrightarrow> ps = [] \<or> ps = [[]]"
  by (cases "([c], ps)" rule: join_str.cases) auto

lemma last_split_Some: "last_split c s = Some (a, b) \<Longrightarrow> s = a @ c # b \<and> c \<notin> set b"
proof -
  assume h: "last_split c s = Some (a, b)"
  let ?t = "takeWhile (\<lambda>x. x \<noteq> c) (rev s)" and ?d = "dropWhile (\<lambda>x. x \<noteq> c) (rev s)"
  from h have c: "c \<in> set s" and ab: "a = rev (tl ?d)" "b = rev ?t"
    by (auto simp: last_split_def split: if_splits)
  from c have "?d \<noteq> []" by (auto simp: dropWhile_eq_Nil_conv)
  moreover from this have "\<not> hd ?d \<noteq> c" by (rule hd_dropWhile)
  ultimately obtain d' where d: "?d = c # d'" by (metis list.exhaust_sel)
  then have "rev s = ?t @ c # d'"
    using takeWhile_dropWhile_id [of "\<lambda>x. x \<noteq> c" "rev s"] by simp
  then have "rev (rev s) = rev (?t @ c # d')" by (rule arg_cong)
  then have "s = rev (tl ?d) @ c # rev ?t" using d by simp
  moreover have "c \<notin> set ?t" by (auto dest: set_takeWhileD)
  ultimately show ?thesis using ab by simp
qed

lemma last_split_None: "last_split c s = None \<longleftrightarrow> c \<notin> set s"
  by (simp add: last_split_def)

section \<open>White space\<close>

text \<open>
  The number of bytes of the white space code point a string starts with, 0 when it starts
  with none: U+0009-U+000D, U+0020, then U+0085, U+00A0 (two bytes), then U+1680,
  U+2000-U+200A, U+2028, U+2029, U+202F, U+205F, U+3000 (three bytes).
\<close>

definition byte :: "nat \<Rightarrow> char" where
  "byte n = char_of n"

definition is_ascii_space :: "char \<Rightarrow> bool" where
  "is_ascii_space c = (c = CHR '' '' \<or> c = CHR 0x09 \<or> c = CHR 0x0A \<or> c = CHR 0x0B \<or> c = CHR 0x0C \<or> c = CHR 0x0D)"

definition is_space2 :: "char \<Rightarrow> char \<Rightarrow> bool" where
  "is_space2 a b = (a = CHR 0xC2 \<and> (b = CHR 0x85 \<or> b = CHR 0xA0))"

definition is_space3 :: "char \<Rightarrow> char \<Rightarrow> char \<Rightarrow> bool" where
  "is_space3 a b c =
     (a = CHR 0xE1 \<and> b = CHR 0x9A \<and> c = CHR 0x80 \<or>
      a = CHR 0xE2 \<and> b = CHR 0x80 \<and>
        (c \<in> {CHR 0x80, CHR 0x81, CHR 0x82, CHR 0x83, CHR 0x84, CHR 0x85, CHR 0x86, CHR 0x87,
              CHR 0x88, CHR 0x89, CHR 0x8A, CHR 0xA8, CHR 0xA9, CHR 0xAF}) \<or>
      a = CHR 0xE2 \<and> b = CHR 0x81 \<and> c = CHR 0x9F \<or>
      a = CHR 0xE3 \<and> b = CHR 0x80 \<and> c = CHR 0x80)"

fun trim_left :: "string \<Rightarrow> string" where
  "trim_left (a # b # c # s) =
     (if is_ascii_space a then trim_left (b # c # s)
      else if is_space2 a b then trim_left (c # s)
      else if is_space3 a b c then trim_left s
      else a # b # c # s)"
| "trim_left [a, b] =
     (if is_ascii_space a then trim_left [b] else if is_space2 a b then [] else [a, b])"
| "trim_left [a] = (if is_ascii_space a then [] else [a])"
| "trim_left [] = []"

text \<open>The same at the end of a string, read backwards.\<close>

fun trim_left_rev :: "string \<Rightarrow> string" where
  "trim_left_rev (c # b # a # s) =
     (if is_ascii_space c then trim_left_rev (b # a # s)
      else if is_space2 b c then trim_left_rev (a # s)
      else if is_space3 a b c then trim_left_rev s
      else c # b # a # s)"
| "trim_left_rev [b, a] =
     (if is_ascii_space b then trim_left_rev [a] else if is_space2 a b then [] else [b, a])"
| "trim_left_rev [a] = (if is_ascii_space a then [] else [a])"
| "trim_left_rev [] = []"

definition trim_space :: "string \<Rightarrow> string" where
  "trim_space s = rev (trim_left_rev (rev (trim_left s)))"

definition is_blank :: "string \<Rightarrow> bool" where
  "is_blank s = (trim_space s = [])"

text \<open>A byte that is not part of any white space code point.\<close>

definition plain_char :: "char \<Rightarrow> bool" where
  "plain_char c = (\<not> is_ascii_space c \<and> of_char c < (128 :: nat))"

lemma not_space2_plain: "plain_char a \<or> plain_char b \<Longrightarrow> \<not> is_space2 a b"
  by (auto simp: plain_char_def is_space2_def)

lemma not_space3_plain: "plain_char a \<or> plain_char b \<or> plain_char c \<Longrightarrow> \<not> is_space3 a b c"
  by (auto simp: plain_char_def is_space3_def)

lemma trim_left_plain: "s = [] \<or> plain_char (hd s) \<Longrightarrow> trim_left s = s"
  by (cases s rule: trim_left.cases)
     (auto simp: not_space2_plain not_space3_plain plain_char_def)

lemma trim_left_rev_plain: "s = [] \<or> plain_char (hd s) \<Longrightarrow> trim_left_rev s = s"
  by (cases s rule: trim_left_rev.cases)
     (auto simp: not_space2_plain not_space3_plain plain_char_def)

lemma trim_space_plain:
  "s = [] \<or> plain_char (hd s) \<and> plain_char (last s) \<Longrightarrow> trim_space s = s"
  by (auto simp: trim_space_def trim_left_plain trim_left_rev_plain hd_rev)

lemma trim_space_Nil [simp]: "trim_space [] = []"
  by (simp add: trim_space_def)

lemma is_blank_Nil [simp]: "is_blank []"
  by (simp add: is_blank_def)

lemma trim_left_suffix: "suffix (trim_left s) s"
  by (induction s rule: trim_left.induct) (auto intro: suffix_ConsI)

lemma trim_left_rev_suffix: "suffix (trim_left_rev s) s"
  by (induction s rule: trim_left_rev.induct) (auto intro: suffix_ConsI)

text \<open>\<^verbatim>\<open>strings.Fields\<close>: the words between white space; \<open>acc\<close> is the current word, reversed.\<close>

definition flush :: "string \<Rightarrow> string list" where
  "flush acc = (if acc = [] then [] else [rev acc])"

fun fields_acc :: "string \<Rightarrow> string \<Rightarrow> string list" where
  "fields_acc acc (a # b # c # s) =
     (if is_ascii_space a then flush acc @ fields_acc [] (b # c # s)
      else if is_space2 a b then flush acc @ fields_acc [] (c # s)
      else if is_space3 a b c then flush acc @ fields_acc [] s
      else fields_acc (a # acc) (b # c # s))"
| "fields_acc acc [a, b] =
     (if is_ascii_space a then flush acc @ fields_acc [] [b]
      else if is_space2 a b then flush acc
      else fields_acc (a # acc) [b])"
| "fields_acc acc [a] = (if is_ascii_space a then flush acc else flush (a # acc))"
| "fields_acc acc [] = flush acc"

definition str_fields :: "string \<Rightarrow> string list" where
  "str_fields s = fields_acc [] s"

section \<open>Case\<close>

definition lower_char :: "char \<Rightarrow> char" where
  "lower_char c = (let n = of_char c :: nat in if 65 \<le> n \<and> n \<le> 90 then char_of (n + 32) else c)"

definition upper_char :: "char \<Rightarrow> char" where
  "upper_char c = (let n = of_char c :: nat in if 97 \<le> n \<and> n \<le> 122 then char_of (n - 32) else c)"

definition to_lower :: "string \<Rightarrow> string" where
  "to_lower s = map lower_char s"

definition to_upper :: "string \<Rightarrow> string" where
  "to_upper s = map upper_char s"

section \<open>Decimal numbers\<close>

definition digit_char :: "nat \<Rightarrow> char" where
  "digit_char d = char_of (48 + d)"

definition is_digit :: "char \<Rightarrow> bool" where
  "is_digit c = (48 \<le> (of_char c :: nat) \<and> (of_char c :: nat) \<le> 57)"

definition digit_val :: "char \<Rightarrow> nat" where
  "digit_val c = of_char c - 48"

text \<open>\<^verbatim>\<open>%d\<close> of a number that is not negative.\<close>

fun show_nat :: "nat \<Rightarrow> string" where
  "show_nat n = (if n < 10 then [digit_char n] else show_nat (n div 10) @ [digit_char (n mod 10)])"

declare show_nat.simps [simp del]

definition read_digits :: "string \<Rightarrow> nat" where
  "read_digits s = foldl (\<lambda>a c. 10 * a + digit_val c) 0 s"

text \<open>\<^verbatim>\<open>strconv.Atoi\<close>: an optional sign, then one digit or more; \<open>None\<close> is an error, which
  a value outside the 64-bit range also is.\<close>

definition atoi :: "string \<Rightarrow> int option" where
  "atoi s =
     (let (neg, ds) = (case s of [] \<Rightarrow> (False, []) | c # cs \<Rightarrow>
                        if c = CHR ''-'' then (True, cs) else if c = CHR ''+'' then (False, cs)
                        else (False, s));
          n = int (read_digits ds); v = (if neg then - n else n)
      in if ds = [] \<or> \<not> list_all is_digit ds then None
         else if - (2 ^ 63) \<le> v \<and> v < 2 ^ 63 then Some v else None)"

lemma digit_char_props:
  "d < 10 \<Longrightarrow> is_digit (digit_char d) \<and> digit_val (digit_char d) = d"
  by (simp add: digit_char_def is_digit_def digit_val_def of_char_of)

lemma read_digits_snoc: "read_digits (s @ [c]) = 10 * read_digits s + digit_val c"
  by (simp add: read_digits_def)

lemma show_nat_digits: "show_nat n \<noteq> [] \<and> list_all is_digit (show_nat n) \<and> read_digits (show_nat n) = n"
proof (induction n rule: show_nat.induct)
  case (1 n)
  show ?case
  proof (cases "n < 10")
    case True
    then have "show_nat n = [digit_char n]" by (simp add: show_nat.simps)
    with True digit_char_props [of n] show ?thesis
      by (simp add: read_digits_def)
  next
    case False
    then have e: "show_nat n = show_nat (n div 10) @ [digit_char (n mod 10)]"
      by (simp add: show_nat.simps [of n])
    with False 1 digit_char_props [of "n mod 10"] show ?thesis
      by (auto simp: read_digits_snoc)
  qed
qed

lemma show_nat_inject [simp]: "show_nat m = show_nat n \<longleftrightarrow> m = n"
  by (metis show_nat_digits)

lemma atoi_show_nat: "n < 2 ^ 63 \<Longrightarrow> atoi (show_nat n) = Some (int n)"
proof -
  assume n: "n < 2 ^ 63"
  obtain c cs where s: "show_nat n = c # cs" and d: "is_digit c" "list_all is_digit cs"
    and r: "read_digits (c # cs) = n"
    using show_nat_digits [of n] by (cases "show_nat n") auto
  have "c \<noteq> CHR ''-'' \<and> c \<noteq> CHR ''+''" using d by (auto simp: is_digit_def)
  moreover have "int n < 2 ^ 63" using n by simp
  ultimately show ?thesis using d r by (simp add: atoi_def s)
qed

end
