(* ===== verification/Model_Types.thy ===== *)
theory Model_Types
  imports Go_Strings
begin

text \<open>
  The configuration data of \<^verbatim>\<open>internal/model/types.go\<close>, the registry that holds it, and the
  dynamic values of requests and rows.

  A \<^verbatim>\<open>*Model\<close> is the name of a registry entry: every model the program reaches through a
  pointer is one, and two pointers are equal exactly when the names are. So a runtime reference
  (\<^verbatim>\<open>_ModelRef\<close>, \<^verbatim>\<open>_ThroughRef\<close>) is an optional name, and a \<^verbatim>\<open>_PresetRef\<close> an optional pair of
  model and preset name. Following a pointer is \<open>deref\<close>. Go's \<^verbatim>\<open>int\<close> fields hold small depths
  that are only compared and incremented, and are \<open>int\<close> here.
\<close>

section \<open>Dynamic values\<close>

text \<open>
  A value of type \<^verbatim>\<open>any\<close>, by its dynamic type: \<^verbatim>\<open>nil\<close>, \<^verbatim>\<open>bool\<close>, an integer type, \<^verbatim>\<open>float64\<close> (its
  IEEE 754 bit pattern), \<^verbatim>\<open>string\<close>, \<^verbatim>\<open>[]string\<close>, \<^verbatim>\<open>[]any\<close>, \<^verbatim>\<open>map[string]any\<close>,
  \<^verbatim>\<open>[]map[string]any\<close>, and any other type by the text \<^verbatim>\<open>%v\<close> prints for it.
\<close>

datatype gany =
    GNil
  | GBool bool
  | GInt int
  | GFloat "64 word"
  | GStr string
  | GStrs "string list"
  | GList "gany list"
  | GMap "(string \<times> gany) list"
  | GMaps "(string \<times> gany) list list"
  | GOpaque string

type_synonym gofilters = "(string, gany) gomap"

section \<open>Configuration records\<close>

record alias_map =
  PathToAlias :: "(string, string) gomap"
  AliasToPath :: "(string, string) gomap"

record model_relation =
  RType :: string
  RModel :: string
  RTable :: string
  FK :: string
  PK :: string
  Through :: string
  RWhere :: string
  ThroughWhere :: string
  ROrder :: string
  Reentrant :: bool
  RMaxDepth :: int
  Polymorphic :: bool
  TypeColumn :: string
  ModelRef :: "string option"
  ThroughRef :: "string option"

record preset_field =
  FSource :: string
  FFormatter :: string
  FAlias :: string
  FType :: string
  NestedPreset :: string
  Internal :: bool
  Localize :: bool
  FMaxDepth :: int
  PresetRef :: "(string \<times> string) option"

record data_preset =
  PName :: string
  Extends :: string
  Fields :: "preset_field list"
  FieldsAliasMap :: "alias_map option"

record computable =
  CSource :: string
  CWhere :: string
  CType :: string

record aggregatable =
  AFunctions :: "string list"
  AType :: string

record model =
  MName :: string
  Table :: string
  Relations :: "(string, model_relation) gomap"
  Presets :: "(string, data_preset) gomap"
  Computable :: "(string, computable) gomap"
  Aggregatable :: "(string, aggregatable) gomap"
  Aliases :: "(string, string) gomap"
  PrimaryKeys :: "string list"
  Includes :: "string list"

record select_column =
  Expr :: string
  Key :: string
  ColType :: string

record join_spec =
  JTable :: string
  JAlias :: string
  On :: string
  JoinType :: string
  JDistinct :: bool
  Conditions :: "string list"
  JWhere :: string

type_synonym registry = "(string, model) gomap"

text \<open>Go's zero values.\<close>

definition empty_relation :: model_relation where
  "empty_relation = \<lparr>RType = [], RModel = [], RTable = [], FK = [], PK = [], Through = [],
     RWhere = [], ThroughWhere = [], ROrder = [], Reentrant = False, RMaxDepth = 0,
     Polymorphic = False, TypeColumn = [], ModelRef = None, ThroughRef = None\<rparr>"

definition empty_field :: preset_field where
  "empty_field = \<lparr>FSource = [], FFormatter = [], FAlias = [], FType = [], NestedPreset = [],
     Internal = False, Localize = False, FMaxDepth = 0, PresetRef = None\<rparr>"

definition empty_preset :: data_preset where
  "empty_preset = \<lparr>PName = [], Extends = [], Fields = [], FieldsAliasMap = None\<rparr>"

definition empty_model :: model where
  "empty_model = \<lparr>MName = [], Table = [], Relations = [], Presets = [], Computable = [],
     Aggregatable = [], Aliases = [], PrimaryKeys = [], Includes = []\<rparr>"

section \<open>Operations on the data\<close>

text \<open>
  \<^verbatim>\<open>StringList.UnmarshalYAML\<close>. The arguments are the outcomes of the two attempts to decode the
  node, as one string and as a list of strings (\<open>None\<close> when that attempt fails), and the slice
  that is appended to. A list entry is kept as it is written, a comma-separated one is trimmed.
\<close>

definition UnmarshalYAML :: "string option \<Rightarrow> string list option \<Rightarrow> string list \<Rightarrow> string list" where
  "UnmarshalYAML one many s =
     (case one of
        Some o1 \<Rightarrow> s @ map trim_space (filter (\<lambda>p. \<not> is_blank p) (split_char (CHR '','') o1))
      | None \<Rightarrow> (case many of
          Some m \<Rightarrow> s @ filter (\<lambda>v. \<not> is_blank v) m
        | None \<Rightarrow> s))"

definition deref :: "registry \<Rightarrow> string option \<Rightarrow> model option" where
  "deref reg p = (case p of None \<Rightarrow> None | Some n \<Rightarrow> map_of reg n)"

definition GetPrimaryKeys :: "model \<Rightarrow> string list" where
  "GetPrimaryKeys m = (if length (PrimaryKeys m) > 0 then PrimaryKeys m else [''id''])"

definition GetPreset :: "model \<Rightarrow> string \<Rightarrow> data_preset option" where
  "GetPreset m name = map_of (Presets m) name"

definition GetRelation :: "model \<Rightarrow> string \<Rightarrow> model_relation option" where
  "GetRelation m alias = map_of (Relations m) alias"

definition defaultReentrantMaxDepth :: int where
  "defaultReentrantMaxDepth = 3"

definition resolveMaxDepth :: "int \<Rightarrow> int \<Rightarrow> int \<times> bool" where
  "resolveMaxDepth fieldMax relMax =
     (if fieldMax > 0 then (fieldMax, False)
      else if relMax > 0 then (relMax, False)
      else (defaultReentrantMaxDepth, True))"

lemma resolveMaxDepth_pos: "0 < fst (resolveMaxDepth f r)"
  by (simp add: resolveMaxDepth_def defaultReentrantMaxDepth_def)

fun containsString :: "string list \<Rightarrow> string \<Rightarrow> bool" where
  "containsString [] v = False"
| "containsString (s # ss) v = (if s = v then True else containsString ss v)"

lemma containsString_set [simp]: "containsString ss v \<longleftrightarrow> v \<in> set ss"
  by (induction ss) auto

text \<open>
  \<^verbatim>\<open>isHasManyPath\<close>: follow the segments over relations; the last one decides.
\<close>

fun has_many_walk :: "registry \<Rightarrow> model \<Rightarrow> string list \<Rightarrow> bool" where
  "has_many_walk reg cur [] = False"
| "has_many_walk reg cur [seg] =
     (case map_of (Relations cur) seg of
        None \<Rightarrow> False
      | Some rel \<Rightarrow> RType rel = ''has_many'')"
| "has_many_walk reg cur (seg # s # segs) =
     (case map_of (Relations cur) seg of
        None \<Rightarrow> False
      | Some rel \<Rightarrow> (case deref reg (ModelRef rel) of
          None \<Rightarrow> False
        | Some nxt \<Rightarrow> has_many_walk reg nxt (s # segs)))"

definition isHasManyPath :: "registry \<Rightarrow> model \<Rightarrow> string \<Rightarrow> bool" where
  "isHasManyPath reg root path =
     (if is_blank path then False else has_many_walk reg root (split_char (CHR ''.'') path))"

section \<open>Well-formed registries\<close>

text \<open>
  Keys are distinct in every map of the configuration, and a relation that has a model reference
  refers to a registry entry, as \<^verbatim>\<open>LinkModelRelations\<close> leaves it.
\<close>

definition wf_refs :: "registry \<Rightarrow> bool" where
  "wf_refs reg = list_all (\<lambda>(n, m). list_all (\<lambda>(rn, rel).
      (case ModelRef rel of None \<Rightarrow> True | Some t \<Rightarrow> map_of reg t \<noteq> None)) (Relations m)) reg"

lemma wf_refs_deref:
  assumes "wf_refs reg" "map_of reg n = Some m" "map_of (Relations m) seg = Some rel"
    and "ModelRef rel = Some t"
  shows "\<exists>nxt. map_of reg t = Some nxt"
proof -
  have "(n, m) \<in> set reg" "(seg, rel) \<in> set (Relations m)"
    using assms(2,3) by (auto dest: map_of_SomeD)
  with assms(1) have "case ModelRef rel of None \<Rightarrow> True | Some t \<Rightarrow> map_of reg t \<noteq> None"
    by (fastforce simp: wf_refs_def list_all_iff)
  with assms(4) show ?thesis by auto
qed

lemma deref_Some [simp]: "deref reg (Some n) = map_of reg n"
  by (simp add: deref_def)

lemma deref_None [simp]: "deref reg None = None"
  by (simp add: deref_def)

end
