(* ===== verification/Alias_Path.thy ===== *)
theory Alias_Path
  imports Model_Types "HOL-Library.Multiset"
begin

text \<open>
  Short aliases: \<^verbatim>\<open>internal/model/alias_helpers.go\<close>, and \<^verbatim>\<open>expandPathWithAliases\<close> of
  \<^verbatim>\<open>BuildIndexQuery.go\<close>. The expansion loop has no bound in the code, and a configuration with
  cyclic aliases makes it run forever, so the loops are partial functions: \<open>None\<close> is
  \<^emph>\<open>does not return\<close>. The end of the theory says when they return.
\<close>

section \<open>The expansion loop\<close>

text \<open>
  What the current segment is replaced by, if it is an alias of the current model. The guard is
  the code's \<^verbatim>\<open>full != "" && full != seg\<close>.
\<close>

definition alias_subst :: "model \<Rightarrow> string \<Rightarrow> string list option" where
  "alias_subst cur seg =
     (case map_of (Aliases cur) seg of
        None \<Rightarrow> None
      | Some full0 \<Rightarrow>
          (let full = trim_space full0
           in if full \<noteq> [] \<and> full \<noteq> seg then Some (split_char (CHR ''.'') full) else None))"

text \<open>
  The loop of \<^verbatim>\<open>ExpandAliasPath\<close>. Its state \<^verbatim>\<open>segs, i\<close> is kept as the segments before \<^verbatim>\<open>i\<close>
  (\<open>pre\<close>) and those from \<^verbatim>\<open>i\<close> on; \<^verbatim>\<open>i--; continue\<close> leaves \<open>pre\<close> as it is.
\<close>

partial_function (option) expand_loop ::
  "registry \<Rightarrow> model \<Rightarrow> string list \<Rightarrow> string list \<Rightarrow> string list option" where
  "expand_loop reg cur pre rest =
     (case rest of
        [] \<Rightarrow> Some pre
      | seg # segs \<Rightarrow>
          (case alias_subst cur seg of
             Some aliasSegs \<Rightarrow> expand_loop reg cur pre (aliasSegs @ segs)
           | None \<Rightarrow>
               (case map_of (Relations cur) seg of
                  None \<Rightarrow> Some (pre @ rest)
                | Some rel \<Rightarrow>
                    (case deref reg (ModelRef rel) of
                       None \<Rightarrow> Some (pre @ rest)
                     | Some nxt \<Rightarrow> expand_loop reg nxt (pre @ [seg]) segs))))"

declare expand_loop.simps [code]

definition ExpandAliasPath :: "registry \<Rightarrow> model \<Rightarrow> string \<Rightarrow> string option" where
  "ExpandAliasPath reg m path =
     (if path = [] then Some path
      else map_option (join_str ''.'') (expand_loop reg m [] (split_char (CHR ''.'') path)))"

section \<open>Composite fields, sorts and filters\<close>

definition ParseCompositeField :: "string \<Rightarrow> string list \<times> string" where
  "ParseCompositeField field =
     (if contains field ''_or_'' then (split_str ''_or_'' field, ''_or_'')
      else if contains field ''_and_'' then (split_str ''_and_'' field, ''_and_'')
      else ([field], []))"

definition expand_fields :: "registry \<Rightarrow> model \<Rightarrow> string \<Rightarrow> string option" where
  "expand_fields reg m field =
     (case ParseCompositeField field of
        (fs, comb) \<Rightarrow> map_option (join_str comb) (opt_map (ExpandAliasPath reg m) fs))"

text \<open>
  One sort entry: the new entry and whether its field changed. \<^verbatim>\<open>strings.SplitN(s, " ", 2)\<close>
  takes the field up to the first blank.
\<close>

definition normalize_sort :: "registry \<Rightarrow> model \<Rightarrow> string \<Rightarrow> (string \<times> bool) option" where
  "normalize_sort reg m s =
     (case split2 '' '' s of (field, dirpart) \<Rightarrow>
        (let dir = (case dirpart of None \<Rightarrow> [] | Some d \<Rightarrow> trim_space d)
         in map_option
              (\<lambda>newField. (if dir \<noteq> [] then newField @ '' '' @ dir else newField, newField \<noteq> field))
              (expand_fields reg m field)))"

definition NormalizeSortsWithAliases ::
  "registry \<Rightarrow> model \<Rightarrow> string list \<Rightarrow> string list option" where
  "NormalizeSortsWithAliases reg m sorts =
     (if sorts = [] then Some sorts
      else map_option
             (\<lambda>out. if list_ex snd out then map fst out else sorts)
             (opt_map (normalize_sort reg m) sorts))"

text \<open>
  The key of a filter entry: the field up to the first \<^verbatim>\<open>__\<close>, then the operator.
\<close>

definition split_op :: "string \<Rightarrow> string \<times> string" where
  "split_op k = (case split2 ''__'' k of (f, None) \<Rightarrow> (f, []) | (f, Some op) \<Rightarrow> (f, op))"

definition normalize_key :: "registry \<Rightarrow> model \<Rightarrow> string \<Rightarrow> (string \<times> bool) option" where
  "normalize_key reg m k =
     (case split_op k of (field, op) \<Rightarrow>
        map_option
          (\<lambda>newField. (if op \<noteq> [] then newField @ ''__'' @ op else newField, newField \<noteq> field))
          (expand_fields reg m field))"

text \<open>
  \<^verbatim>\<open>normalize\<close>, the recursive closure of \<^verbatim>\<open>NormalizeFiltersWithAliases\<close>: the new value and
  whether a key in it changed. \<open>norm_entries\<close> is the loop over a map, \<open>norm_items\<close> the loop
  over an array, whose elements that are not maps are kept.
\<close>

fun normalize :: "registry \<Rightarrow> model \<Rightarrow> gany \<Rightarrow> (gany \<times> bool) option"
  and norm_entries ::
    "registry \<Rightarrow> model \<Rightarrow> gofilters \<Rightarrow> gofilters \<Rightarrow> bool \<Rightarrow> (gofilters \<times> bool) option"
  and norm_items :: "registry \<Rightarrow> model \<Rightarrow> gany list \<Rightarrow> (gany list \<times> bool) option" where
  "normalize reg m (GMap val) =
     map_option (\<lambda>(out, ch). (GMap out, ch)) (norm_entries reg m val [] False)"
| "normalize reg m (GList val) =
     map_option (\<lambda>(arr, ch). (GList arr, ch)) (norm_items reg m val)"
| "normalize reg m v = Some (v, False)"
| "norm_entries reg m [] out changed = Some (out, changed)"
| "norm_entries reg m ((k, raw) # val) out changed =
     (if (k = ''or'' \<or> k = ''and'') \<and> (case raw of GMap _ \<Rightarrow> True | GList _ \<Rightarrow> True | _ \<Rightarrow> False)
      then (case normalize reg m raw of
              None \<Rightarrow> None
            | Some (nv, ch) \<Rightarrow> norm_entries reg m val (AList.update k nv out) (changed \<or> ch))
      else (case normalize_key reg m k of
              None \<Rightarrow> None
            | Some (newKey, ch) \<Rightarrow>
                norm_entries reg m val (AList.update newKey raw out) (changed \<or> ch)))"
| "norm_items reg m [] = Some ([], False)"
| "norm_items reg m (item # items) =
     (case (case item of GMap sub \<Rightarrow> normalize reg m (GMap sub) | _ \<Rightarrow> Some (item, False)) of
        None \<Rightarrow> None
      | Some (nv, ch) \<Rightarrow>
          (case norm_items reg m items of
             None \<Rightarrow> None
           | Some (arr, chs) \<Rightarrow> Some (nv # arr, ch \<or> chs)))"

definition NormalizeFiltersWithAliases ::
  "registry \<Rightarrow> model \<Rightarrow> gofilters \<Rightarrow> gofilters option" where
  "NormalizeFiltersWithAliases reg m filters =
     (if filters = [] then Some filters
      else (case normalize reg m (GMap filters) of
              None \<Rightarrow> None
            | Some (nv, changed) \<Rightarrow>
                Some (if \<not> changed then filters
                      else (case nv of GMap out \<Rightarrow> out | _ \<Rightarrow> filters))))"

section \<open>Expansion of sort paths\<close>

text \<open>
  \<^verbatim>\<open>expandPathWithAliases\<close> follows relations first and only then tries the aliases of the model
  it has reached, on the whole rest of the path.
\<close>

partial_function (option) expand_rel_loop ::
  "registry \<Rightarrow> model \<Rightarrow> string list \<Rightarrow> string list \<Rightarrow> string list option" where
  "expand_rel_loop reg cur pre rest =
     (case rest of
        [] \<Rightarrow> Some pre
      | seg # segs \<Rightarrow>
          (case (case map_of (Relations cur) seg of
                   None \<Rightarrow> None
                 | Some rel \<Rightarrow> if Polymorphic rel then None else deref reg (ModelRef rel)) of
             Some nxt \<Rightarrow> expand_rel_loop reg nxt (pre @ [seg]) segs
           | None \<Rightarrow>
               (let remaining = join_str ''.'' rest
                in Option.bind (ExpandAliasPath reg cur remaining) (\<lambda>expanded.
                     if expanded \<noteq> remaining
                     then expand_rel_loop reg cur pre (split_char (CHR ''.'') expanded)
                     else Some (pre @ rest)))))"

declare expand_rel_loop.simps [code]

definition expandPathWithAliases :: "registry \<Rightarrow> model \<Rightarrow> string \<Rightarrow> string option" where
  "expandPathWithAliases reg m path =
     (if is_blank path then Some path
      else map_option (join_str ''.'') (expand_rel_loop reg m [] (split_char (CHR ''.'') path)))"

section \<open>What the loop returns\<close>

text \<open>
  A path is \<open>alias_free\<close> when no segment of it is an alias in the model the segments before
  it lead to. This is the contract of the expansion: it returns an alias-free path, and an
  alias-free path is left alone.
\<close>

fun alias_free :: "registry \<Rightarrow> model \<Rightarrow> string list \<Rightarrow> bool" where
  "alias_free reg cur [] = True"
| "alias_free reg cur (seg # segs) =
     (alias_subst cur seg = None \<and>
      (case map_of (Relations cur) seg of
         None \<Rightarrow> True
       | Some rel \<Rightarrow> (case deref reg (ModelRef rel) of
           None \<Rightarrow> True
         | Some nxt \<Rightarrow> alias_free reg nxt segs)))"

definition no_dots :: "string list \<Rightarrow> bool" where
  "no_dots segs = list_all (\<lambda>s. CHR ''.'' \<notin> set s) segs"

lemma no_dots_split: "no_dots (split_char (CHR ''.'') s)"
  using split_char_no_sep by (auto simp: no_dots_def list_all_iff)

lemma no_dots_append [simp]: "no_dots (xs @ ys) \<longleftrightarrow> no_dots xs \<and> no_dots ys"
  by (simp add: no_dots_def)

lemma no_dots_Cons [simp]: "no_dots (x # xs) \<longleftrightarrow> CHR ''.'' \<notin> set x \<and> no_dots xs"
  by (simp add: no_dots_def)

lemma no_dots_Nil [simp]: "no_dots []"
  by (simp add: no_dots_def)

lemma split_join_dots:
  "segs \<noteq> [] \<Longrightarrow> no_dots segs \<Longrightarrow> split_char (CHR ''.'') (join_str ''.'' segs) = segs"
  by (rule split_join_char) (auto simp: no_dots_def list_all_iff)

lemma alias_subst_no_dots:
  "alias_subst cur seg = Some asegs \<Longrightarrow> asegs \<noteq> [] \<and> no_dots asegs"
  by (auto simp: alias_subst_def Let_def no_dots_split split: option.splits if_splits)

lemma expand_loop_alias_free:
  assumes "expand_loop reg cur pre rest = Some r"
  shows "\<exists>r'. r = pre @ r' \<and> alias_free reg cur r' \<and> (rest \<noteq> [] \<longrightarrow> r' \<noteq> []) \<and>
           (no_dots rest \<longrightarrow> no_dots r')"
proof (rule expand_loop.raw_induct [OF _ assms,
    where P = "\<lambda>reg cur pre rest r. \<exists>r'. r = pre @ r' \<and> alias_free reg cur r' \<and>
      (rest \<noteq> [] \<longrightarrow> r' \<noteq> []) \<and> (no_dots rest \<longrightarrow> no_dots r')"], goal_cases)
  case (1 f reg cur pre rest r)
  show ?case
  proof (cases rest)
    case Nil
    with 1(2) show ?thesis by simp
  next
    case (Cons seg segs)
    show ?thesis
    proof (cases "alias_subst cur seg")
      case (Some asegs)
      with 1(2) Cons have "f reg cur pre (asegs @ segs) = Some r" by simp
      from 1(1) [OF this] alias_subst_no_dots [OF Some] Cons show ?thesis by auto
    next
      case None
      note nosubst = None
      show ?thesis
      proof (cases "map_of (Relations cur) seg")
        case None
        with 1(2) Cons nosubst show ?thesis by (auto intro!: exI [of _ rest])
      next
        case (Some rel)
        show ?thesis
        proof (cases "deref reg (ModelRef rel)")
          case None
          with 1(2) Cons nosubst Some show ?thesis by (auto intro!: exI [of _ rest])
        next
          case (Some nxt)
          with 1(2) Cons nosubst \<open>map_of (Relations cur) seg = Some rel\<close>
          have "f reg nxt (pre @ [seg]) segs = Some r" by simp
          from 1(1) [OF this] obtain r' where
            "r = pre @ seg # r'" "alias_free reg nxt r'" "no_dots segs \<longrightarrow> no_dots r'" by auto
          with Cons nosubst Some \<open>map_of (Relations cur) seg = Some rel\<close> show ?thesis
            by (auto intro!: exI [of _ "seg # r'"])
        qed
      qed
    qed
  qed
qed

lemma alias_free_expand_loop: "alias_free reg cur rest \<Longrightarrow> expand_loop reg cur pre rest = Some (pre @ rest)"
proof (induction reg cur rest arbitrary: pre rule: alias_free.induct)
  case (1 reg cur)
  then show ?case by (simp add: expand_loop.simps)
next
  case (2 reg cur seg segs)
  show ?case
    by (subst expand_loop.simps)
       (use 2 in \<open>auto split: option.splits\<close>)
qed

lemma ExpandAliasPath_alias_free:
  assumes "ExpandAliasPath reg m p = Some q"
  shows "p = [] \<or> alias_free reg m (split_char (CHR ''.'') q)"
proof (cases "p = []")
  case True
  with assms show ?thesis by (simp add: ExpandAliasPath_def)
next
  case False
  with assms obtain r where r: "expand_loop reg m [] (split_char (CHR ''.'') p) = Some r"
    and q: "q = join_str ''.'' r" by (auto simp: ExpandAliasPath_def)
  from expand_loop_alias_free [OF r] have "alias_free reg m r" "r \<noteq> []" "no_dots r"
    by (auto simp: no_dots_split)
  then show ?thesis using q by (simp add: split_join_dots)
qed

lemma alias_free_ExpandAliasPath:
  "alias_free reg m (split_char (CHR ''.'') q) \<Longrightarrow> ExpandAliasPath reg m q = Some q"
  by (simp add: ExpandAliasPath_def alias_free_expand_loop)

section \<open>When the loop returns\<close>

text \<open>
  A rank of segment names that every alias lowers: with one, the aliases are not cyclic and the
  segments still to be visited, as a multiset of ranks, shrink in every round.
\<close>

definition alias_ranked :: "(string \<Rightarrow> nat) \<Rightarrow> model \<Rightarrow> bool" where
  "alias_ranked rk m =
     list_all (\<lambda>(seg, full). case alias_subst m seg of
        None \<Rightarrow> True
      | Some asegs \<Rightarrow> list_all (\<lambda>s. rk s < rk seg) asegs) (Aliases m)"

definition registry_ranked :: "(string \<Rightarrow> nat) \<Rightarrow> registry \<Rightarrow> bool" where
  "registry_ranked rk reg = list_all (\<lambda>(n, m). alias_ranked rk m) reg"

lemma alias_ranked_subst:
  assumes "alias_ranked rk cur" "alias_subst cur seg = Some asegs"
  shows "\<forall>s \<in> set asegs. rk s < rk seg"
proof -
  from assms(2) obtain full where "map_of (Aliases cur) seg = Some full"
    by (auto simp: alias_subst_def split: option.splits)
  then have "(seg, full) \<in> set (Aliases cur)" by (rule map_of_SomeD)
  with assms show ?thesis by (fastforce simp: alias_ranked_def list_all_iff)
qed

lemma registry_ranked_deref:
  "registry_ranked rk reg \<Longrightarrow> deref reg p = Some m \<Longrightarrow> alias_ranked rk m"
  by (fastforce simp: registry_ranked_def list_all_iff deref_def split: option.splits dest: map_of_SomeD)

lemma mult_less_replace:
  fixes A :: "nat multiset"
  assumes "\<forall>b \<in># B. b < a"
  shows "(B + A, add_mset a A) \<in> mult less_than"
proof -
  have "(A + B, A + {#a#}) \<in> mult less_than"
    by (rule one_step_implies_mult) (use assms in auto)
  then show ?thesis by (simp add: add.commute)
qed

lemma expand_loop_returns:
  assumes "registry_ranked rk reg" "alias_ranked rk cur"
  shows "\<exists>r. expand_loop reg cur pre rest = Some r"
proof -
  have "wf (inv_image (mult less_than) (\<lambda>rest. mset (map rk rest)))"
    by (intro wf_inv_image wf_mult wf_less_than)
  then show ?thesis using assms(2)
  proof (induction rest arbitrary: cur pre rule: wf_induct_rule)
    case (less rest)
    show ?case
    proof (cases rest)
      case Nil
      then show ?thesis by (simp add: expand_loop.simps)
    next
      case (Cons seg segs)
      show ?thesis
      proof (cases "alias_subst cur seg")
        case (Some asegs)
        have "(mset (map rk asegs) + mset (map rk segs), add_mset (rk seg) (mset (map rk segs)))
              \<in> mult less_than"
          using alias_ranked_subst [OF less.prems Some] by (intro mult_less_replace) auto
        then have "\<exists>r. expand_loop reg cur pre (asegs @ segs) = Some r"
          using less.prems by (intro less.IH) (simp_all add: Cons)
        then show ?thesis using Cons Some by (subst expand_loop.simps) simp
      next
        case None
        have "(mset (map rk segs), add_mset (rk seg) (mset (map rk segs))) \<in> mult less_than"
          using mult_less_replace [of "{#}"] by simp
        then have "\<exists>r. expand_loop reg nxt (pre @ [seg]) segs = Some r"
          if "deref reg p = Some nxt" for nxt p
          using registry_ranked_deref [OF assms(1) that] by (intro less.IH) (simp_all add: Cons)
        then show ?thesis using Cons None
          by (subst expand_loop.simps) (auto split: option.splits)
      qed
    qed
  qed
qed

lemma ExpandAliasPath_returns:
  assumes "registry_ranked rk reg" "alias_ranked rk m"
  shows "\<exists>q. ExpandAliasPath reg m p = Some q"
proof -
  obtain r where "expand_loop reg m [] (split_char (CHR ''.'') p) = Some r"
    using expand_loop_returns [OF assms] by blast
  then show ?thesis by (simp add: ExpandAliasPath_def)
qed

section \<open>When the loop does not return\<close>

text \<open>
  A set of names each of which is an alias, in one model, for a path that starts in the set.
\<close>

lemma expand_loop_diverges:
  assumes cyc: "\<And>seg. seg \<in> C \<Longrightarrow> \<exists>h t. alias_subst cur seg = Some (h # t) \<and> h \<in> C"
    and "seg \<in> C"
  shows "expand_loop reg cur pre (seg # segs) = None"
proof (rule ccontr)
  assume "expand_loop reg cur pre (seg # segs) \<noteq> None"
  then obtain r where r: "expand_loop reg cur pre (seg # segs) = Some r" by blast
  have "\<not> (cur = cur \<and> seg # segs \<noteq> [] \<and> hd (seg # segs) \<in> C)"
  proof (rule expand_loop.raw_induct [OF _ r,
      where P = "\<lambda>rg c p rest r. \<not> (c = cur \<and> rest \<noteq> [] \<and> hd rest \<in> C)"], goal_cases)
    case (1 f rg c p rest y)
    show ?case
    proof
      assume h: "c = cur \<and> rest \<noteq> [] \<and> hd rest \<in> C"
      then obtain s ss where rest: "rest = s # ss" "s \<in> C" by (cases rest) auto
      from cyc [OF rest(2)] obtain hh t where "alias_subst cur s = Some (hh # t)" "hh \<in> C" by blast
      with 1(2) h rest have "f rg c p (hh # t @ ss) = Some y" by simp
      from 1(1) [OF this] h \<open>hh \<in> C\<close> show False by simp
    qed
  qed
  with \<open>seg \<in> C\<close> show False by simp
qed

section \<open>Properties\<close>

lemma opt_returns: "(\<And>x. \<exists>y. f x = Some y) \<Longrightarrow> \<exists>ys. opt_map f xs = Some ys"
  by (rule opt_map_total) blast

lemma expand_fields_returns:
  "registry_ranked rk reg \<Longrightarrow> alias_ranked rk m \<Longrightarrow> \<exists>s. expand_fields reg m fld = Some s"
  using opt_returns [of "ExpandAliasPath reg m" "fst (ParseCompositeField fld)"] ExpandAliasPath_returns
  by (auto simp: expand_fields_def case_prod_unfold)

lemma normalize_key_returns:
  "registry_ranked rk reg \<Longrightarrow> alias_ranked rk m \<Longrightarrow> \<exists>k' ch. normalize_key reg m k = Some (k', ch)"
  using expand_fields_returns [of rk reg m] by (auto simp: normalize_key_def case_prod_unfold)

lemma normalize_returns:
  "registry_ranked rk reg \<Longrightarrow> alias_ranked rk m \<Longrightarrow> \<exists>r c. normalize reg m v = Some (r, c)"
  "registry_ranked rk reg \<Longrightarrow> alias_ranked rk m \<Longrightarrow> \<exists>r c. norm_entries reg m f out ch = Some (r, c)"
  "registry_ranked rk reg \<Longrightarrow> alias_ranked rk m \<Longrightarrow> \<exists>r c. norm_items reg m vs = Some (r, c)"
proof (induction reg m v and reg m f out ch and reg m vs rule: normalize_norm_entries_norm_items.induct)
  case (5 reg m k raw val out changed)
  obtain k' c where k: "normalize_key reg m k = Some (k', c)" using normalize_key_returns 5(4,5) by blast
  show ?case
  proof (cases "(k = ''or'' \<or> k = ''and'') \<and> (case raw of GMap _ \<Rightarrow> True | GList _ \<Rightarrow> True | _ \<Rightarrow> False)")
    case True
    then obtain r c where "normalize reg m raw = Some (r, c)" using 5(1,4,5) by blast
    then show ?thesis using True 5(2) [OF True] 5(4,5) by simp
  next
    case False
    have "\<exists>r d. norm_entries reg m val (AList.update k' raw out) (changed \<or> c) = Some (r, d)"
      using 5(3) [OF False k refl] 5(4,5) by blast
    then show ?thesis unfolding norm_entries.simps if_not_P [OF False] k by simp
  qed
next
  case (7 reg m item items)
  have "\<exists>r c. (case item of GMap sub \<Rightarrow> normalize reg m (GMap sub) | _ \<Rightarrow> Some (item, False)) = Some (r, c)"
    using 7(1,3,4) by (cases item) auto
  then obtain r c where rc: "(case item of GMap sub \<Rightarrow> normalize reg m (GMap sub) | _ \<Rightarrow> Some (item, False)) = Some (r, c)"
    by blast
  obtain r' c' where "norm_items reg m items = Some (r', c')" using 7(2) [OF rc refl 7(3,4)] by blast
  with rc show ?case by simp
qed (auto split: option.splits prod.splits)

text \<open>
  Expanding the short aliases of a path is idempotent: a path that has been expanded is
  returned unchanged by a second expansion (\<^verbatim>\<open>ExpandAliasPath\<close>), for every registry, cyclic
  aliases included.
\<close>
theorem ExpandAliasPath_idempotent:
  assumes "ExpandAliasPath reg m p = Some q"
  shows "ExpandAliasPath reg m q = Some q"
proof (cases "p = []")
  case True
  then show ?thesis using assms by (simp add: ExpandAliasPath_def)
next
  case False
  then show ?thesis
    using ExpandAliasPath_alias_free [OF assms] alias_free_ExpandAliasPath by blast
qed

definition demo_aliases :: model where
  "demo_aliases = empty_model\<lparr>MName := ''Person'', Aliases := [(''org'', ''contragent.organization'')],
     Relations := [(''contragent'', empty_relation\<lparr>ModelRef := Some ''Contragent''\<rparr>)]\<rparr>"

theorem ExpandAliasPath_idempotent_witness:
  "ExpandAliasPath [] demo_aliases ''contragent.organization.name'' = Some ''contragent.organization.name''"
proof -
  have "ExpandAliasPath [] demo_aliases ''org.name'' = Some ''contragent.organization.name''"
    by code_simp
  then show ?thesis by (rule ExpandAliasPath_idempotent)
qed

text \<open>
  When no chain of aliases leads back (there is a rank that every alias lowers), expansion
  returns: of a path, of the sort list and of a filter document (\<^verbatim>\<open>ExpandAliasPath\<close>,
  \<^verbatim>\<open>NormalizeSortsWithAliases\<close>, \<^verbatim>\<open>NormalizeFiltersWithAliases\<close>).
\<close>
theorem alias_expansion_returns:
  assumes "registry_ranked rk reg" "alias_ranked rk m"
  shows "(\<exists>q. ExpandAliasPath reg m p = Some q) \<and>
    (\<exists>ss. NormalizeSortsWithAliases reg m sorts = Some ss) \<and>
    (\<exists>f. NormalizeFiltersWithAliases reg m filters = Some f)"
proof (intro conjI)
  show "\<exists>q. ExpandAliasPath reg m p = Some q" by (rule ExpandAliasPath_returns [OF assms])
  have "\<exists>r. normalize_sort reg m s = Some r" for s
    using expand_fields_returns [OF assms] by (auto simp: normalize_sort_def case_prod_unfold Let_def)
  then have "\<exists>ys. opt_map (normalize_sort reg m) sorts = Some ys" by (rule opt_returns)
  then show "\<exists>ss. NormalizeSortsWithAliases reg m sorts = Some ss"
    by (auto simp: NormalizeSortsWithAliases_def)
  show "\<exists>f. NormalizeFiltersWithAliases reg m filters = Some f"
    using normalize_returns(1) [OF assms, of "GMap filters"]
    by (auto simp: NormalizeFiltersWithAliases_def)
qed

theorem alias_expansion_returns_witness:
  "\<exists>f. NormalizeFiltersWithAliases [] demo_aliases [(''org.name__eq'', GStr ''x'')] = Some f"
proof -
  have "registry_ranked length []" "alias_ranked (\<lambda>s. if s = ''org'' then 1 else 0) demo_aliases"
    "registry_ranked (\<lambda>s. if s = ''org'' then 1 else 0) []"
    by code_simp+
  then show ?thesis using alias_expansion_returns by blast
qed

text \<open>
  A set of aliases of one model each of which is written as a path that starts with an alias
  of the set makes \<^verbatim>\<open>ExpandAliasPath\<close> loop forever on every path that starts with one of them:
  no registry check rules such a configuration out.
\<close>
theorem cyclic_aliases_never_return:
  assumes "\<forall>seg \<in> C. \<exists>full. map_of (Aliases m) seg = Some full \<and> trim_space full = full \<and> full \<noteq> [] \<and>
      full \<noteq> seg \<and> hd (split_char (CHR ''.'') full) \<in> C"
    and "p \<noteq> []" "hd (split_char (CHR ''.'') p) \<in> C"
  shows "ExpandAliasPath reg m p = None"
proof -
  have cyc: "\<exists>h t. alias_subst m seg = Some (h # t) \<and> h \<in> C" if seg: "seg \<in> C" for seg
  proof -
    obtain full where f: "map_of (Aliases m) seg = Some full" "trim_space full = full" "full \<noteq> []"
      "full \<noteq> seg" "hd (split_char (CHR ''.'') full) \<in> C"
      using bspec [OF assms(1) seg] by auto
    then have "alias_subst m seg = Some (split_char (CHR ''.'') full)" by (simp add: alias_subst_def)
    then show ?thesis using f(5) by (cases "split_char (CHR ''.'') full") auto
  qed
  obtain seg segs where s: "split_char (CHR ''.'') p = seg # segs"
    by (cases "split_char (CHR ''.'') p") auto
  then have "expand_loop reg m [] (seg # segs) = None"
    by (intro expand_loop_diverges [OF cyc]) (use assms(3) in auto)
  then show ?thesis using assms(2) s by (simp add: ExpandAliasPath_def)
qed

theorem cyclic_aliases_never_return_witness:
  "ExpandAliasPath [] (empty_model\<lparr>Aliases := [(''a'', ''b''), (''b'', ''a'')]\<rparr>) ''a.name'' = None"
proof (rule cyclic_aliases_never_return [where C = "{''a'', ''b''}"])
  have "trim_space ''a'' = ''a''" "trim_space ''b'' = ''b''" by code_simp+
  then show "\<forall>seg \<in> {''a'', ''b''}. \<exists>full. map_of (Aliases (empty_model\<lparr>Aliases := [(''a'', ''b''), (''b'', ''a'')]\<rparr>)) seg =
      Some full \<and> trim_space full = full \<and> full \<noteq> [] \<and> full \<noteq> seg \<and> hd (split_char (CHR ''.'') full) \<in> {''a'', ''b''}"
    by simp
qed simp_all

end
