(* ===== verification/Computable_Utils.thy ===== *)
theory Computable_Utils
  imports Model_Types
begin

text \<open>
  SQL text of computable fields: \<^verbatim>\<open>internal/model/computable_utils.go\<close>. The code works on bytes
  and with regular expressions; each expression is a scanner here that finds the matches the
  leftmost-first search finds. Identifiers and keywords are ASCII, as in the code.
\<close>

section \<open>Identifiers and keywords\<close>

definition isIdentStart :: "char \<Rightarrow> bool" where
  "isIdentStart c =
     (let n = of_char c :: nat
      in (97 \<le> n \<and> n \<le> 122) \<or> (65 \<le> n \<and> n \<le> 90) \<or> c = CHR ''_'')"

definition isIdentPart :: "char \<Rightarrow> bool" where
  "isIdentPart c = (isIdentStart c \<or> is_digit c)"

text \<open>\<^verbatim>\<open>identRe\<close>: a letter or underscore, then letters, digits and underscores.\<close>

definition is_ident :: "string \<Rightarrow> bool" where
  "is_ident s = (case s of [] \<Rightarrow> False | c # cs \<Rightarrow> isIdentStart c \<and> list_all isIdentPart cs)"

definition sql_keywords :: "string list" where
  "sql_keywords =
    [''select'', ''from'', ''where'', ''and'', ''or'', ''not'', ''null'', ''true'', ''false'',
     ''like'', ''ilike'', ''similar'', ''between'', ''as'', ''case'', ''when'', ''then'', ''else'', ''end'',
     ''on'', ''inner'', ''left'', ''right'', ''full'', ''cross'', ''join'', ''union'', ''all'', ''distinct'',
     ''order'', ''by'', ''group'', ''limit'', ''offset'', ''having'', ''exists'', ''in'', ''is'', ''over'',
     ''partition'', ''filter'', ''returning'', ''with'', ''update'', ''into'', ''delete'',
     ''int'', ''integer'', ''bigint'', ''smallint'', ''serial'', ''bigserial'', ''real'', ''float'', ''float8'',
     ''double'', ''double precision'', ''numeric'', ''decimal'', ''boolean'', ''bool'', ''text'', ''varchar'',
     ''character'', ''char'', ''timestamp'', ''date'', ''time'', ''interval'']"

definition isSQLKeyword :: "string \<Rightarrow> bool" where
  "isSQLKeyword s = (to_lower (trim_space s) \<in> set sql_keywords)"

definition quoteIdentifier :: "string \<Rightarrow> string" where
  "quoteIdentifier name = CHR 0x22 # replace_char CHR 0x22 [CHR 0x22, CHR 0x22] name @ [CHR 0x22]"

definition quoteIfNeeded :: "string \<Rightarrow> string" where
  "quoteIfNeeded name =
     (if name = [] \<or> name = ''*'' then name
      else if is_ident name \<and> \<not> isSQLKeyword name then name
      else quoteIdentifier name)"

definition isSubquerySource :: "string \<Rightarrow> bool" where
  "isSubquerySource src = has_prefix (trim_space src) ''(''"

definition wrapSubquery :: "string \<Rightarrow> string" where
  "wrapSubquery src =
     (let s = trim_space src in if \<not> has_prefix s ''('' then ''('' @ s @ '')'' else s)"

section \<open>Placeholders\<close>

text \<open>
  The next match of \<^verbatim>\<open>placeholderRe\<close>: the text before it, what stands between the braces, and
  the text after it. A \<^verbatim>\<open>{\<close> with no \<^verbatim>\<open>}\<close> after it ends the search.
\<close>

definition next_hole :: "string \<Rightarrow> (string \<times> string \<times> string) option" where
  "next_hole s =
     (case dropWhile (\<lambda>c. c \<noteq> CHR ''{'') s of
        [] \<Rightarrow> None
      | _ # r \<Rightarrow>
          (case dropWhile (\<lambda>c. c \<noteq> CHR ''}'') r of
             [] \<Rightarrow> None
           | _ # r' \<Rightarrow> Some (takeWhile (\<lambda>c. c \<noteq> CHR ''{'') s, takeWhile (\<lambda>c. c \<noteq> CHR ''}'') r, r')))"

lemma next_hole_split:
  "next_hole s = Some (lit, inner, rest) \<Longrightarrow> s = lit @ ''{'' @ inner @ ''}'' @ rest"
proof -
  assume h: "next_hole s = Some (lit, inner, rest)"
  then obtain x r y where d1: "dropWhile (\<lambda>c. c \<noteq> CHR ''{'') s = x # r"
    and d2: "dropWhile (\<lambda>c. c \<noteq> CHR ''}'') r = y # rest"
    and t: "lit = takeWhile (\<lambda>c. c \<noteq> CHR ''{'') s" "inner = takeWhile (\<lambda>c. c \<noteq> CHR ''}'') r"
    by (auto simp: next_hole_def split: list.splits)
  have "x = CHR ''{''" "y = CHR ''}''"
    using d1 d2 by (auto simp: dropWhile_eq_Cons_conv)
  then show ?thesis
    using takeWhile_dropWhile_id [of "\<lambda>c. c \<noteq> CHR ''{''" s]
      takeWhile_dropWhile_id [of "\<lambda>c. c \<noteq> CHR ''}''" r] d1 d2 t by simp
qed

lemma next_hole_shrink: "next_hole s = Some (lit, inner, rest) \<Longrightarrow> length rest < length s"
  by (drule next_hole_split) simp

function holes :: "string \<Rightarrow> string list" where
  "holes s = (case next_hole s of None \<Rightarrow> [] | Some (lit, inner, rest) \<Rightarrow> inner # holes rest)"
  by pat_completeness auto
termination
  by (relation "measure length") (auto dest: next_hole_shrink)

declare holes.simps [simp del]

definition extractPathsFromExpr :: "string \<Rightarrow> string list" where
  "extractPathsFromExpr expr =
     dedup_from [] (filter (\<lambda>p. p \<noteq> []) (map trim_space (holes expr)))"

text \<open>
  Replacing every match by a text that may depend on what follows it.
\<close>

function subst_holes :: "(string \<Rightarrow> string \<Rightarrow> string) \<Rightarrow> string \<Rightarrow> string" where
  "subst_holes f s =
     (case next_hole s of
        None \<Rightarrow> s
      | Some (lit, inner, rest) \<Rightarrow> lit @ f inner rest @ subst_holes f rest)"
  by pat_completeness auto
termination
  by (relation "measure (\<lambda>(f, s). length s)") (auto dest: next_hole_shrink)

declare subst_holes.simps [simp del]

text \<open>The closure \<^verbatim>\<open>baseAlias\<close>, and the replacement of one placeholder.\<close>

definition baseAlias :: "alias_map \<Rightarrow> string \<Rightarrow> string" where
  "baseAlias aliasMap basePath =
     (if basePath = [] then ''main''
      else case map_of (PathToAlias aliasMap) basePath of Some a \<Rightarrow> a | None \<Rightarrow> [])"

definition placeholder_repl :: "alias_map \<Rightarrow> string \<Rightarrow> string \<Rightarrow> string \<Rightarrow> string" where
  "placeholder_repl aliasMap basePath inner after =
     (let path = trim_space inner;
          fallback = ''{'' @ inner @ ''}'';
          hasDotNext = (case after of [] \<Rightarrow> False | c # _ \<Rightarrow> c = CHR ''.'')
      in if path = [] then
           (let alias = baseAlias aliasMap basePath in if alias \<noteq> [] then alias else fallback)
         else
           (let segments = split_char (CHR ''.'') path;
                col = last segments;
                relPrefix = join_str ''.'' (butlast segments);
                lookup1 = (if basePath \<noteq> []
                           then (if relPrefix \<noteq> [] then basePath @ ''.'' @ relPrefix else basePath)
                           else relPrefix);
                aliasLookup = (if lookup1 = [] then (if relPrefix \<noteq> [] then relPrefix else path)
                               else lookup1)
            in case map_of (PathToAlias aliasMap) aliasLookup of
                 None \<Rightarrow> fallback
               | Some alias \<Rightarrow>
                   if is_blank alias then fallback
                   else if hasDotNext then alias
                   else if relPrefix = [] \<and> length segments = 1 then alias
                   else alias @ ''.'' @ quoteIfNeeded col))"

section \<open>Qualifying bare identifiers\<close>

definition is_sql_blank :: "char \<Rightarrow> bool" where
  "is_sql_blank c = (c = CHR '' '' \<or> c = CHR 0x09 \<or> c = CHR 0x0A \<or> c = CHR 0x0D)"

text \<open>
  \<^verbatim>\<open>prevNonSpace\<close> reads the bytes before a position backwards, so it takes them reversed;
  \<^verbatim>\<open>nextNonSpace\<close> takes the bytes from a position on. Both return the zero byte at the end.
\<close>

fun nextNonSpace :: "string \<Rightarrow> char" where
  "nextNonSpace [] = CHR 0x00"
| "nextNonSpace (c # cs) = (if is_sql_blank c then nextNonSpace cs else c)"

definition prevNonSpace :: "string \<Rightarrow> char" where
  "prevNonSpace revpre = nextNonSpace revpre"

definition skipAfter :: "string \<Rightarrow> nat option" where
  "skipAfter w = (if w \<in> {''from'', ''join'', ''update'', ''into'', ''delete''} then Some 2 else None)"

datatype quote_state = Plain | InSingle | InDouble

text \<open>
  The scanner of \<^verbatim>\<open>qualifyBareIdentifiers\<close>. \<open>rp\<close> is the text before the position, reversed;
  \<open>skip\<close> is \<^verbatim>\<open>skipNext\<close>; the two flags are one \<open>quote_state\<close>, since the code never sets both.
\<close>

definition qualify_ident :: "string \<Rightarrow> nat \<Rightarrow> string \<Rightarrow> string \<Rightarrow> string \<Rightarrow> string \<times> nat" where
  "qualify_ident alias skip rp ident after =
     (let lower = to_lower ident;
          skip1 = (case skipAfter lower of Some c \<Rightarrow> c | None \<Rightarrow> skip)
      in if isSQLKeyword lower then (ident, skip1)
         else if skip1 > 0 then (ident, skip1 - 1)
         else
           (let prev = prevNonSpace rp; nxt = nextNonSpace after
            in if prev = CHR ''.'' \<or> prev = CHR '':'' \<or> prev = CHR 0x22 then (ident, skip1)
               else if nxt = CHR ''.'' \<or> nxt = CHR ''('' then (ident, skip1)
               else (alias @ ''.'' @ ident, skip1)))"

function qualify_scan :: "string \<Rightarrow> quote_state \<Rightarrow> nat \<Rightarrow> string \<Rightarrow> string \<Rightarrow> string" where
  "qualify_scan alias st skip rp [] = []"
| "qualify_scan alias InSingle skip rp (ch # r) =
     (if ch = CHR 0x27
      then (case r of
              c2 # r2 \<Rightarrow>
                if c2 = CHR 0x27
                then ch # c2 # qualify_scan alias InSingle skip (c2 # ch # rp) r2
                else ch # qualify_scan alias Plain skip (ch # rp) r
            | [] \<Rightarrow> ch # qualify_scan alias Plain skip (ch # rp) r)
      else ch # qualify_scan alias InSingle skip (ch # rp) r)"
| "qualify_scan alias InDouble skip rp (ch # r) =
     (if ch = CHR 0x22
      then (case r of
              c2 # r2 \<Rightarrow>
                if c2 = CHR 0x22
                then ch # c2 # qualify_scan alias InDouble skip (c2 # ch # rp) r2
                else ch # qualify_scan alias Plain skip (ch # rp) r
            | [] \<Rightarrow> ch # qualify_scan alias Plain skip (ch # rp) r)
      else ch # qualify_scan alias InDouble skip (ch # rp) r)"
| "qualify_scan alias Plain skip rp (ch # r) =
     (if ch = CHR 0x27 then ch # qualify_scan alias InSingle skip (ch # rp) r
      else if ch = CHR 0x22 then ch # qualify_scan alias InDouble skip (ch # rp) r
      else if isIdentStart ch then
        (let ident = ch # takeWhile isIdentPart r; after = dropWhile isIdentPart r
         in case qualify_ident alias skip rp ident after of
              (out, skip') \<Rightarrow> out @ qualify_scan alias Plain skip' (rev ident @ rp) after)
      else ch # qualify_scan alias Plain skip (ch # rp) r)"
  by pat_completeness auto
termination
  by (relation "measure (\<lambda>(alias, st, skip, rp, s). length s)")
     (auto simp: le_imp_less_Suc length_dropWhile_le)

definition qualifyBareIdentifiers :: "string \<Rightarrow> string \<Rightarrow> string" where
  "qualifyBareIdentifiers expr alias =
     (if alias = [] \<or> is_blank expr then expr else qualify_scan alias Plain 0 [] expr)"

definition applyAliasPlaceholders :: "string \<Rightarrow> alias_map option \<Rightarrow> string \<Rightarrow> string" where
  "applyAliasPlaceholders expr aliasMap basePath =
     (case aliasMap of
        None \<Rightarrow> expr
      | Some am \<Rightarrow>
          if expr = [] then expr
          else
            (let out = subst_holes (placeholder_repl am basePath) expr;
                 alias = baseAlias am basePath
             in if alias = [] then out else qualifyBareIdentifiers out alias))"

section \<open>Qualified columns\<close>

text \<open>
  What \<^verbatim>\<open>qualifiedColRe\<close> matches after the dot: a quoted name of at least one byte, or an
  identifier; with it the text after the match and whether the match ends in a word byte.
\<close>

definition col_match :: "string \<Rightarrow> (string \<times> bool \<times> string) option" where
  "col_match s =
     (case s of
        [] \<Rightarrow> None
      | c # r \<Rightarrow>
          if c = CHR 0x22 then
            (let name = takeWhile (\<lambda>x. x \<noteq> CHR 0x22) r; after = dropWhile (\<lambda>x. x \<noteq> CHR 0x22) r
             in if name = [] \<or> after = [] then None
                else Some (c # name @ [CHR 0x22], False, tl after))
          else if isIdentStart c then Some (c # takeWhile isIdentPart r, True, dropWhile isIdentPart r)
          else None)"

lemma col_match_shrink: "col_match s = Some (col, w, rest) \<Longrightarrow> length rest < length s"
  by (auto simp: col_match_def Let_def le_imp_less_Suc length_dropWhile_le split: list.splits if_splits)
     (metis diff_le_self length_dropWhile_le less_Suc_eq_le order_trans)

lemma dropWhile_shrink: "dropWhile P xs = y # ys \<Longrightarrow> length ys < length xs"
  using length_dropWhile_le [of P xs] by simp

function qual_cols :: "bool \<Rightarrow> string \<Rightarrow> (string \<times> string) list" where
  "qual_cols prevWord [] = []"
| "qual_cols prevWord (c # cs) =
     (if isIdentStart c \<and> \<not> prevWord then
        (let ident = c # takeWhile isIdentPart cs; after = dropWhile isIdentPart cs
         in case after of
              [] \<Rightarrow> []
            | d # r \<Rightarrow>
                if d = CHR ''.'' then
                  (case col_match r of
                     Some (col, w, rest) \<Rightarrow> (ident, col) # qual_cols w rest
                   | None \<Rightarrow> qual_cols False r)
                else qual_cols False r)
      else qual_cols (isIdentPart c) cs)"
  by pat_completeness auto
termination
  by (relation "measure (\<lambda>(w, s). length s)")
     (auto dest!: col_match_shrink dropWhile_shrink dropWhile_shrink [OF sym])

definition extractQualifiedColumns :: "string \<Rightarrow> string set \<Rightarrow> string list" where
  "extractQualifiedColumns expr aliases =
     (if expr = [] \<or> aliases = {} then []
      else dedup_from [] (map (\<lambda>(alias, col). alias @ ''.'' @ col)
             (filter (\<lambda>(alias, col). alias \<in> aliases) (qual_cols False expr))))"

section \<open>Quoted identifiers are read back\<close>

text \<open>
  SQL's own rule for a delimited identifier: between double quotes, a doubled quote stands for
  one. \<open>sql_delimited\<close> reads one at the start of a text and returns its name and the rest.
\<close>

fun sql_delimited_body :: "string \<Rightarrow> (string \<times> string) option" where
  "sql_delimited_body [] = None"
| "sql_delimited_body [c] =
     (if c = CHR 0x22 then Some ([], []) else None)"
| "sql_delimited_body (c # d # s) =
     (if c = CHR 0x22
      then (if d = CHR 0x22 then map_option (\<lambda>(n, t). (c # n, t)) (sql_delimited_body s)
            else Some ([], d # s))
      else map_option (\<lambda>(n, t). (c # n, t)) (sql_delimited_body (d # s)))"

definition sql_delimited :: "string \<Rightarrow> (string \<times> string) option" where
  "sql_delimited s =
     (case s of [] \<Rightarrow> None | c # r \<Rightarrow> if c = CHR 0x22 then sql_delimited_body r else None)"

lemma sql_delimited_body_quote:
  assumes "rest = [] \<or> hd rest \<noteq> CHR 0x22"
  shows "sql_delimited_body (replace_char CHR 0x22 [CHR 0x22, CHR 0x22] name @ CHR 0x22 # rest)
           = Some (name, rest)"
proof (induction name)
  case Nil
  then show ?case using assms by (cases rest) (auto simp: replace_char_def)
next
  case (Cons c name)
  let ?r = "replace_char CHR 0x22 [CHR 0x22, CHR 0x22] name @ CHR 0x22 # rest"
  obtain d s where r: "?r = d # s" by (cases ?r) auto
  have "replace_char CHR 0x22 [CHR 0x22, CHR 0x22] (c # name) @ CHR 0x22 # rest =
          (if c = CHR 0x22 then [c, c] else [c]) @ ?r"
    by (simp add: replace_char_def)
  also have "sql_delimited_body \<dots> = Some (c # name, rest)"
    using Cons r by auto
  finally show ?case .
qed

section \<open>Qualification only inserts\<close>

lemma qualify_ident_suffix: "qualify_ident alias skip rp ident after = (out, skip') \<Longrightarrow> \<exists>p. out = p @ ident"
  by (auto simp: qualify_ident_def Let_def split: if_splits)

lemma qualify_scan_subseq: "subseq s (qualify_scan al st skip rp s)"
proof (induction al st skip rp s rule: qualify_scan.induct)
  case (4 al skip rp ch r)
  show ?case
  proof (cases "ch = CHR 0x27 \<or> ch = CHR 0x22 \<or> \<not> isIdentStart ch")
    case True
    with 4 show ?thesis by auto
  next
    case False
    let ?i = "ch # takeWhile isIdentPart r" and ?a = "dropWhile isIdentPart r"
    obtain out skip' where q: "qualify_ident al skip rp ?i ?a = (out, skip')" by fastforce
    obtain p where p: "out = p @ ?i" using qualify_ident_suffix [OF q] by blast
    have "subseq ?a (qualify_scan al Plain skip' (rev ?i @ rp) ?a)"
      using 4 False q by auto
    then have "subseq (?i @ ?a) (?i @ qualify_scan al Plain skip' (rev ?i @ rp) ?a)"
      by (rule subseq_append' [THEN iffD2])
    then have "subseq (?i @ ?a) (out @ qualify_scan al Plain skip' (rev ?i @ rp) ?a)"
      unfolding p append_assoc by (rule subseq_drop_many)
    moreover have "?i @ ?a = ch # r" by simp
    ultimately show ?thesis using False q by (auto simp: Let_def)
  qed
next
  case (2 al skip rp ch r)
  then show ?case by (cases r) (simp_all del: subseq_append)
next
  case (3 al skip rp ch r)
  then show ?case by (cases r) (simp_all del: subseq_append)
qed simp

text \<open>
  A string literal passes through: after the opening quote nothing is qualified up to the quote
  that closes it.
\<close>

lemma qualify_scan_literal:
  assumes "CHR 0x27 \<notin> set q" "rest = [] \<or> hd rest \<noteq> CHR 0x27"
  shows "qualify_scan alias InSingle skip rp (q @ CHR 0x27 # rest) =
           q @ CHR 0x27 # qualify_scan alias Plain skip (CHR 0x27 # rev q @ rp) rest"
  using assms by (induction q arbitrary: rp) (auto split: list.splits)

section \<open>Qualifying twice changes nothing\<close>

definition good_alias :: "string \<Rightarrow> bool" where
  "good_alias a = (is_ident a \<and> \<not> isSQLKeyword (to_lower a) \<and> skipAfter (to_lower a) = None)"

lemma isIdentPart_props:
  "isIdentPart c \<Longrightarrow> c \<noteq> CHR 0x27 \<and> c \<noteq> CHR 0x22 \<and> c \<noteq> CHR ''.'' \<and> c \<noteq> CHR ''('' \<and> c \<noteq> CHR '':'' \<and> \<not> is_sql_blank c"
  by (auto simp: isIdentPart_def isIdentStart_def is_digit_def is_sql_blank_def Let_def)

lemma isIdentStart_Part: "isIdentStart c \<Longrightarrow> isIdentPart c"
  by (simp add: isIdentPart_def)

lemma prevNonSpace_ident:
  "isIdentPart c \<Longrightarrow> list_all isIdentPart cs \<Longrightarrow> prevNonSpace (rev (c # cs) @ rp) = last (c # cs)"
  by (cases cs rule: rev_cases) (auto simp: prevNonSpace_def dest!: isIdentPart_props)

text \<open>What a token test sees after a text does not depend on qualification of that text.\<close>

lemma nextNonSpace_qualify_ident:
  assumes a: "is_ident alias" and i: "isIdentStart c"
    and q: "qualify_ident alias skip rp (c # cs) after = (out, skip')"
  shows "\<exists>d. nextNonSpace (out @ t) = d \<and> isIdentPart d"
proof -
  obtain b bs where b: "alias = b # bs" "isIdentStart b"
    using a by (auto simp: is_ident_def split: list.splits)
  have "out = c # cs \<or> out = alias @ ''.'' @ c # cs"
    using q by (auto simp: qualify_ident_def Let_def split: if_splits)
  then show ?thesis
    using b i isIdentPart_props [of c] isIdentPart_props [of b] by (auto dest: isIdentStart_Part)
qed

lemma nextNonSpace_qualify:
  assumes a: "is_ident alias"
  shows "nextNonSpace (qualify_scan alias Plain skip rp s) = nextNonSpace s \<or>
         isIdentPart (nextNonSpace (qualify_scan alias Plain skip rp s)) \<and> isIdentPart (nextNonSpace s)"
proof (induction s arbitrary: skip rp)
  case Nil
  then show ?case by simp
next
  case (Cons c s)
  show ?case
  proof (cases "isIdentStart c")
    case True
    then have p: "isIdentPart c" by (rule isIdentStart_Part)
    obtain out skip' where
      q: "qualify_ident alias skip rp (c # takeWhile isIdentPart s) (dropWhile isIdentPart s) = (out, skip')"
      by fastforce
    from nextNonSpace_qualify_ident [OF a True q] p q True show ?thesis
      using isIdentPart_props [OF p] by auto
  next
    case False
    show ?thesis
    proof (cases "is_sql_blank c")
      case True
      then have "c \<noteq> CHR 0x27" "c \<noteq> CHR 0x22" by (auto simp: is_sql_blank_def)
      with True False Cons show ?thesis by simp
    next
      case nb: False
      with False show ?thesis by (simp add: is_sql_blank_def)
    qed
  qed
qed

text \<open>The scanner reads an identifier that stands in front of something else as one token.\<close>

definition ident_end :: "string \<Rightarrow> bool" where
  "ident_end s = (s = [] \<or> \<not> isIdentPart (hd s))"

lemma ident_end_dropWhile: "ident_end (dropWhile isIdentPart r)"
  using hd_dropWhile [of isIdentPart r] by (auto simp: ident_end_def)

lemma qualify_scan_ident:
  assumes "isIdentStart c" "list_all isIdentPart cs" "ident_end t"
    and "qualify_ident al skip rp (c # cs) t = (out, skip')"
  shows "qualify_scan al Plain skip rp (c # cs @ t) =
           out @ qualify_scan al Plain skip' (rev (c # cs) @ rp) t"
proof -
  have "takeWhile isIdentPart (cs @ t) = cs" "dropWhile isIdentPart (cs @ t) = t"
    using assms(2,3) by (cases t; auto simp: ident_end_def list_all_iff takeWhile_append dropWhile_append)+
  moreover have "c \<noteq> CHR 0x27" "c \<noteq> CHR 0x22"
    using isIdentPart_props [OF isIdentStart_Part [OF assms(1)]] by auto
  ultimately show ?thesis using assms(1,4) by (simp add: Let_def)
qed

lemma ident_end_qualify:
  "ident_end s \<Longrightarrow> ident_end (qualify_scan al Plain skip rp s)"
  by (cases s) (auto simp: ident_end_def dest: isIdentStart_Part)

lemma prevNonSpace_Cons: "prevNonSpace rp = prevNonSpace rp' \<Longrightarrow> prevNonSpace (c # rp) = prevNonSpace (c # rp')"
  by (simp add: prevNonSpace_def)

lemma hd_qualify_plain:
  assumes "is_ident al"
  shows "(case qualify_scan al Plain skip rp s of [] \<Rightarrow> s = [] | d # _ \<Rightarrow>
           (\<exists>c r. s = c # r \<and> (d = c \<or> isIdentPart d \<and> isIdentPart c)))"
proof (cases s)
  case Nil
  then show ?thesis by simp
next
  case (Cons c r)
  show ?thesis
  proof (cases "isIdentStart c")
    case True
    obtain b bs where b: "al = b # bs" "isIdentStart b"
      using assms by (auto simp: is_ident_def split: list.splits)
    show ?thesis using True Cons b isIdentPart_props [OF isIdentStart_Part [OF True]]
      by (auto simp: qualify_ident_def Let_def isIdentStart_Part split: list.splits)
  next
    case False
    then show ?thesis using Cons by simp
  qed
qed

lemma qualify_again_ident:
  assumes al: "good_alias al" and c: "isIdentStart c" "list_all isIdentPart cs"
    and q: "qualify_ident al skip rp (c # cs) t = (out, skip')"
    and p: "prevNonSpace rp' = prevNonSpace rp"
    and t: "nextNonSpace t' = nextNonSpace t \<or> isIdentPart (nextNonSpace t') \<and> isIdentPart (nextNonSpace t)"
    and e: "ident_end t'"
  shows "\<exists>rp2. qualify_scan al Plain skip rp' (out @ t') =
           out @ qualify_scan al Plain skip' (rev (c # cs) @ rp2) t'"
proof (cases "out = c # cs")
  case True
  have "qualify_ident al skip rp' (c # cs) t' = (c # cs, skip')"
    using q True p t isIdentPart_props [of "nextNonSpace t'"] isIdentPart_props [of "nextNonSpace t"]
    by (auto simp: qualify_ident_def Let_def split: if_splits)
  from qualify_scan_ident [OF c e this] show ?thesis using True by auto
next
  case False
  obtain b bs where b: "al = b # bs" "isIdentStart b" "list_all isIdentPart bs"
    using al by (auto simp: good_alias_def is_ident_def split: list.splits)
  from False q have out: "out = al @ ''.'' @ c # cs" and s: "skip = 0" "skip' = 0"
    and nk: "\<not> isSQLKeyword (to_lower (c # cs))" "skipAfter (to_lower (c # cs)) = None"
    and pr: "prevNonSpace rp \<noteq> CHR ''.''" "prevNonSpace rp \<noteq> CHR '':''" "prevNonSpace rp \<noteq> CHR 0x22"
    by (auto simp: qualify_ident_def Let_def skipAfter_def split: if_splits)
  have "qualify_ident al 0 rp' al (''.'' @ c # cs @ t') = (al, 0)"
    using al p pr by (simp add: qualify_ident_def good_alias_def Let_def is_sql_blank_def)
  then have 1: "qualify_scan al Plain 0 rp' (al @ ''.'' @ c # cs @ t') =
      al @ qualify_scan al Plain 0 (rev al @ rp') (''.'' @ c # cs @ t')"
    using qualify_scan_ident [OF b(2,3), of "''.'' @ c # cs @ t'" al 0 rp' al 0] b
    by (simp add: ident_end_def isIdentPart_def isIdentStart_def is_digit_def)
  have 2: "qualify_scan al Plain 0 (rev al @ rp') (''.'' @ c # cs @ t') =
      CHR ''.'' # qualify_scan al Plain 0 (CHR ''.'' # rev al @ rp') (c # cs @ t')"
    by (simp add: isIdentStart_def)
  have "qualify_ident al 0 (CHR ''.'' # rev al @ rp') (c # cs) t' = (c # cs, 0)"
    using nk by (simp add: qualify_ident_def prevNonSpace_def is_sql_blank_def)
  from 1 2 qualify_scan_ident [OF c e this] out s show ?thesis by auto
qed

lemma close_single:
  "Q = [] \<or> hd Q \<noteq> CHR 0x27 \<Longrightarrow>
   qualify_scan al InSingle skip rp (CHR 0x27 # Q) = CHR 0x27 # qualify_scan al Plain skip (CHR 0x27 # rp) Q"
  by (cases Q) auto

lemma close_double:
  "Q = [] \<or> hd Q \<noteq> CHR 0x22 \<Longrightarrow>
   qualify_scan al InDouble skip rp (CHR 0x22 # Q) = CHR 0x22 # qualify_scan al Plain skip (CHR 0x22 # rp) Q"
  by (cases Q) auto

lemma hd_qualify_not_quote:
  assumes "is_ident al" "q = CHR 0x27 \<or> q = CHR 0x22" "s = [] \<or> hd s \<noteq> q"
  shows "qualify_scan al Plain skip rp s = [] \<or> hd (qualify_scan al Plain skip rp s) \<noteq> q"
  using hd_qualify_plain [OF assms(1), where skip = skip and rp = rp and s = s] assms(2,3)
    isIdentPart_props [of q]
  by (auto split: list.splits)

lemma qualify_scan_idem:
  assumes "good_alias al" "prevNonSpace rp' = prevNonSpace rp"
  shows "qualify_scan al st skip rp' (qualify_scan al st skip rp s) = qualify_scan al st skip rp s"
  using assms
proof (induction al st skip rp s arbitrary: rp' rule: qualify_scan.induct)
  case (2 al skip rp ch r)
  note prev = prevNonSpace_Cons [OF 2(6)]
  from 2(5) have al: "is_ident al" by (simp add: good_alias_def)
  consider (lit) "ch \<noteq> CHR 0x27" | (dbl) r2 where "ch = CHR 0x27" "r = CHR 0x27 # r2"
    | (cls) "ch = CHR 0x27" "r = [] \<or> hd r \<noteq> CHR 0x27"
    by (cases r) auto
  then show ?case
  proof cases
    case lit
    then show ?thesis using 2(4) [OF lit 2(5) prev] by simp
  next
    case dbl
    then show ?thesis using 2(2) [OF _ _ _ 2(5) prevNonSpace_Cons [OF prev]] by simp
  next
    case cls
    have "qualify_scan al InSingle skip rp (ch # r) = ch # qualify_scan al Plain skip (ch # rp) r"
      using cls by (cases r) auto
    moreover have "qualify_scan al Plain skip (ch # rp') (qualify_scan al Plain skip (ch # rp) r)
        = qualify_scan al Plain skip (ch # rp) r"
      using cls 2(3) [OF _ _ _ 2(5) prev] 2(1) [OF _ _ 2(5) prev] by (cases r) auto
    ultimately show ?thesis using cls close_single [OF hd_qualify_not_quote [OF al _ cls(2)]] by simp
  qed
next
  case (3 al skip rp ch r)
  note prev = prevNonSpace_Cons [OF 3(6)]
  from 3(5) have al: "is_ident al" by (simp add: good_alias_def)
  consider (lit) "ch \<noteq> CHR 0x22" | (dbl) r2 where "ch = CHR 0x22" "r = CHR 0x22 # r2"
    | (cls) "ch = CHR 0x22" "r = [] \<or> hd r \<noteq> CHR 0x22"
    by (cases r) auto
  then show ?case
  proof cases
    case lit
    then show ?thesis using 3(4) [OF lit 3(5) prev] by simp
  next
    case dbl
    then show ?thesis using 3(2) [OF _ _ _ 3(5) prevNonSpace_Cons [OF prev]] by simp
  next
    case cls
    have "qualify_scan al InDouble skip rp (ch # r) = ch # qualify_scan al Plain skip (ch # rp) r"
      using cls by (cases r) auto
    moreover have "qualify_scan al Plain skip (ch # rp') (qualify_scan al Plain skip (ch # rp) r)
        = qualify_scan al Plain skip (ch # rp) r"
      using cls 3(3) [OF _ _ _ 3(5) prev] 3(1) [OF _ _ 3(5) prev] by (cases r) auto
    ultimately show ?thesis using cls close_double [OF hd_qualify_not_quote [OF al _ cls(2)]] by simp
  qed
next
  case (4 al skip rp ch r)
  note prev = prevNonSpace_Cons [OF 4(6)]
  show ?case
  proof (cases "ch = CHR 0x27 \<or> ch = CHR 0x22 \<or> \<not> isIdentStart ch")
    case True
    with 4 prev show ?thesis by auto
  next
    case False
    let ?cs = "takeWhile isIdentPart r" and ?a = "dropWhile isIdentPart r"
    obtain out skip' where q: "qualify_ident al skip rp (ch # ?cs) ?a = (out, skip')" by fastforce
    let ?R = "qualify_scan al Plain skip' (rev (ch # ?cs) @ rp) ?a"
    have parts: "list_all isIdentPart ?cs" by (auto simp: list_all_iff dest: set_takeWhileD)
    have ch: "isIdentStart ch" using False by simp
    have "is_ident al" using 4(5) by (simp add: good_alias_def)
    then obtain rp2 where "qualify_scan al Plain skip rp' (out @ ?R) =
        out @ qualify_scan al Plain skip' (rev (ch # ?cs) @ rp2) ?R"
      using qualify_again_ident [OF 4(5) ch parts q 4(6) nextNonSpace_qualify
          ident_end_qualify [OF ident_end_dropWhile]] by blast
    moreover have "qualify_scan al Plain skip' (rev (ch # ?cs) @ rp2) ?R = ?R"
      using False q 4(5) prevNonSpace_ident [OF isIdentStart_Part [OF ch] parts]
      by (intro 4(3)) (auto simp del: rev.simps)
    moreover have "qualify_scan al Plain skip rp (ch # r) = out @ ?R"
      using False q by (simp add: Let_def)
    ultimately show ?thesis by simp
  qed
qed simp

section \<open>Properties\<close>

text \<open>
  Quoting an identifier round-trips: SQL's rule for delimited identifiers reads the quoted
  text back to exactly the name, whatever it contains, and leaves the text after it, so no name
  can end the quotation early (\<^verbatim>\<open>quoteIdentifier\<close>).
\<close>
theorem quoteIdentifier_roundtrip:
  assumes "rest = [] \<or> hd rest \<noteq> CHR 0x22"
  shows "sql_delimited (quoteIdentifier name @ rest) = Some (name, rest)"
  using sql_delimited_body_quote [OF assms] by (simp add: sql_delimited_def quoteIdentifier_def)

theorem quoteIdentifier_roundtrip_witness:
  "sql_delimited (quoteIdentifier [CHR ''a'', CHR 0x22, CHR '';''] @ '' ASC'') =
     Some ([CHR ''a'', CHR 0x22, CHR '';''], '' ASC'')"
  by (rule quoteIdentifier_roundtrip) simp

text \<open>
  Qualifying the bare identifiers of an expression only inserts text: the expression is a
  subsequence of the result, and the bytes of a string literal between two quotes are copied
  unchanged, whatever they look like (\<^verbatim>\<open>qualifyBareIdentifiers\<close>).
\<close>
theorem qualifyBareIdentifiers_inserts:
  "subseq expr (qualifyBareIdentifiers expr al) \<and>
   (al \<noteq> [] \<longrightarrow> CHR 0x27 \<notin> set q \<longrightarrow>
      qualifyBareIdentifiers ([CHR 0x27] @ q @ [CHR 0x27]) al = [CHR 0x27] @ q @ [CHR 0x27])"
proof -
  have "qualify_scan al Plain 0 [] (CHR 0x27 # q @ [CHR 0x27]) = CHR 0x27 # q @ [CHR 0x27]"
    if "CHR 0x27 \<notin> set q"
    using qualify_scan_literal [OF that, of "[]" al 0 "[CHR 0x27]"] by simp
  then show ?thesis by (simp add: qualifyBareIdentifiers_def qualify_scan_subseq)
qed

theorem qualifyBareIdentifiers_inserts_witness:
  "qualifyBareIdentifiers ([CHR 0x27] @ ''id = id'' @ [CHR 0x27]) ''t0'' = [CHR 0x27] @ ''id = id'' @ [CHR 0x27]"
  using qualifyBareIdentifiers_inserts [of "''x''" "''t0''" "''id = id''"] by simp

text \<open>
  Qualification is idempotent for every alias that is an identifier and not a keyword, as
  \<^verbatim>\<open>main\<close> and the generated \<^verbatim>\<open>t0\<close>, \<^verbatim>\<open>t1\<close>, ... are: a second pass finds nothing left to qualify
  (\<^verbatim>\<open>qualifyBareIdentifiers\<close>).
\<close>
theorem qualifyBareIdentifiers_idempotent:
  assumes "good_alias al"
  shows "qualifyBareIdentifiers (qualifyBareIdentifiers expr al) al = qualifyBareIdentifiers expr al"
  using qualify_scan_idem [OF assms refl]
  by (auto simp: qualifyBareIdentifiers_def)

theorem qualifyBareIdentifiers_idempotent_witness:
  "qualifyBareIdentifiers ''main.price * main.qty'' ''main'' = ''main.price * main.qty''"
proof -
  have "good_alias ''main''" by code_simp
  moreover have "qualifyBareIdentifiers ''price * qty'' ''main'' = ''main.price * main.qty''" by code_simp
  ultimately show ?thesis using qualifyBareIdentifiers_idempotent by metis
qed

end
