(* ===== verification/Field_Expr.thy ===== *)
theory Field_Expr
  imports Computable_Utils Alias_Path
begin

text \<open>
  From a field path to an SQL expression: \<^verbatim>\<open>field_expression_resolver.go\<close>,
  \<^verbatim>\<open>computable_paths.go\<close>, and the field tests at the two ends of \<^verbatim>\<open>BuildWhereClause.go\<close>.
  The program calls these on a model that is not nil.
\<close>

section \<open>The expression of a field\<close>

text \<open>\<^verbatim>\<open>comp.Where\<close>, or \<^verbatim>\<open>comp.Source\<close> when it is blank.\<close>

definition where_expr :: "computable \<Rightarrow> string" where
  "where_expr cmp = (if is_blank (CWhere cmp) then CSource cmp else CWhere cmp)"

text \<open>The model that the relations of a path lead to.\<close>

fun walk_relations :: "registry \<Rightarrow> model \<Rightarrow> string list \<Rightarrow> model option" where
  "walk_relations reg m [] = Some m"
| "walk_relations reg m (seg # segs) =
     (case map_of (Relations m) seg of
        None \<Rightarrow> None
      | Some rel \<Rightarrow> (case deref reg (ModelRef rel) of
          None \<Rightarrow> None
        | Some nxt \<Rightarrow> walk_relations reg nxt segs))"

text \<open>
  \<^verbatim>\<open>resolveFieldExpression\<close>. The preset argument is not read. The second result is true on
  every path, since the model is not nil.
\<close>

definition resolveFieldExpression ::
  "registry \<Rightarrow> model \<Rightarrow> alias_map option \<Rightarrow> string \<Rightarrow> string \<times> bool" where
  "resolveFieldExpression reg m aliasMap fieldPath =
     (case map_of (Computable m) fieldPath of
        Some cmp \<Rightarrow> (applyAliasPlaceholders (where_expr cmp) aliasMap [], True)
      | None \<Rightarrow>
          (let segs = split_char (CHR ''.'') fieldPath
           in if length segs > 1 then
                (let fld = last segs;
                     prefx = join_str ''.'' (butlast segs);
                     cmp = (case walk_relations reg m (butlast segs) of
                               None \<Rightarrow> None
                             | Some targetModel \<Rightarrow> map_of (Computable targetModel) fld)
                 in case cmp of
                      Some c \<Rightarrow> (applyAliasPlaceholders (where_expr c) aliasMap prefx, True)
                    | None \<Rightarrow>
                        (case (case aliasMap of None \<Rightarrow> None
                               | Some am \<Rightarrow> map_of (PathToAlias am) prefx) of
                           Some a \<Rightarrow> (a @ ''.'' @ fld, True)
                         | None \<Rightarrow> (prefx @ ''.'' @ fld, True)))
              else (''main.'' @ fieldPath, True)))"

section \<open>Aggregates\<close>

definition is_re_space :: "char \<Rightarrow> bool" where
  "is_re_space c = (c = CHR '' '' \<or> c = CHR 0x09 \<or> c = CHR 0x0A \<or> c = CHR 0x0C \<or> c = CHR 0x0D)"

definition agg_call_at :: "string \<Rightarrow> bool" where
  "agg_call_at s =
     list_ex (\<lambda>kw. prefix kw (to_lower s) \<and>
                   prefix ''('' (dropWhile is_re_space (drop (length kw) s)))
       [''sum'', ''count'', ''avg'', ''min'', ''max'']"

text \<open>
  \<^verbatim>\<open>aggregateRe\<close>: an aggregate's name at a word boundary, white space, an opening parenthesis.
\<close>

fun agg_scan :: "bool \<Rightarrow> string \<Rightarrow> bool" where
  "agg_scan prevWord [] = False"
| "agg_scan prevWord (c # cs) =
     ((\<not> prevWord \<and> agg_call_at (c # cs)) \<or> agg_scan (isIdentPart c) cs)"

definition isAggregateExpr :: "string \<Rightarrow> bool" where
  "isAggregateExpr expr = agg_scan False expr"

section \<open>The type of a filtered field\<close>

definition normalizeFieldType :: "string \<Rightarrow> string" where
  "normalizeFieldType t =
     (let t' = to_lower (trim_space t) in if t' = ''uuid'' then ''uuid'' else t')"

definition needsTextCast :: "string \<Rightarrow> string \<Rightarrow> bool" where
  "needsTextCast fieldType valueType =
     (if fieldType = [] \<or> valueType = [] then False else fieldType \<noteq> valueType)"

text \<open>The first field of a preset that has the name as its source or its alias.\<close>

fun field_type_in :: "model \<Rightarrow> string \<Rightarrow> preset_field list \<Rightarrow> string option" where
  "field_type_in target fld [] = None"
| "field_type_in target fld (f # fs) =
     (if FSource f \<noteq> fld \<and> trim_space (FAlias f) \<noteq> fld then field_type_in target fld fs
      else (case (if FType f = ''computable'' then map_of (Computable target) (FSource f) else None) of
              Some c \<Rightarrow> Some (normalizeFieldType (CType c))
            | None \<Rightarrow> Some (normalizeFieldType (FType f))))"

fun field_type_in_presets :: "model \<Rightarrow> string \<Rightarrow> (string, data_preset) gomap \<Rightarrow> string" where
  "field_type_in_presets target fld [] = []"
| "field_type_in_presets target fld ((n, p) # ps) =
     (case field_type_in target fld (Fields p) of
        Some t \<Rightarrow> t
      | None \<Rightarrow> field_type_in_presets target fld ps)"

definition resolveFilterFieldType :: "registry \<Rightarrow> model \<Rightarrow> string \<Rightarrow> string" where
  "resolveFilterFieldType reg m fieldPath =
     (case map_of (Computable m) fieldPath of
        Some c \<Rightarrow> normalizeFieldType (CType c)
      | None \<Rightarrow>
          (let segs = split_char (CHR ''.'') fieldPath
           in case (if length segs > 1 then walk_relations reg m (butlast segs) else Some m) of
                None \<Rightarrow> []
              | Some target \<Rightarrow>
                  (let fld = (if length segs > 1 then last segs else fieldPath)
                   in case map_of (Computable target) fld of
                        Some c \<Rightarrow> normalizeFieldType (CType c)
                      | None \<Rightarrow> field_type_in_presets target fld (Presets target))))"

section \<open>Computable fields of a request\<close>

text \<open>
  The set \<^verbatim>\<open>used\<close> of the two collectors, in order of insertion: computable fields named by the
  preset, by the keys of the filters, by the sorts.
\<close>

definition used_computables ::
  "model \<Rightarrow> data_preset option \<Rightarrow> gofilters \<Rightarrow> string list \<Rightarrow> string list" where
  "used_computables m preset filters sorts =
     dedup_from [] (filter (\<lambda>n. map_of (Computable m) n \<noteq> None)
       ((case preset of None \<Rightarrow> [] | Some p \<Rightarrow> map FSource (Fields p)) @
        map (\<lambda>(key, val). fst (split_op key)) filters @
        concat (map (\<lambda>s. case str_fields s of [] \<Rightarrow> [] | fld # _ \<Rightarrow> [fld]) sorts)))"

definition collectComputablePathsForRequest ::
  "model \<Rightarrow> data_preset option \<Rightarrow> gofilters \<Rightarrow> string list \<Rightarrow> string list" where
  "collectComputablePathsForRequest m preset filters sorts =
     (if Computable m = [] then []
      else dedup_from [] (concat (map (\<lambda>name.
             case map_of (Computable m) name of
               None \<Rightarrow> []
             | Some c \<Rightarrow> extractPathsFromExpr (CSource c) @ extractPathsFromExpr (CWhere c))
             (used_computables m preset filters sorts))))"

definition collectComputableExprsForRequest ::
  "registry \<Rightarrow> model \<Rightarrow> data_preset option \<Rightarrow> gofilters \<Rightarrow> string list \<Rightarrow>
   alias_map option \<Rightarrow> string list" where
  "collectComputableExprsForRequest reg m preset filters sorts aliasMap =
     (if Computable m = [] then []
      else concat (map (\<lambda>name.
             case resolveFieldExpression reg m aliasMap name of
               (expr, ok) \<Rightarrow> if ok \<and> \<not> is_blank expr then [expr] else [])
             (used_computables m preset filters sorts)))"

section \<open>Facts\<close>

lemma resolveFieldExpression_ok: "snd (resolveFieldExpression reg m am f) = True"
  by (auto simp: resolveFieldExpression_def Let_def split: option.splits)

text \<open>
  A name without a dot that is not a computable field is put into the SQL text as it stands.
\<close>

lemma resolveFieldExpression_plain:
  assumes "map_of (Computable m) f = None" "CHR ''.'' \<notin> set f"
  shows "resolveFieldExpression reg m am f = (''main.'' @ f, True)"
  using assms by (simp add: resolveFieldExpression_def split_char_id Let_def)

lemma resolveFieldExpression_path:
  assumes "map_of (Computable m) (join_str ''.'' (segs @ [c])) = None" "segs \<noteq> []"
    and "no_dots (segs @ [c])"
    and "walk_relations reg m segs = Some t" "map_of (Computable t) c = None"
    and "map_of (PathToAlias am) (join_str ''.'' segs) = Some a"
  shows "resolveFieldExpression reg m (Some am) (join_str ''.'' (segs @ [c])) = (a @ ''.'' @ c, True)"
  using assms split_join_dots [of "segs @ [c]"]
  by (simp add: resolveFieldExpression_def Let_def)

section \<open>Properties\<close>

text \<open>
  The expression of a filter or sort key that is neither computable nor dotted is the key
  itself after \<^verbatim>\<open>main.\<close>: the text of the request reaches the SQL statement verbatim, quoted or
  not, whatever it contains (\<^verbatim>\<open>resolveFieldExpression\<close>). The second result is true for every
  key, so the look-up of an unknown relation path in the caller is never reached.
\<close>
theorem field_expression_verbatim:
  "(map_of (Computable m) f = None \<longrightarrow> CHR ''.'' \<notin> set f \<longrightarrow>
      fst (resolveFieldExpression reg m am f) = ''main.'' @ f) \<and>
   snd (resolveFieldExpression reg m am g)"
  using resolveFieldExpression_plain [of m f reg am] resolveFieldExpression_ok by auto

theorem field_expression_verbatim_witness:
  "fst (resolveFieldExpression [] empty_model None ''1=1) OR (id'') = ''main.1=1) OR (id''"
  using field_expression_verbatim [of empty_model "''1=1) OR (id''" "[]" None]
  by (simp add: empty_model_def)

end
