(* ===== verification/Alias_Map.thy ===== *)
theory Alias_Map
  imports Field_Expr "HOL-Library.Char_ord" "HOL-Library.List_Lexorder" "HOL-Library.Product_Lexorder"
begin

text \<open>
  The alias map of a request: \<^verbatim>\<open>internal/model/BuildAliasMap.go\<close>. It assigns to every relation
  path a table alias \<^verbatim>\<open>t0\<close>, \<^verbatim>\<open>t1\<close>, ... and back. A loop that expands aliases may not return
  (see \<open>Alias_Path\<close>), so its result is an option; an error of the code is an \<open>Inl\<close>.
\<close>

section \<open>Paths of a request\<close>

definition dedup :: "string list \<Rightarrow> string list" where
  "dedup ss = dedup_from [] ss"

text \<open>The relation prefix of a dotted field: everything before the last dot.\<close>

definition relation_prefix :: "string \<Rightarrow> string list" where
  "relation_prefix fld = (case last_split (CHR ''.'') fld of None \<Rightarrow> [] | Some (p, _) \<Rightarrow> [p])"

definition key_paths :: "string \<Rightarrow> string list" where
  "key_paths key = concat (map relation_prefix (fst (ParseCompositeField (fst (split_op key)))))"

text \<open>
  \<^verbatim>\<open>walkAny\<close>. Under an \<^verbatim>\<open>or\<close>/\<^verbatim>\<open>and\<close> key a map and an array are walked, anything else falls
  through to the treatment of an ordinary key; a value that is not a map is ignored.
\<close>

fun walkAny :: "gany \<Rightarrow> string list"
  and walk_entries :: "gofilters \<Rightarrow> string list"
  and walk_items :: "gany list \<Rightarrow> string list" where
  "walkAny (GMap f) = walk_entries f"
| "walkAny v = []"
| "walk_entries [] = []"
| "walk_entries ((key, val) # f) =
     (if key = ''or'' \<or> key = ''and''
      then (case val of
              GMap sub \<Rightarrow> walkAny (GMap sub)
            | GList arr \<Rightarrow> walk_items arr
            | _ \<Rightarrow> key_paths key)
      else key_paths key) @ walk_entries f"
| "walk_items [] = []"
| "walk_items (item # items) = walkAny item @ walk_items items"

definition PathsFromFilters :: "gofilters \<Rightarrow> string list" where
  "PathsFromFilters filters = (if filters = [] then [] else dedup (walkAny (GMap filters)))"

definition PathsFromSorts :: "string list \<Rightarrow> string list" where
  "PathsFromSorts sorts =
     dedup (concat (map (\<lambda>s. case str_fields s of [] \<Rightarrow> [] | col # _ \<Rightarrow> relation_prefix col) sorts))"

text \<open>
  \<^verbatim>\<open>mergeAndSortPaths\<close>: the non-empty paths, each once, ordered by depth and then as byte strings.
\<close>

definition path_order :: "string \<Rightarrow> nat \<times> string" where
  "path_order p = (count_list p (CHR ''.''), p)"

definition mergeAndSortPaths :: "string list list \<Rightarrow> string list" where
  "mergeAndSortPaths slices =
     sort_key path_order (dedup (filter (\<lambda>p. p \<noteq> []) (concat slices)))"

section \<open>Fresh aliases\<close>

definition alias_name :: "nat \<Rightarrow> string" where
  "alias_name n = CHR ''t'' # show_nat n"

definition alias_index :: "string \<Rightarrow> int option" where
  "alias_index a = (if has_prefix a ''t'' then atoi (tl a) else None)"

text \<open>\<^verbatim>\<open>detectNextAliasIndex\<close>; \<^verbatim>\<open>maxN + 1\<close> is never negative.\<close>

definition detectNextAliasIndex :: "alias_map \<Rightarrow> nat" where
  "detectNextAliasIndex am =
     nat (1 + foldl (\<lambda>maxN (a, p). case alias_index a of
                        Some n \<Rightarrow> if n > maxN then n else maxN
                      | None \<Rightarrow> maxN) (- 1) (AliasToPath am))"

lemma alias_name_inject [simp]: "alias_name m = alias_name n \<longleftrightarrow> m = n"
  by (simp add: alias_name_def)

text \<open>
  \<^verbatim>\<open>nextAlias\<close>: the first free name from an index on, and the index after it. The loop stops
  because the map is finite and the names are all different.
\<close>

function nextAlias :: "alias_map \<Rightarrow> nat \<Rightarrow> string \<times> nat" where
  "nextAlias am idx =
     (if alias_name idx \<in> gokeys (AliasToPath am) then nextAlias am (Suc idx)
      else (alias_name idx, Suc idx))"
  by pat_completeness auto
termination
proof (relation "measure (\<lambda>(am, idx). card {k \<in> gokeys (AliasToPath am). \<exists>j \<ge> idx. k = alias_name j})")
  fix am idx
  assume "alias_name idx \<in> gokeys (AliasToPath am)"
  then have mem: "alias_name idx \<in> {k \<in> gokeys (AliasToPath am). \<exists>j \<ge> idx. k = alias_name j}"
    by blast
  have "alias_name idx \<notin> {k \<in> gokeys (AliasToPath am). \<exists>j \<ge> Suc idx. k = alias_name j}"
    by auto
  moreover have "{k \<in> gokeys (AliasToPath am). \<exists>j \<ge> Suc idx. k = alias_name j}
             \<subseteq> {k \<in> gokeys (AliasToPath am). \<exists>j \<ge> idx. k = alias_name j}"
    by (blast dest: Suc_leD)
  ultimately have "{k \<in> gokeys (AliasToPath am). \<exists>j \<ge> Suc idx. k = alias_name j}
             \<subset> {k \<in> gokeys (AliasToPath am). \<exists>j \<ge> idx. k = alias_name j}"
    using mem by blast
  then show "((am, Suc idx), am, idx) \<in>
      measure (\<lambda>(am, idx). card {k \<in> gokeys (AliasToPath am). \<exists>j \<ge> idx. k = alias_name j})"
    by (simp add: psubset_card_mono)
qed simp

declare nextAlias.simps [simp del]

lemma nextAlias_fresh:
  "nextAlias am idx = (a, idx') \<Longrightarrow>
   a \<notin> gokeys (AliasToPath am) \<and> (\<exists>n. a = alias_name n \<and> idx \<le> n \<and> idx' = Suc n)"
proof (induction am idx rule: nextAlias.induct)
  case (1 am idx)
  then show ?case
    by (subst (asm) (2) nextAlias.simps) (auto split: if_splits dest: Suc_leD)
qed

section \<open>Registering a path\<close>

datatype alias_error =
    RelationNotFound string string
  | UnsupportedRelationType string string string
  | NotReentrant string string string
  | MaxDepthExceeded string int string
  | InvalidOrTooDeep string
  | NilModel

text \<open>Storing a path and its alias in both directions.\<close>

definition am_add :: "string \<Rightarrow> string \<Rightarrow> alias_map \<Rightarrow> alias_map" where
  "am_add path a am =
     am\<lparr>PathToAlias := AList.update path a (PathToAlias am),
        AliasToPath := AList.update a path (AliasToPath am)\<rparr>"

definition empty_alias_map :: alias_map where
  "empty_alias_map = \<lparr>PathToAlias = [], AliasToPath = []\<rparr>"

definition countModelIn :: "string option list \<Rightarrow> string option \<Rightarrow> nat" where
  "countModelIn stack x = count_list stack x"

definition extend_path :: "string \<Rightarrow> string \<Rightarrow> string" where
  "extend_path path seg = (if path = [] then seg else path @ ''.'' @ seg)"

text \<open>
  One registration: nothing when the path has an alias, else the re-entry test and a new alias.
\<close>

definition register_path ::
  "model_relation \<Rightarrow> string \<Rightarrow> string option list \<Rightarrow> string \<Rightarrow> alias_map \<times> nat \<Rightarrow>
   alias_error + alias_map \<times> nat" where
  "register_path rel seg stack path st =
     (case st of (am, nextIdx) \<Rightarrow>
        if map_of (PathToAlias am) path \<noteq> None then Inr (am, nextIdx)
        else
          (let repeats = countModelIn stack (ModelRef rel);
               effMax = fst (resolveMaxDepth 0 (RMaxDepth rel))
           in if repeats > 0 \<and> \<not> Reentrant rel then Inl (NotReentrant (RModel rel) seg path)
              else if repeats > 0 \<and> int repeats + 1 > effMax
                then Inl (MaxDepthExceeded (RModel rel) effMax path)
              else (case nextAlias am nextIdx of
                      (a, nextIdx') \<Rightarrow> Inr (am_add path a am, nextIdx'))))"

text \<open>
  The loop of \<^verbatim>\<open>ensureAliasPath\<close>. \<open>i\<close> counts the segments done, \<open>rest\<close> are those to come;
  replacing the rest by its expansion (\<^verbatim>\<open>i--; continue\<close>) leaves \<open>i\<close>. Reading the relations of a
  nil model would panic, which is \<open>NilModel\<close>.
\<close>

partial_function (option) ensure_loop ::
  "registry \<Rightarrow> string \<Rightarrow> model option \<Rightarrow> string option list \<Rightarrow> string \<Rightarrow> nat \<Rightarrow> string list \<Rightarrow>
   alias_map \<times> nat \<Rightarrow> (alias_error + alias_map \<times> nat) option" where
  "ensure_loop reg fullPath cur stack path i rest st =
     (case rest of
        [] \<Rightarrow> Some (Inr st)
      | seg # segs \<Rightarrow>
          (case cur of
             None \<Rightarrow> Some (Inl NilModel)
           | Some m \<Rightarrow>
               (case map_of (Relations m) seg of
                  None \<Rightarrow>
                    (let remaining = join_str ''.'' rest
                     in Option.bind (ExpandAliasPath reg m remaining) (\<lambda>expanded.
                          if expanded \<noteq> remaining
                          then ensure_loop reg fullPath cur stack path i
                                 (split_char (CHR ''.'') expanded) st
                          else Some (Inl (RelationNotFound seg (MName m)))))
                | Some rel \<Rightarrow>
                    if Polymorphic rel then Some (Inr st)
                    else if RType rel \<notin> {''has_one'', ''has_many'', ''belongs_to''}
                      then Some (Inl (UnsupportedRelationType (RType rel) (RModel rel) seg))
                    else
                      (let path' = extend_path path seg
                       in case register_path rel seg stack path' st of
                            Inl e \<Rightarrow> Some (Inl e)
                          | Inr st' \<Rightarrow>
                              if seg = [] \<or> i \<ge> 1024 then Some (Inl (InvalidOrTooDeep fullPath))
                              else ensure_loop reg fullPath (deref reg (ModelRef rel))
                                     (stack @ [ModelRef rel]) path' (Suc i) segs st'))))"

declare ensure_loop.simps [code]

definition ensureAliasPath ::
  "registry \<Rightarrow> model \<Rightarrow> string \<Rightarrow> alias_map \<times> nat \<Rightarrow> (alias_error + alias_map \<times> nat) option" where
  "ensureAliasPath reg root fullPath st =
     (if fullPath = [] then Some (Inr st)
      else ensure_loop reg fullPath (Some root) [] [] 0 (split_char (CHR ''.'') fullPath) st)"

fun ensure_all ::
  "registry \<Rightarrow> model \<Rightarrow> string list \<Rightarrow> alias_map \<times> nat \<Rightarrow> (alias_error + alias_map \<times> nat) option" where
  "ensure_all reg root [] st = Some (Inr st)"
| "ensure_all reg root (p # ps) st =
     (case ensureAliasPath reg root p st of
        None \<Rightarrow> None
      | Some (Inl e) \<Rightarrow> Some (Inl e)
      | Some (Inr st') \<Rightarrow> ensure_all reg root ps st')"

section \<open>The alias map of a request\<close>

text \<open>The copy of the preset's map; both directions are written entry by entry.\<close>

definition copy_alias_map :: "alias_map \<Rightarrow> alias_map" where
  "copy_alias_map am0 = fold (\<lambda>(path, a) am. am_add path a am) (PathToAlias am0) empty_alias_map"

definition base_aliases :: "data_preset option \<Rightarrow> alias_map \<times> nat" where
  "base_aliases preset =
     (case (case preset of None \<Rightarrow> None | Some p \<Rightarrow> FieldsAliasMap p) of
        None \<Rightarrow> (empty_alias_map, 0)
      | Some am0 \<Rightarrow> (let am1 = copy_alias_map am0 in (am1, detectNextAliasIndex am1)))"

definition request_paths ::
  "model \<Rightarrow> data_preset option \<Rightarrow> gofilters \<Rightarrow> string list \<Rightarrow> string list" where
  "request_paths model preset filters sorts =
     mergeAndSortPaths [PathsFromFilters filters, PathsFromSorts sorts,
       collectComputablePathsForRequest model preset filters sorts]"

definition BuildAliasMap ::
  "registry \<Rightarrow> model \<Rightarrow> data_preset option \<Rightarrow> gofilters \<Rightarrow> string list \<Rightarrow>
   (alias_error + alias_map) option" where
  "BuildAliasMap reg model preset filters sorts =
     map_option (map_sum id fst)
       (ensure_all reg model (request_paths model preset filters sorts) (base_aliases preset))"

section \<open>The interface of an alias map\<close>

text \<open>
  What the code relies on: a map with two directions that agree, into which a path that has no
  alias and an alias that has no path are entered together.
\<close>

locale alias_store =
  fixes alias_of :: "'s \<Rightarrow> string \<Rightarrow> string option"
    and path_of :: "'s \<Rightarrow> string \<Rightarrow> string option"
    and add :: "string \<Rightarrow> string \<Rightarrow> 's \<Rightarrow> 's"
    and inv :: "'s \<Rightarrow> bool"
  assumes agree: "inv s \<Longrightarrow> alias_of s p = Some a \<longleftrightarrow> path_of s a = Some p"
    and alias_of_add: "alias_of (add p a s) q = (if q = p then Some a else alias_of s q)"
    and path_of_add: "path_of (add p a s) b = (if b = a then Some p else path_of s b)"
    and inv_add: "inv s \<Longrightarrow> alias_of s p = None \<Longrightarrow> path_of s a = None \<Longrightarrow> inv (add p a s)"
begin

lemma alias_inject: "inv s \<Longrightarrow> alias_of s p = Some a \<Longrightarrow> alias_of s q = Some a \<Longrightarrow> p = q"
  using agree by (metis option.inject)

lemma path_inject: "inv s \<Longrightarrow> path_of s a = Some p \<Longrightarrow> path_of s b = Some p \<Longrightarrow> a = b"
  using agree by (metis option.inject)

definition extends :: "'s \<Rightarrow> 's \<Rightarrow> bool" where
  "extends s t = (\<forall>p a. alias_of s p = Some a \<longrightarrow> alias_of t p = Some a)"

lemma extends_refl: "extends s s"
  by (simp add: extends_def)

lemma extends_trans: "extends s t \<Longrightarrow> extends t u \<Longrightarrow> extends s u"
  by (simp add: extends_def)

lemma extends_add: "alias_of s p = None \<Longrightarrow> extends s (add p a s)"
  by (auto simp: extends_def alias_of_add)

lemma extends_dom: "extends s t \<Longrightarrow> alias_of s p \<noteq> None \<Longrightarrow> alias_of t p \<noteq> None"
  by (auto simp: extends_def)

end

abbreviation alias_at :: "alias_map \<Rightarrow> string \<Rightarrow> string option" where
  "alias_at am \<equiv> map_of (PathToAlias am)"

abbreviation path_at :: "alias_map \<Rightarrow> string \<Rightarrow> string option" where
  "path_at am \<equiv> map_of (AliasToPath am)"

text \<open>
  The two directions have distinct keys and hold the same pairs.
\<close>

definition am_wf :: "alias_map \<Rightarrow> bool" where
  "am_wf am = (gowf (PathToAlias am) \<and> gowf (AliasToPath am) \<and>
     set (AliasToPath am) = (\<lambda>(p, a). (a, p)) ` set (PathToAlias am))"

lemma am_wf_agree: "am_wf am \<Longrightarrow> alias_at am p = Some a \<longleftrightarrow> path_at am a = Some p"
proof -
  assume w: "am_wf am"
  then have "gowf (PathToAlias am)" "gowf (AliasToPath am)" by (simp_all add: am_wf_def)
  then have "alias_at am p = Some a \<longleftrightarrow> (p, a) \<in> set (PathToAlias am)"
    by (metis gowf_lookup)
  also have "\<dots> \<longleftrightarrow> (a, p) \<in> set (AliasToPath am)"
    using w by (auto simp: am_wf_def)
  also have "\<dots> \<longleftrightarrow> path_at am a = Some p"
    using \<open>gowf (AliasToPath am)\<close> by (metis gowf_lookup)
  finally show ?thesis .
qed

lemma am_wf_add:
  assumes "am_wf am" "alias_at am p = None" "path_at am a = None"
  shows "am_wf (am_add p a am)"
proof -
  have n: "p \<notin> gokeys (PathToAlias am)" "a \<notin> gokeys (AliasToPath am)"
    using assms(2,3) by (simp_all add: map_of_None_gokeys)
  then have "AList.update p a (PathToAlias am) = PathToAlias am @ [(p, a)]"
    "AList.update a p (AliasToPath am) = AliasToPath am @ [(a, p)]"
    by (simp_all only: update_new not_False_eq_True)
  then show ?thesis using assms(1) n by (auto simp: am_wf_def am_add_def)
qed

interpretation amap: alias_store alias_at path_at am_add am_wf
  by unfold_locales (auto simp: am_wf_agree am_add_def gomap_simps am_wf_add [unfolded am_add_def])


section \<open>What registration guarantees\<close>

text \<open>
  \<open>follow\<close> walks relations from a model and returns the model it reaches and the references it
  passed, which are the \<^verbatim>\<open>stack\<close> of the loop. \<open>entry_ok\<close> is the re-entry policy for the last
  relation of a path: entering a model that the path has entered before needs a reentrant
  relation and stays within its depth.
\<close>

fun follow ::
  "registry \<Rightarrow> model option \<Rightarrow> string list \<Rightarrow> (model option \<times> string option list) option" where
  "follow reg cur [] = Some (cur, [])"
| "follow reg cur (seg # segs) =
     (case cur of
        None \<Rightarrow> None
      | Some m \<Rightarrow> (case map_of (Relations m) seg of
          None \<Rightarrow> None
        | Some rel \<Rightarrow> map_option (\<lambda>(c, st). (c, ModelRef rel # st))
                        (follow reg (deref reg (ModelRef rel)) segs)))"

definition step_ok :: "model_relation \<Rightarrow> string option list \<Rightarrow> bool" where
  "step_ok rel stack =
     (\<not> Polymorphic rel \<and> RType rel \<in> {''has_one'', ''has_many'', ''belongs_to''} \<and>
      (let repeats = count_list stack (ModelRef rel)
       in repeats = 0 \<or> Reentrant rel \<and> int repeats < fst (resolveMaxDepth 0 (RMaxDepth rel))))"

definition entry_ok :: "registry \<Rightarrow> model \<Rightarrow> string \<Rightarrow> bool" where
  "entry_ok reg root p =
     (let segs = split_char (CHR ''.'') p
      in case follow reg (Some root) (butlast segs) of
           Some (Some m, stack) \<Rightarrow>
             (case map_of (Relations m) (last segs) of None \<Rightarrow> False | Some rel \<Rightarrow> step_ok rel stack)
         | _ \<Rightarrow> False)"

lemma follow_snoc:
  "follow reg cur segs = Some (Some m, stack) \<Longrightarrow> map_of (Relations m) seg = Some rel \<Longrightarrow>
   follow reg cur (segs @ [seg]) = Some (deref reg (ModelRef rel), stack @ [ModelRef rel])"
proof (induction reg cur segs arbitrary: stack rule: follow.induct)
  case (1 reg cur)
  then show ?case by simp
next
  case (2 reg cur s ss)
  then show ?case by (cases cur) (auto split: option.splits)
qed

lemma extend_path_snoc:
  assumes "no_dots done" "[] \<notin> set done"
  shows "extend_path (join_str ''.'' done) seg = join_str ''.'' (done @ [seg])"
proof (cases "done = []")
  case True
  then show ?thesis by (simp add: extend_path_def)
next
  case False
  then have "join_str ''.'' done \<noteq> []" using assms by (auto simp: join_str_eq_Nil)
  then show ?thesis using False by (simp add: extend_path_def join_str_append)
qed

text \<open>
  The contract of a round: the map stays well formed, keeps its entries, gains at most the path
  in question, under a fresh numbered alias, and only if the policy allows it.
\<close>

definition numbered :: "alias_map \<Rightarrow> alias_map \<Rightarrow> bool" where
  "numbered am am' = (\<forall>p a. alias_at am' p = Some a \<longrightarrow> alias_at am p = Some a \<or> (\<exists>n. a = alias_name n))"

definition policed :: "registry \<Rightarrow> model \<Rightarrow> alias_map \<Rightarrow> alias_map \<Rightarrow> bool" where
  "policed reg root am am' = (\<forall>p. alias_at am' p \<noteq> None \<longrightarrow> alias_at am p \<noteq> None \<or> entry_ok reg root p)"

definition grows :: "registry \<Rightarrow> model \<Rightarrow> alias_map \<Rightarrow> alias_map \<Rightarrow> bool" where
  "grows reg root am am' =
     (am_wf am' \<and> amap.extends am am' \<and> numbered am am' \<and> policed reg root am am')"

lemma grows_refl: "am_wf am \<Longrightarrow> grows reg root am am"
  by (simp add: grows_def amap.extends_refl numbered_def policed_def)

lemma grows_trans: "grows reg root am am' \<Longrightarrow> grows reg root am' am'' \<Longrightarrow> grows reg root am am''"
  unfolding grows_def numbered_def policed_def using amap.extends_trans by blast

lemma register_path_grows:
  assumes reg: "register_path rel seg stack path (am, k) = Inr (am', k')" and wf: "am_wf am"
    and path: "path = join_str ''.'' (done @ [seg])" "no_dots (done @ [seg])"
    and at: "follow reg (Some root) done = Some (Some m, stack)"
      "map_of (Relations m) seg = Some rel"
    and rel: "\<not> Polymorphic rel" "RType rel \<in> {''has_one'', ''has_many'', ''belongs_to''}"
  shows "grows reg root am am' \<and> alias_at am' path \<noteq> None"
proof (cases "alias_at am path")
  case (Some a)
  then show ?thesis using reg wf by (simp add: register_path_def grows_refl)
next
  case None
  obtain a where a: "nextAlias am k = (a, k')" "am' = am_add path a am"
    and pol: "step_ok rel stack"
    using reg None rel
    by (auto simp: register_path_def step_ok_def countModelIn_def Let_def split: if_splits prod.splits)
  obtain n where fresh: "path_at am a = None" "a = alias_name n"
    using nextAlias_fresh [OF a(1)] by (auto simp: map_of_None_gokeys)
  have "entry_ok reg root path"
    using path at pol split_join_dots [of "done @ [seg]"] by (simp add: entry_ok_def Let_def)
  then show ?thesis
    using a fresh None wf am_wf_add amap.extends_add amap.alias_of_add
    by (auto simp: grows_def numbered_def policed_def split: if_splits)
qed

lemma ensure_loop_grows_aux:
  "ensure_loop reg fp cur stack path i rest st = Some y \<Longrightarrow>
   (\<And>root done am k am' k'. st = (am, k) \<Longrightarrow> y = Inr (am', k') \<Longrightarrow>
      follow reg (Some root) done = Some (cur, stack) \<Longrightarrow> path = join_str ''.'' done \<Longrightarrow>
      no_dots done \<Longrightarrow> [] \<notin> set done \<Longrightarrow> no_dots rest \<Longrightarrow> am_wf am \<Longrightarrow> grows reg root am am')"
proof -
  assume e: "ensure_loop reg fp cur stack path i rest st = Some y"
  let ?P = "\<lambda>reg fp cur stack path i rest st y. \<forall>root done am k am' k'. st = (am, k) \<longrightarrow> y = Inr (am', k') \<longrightarrow>
      follow reg (Some root) done = Some (cur, stack) \<longrightarrow> path = join_str ''.'' done \<longrightarrow>
      no_dots done \<longrightarrow> [] \<notin> set done \<longrightarrow> no_dots rest \<longrightarrow> am_wf am \<longrightarrow> grows reg root am am'"
  have "?P reg fp cur stack path i rest st y"
  proof (rule ensure_loop.raw_induct [OF _ e, where P = ?P], goal_cases)
    case (1 f reg fp cur stack path i rest st y)
    note IH = 1(1) and body = 1(2)
    show ?case
    proof (intro allI impI)
      fix root "done" am k am' k'
      assume a: "st = (am, k)" "y = Inr (am', k')" "follow reg (Some root) done = Some (cur, stack)"
        "path = join_str ''.'' done" "no_dots done" "[] \<notin> set done" "no_dots rest" "am_wf am"
      show "grows reg root am am'"
      proof (cases rest)
        case Nil
        then show ?thesis using body a by (simp add: grows_refl)
      next
        case (Cons seg segs)
        obtain m where m: "cur = Some m" using body a Cons by (cases cur) auto
        show ?thesis
        proof (cases "map_of (Relations m) seg")
          case None
          then obtain ex where "f reg fp cur stack path i (split_char (CHR ''.'') ex) st = Some y"
            using body a Cons m
            by (auto simp: Let_def bind_eq_Some_conv split: if_splits)
          from IH [OF this] show ?thesis using a no_dots_split by blast
        next
          case (Some rel)
          show ?thesis
          proof (cases "Polymorphic rel")
            case True
            then show ?thesis using body a Cons m Some by (simp add: grows_refl)
          next
            case False
            let ?p = "extend_path path seg"
            obtain am1 k1 where r: "RType rel \<in> {''has_one'', ''has_many'', ''belongs_to''}"
              "register_path rel seg stack ?p (am, k) = Inr (am1, k1)" "seg \<noteq> []"
              "f reg fp (deref reg (ModelRef rel)) (stack @ [ModelRef rel]) ?p (Suc i) segs (am1, k1) = Some y"
              using body a Cons m Some False
              by (auto simp: Let_def split: if_splits sum.splits)
            have p: "?p = join_str ''.'' (done @ [seg])" using a extend_path_snoc by simp
            have nd: "no_dots (done @ [seg])" "no_dots segs" using a Cons by (auto simp: no_dots_def)
            have "follow reg (Some root) done = Some (Some m, stack)" using a m by simp
            from register_path_grows [OF r(2) _ p nd(1) this Some False r(1)]
            have g: "grows reg root am am1" using a by blast
            have "grows reg root am1 am'"
            proof -
              have "follow reg (Some root) (done @ [seg]) =
                  Some (deref reg (ModelRef rel), stack @ [ModelRef rel])"
                using follow_snoc a m Some by blast
              moreover have "am_wf am1" using g by (simp add: grows_def)
              moreover have "[] \<notin> set (done @ [seg])" using a r by auto
              ultimately show ?thesis using IH [OF r(4)] a p nd by blast
            qed
            with g show ?thesis by (rule grows_trans)
          qed
        qed
      qed
    qed
  qed
  then show "\<And>root done am k am' k'. st = (am, k) \<Longrightarrow> y = Inr (am', k') \<Longrightarrow>
      follow reg (Some root) done = Some (cur, stack) \<Longrightarrow> path = join_str ''.'' done \<Longrightarrow>
      no_dots done \<Longrightarrow> [] \<notin> set done \<Longrightarrow> no_dots rest \<Longrightarrow> am_wf am \<Longrightarrow> grows reg root am am'"
    by blast
qed

lemma ensureAliasPath_grows:
  assumes "ensureAliasPath reg root p (am, k) = Some (Inr (am', k'))" "am_wf am"
  shows "grows reg root am am'"
proof (cases "p = []")
  case True
  then show ?thesis using assms by (simp add: ensureAliasPath_def grows_refl)
next
  case False
  then have "ensure_loop reg p (Some root) [] [] 0 (split_char (CHR ''.'') p) (am, k) = Some (Inr (am', k'))"
    using assms by (simp add: ensureAliasPath_def)
  from ensure_loop_grows_aux [OF this refl refl _ _ _ _ no_dots_split assms(2)]
  show ?thesis by (metis follow.simps(1) join_str.simps(1) no_dots_Nil empty_iff list.set(1))
qed

lemma ensure_all_grows:
  "ensure_all reg root ps (am, k) = Some (Inr (am', k')) \<Longrightarrow> am_wf am \<Longrightarrow> grows reg root am am'"
proof (induction ps arbitrary: am k)
  case Nil
  then show ?case by (simp add: grows_refl)
next
  case (Cons p ps)
  then obtain am1 k1 where "ensureAliasPath reg root p (am, k) = Some (Inr (am1, k1))"
    "ensure_all reg root ps (am1, k1) = Some (Inr (am', k'))"
    by (auto split: option.splits sum.splits)
  then have g: "grows reg root am am1" "ensure_all reg root ps (am1, k1) = Some (Inr (am', k'))"
    using Cons.prems(2) ensureAliasPath_grows by blast+
  then have "grows reg root am1 am'" using Cons.IH by (simp add: grows_def)
  with g(1) show ?case by (rule grows_trans)
qed

text \<open>
  Every relation path a request names is registered, with all its prefixes. \<open>plain_path\<close> is a
  path that consists of relations, none of them polymorphic (a polymorphic relation ends the
  registration early, without an error).
\<close>

fun plain_path :: "registry \<Rightarrow> model option \<Rightarrow> string list \<Rightarrow> bool" where
  "plain_path reg cur [] = True"
| "plain_path reg cur (seg # segs) =
     (case cur of
        None \<Rightarrow> False
      | Some m \<Rightarrow> (case map_of (Relations m) seg of
          None \<Rightarrow> False
        | Some rel \<Rightarrow> \<not> Polymorphic rel \<and> plain_path reg (deref reg (ModelRef rel)) segs))"

definition registered :: "alias_map \<Rightarrow> string list \<Rightarrow> string list \<Rightarrow> bool" where
  "registered am done segs =
     (\<forall>n \<in> {1..length segs}. alias_at am (join_str ''.'' (done @ take n segs)) \<noteq> None)"

lemma registered_Cons:
  "registered am done (seg # segs) \<longleftrightarrow>
   alias_at am (join_str ''.'' (done @ [seg])) \<noteq> None \<and> registered am (done @ [seg]) segs"
proof -
  have "(\<forall>n \<in> {1..Suc k}. P n) \<longleftrightarrow> P 1 \<and> (\<forall>n \<in> {1..k}. P (Suc n))" for k and P :: "nat \<Rightarrow> bool"
    by (auto simp: Ball_def) (metis Suc_le_mono Suc_pred One_nat_def Suc_leI le_zero_eq not_gr_zero)
  then show ?thesis by (simp add: registered_def)
qed

lemma ensure_loop_registers:
  "ensure_loop reg fp cur stack path i segs (am, k) = Some (Inr (am', k')) \<Longrightarrow>
   plain_path reg cur segs \<Longrightarrow> am_wf am \<Longrightarrow>
   follow reg (Some root) done = Some (cur, stack) \<Longrightarrow> path = join_str ''.'' done \<Longrightarrow>
   no_dots done \<Longrightarrow> [] \<notin> set done \<Longrightarrow> no_dots segs \<Longrightarrow> registered am' done segs"
proof (induction segs arbitrary: cur stack path i am k "done")
  case Nil
  then show ?case by (simp add: registered_def)
next
  case (Cons seg segs)
  obtain m rel where m: "cur = Some m" "map_of (Relations m) seg = Some rel" "\<not> Polymorphic rel"
    "plain_path reg (deref reg (ModelRef rel)) segs"
    using Cons.prems(2) by (auto split: option.splits)
  let ?p = "extend_path path seg"
  obtain am1 k1 where r: "RType rel \<in> {''has_one'', ''has_many'', ''belongs_to''}"
    "register_path rel seg stack ?p (am, k) = Inr (am1, k1)" "seg \<noteq> []"
    "ensure_loop reg fp (deref reg (ModelRef rel)) (stack @ [ModelRef rel]) ?p (Suc i) segs (am1, k1)
       = Some (Inr (am', k'))"
    using Cons.prems(1) m
    by (subst (asm) ensure_loop.simps) (auto simp: Let_def split: if_splits sum.splits)
  have p: "?p = join_str ''.'' (done @ [seg])" using Cons.prems extend_path_snoc by simp
  have nd: "no_dots (done @ [seg])" "no_dots segs" "[] \<notin> set (done @ [seg])"
    using Cons.prems r by auto
  have f0: "follow reg (Some root) done = Some (Some m, stack)" using Cons.prems m by simp
  from register_path_grows [OF r(2) Cons.prems(3) p nd(1) f0 m(2,3) r(1)]
  have g: "grows reg root am am1" "alias_at am1 ?p \<noteq> None" by auto
  have w: "am_wf am1" using g by (simp add: grows_def)
  have f1: "follow reg (Some root) (done @ [seg]) = Some (deref reg (ModelRef rel), stack @ [ModelRef rel])"
    by (rule follow_snoc [OF f0 m(2)])
  from ensure_loop_grows_aux [OF r(4) refl refl f1 p nd(1,3,2) w]
  have "alias_at am' ?p \<noteq> None" using g(2) amap.extends_dom by (metis grows_def)
  moreover have "registered am' (done @ [seg]) segs"
    by (rule Cons.IH [OF r(4) m(4) w f1 p nd(1,3,2)])
  ultimately show ?case by (simp add: registered_Cons p)
qed

lemma ensureAliasPath_registers:
  assumes "ensureAliasPath reg root p (am, k) = Some (Inr (am', k'))" "p \<noteq> []"
    and "plain_path reg (Some root) (split_char (CHR ''.'') p)" "am_wf am"
  shows "registered am' [] (split_char (CHR ''.'') p)"
proof -
  have "ensure_loop reg p (Some root) [] [] 0 (split_char (CHR ''.'') p) (am, k) = Some (Inr (am', k'))"
    using assms by (simp add: ensureAliasPath_def)
  from ensure_loop_registers [OF this assms(3,4) _ _ _ _ no_dots_split]
  show ?thesis by simp
qed

lemma registered_extends: "registered am done segs \<Longrightarrow> amap.extends am am' \<Longrightarrow> registered am' done segs"
  unfolding registered_def using amap.extends_dom by blast

lemma ensure_all_registers:
  "ensure_all reg root ps (am, k) = Some (Inr (am', k')) \<Longrightarrow> am_wf am \<Longrightarrow> p \<in> set ps \<Longrightarrow> p \<noteq> [] \<Longrightarrow>
   plain_path reg (Some root) (split_char (CHR ''.'') p) \<Longrightarrow>
   registered am' [] (split_char (CHR ''.'') p)"
proof (induction ps arbitrary: am k)
  case Nil
  then show ?case by simp
next
  case (Cons q ps)
  then obtain am1 k1 where s: "ensureAliasPath reg root q (am, k) = Some (Inr (am1, k1))"
    "ensure_all reg root ps (am1, k1) = Some (Inr (am', k'))"
    by (auto split: option.splits sum.splits)
  have w: "am_wf am1" using ensureAliasPath_grows [OF s(1) Cons.prems(2)] by (simp add: grows_def)
  show ?case
  proof (cases "p = q")
    case True
    then have "registered am1 [] (split_char (CHR ''.'') p)"
      using ensureAliasPath_registers [of reg root p] s(1) Cons.prems by blast
    then show ?thesis using ensure_all_grows [OF s(2) w] registered_extends by (auto simp: grows_def)
  next
    case False
    then show ?thesis using Cons s w by auto
  qed
qed

section \<open>Registration returns\<close>

lemma ensure_loop_alias_free_returns:
  "case cur of None \<Rightarrow> True | Some m \<Rightarrow> alias_free reg m rest \<Longrightarrow> no_dots rest \<Longrightarrow>
   \<exists>r. ensure_loop reg fp cur stack path i rest st = Some r"
proof (induction rest arbitrary: cur stack path i st)
  case Nil
  then show ?case by (simp add: ensure_loop.simps)
next
  case (Cons seg segs)
  show ?case
  proof (cases cur)
    case None
    then show ?thesis by (simp add: ensure_loop.simps)
  next
    case (Some m)
    note m = Some
    show ?thesis
    proof (cases "map_of (Relations m) seg")
      case None
      have "ExpandAliasPath reg m (join_str ''.'' (seg # segs)) = Some (join_str ''.'' (seg # segs))"
        using Cons.prems m by (intro alias_free_ExpandAliasPath) (simp add: split_join_dots)
      then show ?thesis using m None by (subst ensure_loop.simps) (simp add: Let_def)
    next
      case (Some rel)
      have "\<exists>r. ensure_loop reg fp (deref reg (ModelRef rel)) s p j segs st' = Some r" for s p j st'
        using Cons.prems m Some by (intro Cons.IH) (auto split: option.splits)
      then show ?thesis using m Some
        by (subst ensure_loop.simps) (simp add: Let_def split: sum.split)
    qed
  qed
qed

lemma ensure_loop_returns:
  assumes reg: "registry_ranked rk reg"
  shows "case cur of None \<Rightarrow> True | Some m \<Rightarrow> alias_ranked rk m \<Longrightarrow>
    \<exists>r. ensure_loop reg fp cur stack path i rest st = Some r"
proof (induction rest arbitrary: cur stack path i st)
  case Nil
  then show ?case by (simp add: ensure_loop.simps)
next
  case (Cons seg segs)
  show ?case
  proof (cases cur)
    case None
    then show ?thesis by (simp add: ensure_loop.simps)
  next
    case (Some m)
    note m = Some
    show ?thesis
    proof (cases "map_of (Relations m) seg")
      case None
      obtain ex where ex: "ExpandAliasPath reg m (join_str ''.'' (seg # segs)) = Some ex"
        using ExpandAliasPath_returns [OF reg, of m] Cons.prems m by auto
      have "\<exists>r. ensure_loop reg fp cur stack path i (split_char (CHR ''.'') ex) st = Some r"
        if "ex \<noteq> join_str ''.'' (seg # segs)"
      proof -
        have "alias_free reg m (split_char (CHR ''.'') ex)"
          using ExpandAliasPath_alias_free [OF ex] ex that by (auto simp: ExpandAliasPath_def)
        then show ?thesis using m by (intro ensure_loop_alias_free_returns) (auto simp: no_dots_split)
      qed
      then show ?thesis using m None ex by (subst ensure_loop.simps) (simp add: Let_def)
    next
      case (Some rel)
      have "\<exists>r. ensure_loop reg fp (deref reg (ModelRef rel)) s p j segs st' = Some r" for s p j st'
        using registry_ranked_deref [OF reg]
        by (intro Cons.IH) (auto split: option.splits)
      then show ?thesis using m Some
        by (subst ensure_loop.simps) (simp add: Let_def split: sum.split)
    qed
  qed
qed

lemma ensure_all_returns:
  assumes "registry_ranked rk reg" "alias_ranked rk root"
  shows "\<exists>r. ensure_all reg root ps st = Some r"
proof (induction ps arbitrary: st)
  case Nil
  then show ?case by simp
next
  case (Cons p ps)
  have "\<exists>r. ensureAliasPath reg root p st = Some r"
    using ensure_loop_returns [OF assms(1)] assms(2) by (simp add: ensureAliasPath_def)
  then show ?case using Cons by (auto split: sum.splits)
qed

section \<open>The whole map\<close>

lemma set_mergeAndSortPaths: "set (mergeAndSortPaths xss) = {p \<in> set (concat xss). p \<noteq> []}"
  by (auto simp: mergeAndSortPaths_def dedup_def set_dedup_from)

lemma distinct_mergeAndSortPaths: "distinct (mergeAndSortPaths xss)"
  by (simp add: mergeAndSortPaths_def dedup_def distinct_dedup_from)

lemma sorted_mergeAndSortPaths: "sorted (map path_order (mergeAndSortPaths xss))"
  by (simp add: mergeAndSortPaths_def)

text \<open>The list is a function of the set of paths: the order in which maps are visited is gone.\<close>

lemma mergeAndSortPaths_canonical:
  assumes "set (concat xss) = set (concat yss)"
  shows "mergeAndSortPaths xss = mergeAndSortPaths yss"
proof -
  have inj: "inj path_order" by (auto simp: inj_def path_order_def)
  have "map path_order (mergeAndSortPaths xss) = map path_order (mergeAndSortPaths yss)"
    by (rule sorted_distinct_set_unique)
      (use assms inj in \<open>simp_all add: sorted_mergeAndSortPaths distinct_mergeAndSortPaths
          set_mergeAndSortPaths distinct_map inj_on_subset [OF inj]\<close>)
  then show ?thesis using inj by (simp add: inj_map_eq_map)
qed

lemma copy_alias_map_fold:
  "distinct (map fst (PathToAlias acc @ xs)) \<Longrightarrow> distinct (map fst (AliasToPath acc) @ map snd xs) \<Longrightarrow>
   fold (\<lambda>(path, a) am. am_add path a am) xs acc =
   \<lparr>PathToAlias = PathToAlias acc @ xs, AliasToPath = AliasToPath acc @ map (\<lambda>(p, a). (a, p)) xs\<rparr>"
proof (induction xs arbitrary: acc)
  case Nil
  then show ?case by simp
next
  case (Cons x xs)
  obtain p a where x: "x = (p, a)" by (cases x)
  have "am_add p a acc = \<lparr>PathToAlias = PathToAlias acc @ [(p, a)], AliasToPath = AliasToPath acc @ [(a, p)]\<rparr>"
    using Cons.prems x by (auto simp: am_add_def update_new)
  moreover have "fold (\<lambda>(path, a) am. am_add path a am) xs
      \<lparr>PathToAlias = PathToAlias acc @ [(p, a)], AliasToPath = AliasToPath acc @ [(a, p)]\<rparr> =
    \<lparr>PathToAlias = (PathToAlias acc @ [(p, a)]) @ xs,
     AliasToPath = (AliasToPath acc @ [(a, p)]) @ map (\<lambda>(p, a). (a, p)) xs\<rparr>"
    by (subst Cons.IH) (use Cons.prems x in auto)
  ultimately show ?case using x by simp
qed

lemma am_wf_distinct_aliases:
  assumes "am_wf am"
  shows "distinct (map snd (PathToAlias am))"
proof -
  have "gowf (PathToAlias am)" "inj_on snd (set (PathToAlias am))"
  proof -
    show w: "gowf (PathToAlias am)" using assms by (simp add: am_wf_def)
    show "inj_on snd (set (PathToAlias am))"
    proof (rule inj_onI)
      fix x y
      assume xy: "x \<in> set (PathToAlias am)" "y \<in> set (PathToAlias am)" "snd x = snd y"
      obtain p a q b where [simp]: "x = (p, a)" "y = (q, b)" by (cases x, cases y)
      from xy w have "alias_at am p = Some a" "alias_at am q = Some a" by simp_all
      then show "x = y" using assms amap.alias_inject xy by force
    qed
  qed
  then show ?thesis by (simp add: distinct_map)
qed

lemma copy_alias_map_wf:
  assumes "am_wf am0"
  shows "am_wf (copy_alias_map am0) \<and> PathToAlias (copy_alias_map am0) = PathToAlias am0"
proof -
  have c: "copy_alias_map am0 =
    \<lparr>PathToAlias = PathToAlias am0, AliasToPath = map (\<lambda>(p, a). (a, p)) (PathToAlias am0)\<rparr>"
    using copy_alias_map_fold [of empty_alias_map "PathToAlias am0"] assms am_wf_distinct_aliases
    by (simp add: copy_alias_map_def empty_alias_map_def am_wf_def)
  have "fst \<circ> (\<lambda>(p, a). (a, p)) = (snd :: string \<times> string \<Rightarrow> string)" by auto
  then show ?thesis using c assms am_wf_distinct_aliases [OF assms] by (simp add: am_wf_def)
qed

definition preset_aliases :: "data_preset option \<Rightarrow> alias_map" where
  "preset_aliases preset =
     (case Option.bind preset FieldsAliasMap of None \<Rightarrow> empty_alias_map | Some am0 \<Rightarrow> am0)"

lemma base_aliases_wf:
  assumes "am_wf (preset_aliases preset)"
  shows "am_wf (fst (base_aliases preset)) \<and>
         PathToAlias (fst (base_aliases preset)) = PathToAlias (preset_aliases preset)"
  using assms copy_alias_map_wf
  by (auto simp: base_aliases_def preset_aliases_def Let_def split: option.splits)

lemma BuildAliasMap_ok:
  assumes "BuildAliasMap reg root preset filters sorts = Some (Inr am)"
  shows "\<exists>k. ensure_all reg root (request_paths root preset filters sorts)
    (fst (base_aliases preset), snd (base_aliases preset)) = Some (Inr (am, k))"
  using assms by (auto simp: BuildAliasMap_def) (metis Inl_Inr_False Inr_inject fst_conv
    map_sum.simps obj_sumE prod.collapse)

lemma BuildAliasMap_grows:
  assumes "BuildAliasMap reg root preset filters sorts = Some (Inr am)" "am_wf (preset_aliases preset)"
  shows "grows reg root (preset_aliases preset) am"
proof -
  from BuildAliasMap_ok [OF assms(1)] base_aliases_wf [OF assms(2)] ensure_all_grows
  have "grows reg root (fst (base_aliases preset)) am" by blast
  then show ?thesis using base_aliases_wf [OF assms(2)]
    by (simp add: grows_def amap.extends_def numbered_def policed_def)
qed

section \<open>Properties\<close>

text \<open>
  C17. The alias map of a request is a bijection between paths and aliases, and it keeps every
  path of the preset's own map under the alias it had (\<^verbatim>\<open>BuildAliasMap\<close>).
\<close>
theorem BuildAliasMap_bijection:
  assumes "BuildAliasMap reg root preset filters sorts = Some (Inr am)"
    and "am_wf (preset_aliases preset)"
  shows "(\<forall>p a. alias_at am p = Some a \<longleftrightarrow> path_at am a = Some p) \<and>
    (\<forall>p a. alias_at (preset_aliases preset) p = Some a \<longrightarrow> alias_at am p = Some a)"
  using BuildAliasMap_grows [OF assms] amap.agree by (auto simp: grows_def amap.extends_def)

definition demo_registry :: registry where
  "demo_registry =
     [(''Person'', empty_model\<lparr>MName := ''Person'', Table := ''people'',
         Relations := [(''org'', empty_relation\<lparr>RType := ''belongs_to'', RModel := ''Org'', ModelRef := Some ''Org'', FK := ''org_id'', PK := ''id''\<rparr>)]\<rparr>),
      (''Org'', empty_model\<lparr>MName := ''Org'', Table := ''orgs'',
         Relations := [(''head'', empty_relation\<lparr>RType := ''has_one'', RModel := ''Person'', ModelRef := Some ''Person'', FK := ''org_id'', PK := ''id''\<rparr>)]\<rparr>)]"

definition demo_person :: model where "demo_person = the (map_of demo_registry ''Person'')"

lemma demo_build:
  "BuildAliasMap demo_registry demo_person None [(''org.head.name__eq'', GStr ''x'')] [''org.name ASC''] =
   Some (Inr \<lparr>PathToAlias = [(''org'', ''t0''), (''org.head'', ''t1'')],
              AliasToPath = [(''t0'', ''org''), (''t1'', ''org.head'')]\<rparr>)"
  by code_simp

theorem BuildAliasMap_bijection_witness:
  "\<exists>am. BuildAliasMap demo_registry demo_person None [(''org.head.name__eq'', GStr ''x'')] [''org.name ASC''] =
     Some (Inr am) \<and> (\<forall>p a. alias_at am p = Some a \<longleftrightarrow> path_at am a = Some p)"
proof -
  have "am_wf (preset_aliases None)" by (simp add: preset_aliases_def empty_alias_map_def am_wf_def)
  from BuildAliasMap_bijection [OF demo_build this] demo_build show ?thesis by blast
qed





text \<open>
  Building the map of a request returns, with a map or an error, whenever no chain of
  aliases leads back (\<^verbatim>\<open>BuildAliasMap\<close> and its loops).
\<close>
theorem BuildAliasMap_returns:
  assumes "registry_ranked rk reg" "alias_ranked rk root"
  shows "\<exists>r. BuildAliasMap reg root preset filters sorts = Some r"
  using ensure_all_returns [OF assms] by (auto simp: BuildAliasMap_def)

theorem BuildAliasMap_returns_witness:
  "\<exists>r. BuildAliasMap demo_registry demo_person None [(''nobody.name'', GNil)] [] = Some r"
  by (rule BuildAliasMap_returns [where rk = length]) code_simp+

text \<open>
  The list of paths a map is built from depends only on which paths there are: it has each
  non-empty path once, shallow ones first and then in byte order, so it is the same for every
  order in which Go visits the filters (\<^verbatim>\<open>mergeAndSortPaths\<close>).
\<close>
theorem mergeAndSortPaths_spec:
  "set (mergeAndSortPaths xss) = {p \<in> set (concat xss). p \<noteq> []} \<and> distinct (mergeAndSortPaths xss) \<and>
   sorted (map path_order (mergeAndSortPaths xss)) \<and>
   (\<forall>yss. set (concat yss) = set (concat xss) \<longrightarrow> mergeAndSortPaths yss = mergeAndSortPaths xss)"
  using set_mergeAndSortPaths distinct_mergeAndSortPaths sorted_mergeAndSortPaths
    mergeAndSortPaths_canonical by blast

theorem mergeAndSortPaths_spec_witness:
  "mergeAndSortPaths [[''b.c'', ''a''], [''b'']] = mergeAndSortPaths [[''b'', ''b.c''], [''a'', ''b'']]"
proof -
  have "set (concat [[''b.c'', ''a''], [''b'']]) = set (concat [[''b'', ''b.c''], [''a'', ''b'']])" by auto
  then show ?thesis using mergeAndSortPaths_spec [of "[[''b'', ''b.c''], [''a'', ''b'']]"] by blast
qed

end
