(* ===== verification/Preset_Graph.thy ===== *)
theory Preset_Graph
  imports Alias_Map
begin

text \<open>
  The graph of nested presets: the validation of \<^verbatim>\<open>registry_validation.go\<close> and the relation
  paths of \<^verbatim>\<open>CreateAliasMap.go\<close>. Both walk from a preset along the relations its fields name
  and stop by the same rule: a model may be entered again over a reentrant relation, up to a
  depth. A map of counts and a stack of models hold what the rule needs.
\<close>

section \<open>Why the walks end\<close>

text \<open>
  Every way into a model is below a bound \<open>depth_bound\<close> that the configuration fixes, so the sum,
  over the models, of the entries left decreases along the walk.
\<close>

definition all_depths :: "registry \<Rightarrow> int list" where
  "all_depths reg = concat (map (\<lambda>(n, m).
     map (\<lambda>(s, rel). RMaxDepth rel) (Relations m) @
     concat (map (\<lambda>(pn, p). map FMaxDepth (Fields p)) (Presets m))) reg)"

definition depth_bound :: "registry \<Rightarrow> nat" where
  "depth_bound reg = nat (foldr max (all_depths reg) defaultReentrantMaxDepth)"

lemma foldr_max_ge: "x \<in> insert d (set xs) \<Longrightarrow> x \<le> foldr max xs (d :: int)"
  by (induction xs) auto

lemma effMax_le_depth_bound:
  assumes "map_of reg n = Some m" "map_of (Presets m) pn = Some p" "f \<in> set (Fields p)"
    and "map_of (Relations m) s = Some rel"
  shows "fst (resolveMaxDepth (FMaxDepth f) (RMaxDepth rel)) \<le> int (depth_bound reg)"
proof -
  have m: "(n, m) \<in> set reg" "(pn, p) \<in> set (Presets m)" "(s, rel) \<in> set (Relations m)"
    using assms by (auto dest: map_of_SomeD)
  have "FMaxDepth f \<in> set (all_depths reg)" "RMaxDepth rel \<in> set (all_depths reg)"
    using m assms(3) by (fastforce simp: all_depths_def)+
  moreover have "0 \<le> foldr max (all_depths reg) 3"
    using foldr_max_ge [of 3 3 "all_depths reg"] by simp
  ultimately show ?thesis
    using foldr_max_ge [where xs = "all_depths reg" and d = defaultReentrantMaxDepth]
    by (auto simp: resolveMaxDepth_def depth_bound_def defaultReentrantMaxDepth_def)
qed

definition budget :: "registry \<Rightarrow> (string \<Rightarrow> nat) \<Rightarrow> nat" where
  "budget reg cnt = (\<Sum>n \<in> gokeys reg. depth_bound reg + 1 - cnt n)"

lemma budget_decreases:
  assumes "t \<in> gokeys reg" "cnt t \<le> depth_bound reg" "\<And>x. cnt' x = (if x = t then cnt t + 1 else cnt x)"
  shows "budget reg cnt' < budget reg cnt"
  unfolding budget_def using assms by (intro sum_strict_mono_ex1) auto

text \<open>The rule both walks share: may the walk go deeper into a model seen \<open>seen\<close> times?\<close>

definition may_enter :: "preset_field \<Rightarrow> model_relation \<Rightarrow> nat \<Rightarrow> bool" where
  "may_enter f rel seen =
     (seen = 0 \<or> Reentrant rel \<and> int seen < fst (resolveMaxDepth (FMaxDepth f) (RMaxDepth rel)))"

lemma may_enter_bound:
  assumes "may_enter f rel seen" "map_of reg n = Some m" "map_of (Presets m) pn = Some p"
    and "f \<in> set (Fields p)" "map_of (Relations m) s = Some rel"
  shows "seen \<le> depth_bound reg"
  using assms(1) effMax_le_depth_bound [OF assms(2-5)] by (auto simp: may_enter_def)

section \<open>Validation\<close>

definition is_preset_type :: "preset_field \<Rightarrow> bool" where
  "is_preset_type f = (to_lower (trim_space (FType f)) = ''preset'')"

definition fieldNameForMsg :: "preset_field \<Rightarrow> string" where
  "fieldNameForMsg f =
     (if FAlias f \<noteq> [] then FAlias f else if FSource f \<noteq> [] then FSource f else ''<unnamed>'')"

datatype preset_error =
    ModelNotFound string
  | PresetNotFound string string
  | NestedWithoutPresetType string string string string string
  | UnknownRelation string string string string
  | UnsupportedType string string string string string
  | UnknownModel string string string
  | InvalidNestedPreset string string string string string
  | CycleDetected string string "string list" string

definition modelCount :: "(string, nat) gomap \<Rightarrow> string \<Rightarrow> nat" where
  "modelCount counts n = (case map_of counts n of None \<Rightarrow> 0 | Some k \<Rightarrow> k)"

text \<open>
  \<^verbatim>\<open>dfsPresetWithPolicy\<close>. The state of the fold is \<^verbatim>\<open>warnedDefaults\<close>, the warnings that have been
  logged; \<^verbatim>\<open>pathModels\<close> is passed on but never read in the code and is left out.
\<close>

function dfsPresetWithPolicy ::
  "registry \<Rightarrow> string \<Rightarrow> string \<Rightarrow> string list \<Rightarrow> (string, nat) gomap \<Rightarrow> string list \<Rightarrow>
   preset_error + string list" where
  "dfsPresetWithPolicy reg modelName presetName pathNodes modelCounts warned =
     (case map_of reg modelName of
        None \<Rightarrow> Inl (ModelNotFound modelName)
      | Some m \<Rightarrow>
        (case map_of (Presets m) presetName of
           None \<Rightarrow> Inl (PresetNotFound modelName presetName)
         | Some preset \<Rightarrow>
           fold_res (\<lambda>f warned.
             if NestedPreset f = [] then Inr warned
             else if \<not> is_preset_type f
               then Inl (NestedWithoutPresetType (fieldNameForMsg f) modelName presetName
                           (NestedPreset f) (FType f))
             else (case map_of (Relations m) (FSource f) of
               None \<Rightarrow> Inl (UnknownRelation (fieldNameForMsg f) modelName presetName (FSource f))
             | Some rel \<Rightarrow>
               if RType rel \<notin> {''has_one'', ''has_many'', ''belongs_to''}
                 then Inl (UnsupportedType (fieldNameForMsg f) modelName presetName (FSource f) (RType rel))
               else if Polymorphic rel then Inr warned
               else (case map_of reg (RModel rel) of
                 None \<Rightarrow> Inl (UnknownModel (FSource f) modelName (RModel rel))
               | Some nestedModel \<Rightarrow>
                 if map_of (Presets nestedModel) (NestedPreset f) = None
                   then Inl (InvalidNestedPreset (NestedPreset f) (RModel rel) modelName presetName
                               (fieldNameForMsg f))
                 else
                   (let seen = modelCount modelCounts (RModel rel);
                        nextNode = RModel rel @ ''.'' @ NestedPreset f;
                        eff = resolveMaxDepth (FMaxDepth f) (RMaxDepth rel);
                        warnKey = modelName @ ''.'' @ presetName @ '':'' @ FSource f @ ''->'' @ RModel rel;
                        warned' = (if seen > 0 \<and> snd eff \<and> warnKey \<notin> set warned
                                   then warned @ [warnKey] else warned)
                    in if seen > 0 \<and> \<not> Reentrant rel
                         then Inl (CycleDetected (RModel rel) (FSource f) pathNodes nextNode)
                       else if seen > 0 \<and> int seen \<ge> fst eff then Inr warned'
                       else dfsPresetWithPolicy reg (RModel rel) (NestedPreset f)
                              (pathNodes @ [nextNode])
                              (AList.update (RModel rel) (seen + 1) modelCounts) warned'))))
             (Fields preset) warned))"
  by pat_completeness auto
termination
proof (relation "measure (\<lambda>(reg, mn, pn, nodes, counts, w). budget reg (modelCount counts))", simp, goal_cases)
  case (1 reg mn pn nodes counts w m preset f u rel nestedModel x)
  then have "may_enter f rel (modelCount counts (RModel rel))" by (auto simp: may_enter_def)
  then have "modelCount counts (RModel rel) \<le> depth_bound reg"
    using 1 may_enter_bound by blast
  then have "budget reg (modelCount (AList.update (RModel rel) (modelCount counts (RModel rel) + 1) counts))
      < budget reg (modelCount counts)"
    using 1 by (intro budget_decreases [where t = "RModel rel"])
      (auto simp: modelCount_def gomap_simps dest!: map_of_Some_gokeys)
  then show ?case using 1 by simp
qed

declare dfsPresetWithPolicy.simps [simp del]

definition validatePresetGraph :: "registry \<Rightarrow> string \<Rightarrow> string \<Rightarrow> preset_error + string list" where
  "validatePresetGraph reg modelName presetName =
     dfsPresetWithPolicy reg modelName presetName [modelName @ ''.'' @ presetName] [(modelName, 1)] []"

text \<open>All presets of all models; what has been logged is dropped.\<close>

definition ValidateAllPresets :: "registry \<Rightarrow> preset_error + unit" where
  "ValidateAllPresets reg =
     fold_res (\<lambda>(modelName, m) _.
       fold_res (\<lambda>(presetName, p) _.
         bind_res (validatePresetGraph reg modelName presetName) (\<lambda>_. Inr ()))
       (Presets m) ()) reg ()"

section \<open>The relation paths of a preset\<close>

text \<open>
  \<^verbatim>\<open>collectPresetRelationPaths\<close>. A model or preset that is nil makes the code panic, which is
  \<open>NilPointer\<close>. The set of paths is kept in the order in which they are found.
\<close>

datatype go_panic = NilPointer

definition add_path :: "string \<Rightarrow> string list \<Rightarrow> string list" where
  "add_path p ps = (if p \<in> set ps then ps else ps @ [p])"

function collect_dfs ::
  "registry \<Rightarrow> string option \<Rightarrow> string \<Rightarrow> string \<Rightarrow> string option list \<Rightarrow> string list \<Rightarrow>
   go_panic + string list" where
  "collect_dfs reg cur pName currPath stack paths =
     (case deref reg cur of
        None \<Rightarrow> Inl NilPointer
      | Some m \<Rightarrow>
        (case map_of (Presets m) pName of
           None \<Rightarrow> Inl NilPointer
         | Some pr \<Rightarrow>
           fold_res (\<lambda>f paths.
             if \<not> is_preset_type f \<or> NestedPreset f = [] then Inr paths
             else (case map_of (Relations m) (FSource f) of
               None \<Rightarrow> Inr paths
             | Some rel \<Rightarrow>
               if Polymorphic rel then Inr paths
               else
                 (let nextPath = (if currPath \<noteq> [] then currPath @ ''.'' @ FSource f else FSource f);
                      paths' = add_path nextPath paths;
                      repeats = countModelIn stack (ModelRef rel)
                  in if repeats > 0 \<and>
                        (\<not> Reentrant rel \<or>
                         int repeats \<ge> fst (resolveMaxDepth (FMaxDepth f) (RMaxDepth rel)))
                     then Inr paths'
                     else collect_dfs reg (ModelRef rel) (NestedPreset f) nextPath
                            (stack @ [ModelRef rel]) paths')))
             (Fields pr) paths))"
  by pat_completeness auto
termination
proof (relation "measures [\<lambda>(reg, cur, pn, path, stack, ps). budget reg (\<lambda>n. count_list stack (Some n)),
    \<lambda>(reg, cur, pn, path, stack, ps). if deref reg cur = None then 0 else 1]", simp, goal_cases)
  case (1 reg cur pn path stack ps m pr f u rel np ps' k)
  then have enter: "may_enter f rel (count_list stack (ModelRef rel))"
    by (auto simp: may_enter_def countModelIn_def)
  obtain n where n: "cur = Some n" "map_of reg n = Some m" using 1 by (cases cur) auto
  show ?case
  proof (cases "deref reg (ModelRef rel)")
    case None
    have "budget reg (\<lambda>n. count_list (stack @ [ModelRef rel]) (Some n)) =
        budget reg (\<lambda>n. count_list stack (Some n))"
      unfolding budget_def using None
      by (intro sum.cong) (auto simp: count_list_append dest!: gokeys_lookup)
    then show ?thesis using 1 None by simp
  next
    case (Some m')
    then obtain t where t: "ModelRef rel = Some t" "t \<in> gokeys reg"
      by (cases "ModelRef rel") (auto dest: map_of_Some_gokeys)
    have "count_list stack (Some t) \<le> depth_bound reg"
      using enter may_enter_bound 1 n t by metis
    then have "budget reg (\<lambda>n. count_list (stack @ [ModelRef rel]) (Some n))
        < budget reg (\<lambda>n. count_list stack (Some n))"
      using t by (intro budget_decreases [where t = t]) (auto simp: count_list_append)
    then show ?thesis by simp
  qed
qed

declare collect_dfs.simps [simp del]

definition collectPresetRelationPaths :: "registry \<Rightarrow> string \<Rightarrow> string \<Rightarrow> go_panic + string list" where
  "collectPresetRelationPaths reg root presetName =
     collect_dfs reg (Some root) presetName [] [Some root] []"

section \<open>A validated preset can be walked\<close>

text \<open>
  \<open>linked\<close> is what \<^verbatim>\<open>LinkModelRelations\<close> leaves: a relation that is not polymorphic refers to
  the model it names.
\<close>

definition linked :: "registry \<Rightarrow> bool" where
  "linked reg = list_all (\<lambda>(n, m). list_all (\<lambda>(s, rel).
     Polymorphic rel \<or> ModelRef rel = Some (RModel rel)) (Relations m)) reg"

lemma linkedD:
  assumes "linked reg" "map_of reg n = Some m" "map_of (Relations m) s = Some rel" "\<not> Polymorphic rel"
  shows "ModelRef rel = Some (RModel rel)"
  using assms by (fastforce simp: linked_def list_all_iff dest: map_of_SomeD)

text \<open>What a validated preset says of a field the walk goes through.\<close>

lemma validated_step:
  assumes "dfsPresetWithPolicy reg n pName nodes counts w = Inr w'"
    and m: "map_of reg n = Some m" "map_of (Presets m) pName = Some pr" "f \<in> set (Fields pr)"
    and f: "is_preset_type f" "NestedPreset f \<noteq> []" "map_of (Relations m) (FSource f) = Some rel"
    and enter: "\<not> Polymorphic rel" "may_enter f rel (modelCount counts (RModel rel))"
  shows "\<exists>nodes' v v'. dfsPresetWithPolicy reg (RModel rel) (NestedPreset f) nodes'
    (AList.update (RModel rel) (modelCount counts (RModel rel) + 1) counts) v = Inr v'"
proof -
  note valid = assms(1) [unfolded dfsPresetWithPolicy.simps [of reg n] m(1,2) option.case]
  obtain u u' where step: "(if RType rel \<notin> {''has_one'', ''has_many'', ''belongs_to''}
                 then Inl (UnsupportedType (fieldNameForMsg f) n pName (FSource f) (RType rel))
               else (case map_of reg (RModel rel) of
                 None \<Rightarrow> Inl (UnknownModel (FSource f) n (RModel rel))
               | Some nestedModel \<Rightarrow>
                 if map_of (Presets nestedModel) (NestedPreset f) = None
                   then Inl (InvalidNestedPreset (NestedPreset f) (RModel rel) n pName (fieldNameForMsg f))
                 else
                   (let seen = modelCount counts (RModel rel);
                        nextNode = RModel rel @ ''.'' @ NestedPreset f;
                        eff = resolveMaxDepth (FMaxDepth f) (RMaxDepth rel);
                        warnKey = n @ ''.'' @ pName @ '':'' @ FSource f @ ''->'' @ RModel rel;
                        warned' = (if seen > 0 \<and> snd eff \<and> warnKey \<notin> set u then u @ [warnKey] else u)
                    in if seen > 0 \<and> \<not> Reentrant rel
                         then Inl (CycleDetected (RModel rel) (FSource f) nodes nextNode)
                       else if seen > 0 \<and> int seen \<ge> fst eff then Inr warned'
                       else dfsPresetWithPolicy reg (RModel rel) (NestedPreset f) (nodes @ [nextNode])
                              (AList.update (RModel rel) (seen + 1) counts) warned'))) = Inr u'"
    using fold_res_each [OF valid m(3)] f enter(1)
    by (simp only: f enter(1) if_False if_True option.case not_True_eq_False not_False_eq_True) blast
  then have "RType rel \<in> {''has_one'', ''has_many'', ''belongs_to''}" by (auto split: if_splits)
  moreover from step this obtain nm where "map_of reg (RModel rel) = Some nm"
    "map_of (Presets nm) (NestedPreset f) \<noteq> None" by (auto split: option.splits if_splits)
  moreover have "\<not> (0 < modelCount counts (RModel rel) \<and> \<not> Reentrant rel)"
    "\<not> (0 < modelCount counts (RModel rel) \<and>
        fst (resolveMaxDepth (FMaxDepth f) (RMaxDepth rel)) \<le> int (modelCount counts (RModel rel)))"
    using enter(2) by (auto simp: may_enter_def)
  ultimately show ?thesis using step by (simp only: if_False not_True_eq_False option.case Let_def) blast
qed

lemma collect_dfs_ok:
  "linked reg \<Longrightarrow> dfsPresetWithPolicy reg n pName nodes counts w = Inr w' \<Longrightarrow> cur = Some n \<Longrightarrow>
   (\<forall>x. modelCount counts x = count_list stack (Some x)) \<Longrightarrow>
   \<exists>ps'. collect_dfs reg cur pName path stack ps = Inr ps'"
proof (induction reg cur pName path stack ps arbitrary: n nodes counts w w' rule: collect_dfs.induct)
  case (1 reg cur pName path stack ps)
  note IH = 1(1) and linked = 1(2) and valid = 1(3) and counts = 1(5)
  obtain m where m: "map_of reg n = Some m"
    using valid by (subst (asm) dfsPresetWithPolicy.simps) (auto split: option.splits)
  obtain pr where pr: "map_of (Presets m) pName = Some pr"
    using valid m by (subst (asm) dfsPresetWithPolicy.simps) (auto split: option.splits)
  have cur: "deref reg cur = Some m" using 1(4) m by simp
  show ?case
    unfolding collect_dfs.simps [of reg cur] cur option.case pr
  proof (rule fold_res_total, goal_cases)
    case (1 f ps1)
    show ?case
    proof (cases "is_preset_type f \<and> NestedPreset f \<noteq> [] \<and> map_of (Relations m) (FSource f) \<noteq> None")
      case False
      then show ?thesis by (auto split: option.splits)
    next
      case True
      then obtain rel where f: "is_preset_type f" "NestedPreset f \<noteq> []"
        "map_of (Relations m) (FSource f) = Some rel" by auto
      show ?thesis
      proof (cases "Polymorphic rel \<or> \<not> may_enter f rel (countModelIn stack (ModelRef rel))")
        case True
        then show ?thesis using f
          by (cases "Polymorphic rel") (auto simp: Let_def may_enter_def)
      next
        case False
        then have np: "\<not> Polymorphic rel" by simp
        have ref: "ModelRef rel = Some (RModel rel)" using linkedD linked m f np by blast
        have seen: "modelCount counts (RModel rel) = countModelIn stack (ModelRef rel)"
          using counts ref by (simp add: countModelIn_def)
        obtain v v' nodes' where rec: "dfsPresetWithPolicy reg (RModel rel) (NestedPreset f) nodes'
            (AList.update (RModel rel) (modelCount counts (RModel rel) + 1) counts) v = Inr v'"
          using validated_step [OF valid m pr 1 f np] False seen by auto
        have guard: "\<not> (0 < countModelIn stack (ModelRef rel) \<and> (\<not> Reentrant rel \<or>
            fst (resolveMaxDepth (FMaxDepth f) (RMaxDepth rel)) \<le> int (countModelIn stack (ModelRef rel))))"
          using False by (auto simp: may_enter_def)
        have cnt: "\<forall>x. modelCount (AList.update (RModel rel) (modelCount counts (RModel rel) + 1) counts) x =
            count_list (stack @ [ModelRef rel]) (Some x)"
          using counts ref by (auto simp: modelCount_def gomap_simps count_list_append)
        have "\<not> (\<not> is_preset_type f \<or> NestedPreset f = [])" using f by simp
        from IH [OF cur pr 1 this f(3) np refl refl refl guard linked rec ref cnt]
        show ?thesis using f np guard by (simp add: Let_def)
      qed
    qed
  qed
qed

section \<open>What the paths are\<close>

text \<open>
  Relation names that can stand in a dotted path. With them a collected path leads over relations
  that exist, and the path before its last dot is collected too.
\<close>

definition plain_names :: "registry \<Rightarrow> bool" where
  "plain_names reg = list_all (\<lambda>(n, m). list_all (\<lambda>(s, rel). s \<noteq> [] \<and> CHR ''.'' \<notin> set s) (Relations m)) reg"

lemma plain_namesD:
  "plain_names reg \<Longrightarrow> map_of reg n = Some m \<Longrightarrow> map_of (Relations m) s = Some rel \<Longrightarrow>
   s \<noteq> [] \<and> CHR ''.'' \<notin> set s"
  by (fastforce simp: plain_names_def list_all_iff dest: map_of_SomeD)

definition rel_path :: "registry \<Rightarrow> model option \<Rightarrow> string list \<Rightarrow> bool" where
  "rel_path reg cur segs = (no_dots segs \<and> [] \<notin> set segs \<and> plain_path reg cur segs)"

definition paths_closed :: "registry \<Rightarrow> model option \<Rightarrow> string list \<Rightarrow> bool" where
  "paths_closed reg root ps = (distinct ps \<and>
     (\<forall>p \<in> set ps. \<exists>segs. segs \<noteq> [] \<and> p = join_str ''.'' segs \<and> rel_path reg root segs \<and>
        (butlast segs \<noteq> [] \<longrightarrow> join_str ''.'' (butlast segs) \<in> set ps)))"

lemma plain_path_snoc:
  "plain_path reg cur segs \<Longrightarrow> follow reg cur segs = Some (Some m, st) \<Longrightarrow>
   map_of (Relations m) seg = Some rel \<Longrightarrow> \<not> Polymorphic rel \<Longrightarrow> plain_path reg cur (segs @ [seg])"
proof (induction reg cur segs arbitrary: st rule: follow.induct)
  case (1 reg cur)
  then show ?case by simp
next
  case (2 reg cur s ss)
  then show ?case by (cases cur) (auto split: option.splits)
qed

lemma paths_closed_add:
  assumes "paths_closed reg root ps" "segs \<noteq> []" "rel_path reg root segs"
    and "butlast segs \<noteq> [] \<longrightarrow> join_str ''.'' (butlast segs) \<in> set ps"
  shows "paths_closed reg root (add_path (join_str ''.'' segs) ps)"
  using assms by (auto simp: paths_closed_def add_path_def)

lemma set_add_path: "set (add_path p ps) = insert p (set ps)"
  by (auto simp: add_path_def)

lemma collect_dfs_closed:
  "collect_dfs reg cur pName path stack ps = Inr ps' \<Longrightarrow> plain_names reg \<Longrightarrow>
   paths_closed reg root ps \<Longrightarrow> follow reg root done = Some (deref reg cur, st) \<Longrightarrow>
   path = join_str ''.'' done \<Longrightarrow> rel_path reg root done \<Longrightarrow> (done \<noteq> [] \<longrightarrow> path \<in> set ps) \<Longrightarrow>
   paths_closed reg root ps' \<and> set ps \<subseteq> set ps'"
proof (induction reg cur pName path stack ps arbitrary: ps' "done" st rule: collect_dfs.induct)
  case (1 reg cur pName path stack ps)
  note IH = 1(1) and run = 1(2) and plain = 1(3) and base = 1(4-)
  obtain m where cur: "deref reg cur = Some m"
    using run by (subst (asm) collect_dfs.simps) (auto split: option.splits)
  then obtain n where n: "map_of reg n = Some m" by (cases cur) auto
  obtain pr where pr: "map_of (Presets m) pName = Some pr"
    using run cur by (subst (asm) collect_dfs.simps) (auto split: option.splits)
  note loop = run [unfolded collect_dfs.simps [of reg cur] cur option.case pr]
  show ?case
  proof (rule fold_res_inv [OF loop, where P = "\<lambda>qs. paths_closed reg root qs \<and> set ps \<subseteq> set qs"])
    show "paths_closed reg root ps \<and> set ps \<subseteq> set ps" using base by simp
  next
    fix f qs qs'
    assume f: "f \<in> set (Fields pr)" and inv: "paths_closed reg root qs \<and> set ps \<subseteq> set qs"
    let ?np = "\<lambda>s. if path \<noteq> [] then path @ ''.'' @ s else s"
    assume step: "(if \<not> is_preset_type f \<or> NestedPreset f = [] then Inr qs
             else (case map_of (Relations m) (FSource f) of
               None \<Rightarrow> Inr qs
             | Some rel \<Rightarrow>
               if Polymorphic rel then Inr qs
               else
                 (let nextPath = ?np (FSource f);
                      paths' = add_path nextPath qs;
                      repeats = countModelIn stack (ModelRef rel)
                  in if repeats > 0 \<and>
                        (\<not> Reentrant rel \<or>
                         int repeats \<ge> fst (resolveMaxDepth (FMaxDepth f) (RMaxDepth rel)))
                     then Inr paths'
                     else collect_dfs reg (ModelRef rel) (NestedPreset f) nextPath
                            (stack @ [ModelRef rel]) paths'))) = Inr qs'"
    show "paths_closed reg root qs' \<and> set ps \<subseteq> set qs'"
    proof (cases "is_preset_type f \<and> NestedPreset f \<noteq> [] \<and> (\<exists>rel. map_of (Relations m) (FSource f) = Some rel \<and> \<not> Polymorphic rel)")
      case False
      then have "qs' = qs" using step by (auto split: option.splits if_splits)
      with inv show ?thesis by simp
    next
      case True
      then obtain rel where g: "\<not> (\<not> is_preset_type f \<or> NestedPreset f = [])"
        "map_of (Relations m) (FSource f) = Some rel" "\<not> Polymorphic rel" by auto
      let ?segs = "done @ [FSource f]"
      have s: "FSource f \<noteq> []" "CHR ''.'' \<notin> set (FSource f)" using plain_namesD [OF plain n g(2)] by auto
      have np: "?np (FSource f) = join_str ''.'' ?segs"
        using base(3,4) extend_path_snoc [of "done" "FSource f"]
        by (auto simp: rel_path_def extend_path_def)
      have rp: "rel_path reg root ?segs"
        using base(2,4) cur g s plain_path_snoc by (auto simp: rel_path_def)
      have cl: "paths_closed reg root (add_path (?np (FSource f)) qs)"
        unfolding np using inv base(3,5) rp by (intro paths_closed_add) auto
      have fl: "follow reg root ?segs = Some (deref reg (ModelRef rel), st @ [ModelRef rel])"
        using follow_snoc base(2) cur g by metis
      show ?thesis
      proof (cases "countModelIn stack (ModelRef rel) > 0 \<and> (\<not> Reentrant rel \<or>
          int (countModelIn stack (ModelRef rel)) \<ge> fst (resolveMaxDepth (FMaxDepth f) (RMaxDepth rel)))")
        case True
        then have "qs' = add_path (?np (FSource f)) qs" using step g by (simp add: Let_def)
        then show ?thesis using cl inv by (auto simp: set_add_path)
      next
        case False
        have rec: "collect_dfs reg (ModelRef rel) (NestedPreset f) (?np (FSource f)) (stack @ [ModelRef rel])
            (add_path (?np (FSource f)) qs) = Inr qs'"
          using step g False by (simp add: Let_def split: if_splits)
        have mem: "?segs \<noteq> [] \<longrightarrow> ?np (FSource f) \<in> set (add_path (?np (FSource f)) qs)"
          by (simp add: set_add_path)
        from IH [OF cur pr f g refl refl refl False rec plain cl fl np rp mem]
        show ?thesis using inv by (auto simp: set_add_path)
      qed
    qed
  qed
qed

lemma collectPresetRelationPaths_closed:
  assumes "collectPresetRelationPaths reg n p = Inr ps" "plain_names reg"
  shows "paths_closed reg (map_of reg n) ps"
  using collect_dfs_closed [OF assms(1) [unfolded collectPresetRelationPaths_def] assms(2), of "map_of reg n" "[]" "[]"]
  by (simp add: paths_closed_def rel_path_def)

section \<open>Alias maps of presets\<close>

text \<open>
  The numbering of the sorted paths, and its effect on a preset.
\<close>

definition number_paths :: "string list \<Rightarrow> alias_map" where
  "number_paths paths =
     (let ps = sort_key path_order paths;
          as = map alias_name [0..<length ps]
      in \<lparr>PathToAlias = zip ps as, AliasToPath = zip as ps\<rparr>)"

definition set_alias_map :: "string \<Rightarrow> string \<Rightarrow> alias_map \<Rightarrow> registry \<Rightarrow> registry" where
  "set_alias_map n pn am reg =
     AList.map_entry n (\<lambda>m. m\<lparr>Presets := AList.map_entry pn (\<lambda>p. p\<lparr>FieldsAliasMap := Some am\<rparr>) (Presets m)\<rparr>) reg"

datatype build_error = NilModelPointer | PathsPanic string string | OutOfFuel

text \<open>
  \<^verbatim>\<open>buildPresetAliasMapsForModel\<close>. The state is the registry, whose presets it updates, and the
  visited models. The recursion only enters models that have not been visited, so it is no deeper
  than the registry is large; the fuel says so.
\<close>

fun build_model_maps ::
  "nat \<Rightarrow> string option \<Rightarrow> registry \<times> string list \<Rightarrow> build_error + registry \<times> string list" where
  "build_model_maps 0 cur st = Inl OutOfFuel"
| "build_model_maps (Suc k) cur (reg, visited) =
     (case cur of
        None \<Rightarrow> Inl NilModelPointer
      | Some name \<Rightarrow>
        (case map_of reg name of
           None \<Rightarrow> Inl NilModelPointer
         | Some m \<Rightarrow>
           if name \<in> set visited then Inr (reg, visited)
           else
             bind_res
               (fold_res (\<lambda>f st.
                  if \<not> is_preset_type f \<or> NestedPreset f = [] then Inr st
                  else (case map_of (Relations m) (FSource f) of
                    None \<Rightarrow> Inr st
                  | Some rel \<Rightarrow> if ModelRef rel = None then Inr st
                                else build_model_maps k (ModelRef rel) st))
                (concat (map (\<lambda>(pn, dp). Fields dp) (Presets m))) (reg, name # visited))
               (fold_res (\<lambda>(pn, dp) (reg, visited).
                  case collectPresetRelationPaths reg name pn of
                    Inl e \<Rightarrow> Inl (PathsPanic name pn)
                  | Inr paths \<Rightarrow> Inr (set_alias_map name pn (number_paths paths) reg, visited))
                (Presets m))))"

definition BuildPresetAliasMapsForModel :: "string option \<Rightarrow> registry \<Rightarrow> build_error + registry" where
  "BuildPresetAliasMapsForModel cur reg =
     map_sum id fst (build_model_maps (length reg + 1) cur (reg, []))"

definition BuildPresetAliasMaps :: "registry \<Rightarrow> build_error + registry" where
  "BuildPresetAliasMaps reg =
     fold_res (\<lambda>name reg. BuildPresetAliasMapsForModel (Some name) reg) (map fst reg) reg"

section \<open>The walk does not read the maps\<close>

definition erase_preset :: "data_preset \<Rightarrow> data_preset" where
  "erase_preset p = p\<lparr>FieldsAliasMap := None\<rparr>"

definition erase_model :: "model \<Rightarrow> model" where
  "erase_model m = m\<lparr>Presets := map (\<lambda>(pn, p). (pn, erase_preset p)) (Presets m)\<rparr>"

text \<open>The registry without the alias maps of its presets.\<close>

definition erase :: "registry \<Rightarrow> registry" where
  "erase reg = map (\<lambda>(n, m). (n, erase_model m)) reg"

lemma map_of_erase: "map_of (erase reg) n = map_option erase_model (map_of reg n)"
  unfolding erase_def by (rule map_of_map [unfolded id_def fun_eq_iff comp_def, rule_format])

lemma map_of_erase_presets:
  "map_of (Presets (erase_model m)) pn = map_option erase_preset (map_of (Presets m) pn)"
  unfolding erase_model_def
  by (simp add: map_of_map [unfolded id_def fun_eq_iff comp_def, rule_format])

lemma deref_erase: "deref (erase reg) cur = map_option erase_model (deref reg cur)"
  by (cases cur) (simp_all add: map_of_erase)

lemma erase_fields [simp]: "Fields (erase_preset p) = Fields p" "Relations (erase_model m) = Relations m"
  by (simp_all add: erase_preset_def erase_model_def)

lemma fold_res_cong2:
  "(\<And>x u. x \<in> set xs \<Longrightarrow> f x u = g x u) \<Longrightarrow> fold_res f xs s = fold_res g xs s"
  by (rule fold_res_cong) auto

lemma collect_dfs_erase:
  "collect_dfs (erase reg) cur pName path stack ps = collect_dfs reg cur pName path stack ps"
proof (induction reg cur pName path stack ps rule: collect_dfs.induct)
  case (1 reg cur pName path stack ps)
  note IH = 1
  show ?case
  proof (cases "deref reg cur")
    case None
    then show ?thesis by (simp add: collect_dfs.simps [of _ cur] deref_erase)
  next
    case (Some m)
    note m = Some
    show ?thesis
    proof (cases "map_of (Presets m) pName")
      case None
      with m show ?thesis by (simp add: collect_dfs.simps [of _ cur] deref_erase map_of_erase_presets)
    next
      case (Some pr)
      have em: "deref (erase reg) cur = Some (erase_model m)"
        "map_of (Presets (erase_model m)) pName = Some (erase_preset pr)"
        using m Some by (simp_all add: deref_erase map_of_erase_presets)
      show ?thesis
        unfolding collect_dfs.simps [of _ cur] em m Some option.case erase_fields
      proof (rule fold_res_cong2)
        fix f u
        assume "f \<in> set (Fields pr)"
        note IH' = IH [OF m Some this]
        show "(if \<not> is_preset_type f \<or> NestedPreset f = [] then Inr u
             else (case map_of (Relations m) (FSource f) of
               None \<Rightarrow> Inr u
             | Some rel \<Rightarrow>
               if Polymorphic rel then Inr u
               else
                 (let nextPath = (if path \<noteq> [] then path @ ''.'' @ FSource f else FSource f);
                      paths' = add_path nextPath u;
                      repeats = countModelIn stack (ModelRef rel)
                  in if repeats > 0 \<and>
                        (\<not> Reentrant rel \<or>
                         int repeats \<ge> fst (resolveMaxDepth (FMaxDepth f) (RMaxDepth rel)))
                     then Inr paths'
                     else collect_dfs (erase reg) (ModelRef rel) (NestedPreset f) nextPath
                            (stack @ [ModelRef rel]) paths'))) =
              (if \<not> is_preset_type f \<or> NestedPreset f = [] then Inr u
             else (case map_of (Relations m) (FSource f) of
               None \<Rightarrow> Inr u
             | Some rel \<Rightarrow>
               if Polymorphic rel then Inr u
               else
                 (let nextPath = (if path \<noteq> [] then path @ ''.'' @ FSource f else FSource f);
                      paths' = add_path nextPath u;
                      repeats = countModelIn stack (ModelRef rel)
                  in if repeats > 0 \<and>
                        (\<not> Reentrant rel \<or>
                         int repeats \<ge> fst (resolveMaxDepth (FMaxDepth f) (RMaxDepth rel)))
                     then Inr paths'
                     else collect_dfs reg (ModelRef rel) (NestedPreset f) nextPath
                            (stack @ [ModelRef rel]) paths')))"
          using IH' [OF _ _ _ refl refl refl] by (auto simp: Let_def split: option.splits)
      qed
    qed
  qed
qed

lemma collect_erase_cong:
  "erase reg' = erase reg \<Longrightarrow> collectPresetRelationPaths reg' n p = collectPresetRelationPaths reg n p"
  unfolding collectPresetRelationPaths_def by (metis collect_dfs_erase)

lemma erase_set_alias_map: "erase (set_alias_map n pn am reg) = erase reg"
proof -
  have "map (\<lambda>(pn, p). (pn, erase_preset p)) (AList.map_entry pn (\<lambda>p. p\<lparr>FieldsAliasMap := Some am\<rparr>) ps) =
      map (\<lambda>(pn, p). (pn, erase_preset p)) ps" for ps
    by (induction ps) (auto simp: erase_preset_def)
  then have "erase_model (m\<lparr>Presets := AList.map_entry pn (\<lambda>p. p\<lparr>FieldsAliasMap := Some am\<rparr>) (Presets m)\<rparr>) =
      erase_model m" for m
    by (simp add: erase_model_def)
  then show ?thesis by (induction reg) (auto simp: erase_def set_alias_map_def)
qed

lemma erase_lookup:
  assumes "erase reg' = erase reg" "map_of reg' n = Some m'"
  shows "\<exists>m. map_of reg n = Some m \<and> erase_model m' = erase_model m"
  using assms map_of_erase [of reg' n] map_of_erase [of reg n] by (cases "map_of reg n") auto

lemma erase_relations: "erase_model m' = erase_model m \<Longrightarrow> Relations m' = Relations m"
  by (metis erase_fields(2))

lemma erase_preset_names: "erase_model m' = erase_model m \<Longrightarrow> gokeys (Presets m') = gokeys (Presets m)"
proof -
  assume "erase_model m' = erase_model m"
  then have "map_of (Presets m') pn = None \<longleftrightarrow> map_of (Presets m) pn = None" for pn
    by (metis map_of_erase_presets map_option_is_None)
  then show ?thesis by (auto simp: map_of_eq_None_iff)
qed

lemma erase_gokeys: "erase reg' = erase reg \<Longrightarrow> gokeys reg' = gokeys reg"
proof -
  assume "erase reg' = erase reg"
  moreover have "gokeys (erase r) = gokeys r" for r by (force simp: erase_def)
  ultimately show ?thesis by metis
qed

section \<open>Building the maps succeeds\<close>

text \<open>
  \<open>mapped reg0 reg n pn\<close>: the preset, if there is one, has the map of its paths in \<open>reg0\<close>.
\<close>

definition preset_map :: "registry \<Rightarrow> string \<Rightarrow> string \<Rightarrow> alias_map option" where
  "preset_map reg n pn =
     (case collectPresetRelationPaths reg n pn of Inl e \<Rightarrow> None | Inr ps \<Rightarrow> Some (number_paths ps))"

definition mapped :: "registry \<Rightarrow> registry \<Rightarrow> string \<Rightarrow> string \<Rightarrow> bool" where
  "mapped reg0 reg n pn =
     (\<forall>m p. map_of reg n = Some m \<longrightarrow> map_of (Presets m) pn = Some p \<longrightarrow>
        FieldsAliasMap p = preset_map reg0 n pn)"

definition map_progress :: "registry \<Rightarrow> registry \<Rightarrow> registry \<Rightarrow> bool" where
  "map_progress reg0 reg reg' =
     (erase reg = erase reg0 \<and> erase reg' = erase reg0 \<and>
      (\<forall>n pn. mapped reg0 reg n pn \<longrightarrow> mapped reg0 reg' n pn))"

lemma map_progress_refl: "erase reg = erase reg0 \<Longrightarrow> map_progress reg0 reg reg"
  by (simp add: map_progress_def)

lemma map_progress_trans: "map_progress r0 a b \<Longrightarrow> map_progress r0 b c \<Longrightarrow> map_progress r0 a c"
  by (simp add: map_progress_def)

lemma map_of_set_alias_map:
  "map_of (set_alias_map n pn am reg) x =
     (if x = n then map_option (\<lambda>m. m\<lparr>Presets := AList.map_entry pn (\<lambda>p. p\<lparr>FieldsAliasMap := Some am\<rparr>) (Presets m)\<rparr>) (map_of reg n)
      else map_of reg x)"
  by (simp add: set_alias_map_def AList.map_of_map_entry split: option.split)

lemma set_alias_map_progress:
  assumes "erase reg = erase reg0" "preset_map reg0 n pn = Some am"
  shows "map_progress reg0 reg (set_alias_map n pn am reg) \<and> mapped reg0 (set_alias_map n pn am reg) n pn"
  using assms
  by (auto simp: map_progress_def erase_set_alias_map mapped_def map_of_set_alias_map
      AList.map_of_map_entry split: if_splits option.splits)

lemma set_alias_loop:
  "\<forall>pn \<in> gokeys xs. \<exists>ps. collectPresetRelationPaths reg0 n pn = Inr ps \<Longrightarrow> erase reg = erase reg0 \<Longrightarrow>
    \<exists>reg'. fold_res (\<lambda>(pn, dp) (reg, visited).
                  case collectPresetRelationPaths reg n pn of
                    Inl e \<Rightarrow> Inl (PathsPanic n pn)
                  | Inr paths \<Rightarrow> Inr (set_alias_map n pn (number_paths paths) reg, visited)) xs (reg, vis)
           = Inr (reg', vis) \<and> map_progress reg0 reg reg' \<and> (\<forall>pn \<in> gokeys xs. mapped reg0 reg' n pn)"
proof (induction xs arbitrary: reg)
  case Nil
  then show ?case by (simp add: map_progress_refl)
next
  case (Cons x xs)
  obtain pn dp where x: "x = (pn, dp)" by (cases x)
  then obtain ps where ps: "collectPresetRelationPaths reg0 n pn = Inr ps" using Cons.prems(1) by auto
  then have c: "collectPresetRelationPaths reg n pn = Inr ps"
    using collect_erase_cong Cons.prems(2) by metis
  let ?r = "set_alias_map n pn (number_paths ps) reg"
  have pm: "preset_map reg0 n pn = Some (number_paths ps)" using ps by (simp add: preset_map_def)
  note step = set_alias_map_progress [OF Cons.prems(2) pm]
  have er: "erase ?r = erase reg0" using step by (simp add: map_progress_def)
  have "\<forall>pn \<in> gokeys xs. \<exists>ps. collectPresetRelationPaths reg0 n pn = Inr ps"
    using Cons.prems(1) by auto
  from Cons.IH [OF this er] obtain reg' where r: "map_progress reg0 ?r reg'"
    "\<forall>pn \<in> gokeys xs. mapped reg0 reg' n pn"
    "fold_res (\<lambda>(pn, dp) (reg, visited).
                  case collectPresetRelationPaths reg n pn of
                    Inl e \<Rightarrow> Inl (PathsPanic n pn)
                  | Inr paths \<Rightarrow> Inr (set_alias_map n pn (number_paths paths) reg, visited)) xs (?r, vis)
      = Inr (reg', vis)" by auto
  then have "mapped reg0 reg' n pn" "map_progress reg0 reg reg'"
    using step map_progress_trans by (auto simp: map_progress_def)
  with r x c show ?case by auto
qed

text \<open>
  A registry all of whose presets can be walked, and whose references exist.
\<close>

definition walkable :: "registry \<Rightarrow> bool" where
  "walkable reg = (wf_refs reg \<and> (\<forall>n m pn p. map_of reg n = Some m \<longrightarrow> (pn, p) \<in> set (Presets m) \<longrightarrow>
     (\<exists>ps. collectPresetRelationPaths reg n pn = Inr ps)))"

lemma build_model_maps_ok:
  assumes walk: "walkable reg0"
  shows "erase reg = erase reg0 \<Longrightarrow> name \<in> gokeys reg0 \<Longrightarrow> card (gokeys reg0 - set vis) < k \<Longrightarrow>
    \<exists>reg' vis'. build_model_maps k (Some name) (reg, vis) = Inr (reg', vis') \<and> set vis \<subseteq> set vis' \<and>
      map_progress reg0 reg reg' \<and> (name \<notin> set vis \<longrightarrow> (\<forall>pn. mapped reg0 reg' name pn))"
proof (induction k arbitrary: reg name vis)
  case 0
  then show ?case by simp
next
  case (Suc k)
  obtain m where m: "map_of reg name = Some m"
    using Suc.prems(1,2) erase_gokeys gokeys_lookup by metis
  obtain m0 where m0: "map_of reg0 name = Some m0" "erase_model m = erase_model m0"
    using erase_lookup Suc.prems(1) m by blast
  show ?case
  proof (cases "name \<in> set vis")
    case True
    then have "build_model_maps (Suc k) (Some name) (reg, vis) = Inr (reg, vis)" using m by simp
    then show ?thesis using True map_progress_refl [OF Suc.prems(1)] by blast
  next
    case False
    let ?P = "\<lambda>(r, v). map_progress reg0 reg r \<and> set (name # vis) \<subseteq> set v"
    let ?body = "\<lambda>f st.
                  if \<not> is_preset_type f \<or> NestedPreset f = [] then Inr st
                  else (case map_of (Relations m) (FSource f) of
                    None \<Rightarrow> Inr st
                  | Some rel \<Rightarrow> if ModelRef rel = None then Inr st
                                else build_model_maps k (ModelRef rel) st)"
    have "\<exists>st. fold_res ?body (concat (map (\<lambda>(pn, dp). Fields dp) (Presets m))) (reg, name # vis) = Inr st \<and> ?P st"
    proof (rule fold_res_total_inv)
      show "?P (reg, name # vis)" using map_progress_refl [OF Suc.prems(1)] by auto
    next
      fix f :: preset_field and st
      assume "?P st"
      then obtain r v where st: "st = (r, v)" "map_progress reg0 reg r" "set (name # vis) \<subseteq> set v"
        by (cases st) auto
      have "\<exists>u'. build_model_maps k (Some t) st = Inr u' \<and> ?P u'"
        if rel: "map_of (Relations m) (FSource f) = Some rel" "ModelRef rel = Some t" for rel t
      proof -
        have "map_of (Relations m0) (FSource f) = Some rel" using rel m0 erase_relations by metis
        then have t: "t \<in> gokeys reg0"
          using walk m0(1) rel(2) wf_refs_deref map_of_Some_gokeys unfolding walkable_def by metis
        have "gokeys reg0 - set v \<subset> gokeys reg0 - set vis"
          using st(3) Suc.prems(2) False by auto
        then have "card (gokeys reg0 - set v) < k"
          using Suc.prems(3) psubset_card_mono [of "gokeys reg0 - set vis" "gokeys reg0 - set v"] by simp
        moreover have "erase r = erase reg0" using st(2) by (simp add: map_progress_def)
        ultimately obtain r' v' where "build_model_maps k (Some t) (r, v) = Inr (r', v')"
          "set v \<subseteq> set v'" "map_progress reg0 r r'" using Suc.IH t by blast
        moreover from this st have "map_progress reg0 reg r'" using map_progress_trans by blast
        ultimately show ?thesis using st by auto
      qed
      then show "\<exists>u'. ?body f st = Inr u' \<and> ?P u'"
        using \<open>?P st\<close> by (auto split: option.splits)
    qed
    then obtain r v where loop1: "fold_res ?body (concat (map (\<lambda>(pn, dp). Fields dp) (Presets m))) (reg, name # vis) = Inr (r, v)"
      "map_progress reg0 reg r" "set (name # vis) \<subseteq> set v" by auto
    have er: "erase r = erase reg0" using loop1(2) by (simp add: map_progress_def)
    have "\<forall>pn \<in> gokeys (Presets m). \<exists>ps. collectPresetRelationPaths reg0 name pn = Inr ps"
    proof
      fix pn
      assume "pn \<in> gokeys (Presets m)"
      then have "pn \<in> gokeys (Presets m0)" using erase_preset_names m0(2) by blast
      then obtain dp where "(pn, dp) \<in> set (Presets m0)" by auto
      then show "\<exists>ps. collectPresetRelationPaths reg0 name pn = Inr ps"
        using walk m0(1) unfolding walkable_def by blast
    qed
    from set_alias_loop [OF this er, of v] obtain reg' where loop2:
      "fold_res (\<lambda>(pn, dp) (reg, visited).
                  case collectPresetRelationPaths reg name pn of
                    Inl e \<Rightarrow> Inl (PathsPanic name pn)
                  | Inr paths \<Rightarrow> Inr (set_alias_map name pn (number_paths paths) reg, visited)) (Presets m) (r, v)
       = Inr (reg', v)" "map_progress reg0 r reg'" "\<forall>pn \<in> gokeys (Presets m). mapped reg0 reg' name pn"
      by auto
    have "mapped reg0 reg' name pn" for pn
    proof (cases "pn \<in> gokeys (Presets m)")
      case True
      then show ?thesis using loop2(3) by blast
    next
      case False
      have "erase reg' = erase reg0" using loop2(2) by (simp add: map_progress_def)
      then have "gokeys (Presets m') = gokeys (Presets m)" if "map_of reg' name = Some m'" for m'
        using erase_lookup erase_preset_names m0 that by (metis option.inject)
      then show ?thesis using False unfolding mapped_def by (metis map_of_Some_gokeys)
    qed
    moreover have "build_model_maps (Suc k) (Some name) (reg, vis) = Inr (reg', v)"
      using m False loop1(1) loop2(1) by simp
    moreover have "map_progress reg0 reg reg'" using loop1(2) loop2(2) by (rule map_progress_trans)
    moreover have "set vis \<subseteq> set v" using loop1(3) by simp
    ultimately show ?thesis by blast
  qed
qed

lemma BuildPresetAliasMaps_ok:
  assumes "walkable reg0"
  shows "\<exists>reg'. BuildPresetAliasMaps reg0 = Inr reg' \<and> erase reg' = erase reg0 \<and>
    (\<forall>n \<in> gokeys reg0. \<forall>pn. mapped reg0 reg' n pn)"
proof -
  have "\<exists>reg'. fold_res (\<lambda>name reg. BuildPresetAliasMapsForModel (Some name) reg) xs reg = Inr reg' \<and>
      map_progress reg0 reg reg' \<and> (\<forall>n \<in> set xs. \<forall>pn. mapped reg0 reg' n pn)"
    if "erase reg = erase reg0" "set xs \<subseteq> gokeys reg0" for reg xs
    using that
  proof (induction xs arbitrary: reg)
    case Nil
    then show ?case by (simp add: map_progress_refl)
  next
    case (Cons n xs)
    have "card (gokeys reg0 - set []) < length reg + 1"
      using erase_gokeys [OF Cons.prems(1)] by (metis Suc_eq_plus1 card_image_le card_length
          finite_set le_trans less_Suc_eq_le set_empty Diff_empty)
    moreover have "n \<in> gokeys reg0" "n \<notin> set []" using Cons.prems(2) by simp_all
    ultimately obtain r v where r: "build_model_maps (length reg + 1) (Some n) (reg, []) = Inr (r, v)"
      "map_progress reg0 reg r" "\<forall>pn. mapped reg0 r n pn"
      using build_model_maps_ok [OF assms Cons.prems(1)] by blast
    have "erase r = erase reg0" using r(2) by (simp add: map_progress_def)
    then obtain reg' where "fold_res (\<lambda>name reg. BuildPresetAliasMapsForModel (Some name) reg) xs r = Inr reg'"
      "map_progress reg0 r reg'" "\<forall>n \<in> set xs. \<forall>pn. mapped reg0 reg' n pn"
      using Cons.IH [of r] Cons.prems(2) by (meson list.set_intros(2) order_trans set_subset_Cons)
    moreover from this r(3) have "\<forall>pn. mapped reg0 reg' n pn" by (simp add: map_progress_def)
    moreover have "BuildPresetAliasMapsForModel (Some n) reg = Inr r"
      using r(1) by (simp add: BuildPresetAliasMapsForModel_def)
    ultimately show ?case using r(2) map_progress_trans by auto
  qed
  from this [of reg0 "map fst reg0"] show ?thesis
    by (auto simp: BuildPresetAliasMaps_def map_progress_def)
qed

lemma validated_walkable:
  assumes "ValidateAllPresets reg = Inr ()" "linked reg" "wf_refs reg"
  shows "walkable reg"
  unfolding walkable_def
proof (intro conjI allI impI)
  show "wf_refs reg" by fact
next
  fix n m pn p
  assume m: "map_of reg n = Some m" and p: "(pn, p) \<in> set (Presets m)"
  obtain u where "fold_res (\<lambda>(presetName, p) _.
       bind_res (validatePresetGraph reg n presetName) (\<lambda>_. Inr ())) (Presets m) u = Inr ()"
    using fold_res_each [OF assms(1) [unfolded ValidateAllPresets_def] map_of_SomeD [OF m]] by auto
  from fold_res_each [OF this p] obtain w where w: "validatePresetGraph reg n pn = Inr w"
    by (auto simp: res_simps)
  have "\<forall>x. modelCount [(n, 1)] x = count_list [Some n] (Some x)" by (simp add: modelCount_def)
  from collect_dfs_ok [OF assms(2) w [unfolded validatePresetGraph_def] refl this]
  show "\<exists>ps. collectPresetRelationPaths reg n pn = Inr ps"
    by (simp add: collectPresetRelationPaths_def)
qed

section \<open>The numbering\<close>

lemma sort_paths_distinct: "distinct ps \<Longrightarrow> distinct (sort_key path_order ps)"
  by simp

lemma inj_alias_name: "inj alias_name"
  by (simp add: inj_def)

lemma map_of_zip_nth:
  "distinct ks \<Longrightarrow> length vs = length ks \<Longrightarrow>
   map_of (zip ks vs) k = Some v \<longleftrightarrow> (\<exists>i < length ks. ks ! i = k \<and> vs ! i = v)"
  by (subst map_of_eq_Some_iff) (auto simp: set_zip)

lemma number_paths_at:
  assumes "distinct ps"
  shows "alias_at (number_paths ps) p = Some a \<longleftrightarrow>
    (\<exists>i < length ps. sort_key path_order ps ! i = p \<and> a = alias_name i)"
proof -
  let ?ks = "sort_key path_order ps" and ?vs = "map alias_name [0..<length ps]"
  have "map_of (zip ?ks ?vs) p = Some a \<longleftrightarrow> (\<exists>i < length ?ks. ?ks ! i = p \<and> ?vs ! i = a)"
    by (rule map_of_zip_nth) (use assms in auto)
  then show ?thesis by (auto simp: number_paths_def Let_def)
qed

lemma number_paths_wf:
  assumes "distinct ps"
  shows "am_wf (number_paths ps) \<and> gokeys (PathToAlias (number_paths ps)) = set ps"
proof -
  have d: "distinct (map alias_name [0..<length ps])"
    using inj_on_subset [OF inj_alias_name subset_UNIV] by (simp add: distinct_map)
  have z: "set (zip as ps) = (\<lambda>(p, a). (a, p)) ` set (zip ps as)"
    for ps as :: "string list" by (force simp: set_zip)
  have k: "gokeys (zip xs (map alias_name [0..<length ps])) = set xs" if "length xs = length ps" for xs :: "string list"
  proof -
    have "map fst (zip xs (map alias_name [0..<length ps])) = xs" using that by simp
    then show ?thesis by (metis list.set_map)
  qed
  have w: "gowf (PathToAlias (number_paths ps))" "gowf (AliasToPath (number_paths ps))"
    using assms d by (simp_all add: number_paths_def Let_def)
  have "gokeys (PathToAlias (number_paths ps)) = set ps"
    using k [of "sort_key path_order ps"] by (simp add: number_paths_def Let_def)
  moreover have "set (AliasToPath (number_paths ps)) = (\<lambda>(p, a). (a, p)) ` set (PathToAlias (number_paths ps))"
    unfolding number_paths_def Let_def alias_map.simps by (rule z)
  ultimately show ?thesis using w by (simp add: am_wf_def)
qed

text \<open>Shallower paths have smaller numbers, so a path comes after the one it extends.\<close>

lemma number_paths_order:
  assumes "distinct ps" "alias_at (number_paths ps) p = Some (alias_name i)"
    and "alias_at (number_paths ps) q = Some (alias_name j)" "path_order p < path_order q"
  shows "i < j"
proof (rule ccontr)
  assume "\<not> i < j"
  have i: "i < length ps" "sort_key path_order ps ! i = p" and j: "j < length ps" "sort_key path_order ps ! j = q"
    using assms by (auto simp: number_paths_at)
  have "sorted (map path_order (sort_key path_order ps))" by simp
  from sorted_nth_mono [OF this, of j i] have "path_order q \<le> path_order p"
    using i j \<open>\<not> i < j\<close> by simp
  with assms(4) show False by simp
qed

lemma count_dots_join:
  "no_dots segs \<Longrightarrow> segs \<noteq> [] \<Longrightarrow> count_list (join_str ''.'' segs) (CHR ''.'') = length segs - 1"
proof (induction segs rule: induct_list012)
  case (3 x y zs)
  have "count_list x (CHR ''.'') = 0" using 3 by (auto simp: count_list_0_iff)
  then show ?case using 3 by (auto simp: count_list_append)
qed (auto simp: count_list_0_iff)

section \<open>Properties\<close>

text \<open>
  Validation makes the walk over a preset safe: when the registry is linked and
  \<^verbatim>\<open>validatePresetGraph\<close> accepts a preset, \<^verbatim>\<open>collectPresetRelationPaths\<close> returns the paths; it
  never follows a nil model or preset. Both are total functions here, so both walks end, also
  over reentrant relations.
\<close>
theorem validated_preset_collects:
  assumes "linked reg" "validatePresetGraph reg n pn = Inr w"
  shows "\<exists>ps. collectPresetRelationPaths reg n pn = Inr ps"
proof -
  have "\<forall>x. modelCount [(n, 1)] x = count_list [Some n] (Some x)" by (simp add: modelCount_def)
  from collect_dfs_ok [OF assms(1) assms(2) [unfolded validatePresetGraph_def] refl this]
  show ?thesis by (simp add: collectPresetRelationPaths_def)
qed

text \<open>A tree of categories: a reentrant relation of a model to itself.\<close>

definition demo_tree :: registry where
  "demo_tree =
     [(''Node'', empty_model\<lparr>MName := ''Node'',
         Relations := [(''parent'', empty_relation\<lparr>RType := ''belongs_to'', RModel := ''Node'',
            ModelRef := Some ''Node'', Reentrant := True, RMaxDepth := 2\<rparr>)],
         Presets := [(''card'', empty_preset\<lparr>Fields :=
            [empty_field\<lparr>FSource := ''parent'', FType := ''preset'', NestedPreset := ''card''\<rparr>]\<rparr>)]\<rparr>)]"

declare dfsPresetWithPolicy.simps [code] collect_dfs.simps [code]

theorem validated_preset_collects_witness:
  "\<exists>ps. collectPresetRelationPaths demo_tree ''Node'' ''card'' = Inr ps"
proof -
  have "linked demo_tree" by code_simp
  moreover have "is_ok (validatePresetGraph demo_tree ''Node'' ''card'')" by code_simp
  ultimately show ?thesis using validated_preset_collects by (auto simp: is_ok_iff)
qed

text \<open>
  The collected paths are distinct, each leads over existing relations that are not
  polymorphic, and with a path the path before its last dot is collected too
  (\<^verbatim>\<open>collectPresetRelationPaths\<close>, for relation names without dots).
\<close>
theorem collected_paths_closed:
  assumes "collectPresetRelationPaths reg n pn = Inr ps" "plain_names reg"
  shows "distinct ps \<and> (\<forall>p \<in> set ps. \<exists>segs. segs \<noteq> [] \<and> p = join_str ''.'' segs \<and>
     plain_path reg (map_of reg n) segs \<and>
     (butlast segs \<noteq> [] \<longrightarrow> join_str ''.'' (butlast segs) \<in> set ps))"
  using collectPresetRelationPaths_closed [OF assms]
  unfolding paths_closed_def rel_path_def by blast

theorem collected_paths_closed_witness:
  "collectPresetRelationPaths demo_tree ''Node'' ''card'' = Inr [''parent'', ''parent.parent''] \<and>
   distinct [''parent'', ''parent.parent'']"
proof -
  have run: "collectPresetRelationPaths demo_tree ''Node'' ''card'' = Inr [''parent'', ''parent.parent'']"
    by code_simp
  moreover have "plain_names demo_tree" by code_simp
  ultimately show ?thesis using collected_paths_closed by blast
qed

text \<open>
  After a successful validation of a linked registry, building the alias maps of the presets
  succeeds (the recursion over the models needs no more fuel than there are models), changes
  nothing else in the registry, and gives every preset the map of its collected paths
  (\<^verbatim>\<open>BuildPresetAliasMaps\<close>).
\<close>
theorem preset_maps_built:
  assumes "ValidateAllPresets reg = Inr ()" "linked reg" "wf_refs reg"
  shows "\<exists>reg'. BuildPresetAliasMaps reg = Inr reg' \<and> erase reg' = erase reg \<and>
    (\<forall>n m pn p. map_of reg' n = Some m \<longrightarrow> map_of (Presets m) pn = Some p \<longrightarrow>
       (\<exists>ps. collectPresetRelationPaths reg n pn = Inr ps \<and> FieldsAliasMap p = Some (number_paths ps)))"
proof -
  note walk = validated_walkable [OF assms]
  from BuildPresetAliasMaps_ok [OF walk] obtain reg' where r: "BuildPresetAliasMaps reg = Inr reg'"
    "erase reg' = erase reg" "\<forall>n \<in> gokeys reg. \<forall>pn. mapped reg reg' n pn" by blast
  have "\<exists>ps. collectPresetRelationPaths reg n pn = Inr ps \<and> FieldsAliasMap p = Some (number_paths ps)"
    if m: "map_of reg' n = Some m" and p: "map_of (Presets m) pn = Some p" for n m pn p
  proof -
    obtain m0 where m0: "map_of reg n = Some m0" "erase_model m = erase_model m0"
      using erase_lookup [OF r(2) m] by blast
    have "pn \<in> gokeys (Presets m0)"
      using map_of_Some_gokeys [OF p] erase_preset_names [OF m0(2)] by simp
    then obtain p0 where "(pn, p0) \<in> set (Presets m0)" by auto
    then obtain ps where ps: "collectPresetRelationPaths reg n pn = Inr ps"
      using walk m0(1) unfolding walkable_def by blast
    have "mapped reg reg' n pn" using r(3) map_of_Some_gokeys [OF m0(1)] by blast
    then show ?thesis using m p ps by (simp add: mapped_def preset_map_def)
  qed
  with r(1,2) show ?thesis by blast
qed

theorem preset_maps_built_witness: "\<exists>reg'. BuildPresetAliasMaps demo_tree = Inr reg'"
proof -
  have "ValidateAllPresets demo_tree = Inr ()" "linked demo_tree" "wf_refs demo_tree" by code_simp+
  from preset_maps_built [OF this] show ?thesis by blast
qed

text \<open>
  The numbering of a preset's paths is a bijection between the paths and \<^verbatim>\<open>t0\<close>, \<^verbatim>\<open>t1\<close>, ...
  without gaps, in which a path has a smaller number than the paths it is a proper prefix of
  (\<^verbatim>\<open>buildPresetAliasMapsForModel\<close>).
\<close>
theorem number_paths_parents_first:
  assumes "distinct ps"
  shows "am_wf (number_paths ps) \<and> gokeys (PathToAlias (number_paths ps)) = set ps \<and>
    (\<forall>p a. alias_at (number_paths ps) p = Some a \<longrightarrow> (\<exists>i < length ps. a = alias_name i)) \<and>
    (\<forall>segs seg i j. no_dots (segs @ [seg]) \<longrightarrow> segs \<noteq> [] \<longrightarrow>
       alias_at (number_paths ps) (join_str ''.'' segs) = Some (alias_name i) \<longrightarrow>
       alias_at (number_paths ps) (join_str ''.'' (segs @ [seg])) = Some (alias_name j) \<longrightarrow> i < j)"
proof (intro conjI allI impI)
  show "am_wf (number_paths ps)" "gokeys (PathToAlias (number_paths ps)) = set ps"
    using number_paths_wf [OF assms] by auto
  show "\<exists>i < length ps. a = alias_name i" if "alias_at (number_paths ps) p = Some a" for p a
    using number_paths_at [OF assms] that by blast
  fix segs seg i j
  assume h: "no_dots (segs @ [seg])" "segs \<noteq> []"
    "alias_at (number_paths ps) (join_str ''.'' segs) = Some (alias_name i)"
    "alias_at (number_paths ps) (join_str ''.'' (segs @ [seg])) = Some (alias_name j)"
  have "count_list (join_str ''.'' segs) (CHR ''.'') < count_list (join_str ''.'' (segs @ [seg])) (CHR ''.'')"
    using count_dots_join [of segs] count_dots_join [of "segs @ [seg]"] h(1,2) by (cases segs) auto
  then have "path_order (join_str ''.'' segs) < path_order (join_str ''.'' (segs @ [seg]))"
    by (simp add: path_order_def less_prod_def)
  from number_paths_order [OF assms h(3,4) this] show "i < j" .
qed

theorem number_paths_parents_first_witness:
  "am_wf (number_paths [''a.b'', ''a''])"
  using number_paths_parents_first [of "[''a.b'', ''a'']"] by simp

end
