(* ===== verification/Preset_Inherit.thy ===== *)
theory Preset_Inherit
  imports Model_Types
begin

text \<open>
  Loading a model: the inheritance of presets and the inclusion of templates of
  \<^verbatim>\<open>internal/model/loader.go\<close>.
\<close>

section \<open>Merging fields\<close>

definition keyOf :: "preset_field \<Rightarrow> string" where
  "keyOf f = (if \<not> is_blank (FAlias f) then FAlias f else FSource f)"

text \<open>
  \<^verbatim>\<open>mergeFields\<close> of \<^verbatim>\<open>resolvePresetInheritance\<close>. \<open>index\<close> is the code's map from a key to its
  position: the last one when a key occurs twice.
\<close>

definition field_index :: "preset_field list \<Rightarrow> (string, nat) gomap" where
  "field_index dst = fold (\<lambda>i index. AList.update (keyOf (dst ! i)) i index) [0..<length dst] []"

fun merge_field ::
  "preset_field \<Rightarrow> preset_field list \<times> (string, nat) gomap \<Rightarrow> preset_field list \<times> (string, nat) gomap" where
  "merge_field f (dst, index) =
     (case map_of index (keyOf f) of
        Some pos \<Rightarrow> (dst[pos := f], index)
      | None \<Rightarrow> (dst @ [f], AList.update (keyOf f) (length dst) index))"

definition mergeFields :: "preset_field list \<Rightarrow> preset_field list \<Rightarrow> preset_field list" where
  "mergeFields dst src = fst (fold merge_field src (dst, field_index dst))"

section \<open>Inheritance\<close>

definition parseParents :: "string \<Rightarrow> string list" where
  "parseParents s =
     (if s = [] then []
      else dedup_from [] (filter (\<lambda>p. p \<noteq> []) (map trim_space (split_char (CHR '','') s))))"

definition preset_parents :: "data_preset \<Rightarrow> string list" where
  "preset_parents p = parseParents (trim_space (Extends p))"

datatype inherit_error = CyclicExtends string | NoSuchPreset string

type_synonym field_cache = "(string, preset_field list) gomap"

text \<open>
  The recursive closure \<^verbatim>\<open>dfs\<close>. The map \<^verbatim>\<open>stack\<close> is true exactly for the presets whose call has
  not returned, which is the list of ancestors. An entry of \<^verbatim>\<open>cache\<close> is also written into the
  preset, and a preset without an entry has the fields it was loaded with.
\<close>

function inherit_dfs ::
  "model \<Rightarrow> string list \<Rightarrow> string \<Rightarrow> field_cache \<Rightarrow> inherit_error + preset_field list \<times> field_cache" where
  "inherit_dfs m stack name cache =
     (case map_of cache name of
        Some fs \<Rightarrow> Inr (fs, cache)
      | None \<Rightarrow>
        if name \<in> set stack then Inl (CyclicExtends name)
        else (case map_of (Presets m) name of
          None \<Rightarrow> Inl (NoSuchPreset name)
        | Some p \<Rightarrow>
          (case fold_res (\<lambda>parent (result, cache).
                  (case inherit_dfs m (name # stack) parent cache of
                     Inl e \<Rightarrow> Inl e
                   | Inr (parentFields, cache') \<Rightarrow> Inr (mergeFields result parentFields, cache')))
                (preset_parents p) ([], cache) of
             Inl e \<Rightarrow> Inl e
           | Inr (result, cache') \<Rightarrow>
               (let result' = (if length (Fields p) > 0 then mergeFields result (Fields p) else result)
                in Inr (result', AList.update name result' cache')))))"
  by pat_completeness auto
termination
proof (relation "measure (\<lambda>(m, stack, name, cache). card (gokeys (Presets m) - set stack))", simp, goal_cases)
  case (1 m stack name cache p parent u result c)
  then have "gokeys (Presets m) - set (name # stack) \<subset> gokeys (Presets m) - set stack"
    using map_of_Some_gokeys [of "Presets m" name p] by auto
  then show ?case by (simp add: psubset_card_mono)
qed

declare inherit_dfs.simps [simp del]

definition inherit_all :: "model \<Rightarrow> inherit_error + field_cache" where
  "inherit_all m =
     fold_res (\<lambda>(name, p) cache. (case inherit_dfs m [] name cache of Inl e \<Rightarrow> Inl e | Inr (fs, cache') \<Rightarrow> Inr cache')) (Presets m) []"

definition set_fields :: "field_cache \<Rightarrow> model \<Rightarrow> model" where
  "set_fields cache m =
     m\<lparr>Presets := map (\<lambda>(n, p). (n, case map_of cache n of None \<Rightarrow> p | Some fs \<Rightarrow> p\<lparr>Fields := fs\<rparr>))
                   (Presets m)\<rparr>"

definition resolvePresetInheritance :: "model \<Rightarrow> inherit_error + model" where
  "resolvePresetInheritance m =
     (if Presets m = [] then Inr m else (case inherit_all m of Inl e \<Rightarrow> Inl e | Inr cache \<Rightarrow> Inr (set_fields cache m)))"

section \<open>Templates\<close>

definition is_skip :: "preset_field \<Rightarrow> bool" where
  "is_skip f = (trim_space (FAlias f) = ''skip'')"

text \<open>The \<^verbatim>\<open>mergeFields\<close> of \<^verbatim>\<open>applyTemplateIncludes\<close>: fields marked \<^verbatim>\<open>skip\<close> are left out.\<close>

definition mergeTemplateFields :: "preset_field list \<Rightarrow> preset_field list \<Rightarrow> preset_field list" where
  "mergeTemplateFields dst src =
     (let dst' = filter (\<lambda>f. \<not> is_skip f) dst
      in fst (fold (\<lambda>f st. if is_skip f then st else merge_field f st) src (dst', field_index dst')))"

definition mergeRelation :: "model_relation \<Rightarrow> model_relation \<Rightarrow> model_relation" where
  "mergeRelation dst src =
     dst\<lparr>RType := (if RType dst = [] then RType src else RType dst),
         RModel := (if RModel dst = [] then RModel src else RModel dst),
         RTable := (if RTable dst = [] then RTable src else RTable dst),
         FK := (if FK dst = [] then FK src else FK dst),
         PK := (if PK dst = [] then PK src else PK dst),
         Through := (if Through dst = [] then Through src else Through dst),
         RWhere := (if RWhere dst = [] then RWhere src else RWhere dst),
         ThroughWhere := (if ThroughWhere dst = [] then ThroughWhere src else ThroughWhere dst),
         ROrder := (if ROrder dst = [] then ROrder src else ROrder dst),
         Reentrant := (if \<not> Reentrant dst then Reentrant src else Reentrant dst),
         RMaxDepth := (if RMaxDepth dst = 0 then RMaxDepth src else RMaxDepth dst),
         Polymorphic := (if \<not> Polymorphic dst then Polymorphic src else Polymorphic dst),
         TypeColumn := (if TypeColumn dst = [] then TypeColumn src else TypeColumn dst)\<rparr>"

definition merge_template_relations ::
  "(string, model_relation) gomap \<Rightarrow> (string, model_relation) gomap \<Rightarrow> (string, model_relation) gomap" where
  "merge_template_relations tpl rels =
     fold (\<lambda>(k, v) rels. case map_of rels k of
        None \<Rightarrow> AList.update k v rels
      | Some existing \<Rightarrow> AList.update k (mergeRelation existing v) rels) tpl rels"

definition merge_template_presets ::
  "(string, data_preset) gomap \<Rightarrow> (string, data_preset) gomap \<Rightarrow> (string, data_preset) gomap" where
  "merge_template_presets tpl presets =
     fold (\<lambda>(name, tp) presets. case map_of presets name of
        Some existing \<Rightarrow>
          AList.update name (existing\<lparr>Fields := mergeTemplateFields (Fields tp) (Fields existing)\<rparr>) presets
      | None \<Rightarrow> AList.update name tp presets) tpl presets"

section \<open>Files\<close>

text \<open>
  Reading and parsing a file, and decoding the tree into a model, is the work of \<^verbatim>\<open>os\<close> and
  \<^verbatim>\<open>yaml.v3\<close>; \<open>read_yaml\<close> and \<open>decode\<close> stand for it. A node of the tree has the kinds the
  code distinguishes. \<^verbatim>\<open>node.Content\<close> of a mapping holds keys and values in turn; an odd length
  would make the code panic and is \<open>OddMapping\<close>.
\<close>

datatype ykind = DocumentNode | MappingNode | SequenceNode | ScalarNode | AliasNode

datatype ynode = YNode (ykind: ykind) (yvalue: string) (ycontent: "ynode list")

datatype yaml_error = UnknownKey string string | UnknownTypeValue string | OddMapping

definition allowed_keys :: "string \<Rightarrow> string list option" where
  "allowed_keys context =
     (if context = ''model'' then Some [''table'', ''relations'', ''presets'', ''include'', ''computable'', ''aggregatable'', ''aliases'']
      else if context = ''relation'' then Some [''model'', ''type'', ''fk'', ''pk'', ''table'', ''where'', ''order'', ''through'', ''through_where'', ''reentrant'', ''max_depth'', ''polymorphic'', ''type_column'']
      else if context = ''preset'' then Some [''extends'', ''fields'']
      else if context = ''field'' then Some [''source'', ''type'', ''alias'', ''preset'', ''where'', ''internal'', ''formatter'', ''localize'', ''max_depth'']
      else if context = ''computable-entry'' then Some [''source'', ''type'', ''where'']
      else if context = ''aggregatable-entry'' then Some [''functions'', ''type'']
      else None)"

definition allowedFieldTypeValues :: "string list" where
  "allowedFieldTypeValues = [''int'', ''string'', ''formatter'', ''preset'', ''bool'', ''float'', ''time'',
     ''datetime'', ''date'', ''UUID'', ''nested_field'', ''computable'']"

definition next_context :: "string \<Rightarrow> string \<Rightarrow> string" where
  "next_context context key =
     (if context = ''model'' \<and> key = ''relations'' then ''relations-map''
      else if context = ''relations-map'' then ''relation''
      else if context = ''model'' \<and> key = ''presets'' then ''presets-map''
      else if context = ''presets-map'' then ''preset''
      else if context = ''preset'' \<and> key = ''fields'' then ''fields-seq''
      else if context = ''field'' then ''field-value''
      else if context = ''model'' \<and> key = ''computable'' then ''computable-map''
      else if context = ''computable-map'' then ''computable-entry''
      else if context = ''model'' \<and> key = ''aggregatable'' then ''aggregatable-map''
      else if context = ''aggregatable-map'' then ''aggregatable-entry''
      else if context = ''model'' \<and> key = ''aliases'' then ''aliases-map''
      else context)"

fun validateYAMLNode :: "ynode \<Rightarrow> string \<Rightarrow> yaml_error + unit"
  and validate_nodes :: "ynode list \<Rightarrow> string \<Rightarrow> yaml_error + unit"
  and validate_pairs :: "ynode list \<Rightarrow> string \<Rightarrow> yaml_error + unit" where
  "validateYAMLNode (YNode k v content) context =
     (case k of
        DocumentNode \<Rightarrow> validate_nodes content ''model''
      | MappingNode \<Rightarrow> validate_pairs content context
      | SequenceNode \<Rightarrow> validate_nodes content (if context = ''fields-seq'' then ''field'' else context)
      | _ \<Rightarrow> Inr ())"
| "validate_nodes [] context = Inr ()"
| "validate_nodes (n # ns) context =
     (case validateYAMLNode n context of Inl e \<Rightarrow> Inl e | Inr _ \<Rightarrow> validate_nodes ns context)"
| "validate_pairs [] context = Inr ()"
| "validate_pairs [keyNode] context = Inl OddMapping"
| "validate_pairs (keyNode # valNode # rest) context =
     (let key = yvalue keyNode
      in if (case allowed_keys context of None \<Rightarrow> False | Some ks \<Rightarrow> key \<notin> set ks)
           then Inl (UnknownKey key context)
         else if (context = ''field'' \<or> context = ''computable-entry'') \<and> key = ''type'' \<and>
              yvalue valNode \<notin> set allowedFieldTypeValues
           then Inl (UnknownTypeValue (yvalue valNode))
         else (case validateYAMLNode valNode (next_context context key) of
             Inl e \<Rightarrow> Inl e
           | Inr _ \<Rightarrow> validate_pairs rest context))"

datatype load_error =
    ReadError string string
  | EmptyYaml string
  | YamlError string yaml_error
  | DecodeError string string
  | InheritError inherit_error

text \<open>The common part of a model file and a template: read, check, decode.\<close>

definition load_file ::
  "(string \<Rightarrow> string + ynode) \<Rightarrow> (ynode \<Rightarrow> string + model) \<Rightarrow> string \<Rightarrow> load_error + model" where
  "load_file read_yaml decode path =
     (case read_yaml path of
        Inl e \<Rightarrow> Inl (ReadError path e)
      | Inr root \<Rightarrow>
        (case ycontent root of
           [] \<Rightarrow> Inl (EmptyYaml path)
         | c # _ \<Rightarrow>
           (case validateYAMLNode c ''model'' of
              Inl e \<Rightarrow> Inl (YamlError path e)
            | Inr _ \<Rightarrow> (case decode root of Inl e \<Rightarrow> Inl (DecodeError path e) | Inr m \<Rightarrow> Inr m))))"

definition apply_template :: "model \<Rightarrow> model \<Rightarrow> model" where
  "apply_template tpl m =
     m\<lparr>Relations := merge_template_relations (Relations tpl) (Relations m),
       Presets := merge_template_presets (Presets tpl) (Presets m)\<rparr>"

definition applyTemplateIncludes ::
  "(string \<Rightarrow> string + ynode) \<Rightarrow> (ynode \<Rightarrow> string + model) \<Rightarrow> string \<Rightarrow> model \<Rightarrow> load_error + model" where
  "applyTemplateIncludes read_yaml decode baseDir m =
     fold_res (\<lambda>inc m.
        (case load_file read_yaml decode (baseDir @ ''/templates/'' @ inc @ ''.yml'') of
           Inl e \<Rightarrow> Inl e
         | Inr tpl \<Rightarrow>
           (case resolvePresetInheritance tpl of
              Inl e \<Rightarrow> Inl (InheritError e)
            | Inr tpl' \<Rightarrow> Inr (apply_template tpl' m)))) (Includes m) m"

text \<open>
  \<^verbatim>\<open>LoadModelsFromDir\<close> on the files that \<^verbatim>\<open>filepath.Glob\<close> found, each with the base name that
  becomes the model's name.
\<close>

definition LoadModelsFromDir ::
  "(string \<Rightarrow> string + ynode) \<Rightarrow> (ynode \<Rightarrow> string + model) \<Rightarrow> string \<Rightarrow> (string \<times> string) list \<Rightarrow>
   registry \<Rightarrow> load_error + registry" where
  "LoadModelsFromDir read_yaml decode dir files reg =
     fold_res (\<lambda>(path, name) reg.
        bind_res (load_file read_yaml decode path) (\<lambda>m.
        bind_res (applyTemplateIncludes read_yaml decode dir m) (\<lambda>m1.
        (case resolvePresetInheritance m1 of
           Inl e \<Rightarrow> Inl (InheritError e)
         | Inr m2 \<Rightarrow> Inr (AList.update name (m2\<lparr>MName := name\<rparr>) reg))))) files reg"

section \<open>What merging does\<close>

text \<open>The index finds exactly the keys of the list, at a position that has the key.\<close>

definition index_ok :: "preset_field list \<Rightarrow> (string, nat) gomap \<Rightarrow> bool" where
  "index_ok dst index =
     (\<forall>k. (case map_of index k of
             None \<Rightarrow> k \<notin> keyOf ` set dst
           | Some i \<Rightarrow> i < length dst \<and> keyOf (dst ! i) = k))"

lemma field_index_ok: "index_ok dst (field_index dst)"
proof -
  have "\<forall>k. (case map_of (fold (\<lambda>i index. AList.update (keyOf (dst ! i)) i index) [0..<n] []) k of
             None \<Rightarrow> k \<notin> keyOf ` set (take n dst)
           | Some i \<Rightarrow> i < n \<and> keyOf (dst ! i) = k)" if "n \<le> length dst" for n
    using that
  proof (induction n)
    case 0
    then show ?case by simp
  next
    case (Suc n)
    show ?case
    proof
      fix k
      show "case map_of (fold (\<lambda>i index. AList.update (keyOf (dst ! i)) i index) [0..<Suc n] []) k of
             None \<Rightarrow> k \<notin> keyOf ` set (take (Suc n) dst)
           | Some i \<Rightarrow> i < Suc n \<and> keyOf (dst ! i) = k"
        using Suc.IH [THEN spec, of k] Suc.prems
        by (auto simp: gomap_simps take_Suc_conv_app_nth split: option.splits)
    qed
  qed
  from this [OF order_refl] show ?thesis
    unfolding index_ok_def field_index_def take_all [OF order_refl] .
qed

lemma merge_field_ok:
  assumes "index_ok dst index" "merge_field f (dst, index) = (dst', index')"
  shows "index_ok dst' index'"
    and "map keyOf dst' = (if keyOf f \<in> keyOf ` set dst then map keyOf dst else map keyOf dst @ [keyOf f])"
proof -
  have k: "case map_of index (keyOf f) of None \<Rightarrow> keyOf f \<notin> keyOf ` set dst
     | Some i \<Rightarrow> i < length dst \<and> keyOf (dst ! i) = keyOf f"
    using assms(1) by (simp add: index_ok_def)
  show "index_ok dst' index'"
  proof (cases "map_of index (keyOf f)")
    case None
    then have d: "dst' = dst @ [f]" "index' = AList.update (keyOf f) (length dst) index"
      using assms(2) by auto
    show ?thesis
      unfolding index_ok_def
    proof
      fix x
      show "case map_of index' x of None \<Rightarrow> x \<notin> keyOf ` set dst'
         | Some i \<Rightarrow> i < length dst' \<and> keyOf (dst' ! i) = x"
        using assms(1) [unfolded index_ok_def, rule_format, of x] d
        by (auto simp: gomap_simps nth_append split: option.splits)
    qed
  next
    case (Some i)
    then have d: "dst' = dst[i := f]" "index' = index" "i < length dst" "keyOf (dst ! i) = keyOf f"
      using assms(2) k by auto
    have m: "map keyOf dst' = map keyOf dst" using d by (metis list_update_id map_update)
    then have "keyOf ` set dst' = keyOf ` set dst" by (metis list.set_map)
    moreover have "keyOf (dst' ! j) = keyOf (dst ! j)" if "j < length dst" for j
      using m that by (metis length_map nth_map)
    moreover have "length dst' = length dst" using d by simp
    ultimately have "case map_of index' x of None \<Rightarrow> x \<notin> keyOf ` set dst'
         | Some i \<Rightarrow> i < length dst' \<and> keyOf (dst' ! i) = x" for x
      using assms(1) [unfolded index_ok_def, rule_format, of x] d(2) by (simp split: option.splits)
    then show ?thesis by (simp add: index_ok_def)
  qed
  show "map keyOf dst' = (if keyOf f \<in> keyOf ` set dst then map keyOf dst else map keyOf dst @ [keyOf f])"
  proof (cases "map_of index (keyOf f)")
    case None
    then show ?thesis using k assms(2) by auto
  next
    case (Some i)
    then have "dst' = dst[i := f]" "i < length dst" "keyOf (dst ! i) = keyOf f" using assms(2) k by auto
    then show ?thesis by (metis imageI list_update_id map_update nth_mem)
  qed
qed

text \<open>
  The keys of a merge: the old ones where they were, then the new ones in order of appearance.
\<close>

lemma fold_merge_keys:
  "index_ok dst index \<Longrightarrow> fold merge_field src (dst, index) = (dst', index') \<Longrightarrow>
   index_ok dst' index' \<and> map keyOf dst' = map keyOf dst @ dedup_from (map keyOf dst) (map keyOf src)"
proof (induction src arbitrary: dst index)
  case Nil
  then show ?case by simp
next
  case (Cons f src)
  obtain d1 i1 where s: "merge_field f (dst, index) = (d1, i1)" by (cases "merge_field f (dst, index)")
  note ok = merge_field_ok [OF Cons.prems(1) s]
  have dd: "dedup_from a xs = dedup_from b xs" if "set a = set b" for a b and xs :: "string list"
    using that
  proof (induction a xs arbitrary: b rule: dedup_from.induct)
    case (2 seen x xs)
    then show ?case by (auto intro!: 2)
  qed simp
  have "index_ok dst' index' \<and> map keyOf dst' = map keyOf d1 @ dedup_from (map keyOf d1) (map keyOf src)"
    by (rule Cons.IH [OF ok(1)]) (use Cons.prems(2) s in simp)
  then show ?case
    using ok(2) dd [of "map keyOf dst @ [keyOf f]" "keyOf f # map keyOf dst"] by (auto split: if_splits)
qed

lemma mergeFields_keys:
  "map keyOf (mergeFields dst src) = map keyOf dst @ dedup_from (map keyOf dst) (map keyOf src)"
  using fold_merge_keys [OF field_index_ok, of src dst]
  by (cases "fold merge_field src (dst, field_index dst)") (simp add: mergeFields_def)

lemma mergeFields_distinct:
  "distinct (map keyOf dst) \<Longrightarrow> distinct (map keyOf (mergeFields dst src))"
  by (auto simp: mergeFields_keys distinct_dedup_from set_dedup_from)

lemma mergeFields_Nil [simp]: "mergeFields dst [] = dst"
  by (simp add: mergeFields_def)

text \<open>The field that a list has for a key, and what a merge makes of it: the last of \<open>src\<close> wins.\<close>

definition field_at :: "preset_field list \<Rightarrow> string \<Rightarrow> preset_field option" where
  "field_at fs = map_of (map (\<lambda>f. (keyOf f, f)) fs)"

lemma field_at_None: "field_at fs k = None \<longleftrightarrow> k \<notin> keyOf ` set fs"
  by (auto simp: field_at_def map_of_eq_None_iff image_image)

lemma field_at_nth:
  "distinct (map keyOf fs) \<Longrightarrow> i < length fs \<Longrightarrow> keyOf (fs ! i) = k \<Longrightarrow> field_at fs k = Some (fs ! i)"
  unfolding field_at_def by (rule map_of_is_SomeI) (auto simp: comp_def)

lemma field_at_merge_field:
  assumes "index_ok dst index" "merge_field f (dst, index) = (dst', index')" "distinct (map keyOf dst)"
  shows "field_at dst' k = (if k = keyOf f then Some f else field_at dst k)"
proof -
  have k: "case map_of index (keyOf f) of None \<Rightarrow> keyOf f \<notin> keyOf ` set dst
     | Some i \<Rightarrow> i < length dst \<and> keyOf (dst ! i) = keyOf f"
    using assms(1) by (simp add: index_ok_def)
  show ?thesis
  proof (cases "map_of index (keyOf f)")
    case None
    then have "dst' = dst @ [f]" "field_at dst (keyOf f) = None" using k assms(2) by (auto simp: field_at_None)
    then show ?thesis by (auto simp: field_at_def map_add_def split: option.split)
  next
    case (Some i)
    then have d: "dst' = dst[i := f]" "i < length dst" "keyOf (dst ! i) = keyOf f" using assms(2) k by auto
    then have m: "map keyOf dst' = map keyOf dst" by (metis list_update_id map_update)
    show ?thesis
    proof (cases "\<exists>j < length dst. keyOf (dst ! j) = k")
      case True
      then obtain j where j: "j < length dst" "keyOf (dst ! j) = k" by auto
      have "keyOf (dst' ! j) = k" using j m by (metis length_map nth_map)
      then have "field_at dst' k = Some (dst' ! j)" "field_at dst k = Some (dst ! j)"
        using field_at_nth assms(3) m j d by auto
      moreover have "k = keyOf f \<longleftrightarrow> j = i"
        using nth_eq_iff_index_eq [of "map keyOf dst" j i] assms(3) j d by auto
      ultimately show ?thesis using d j by auto
    next
      case False
      then have "k \<notin> keyOf ` set dst" by (auto simp: in_set_conv_nth)
      moreover have "keyOf ` set dst' = keyOf ` set dst" using m by (metis list.set_map)
      ultimately show ?thesis using False d by (metis field_at_None)
    qed
  qed
qed

lemma mergeFields_at:
  assumes "distinct (map keyOf dst)"
  shows "field_at (mergeFields dst src) k =
    (case field_at (rev src) k of None \<Rightarrow> field_at dst k | Some f \<Rightarrow> Some f)"
proof -
  have "index_ok dst index \<Longrightarrow> distinct (map keyOf dst) \<Longrightarrow> fold merge_field src (dst, index) = (dst', index') \<Longrightarrow>
      field_at dst' k = (case field_at (rev src) k of None \<Rightarrow> field_at dst k | Some f \<Rightarrow> Some f)"
    for index dst' index'
    using assms
  proof (induction src arbitrary: dst index)
    case Nil
    then show ?case by (simp add: field_at_def)
  next
    case (Cons f src)
    obtain d1 i1 where s: "merge_field f (dst, index) = (d1, i1)" by (cases "merge_field f (dst, index)")
    note ok = merge_field_ok [OF Cons.prems(1) s]
    have "distinct (map keyOf d1)" using ok(2) Cons.prems(2) by auto
    then have "field_at dst' k = (case field_at (rev src) k of None \<Rightarrow> field_at d1 k | Some f \<Rightarrow> Some f)"
      using Cons.IH [OF ok(1)] Cons.prems(3) s by simp
    moreover have "field_at (rev (f # src)) k =
        (case field_at (rev src) k of None \<Rightarrow> if k = keyOf f then Some f else None | Some g \<Rightarrow> Some g)"
      by (auto simp: field_at_def map_add_def split: option.split)
    ultimately show ?case
      using field_at_merge_field [OF Cons.prems(1) s Cons.prems(2), of k]
      by (cases "field_at (rev src) k") simp_all
  qed
  from this [OF field_index_ok assms] show ?thesis
    by (cases "fold merge_field src (dst, field_index dst)") (simp add: mergeFields_def)
qed

section \<open>The equations of inheritance\<close>

text \<open>
  What a preset inherits, by a table of the fields of its parents; \<open>cache_inv\<close>: each entry of
  the cache is what its preset inherits from other entries, and the entries are not cyclic.
\<close>

definition inherited :: "(string \<Rightarrow> preset_field list) \<Rightarrow> data_preset \<Rightarrow> preset_field list" where
  "inherited look p =
     mergeFields (fold (\<lambda>q r. mergeFields r (look q)) (preset_parents p) []) (Fields p)"

definition cached_fields :: "field_cache \<Rightarrow> string \<Rightarrow> preset_field list" where
  "cached_fields cache q = the (map_of cache q)"

definition extends_ranked :: "model \<Rightarrow> (string \<Rightarrow> nat) \<Rightarrow> string set \<Rightarrow> bool" where
  "extends_ranked m rk names =
     (\<forall>n \<in> names. \<forall>p. map_of (Presets m) n = Some p \<longrightarrow> (\<forall>q \<in> set (preset_parents p). rk q < rk n))"

definition cache_inv :: "model \<Rightarrow> field_cache \<Rightarrow> bool" where
  "cache_inv m cache =
     ((\<forall>n fs. map_of cache n = Some fs \<longrightarrow>
        (\<exists>p. map_of (Presets m) n = Some p \<and> set (preset_parents p) \<subseteq> gokeys cache \<and>
             fs = inherited (cached_fields cache) p)) \<and>
      (\<exists>rk. extends_ranked m rk (gokeys cache)))"

lemma cache_invD:
  assumes "cache_inv m cache" "map_of cache n = Some fs"
  shows "\<exists>p. map_of (Presets m) n = Some p \<and> set (preset_parents p) \<subseteq> gokeys cache \<and>
    fs = inherited (cached_fields cache) p"
  using assms(1) [unfolded cache_inv_def, THEN conjunct1, rule_format, OF assms(2)] .

lemma fold_mergeFields_cong:
  "(\<And>q. q \<in> set ps \<Longrightarrow> look q = look' q) \<Longrightarrow>
   fold (\<lambda>q r. mergeFields r (look q)) ps r = fold (\<lambda>q r. mergeFields r (look' q)) ps r"
  by (rule fold_cong [OF refl refl]) simp

lemma inherited_cong:
  "(\<And>q. q \<in> set (preset_parents p) \<Longrightarrow> look q = look' q) \<Longrightarrow> inherited look p = inherited look' p"
  using fold_mergeFields_cong [of "preset_parents p" look look'] by (simp add: inherited_def)

lemma map_le_keys: "map_of c \<subseteq>\<^sub>m map_of c' \<Longrightarrow> gokeys c \<subseteq> gokeys c'"
  by (metis dom_map_of_conv_image_fst map_le_implies_dom_le)

lemma map_le_get: "map_of c \<subseteq>\<^sub>m map_of c' \<Longrightarrow> q \<in> gokeys c \<Longrightarrow> cached_fields c' q = cached_fields c q"
proof -
  assume le: "map_of c \<subseteq>\<^sub>m map_of c'" and q: "q \<in> gokeys c"
  obtain v where "map_of c q = Some v" using gokeys_lookup [OF q] by blast
  moreover from this have "map_of c' q = Some v" using le by (auto simp: map_le_def dom_def)
  ultimately show ?thesis by (simp add: cached_fields_def)
qed

lemma parents_loop:
  assumes "\<forall>q \<in> set ps. \<forall>c fs c'. I c \<longrightarrow> dfs q c = Inr (fs, c') \<longrightarrow>
      I c' \<and> map_of c \<subseteq>\<^sub>m map_of c' \<and> map_of c' q = Some fs"
  shows "fold_res (\<lambda>q (r, c). (case dfs q c of Inl e \<Rightarrow> Inl e
       | Inr (pf, c') \<Rightarrow> Inr (mergeFields r pf, c'))) ps (r, c) = Inr (r', c') \<Longrightarrow> I c \<Longrightarrow>
    I c' \<and> map_of c \<subseteq>\<^sub>m map_of c' \<and> set ps \<subseteq> gokeys c' \<and>
    r' = fold (\<lambda>q r. mergeFields r (cached_fields c' q)) ps r"
  using assms
proof (induction ps arbitrary: r c)
  case Nil
  then show ?case by simp
next
  case (Cons q ps)
  obtain pf c1 where d: "dfs q c = Inr (pf, c1)"
    and rest: "fold_res (\<lambda>q (r, c). (case dfs q c of Inl e \<Rightarrow> Inl e
       | Inr (pf, c') \<Rightarrow> Inr (mergeFields r pf, c'))) ps (mergeFields r pf, c1) = Inr (r', c')"
    using Cons.prems(1) by (auto split: sum.splits)
  have "I c1 \<and> map_of c \<subseteq>\<^sub>m map_of c1 \<and> map_of c1 q = Some pf"
    using Cons.prems(3) [THEN bspec, OF list.set_intros(1)] Cons.prems(2) d by blast
  then have 1: "I c1" "map_of c \<subseteq>\<^sub>m map_of c1" "map_of c1 q = Some pf" by blast+
  have H: "\<forall>q \<in> set ps. \<forall>c fs c'. I c \<longrightarrow> dfs q c = Inr (fs, c') \<longrightarrow>
      I c' \<and> map_of c \<subseteq>\<^sub>m map_of c' \<and> map_of c' q = Some fs"
    by (rule ballI) (erule Cons.prems(3) [THEN bspec, OF list.set_intros(2)])
  have 2: "I c'" "map_of c1 \<subseteq>\<^sub>m map_of c'" "set ps \<subseteq> gokeys c'"
    "r' = fold (\<lambda>q r. mergeFields r (cached_fields c' q)) ps (mergeFields r pf)"
    using Cons.IH [OF rest 1(1) H] by (simp_all only: simp_thms)
  have q: "q \<in> gokeys c1" using 1(3) map_of_Some_gokeys by metis
  then have "cached_fields c' q = pf" using map_le_get [OF 2(2) q] 1(3) by (simp add: cached_fields_def)
  moreover have "q \<in> gokeys c'" using q map_le_keys 2(2) by blast
  ultimately show ?case using 1 2 map_le_trans by auto
qed

lemma cache_inv_add:
  assumes inv: "cache_inv m cache" and p: "map_of (Presets m) name = Some p"
    and par: "set (preset_parents p) \<subseteq> gokeys cache" and new: "name \<notin> gokeys cache"
    and fs: "fs = inherited (cached_fields cache) p"
  shows "cache_inv m (AList.update name fs cache) \<and> map_of cache \<subseteq>\<^sub>m map_of (AList.update name fs cache)"
proof -
  let ?c = "AList.update name fs cache"
  have le: "map_of cache \<subseteq>\<^sub>m map_of ?c"
    using new by (auto simp: map_le_def gomap_simps dest: map_of_Some_gokeys)
  have entry: "inherited (cached_fields ?c) p' = inherited (cached_fields cache) p'"
    if "set (preset_parents p') \<subseteq> gokeys cache" for p'
    using map_le_get [OF le] that by (intro inherited_cong) blast
  obtain rk where rk: "extends_ranked m rk (gokeys cache)" using inv by (auto simp: cache_inv_def)
  let ?rk = "rk(name := Suc (sum_list (map rk (preset_parents p))))"
  have "extends_ranked m ?rk (gokeys ?c)"
    unfolding extends_ranked_def
  proof (intro ballI allI impI)
    fix n p' q
    assume n: "n \<in> gokeys ?c" "map_of (Presets m) n = Some p'" "q \<in> set (preset_parents p')"
    show "?rk q < ?rk n"
    proof (cases "n = name")
      case True
      then have "q \<in> set (preset_parents p)" using n p by simp
      then have "rk q \<le> sum_list (map rk (preset_parents p))" by (intro member_le_sum_list) auto
      moreover have "q \<noteq> name" using \<open>q \<in> set (preset_parents p)\<close> par new by blast
      ultimately show ?thesis using True by simp
    next
      case False
      then have nc: "n \<in> gokeys cache" using n(1) by (simp add: gokeys_update)
      then have "rk q < rk n" using rk n by (auto simp: extends_ranked_def)
      moreover have "q \<noteq> name"
      proof -
        obtain gs where "map_of cache n = Some gs" using gokeys_lookup nc by metis
        then have "set (preset_parents p') \<subseteq> gokeys cache"
          using inv n(2) unfolding cache_inv_def by (metis option.inject)
        then show ?thesis using n(3) new by blast
      qed
      ultimately show ?thesis using False by simp
    qed
  qed
  moreover have "\<exists>p. map_of (Presets m) n = Some p \<and> set (preset_parents p) \<subseteq> gokeys ?c \<and>
      gs = inherited (cached_fields ?c) p" if h: "map_of ?c n = Some gs" for n gs
  proof (cases "n = name")
    case True
    then have "gs = fs" using h by (simp add: gomap_simps)
    moreover have "set (preset_parents p) \<subseteq> gokeys ?c" using par map_le_keys [OF le] by blast
    ultimately show ?thesis using True p fs entry [OF par] by auto
  next
    case False
    then have "map_of cache n = Some gs" using h by (simp add: gomap_simps)
    then obtain p' where p': "map_of (Presets m) n = Some p'" "set (preset_parents p') \<subseteq> gokeys cache"
      "gs = inherited (cached_fields cache) p'" using inv unfolding cache_inv_def by blast
    moreover from p'(2) have "set (preset_parents p') \<subseteq> gokeys ?c" using map_le_keys [OF le] by blast
    ultimately show ?thesis using entry by auto
  qed
  ultimately show ?thesis using le unfolding cache_inv_def by blast
qed

lemma inherit_dfs_ok:
  "inherit_dfs m stack name cache = Inr (fs, cache') \<Longrightarrow> cache_inv m cache \<Longrightarrow>
   gokeys cache \<inter> set stack = {} \<Longrightarrow>
   cache_inv m cache' \<and> gokeys cache' \<inter> set stack = {} \<and> map_of cache \<subseteq>\<^sub>m map_of cache' \<and>
   map_of cache' name = Some fs"
proof (induction m stack name cache arbitrary: fs cache' rule: inherit_dfs.induct)
  case (1 m stack name cache)
  show ?case
  proof (cases "map_of cache name")
    case (Some gs)
    then show ?thesis using "1.prems" by (subst (asm) inherit_dfs.simps) auto
  next
    case None
    note run = "1.prems"(1) [unfolded inherit_dfs.simps [of m stack name cache] None option.case]
    have ns: "name \<notin> set stack" using run by (auto split: if_splits)
    obtain p where p: "map_of (Presets m) name = Some p"
      using run ns by (auto split: option.splits)
    obtain r c where loop: "fold_res (\<lambda>parent (result, cache).
                  (case inherit_dfs m (name # stack) parent cache of
                     Inl e \<Rightarrow> Inl e
                   | Inr (parentFields, cache') \<Rightarrow> Inr (mergeFields result parentFields, cache')))
                (preset_parents p) ([], cache) = Inr (r, c)"
      and fs: "fs = mergeFields r (Fields p)" "cache' = AList.update name fs c"
      using run ns p by (auto simp: Let_def split: sum.splits)
    let ?I = "\<lambda>c. cache_inv m c \<and> gokeys c \<inter> set (name # stack) = {}"
    have "?I cache" using "1.prems" None by (auto simp: map_of_None_gokeys)
    have "?I c \<and> map_of cache \<subseteq>\<^sub>m map_of c \<and> set (preset_parents p) \<subseteq> gokeys c \<and>
        r = fold (\<lambda>q r. mergeFields r (cached_fields c q)) (preset_parents p) []"
    proof (rule parents_loop [OF _ loop, where I = ?I], intro ballI allI impI)
      fix q c fs c'
      assume q: "q \<in> set (preset_parents p)" "?I c" "inherit_dfs m (name # stack) q c = Inr (fs, c')"
      from "1.IH" [OF None ns p q(1) refl q(3)] q(2)
      show "?I c' \<and> map_of c \<subseteq>\<^sub>m map_of c' \<and> map_of c' q = Some fs" by simp
    qed (fact \<open>?I cache\<close>)
    then have c: "cache_inv m c" "name \<notin> gokeys c" "gokeys c \<inter> set stack = {}" "map_of cache \<subseteq>\<^sub>m map_of c"
      "set (preset_parents p) \<subseteq> gokeys c" "fs = inherited (cached_fields c) p"
      using fs by (auto simp: inherited_def)
    have "cache_inv m cache' \<and> map_of c \<subseteq>\<^sub>m map_of cache'"
      using cache_inv_add [OF c(1) p c(5,2,6)] fs(2) by simp
    moreover have "gokeys cache' \<inter> set stack = {}" using c(3) ns fs(2) by (auto simp: gokeys_update)
    moreover have "map_of cache' name = Some fs" using fs(2) by (simp add: gomap_simps)
    ultimately show ?thesis using c(4) map_le_trans by blast
  qed
qed

text \<open>The converse: with no cycle and no missing parent the walk succeeds.\<close>

definition parents_exist :: "model \<Rightarrow> bool" where
  "parents_exist m =
     list_all (\<lambda>(n, p). list_all (\<lambda>q. map_of (Presets m) q \<noteq> None) (preset_parents p)) (Presets m)"

definition preset_names :: "model \<Rightarrow> string set" where
  "preset_names m = gokeys (Presets m)"

lemma inherit_dfs_total:
  "extends_ranked m rk (preset_names m) \<Longrightarrow> parents_exist m \<Longrightarrow> map_of (Presets m) name \<noteq> None \<Longrightarrow>
   (\<forall>s \<in> set stack. rk name < rk s) \<Longrightarrow> \<exists>x. inherit_dfs m stack name cache = Inr x"
proof (induction m stack name cache rule: inherit_dfs.induct)
  case (1 m stack name cache)
  note prems = "1.prems"
  obtain p where p: "map_of (Presets m) name = Some p" using prems(3) by auto
  have ns: "name \<notin> set stack" using prems(4) by auto
  show ?case
  proof (cases "map_of cache name")
    case (Some fs)
    then show ?thesis by (subst inherit_dfs.simps) simp
  next
    case None
    have "\<exists>t. fold_res (\<lambda>parent (result, cache).
                  (case inherit_dfs m (name # stack) parent cache of
                     Inl e \<Rightarrow> Inl e
                   | Inr (parentFields, cache') \<Rightarrow> Inr (mergeFields result parentFields, cache')))
                (preset_parents p) ([], cache) = Inr t"
    proof (rule fold_res_total)
      fix q and u :: "preset_field list \<times> field_cache"
      assume q: "q \<in> set (preset_parents p)"
      obtain result c where u: "u = (result, c)" by (cases u)
      have "map_of (Presets m) q \<noteq> None"
        using prems(2) q map_of_SomeD [OF p] by (fastforce simp: parents_exist_def list_all_iff)
      moreover have "rk q < rk name"
        using prems(1) q p map_of_Some_gokeys [OF p] by (auto simp: extends_ranked_def preset_names_def)
      moreover from this prems(4) have "\<forall>s \<in> set (name # stack). rk q < rk s" by auto
      ultimately obtain x where "inherit_dfs m (name # stack) q c = Inr x"
        using "1.IH" [OF None ns p q refl prems(1,2)] by blast
      then show "\<exists>u'. (case u of (result, cache) \<Rightarrow> (case inherit_dfs m (name # stack) q cache of
                     Inl e \<Rightarrow> Inl e
                   | Inr (parentFields, cache') \<Rightarrow> Inr (mergeFields result parentFields, cache'))) = Inr u'"
        by (cases x) (simp add: u)
    qed
    then show ?thesis using None ns p by (subst inherit_dfs.simps) (auto simp: Let_def)
  qed
qed

lemma inherit_all_ok:
  assumes "inherit_all m = Inr cache"
  shows "cache_inv m cache \<and> preset_names m \<subseteq> gokeys cache"
proof -
  have "fold_res (\<lambda>(name, p) cache. (case inherit_dfs m [] name cache of Inl e \<Rightarrow> Inl e | Inr (fs, cache') \<Rightarrow> Inr cache')) xs c0 = Inr c \<Longrightarrow>
      cache_inv m c0 \<Longrightarrow> cache_inv m c \<and> gokeys c0 \<subseteq> gokeys c \<and> gokeys xs \<subseteq> gokeys c"
    for xs :: "(string \<times> data_preset) list" and c0 c
  proof (induction xs arbitrary: c0)
    case Nil
    then show ?case by simp
  next
    case (Cons x xs)
    obtain n p where x: "x = (n, p)" by (cases x)
    obtain fs c1 where d: "inherit_dfs m [] n c0 = Inr (fs, c1)"
      and rest: "fold_res (\<lambda>(name, p) cache. (case inherit_dfs m [] name cache of Inl e \<Rightarrow> Inl e | Inr (fs, cache') \<Rightarrow> Inr cache')) xs c1 = Inr c"
      using Cons.prems(1) x by (cases "inherit_dfs m [] n c0") auto
    have 1: "cache_inv m c1" "map_of c0 \<subseteq>\<^sub>m map_of c1" "map_of c1 n = Some fs"
      using inherit_dfs_ok [OF d Cons.prems(2)] by auto
    have "cache_inv m c \<and> gokeys c1 \<subseteq> gokeys c \<and> gokeys xs \<subseteq> gokeys c"
      by (rule Cons.IH [OF rest 1(1)])
    then show ?case using map_le_keys [OF 1(2)] map_of_Some_gokeys [OF 1(3)] x by auto
  qed
  from this [of "Presets m" "[]" cache] assms show ?thesis
    by (simp add: inherit_all_def cache_inv_def extends_ranked_def preset_names_def)
qed

lemma inherit_all_total:
  assumes "extends_ranked m rk (preset_names m)" "parents_exist m"
  shows "\<exists>cache. inherit_all m = Inr cache"
  unfolding inherit_all_def
proof (rule fold_res_total)
  fix x and u :: field_cache
  assume x: "x \<in> set (Presets m)"
  obtain n p where [simp]: "x = (n, p)" by (cases x)
  have "map_of (Presets m) n \<noteq> None" using x by (auto simp: map_of_eq_None_iff image_iff Bex_def)
  then obtain y where "inherit_dfs m [] n u = Inr y" using inherit_dfs_total [OF assms, of n "[]" u] by auto
  then show "\<exists>u'. (case x of (name, p) \<Rightarrow> \<lambda>cache. (case inherit_dfs m [] name cache of Inl e \<Rightarrow> Inl e | Inr (fs, cache') \<Rightarrow> Inr cache')) u = Inr u'"
    by (cases y) simp
qed

lemma map_of_set_fields:
  "map_of (Presets (set_fields cache m)) n =
     map_option (\<lambda>p. case map_of cache n of None \<Rightarrow> p | Some fs \<Rightarrow> p\<lparr>Fields := fs\<rparr>) (map_of (Presets m) n)"
proof -
  have "map_of (map (\<lambda>(n, p). (n, g n p)) xs) n = map_option (g n) (map_of xs n)"
    for g :: "string \<Rightarrow> data_preset \<Rightarrow> data_preset" and xs by (induction xs) auto
  then show ?thesis by (simp add: set_fields_def)
qed

text \<open>The fields of a preset of a model.\<close>

definition fields_in :: "model \<Rightarrow> string \<Rightarrow> preset_field list" where
  "fields_in m n = (case map_of (Presets m) n of None \<Rightarrow> [] | Some p \<Rightarrow> Fields p)"

lemma resolve_success:
  assumes "resolvePresetInheritance m = Inr m'"
  shows "\<exists>cache. m' = set_fields cache m \<and> cache_inv m cache \<and> preset_names m \<subseteq> gokeys cache"
proof (cases "Presets m = []")
  case True
  then have "m' = set_fields [] m" using assms
    by (cases m) (simp add: resolvePresetInheritance_def set_fields_def)
  then show ?thesis using True
    by (auto simp: cache_inv_def extends_ranked_def preset_names_def intro!: exI [of _ "[]"])
next
  case False
  then obtain cache where "inherit_all m = Inr cache" "m' = set_fields cache m"
    using assms by (cases "inherit_all m") (auto simp: resolvePresetInheritance_def)
  then show ?thesis using inherit_all_ok by blast
qed

lemma resolve_fields:
  assumes "resolvePresetInheritance m = Inr m'" "map_of (Presets m) n = Some p"
  shows "map_of (Presets m') n = Some (p\<lparr>Fields := inherited (fields_in m') p\<rparr>)"
proof -
  from resolve_success [OF assms(1)] obtain cache where c: "m' = set_fields cache m" "cache_inv m cache"
    "preset_names m \<subseteq> gokeys cache" by blast
  have look: "map_of cache q = Some (fields_in m' q)" if "q \<in> gokeys cache" for q
  proof -
    obtain fs where fs: "map_of cache q = Some fs" using gokeys_lookup [OF \<open>q \<in> gokeys cache\<close>] by blast
    then obtain pq where "map_of (Presets m) q = Some pq" using c(2) unfolding cache_inv_def by blast
    then show ?thesis using c(1) fs by (simp add: fields_in_def map_of_set_fields)
  qed
  have n: "n \<in> gokeys cache" using c(3) map_of_Some_gokeys [OF assms(2)] by (auto simp: preset_names_def)
  from look [OF n] c(2) obtain p' where "map_of (Presets m) n = Some p'"
    "set (preset_parents p') \<subseteq> gokeys cache" "fields_in m' n = inherited (cached_fields cache) p'"
    unfolding cache_inv_def by blast
  moreover have "cached_fields cache q = fields_in m' q" if "q \<in> gokeys cache" for q
    using look [OF that] by (simp add: cached_fields_def)
  ultimately have "fields_in m' n = inherited (fields_in m') p"
    using assms(2) inherited_cong [of p "cached_fields cache" "fields_in m'"] by auto
  then show ?thesis using look [OF n] assms(2) c(1) by (simp add: map_of_set_fields)
qed

lemma resolve_acyclic:
  assumes "resolvePresetInheritance m = Inr m'" "gowf (Presets m)"
  shows "parents_exist m \<and> (\<exists>rk. extends_ranked m rk (preset_names m))"
proof -
  from resolve_success [OF assms(1)] obtain cache where c: "cache_inv m cache"
    "preset_names m \<subseteq> gokeys cache" by blast
  obtain rk where "extends_ranked m rk (gokeys cache)" using c(1) unfolding cache_inv_def by blast
  then have "extends_ranked m rk (preset_names m)" using c(2) unfolding extends_ranked_def by blast
  moreover have "map_of (Presets m) q \<noteq> None"
    if np: "(n, p) \<in> set (Presets m)" and q: "q \<in> set (preset_parents p)" for n p q
  proof -
    have p: "map_of (Presets m) n = Some p" using np assms(2) by simp
    have "n \<in> gokeys cache" using c(2) map_of_Some_gokeys [OF p] unfolding preset_names_def by blast
    from gokeys_lookup [OF this] obtain fs where "map_of cache n = Some fs" by blast
    from cache_invD [OF c(1) this] p have "set (preset_parents p) \<subseteq> gokeys cache" by auto
    then have "q \<in> gokeys cache" using q by blast
    from gokeys_lookup [OF this] obtain gs where "map_of cache q = Some gs" by blast
    from cache_invD [OF c(1) this] show ?thesis by auto
  qed
  then have "parents_exist m" by (auto simp: parents_exist_def list_all_iff)
  ultimately show ?thesis by blast
qed

lemma resolve_total:
  assumes "extends_ranked m rk (preset_names m)" "parents_exist m"
  shows "\<exists>m'. resolvePresetInheritance m = Inr m'"
  using inherit_all_total [OF assms] by (auto simp: resolvePresetInheritance_def)

lemma inherited_distinct: "distinct (map keyOf (inherited look p))"
proof -
  have "distinct (map keyOf r) \<Longrightarrow> distinct (map keyOf (fold (\<lambda>q r. mergeFields r (look q)) ps r))" for ps r
    by (induction ps arbitrary: r) (simp_all add: mergeFields_distinct)
  then show ?thesis by (simp add: inherited_def mergeFields_distinct)
qed

section \<open>Properties\<close>

text \<open>
  Merging fields overrides in place: the keys of the result are the old keys in their
  positions followed by the new ones in order of appearance, the field of a key is the last one
  the overriding list has for it and else the old one, and no key is doubled
  (\<^verbatim>\<open>mergeFields\<close> of \<^verbatim>\<open>resolvePresetInheritance\<close>).
\<close>
theorem mergeFields_spec:
  "map keyOf (mergeFields dst src) = map keyOf dst @ dedup_from (map keyOf dst) (map keyOf src) \<and>
   (distinct (map keyOf dst) \<longrightarrow> distinct (map keyOf (mergeFields dst src)) \<and>
     (\<forall>k. field_at (mergeFields dst src) k =
        (case field_at (rev src) k of None \<Rightarrow> field_at dst k | Some f \<Rightarrow> Some f)))"
  using mergeFields_keys mergeFields_distinct mergeFields_at by blast

theorem mergeFields_spec_witness:
  "distinct (map keyOf (mergeFields [empty_field\<lparr>FSource := ''id''\<rparr>]
     [empty_field\<lparr>FSource := ''name''\<rparr>, empty_field\<lparr>FSource := ''x'', FAlias := ''id''\<rparr>]))"
  using mergeFields_spec [of "[empty_field\<lparr>FSource := ''id''\<rparr>]"] by simp

text \<open>
  C21. Inheritance satisfies its equations: after \<^verbatim>\<open>resolvePresetInheritance\<close> succeeds, the
  fields of each preset are those of its parents, merged left to right, merged with its own, and
  no field key occurs twice. The order in which Go visits the presets has no influence on them.
\<close>
theorem inheritance_equations:
  assumes "resolvePresetInheritance m = Inr m'" "map_of (Presets m) n = Some p"
  shows "fields_in m' n = mergeFields
      (fold (\<lambda>parent r. mergeFields r (fields_in m' parent)) (preset_parents p) []) (Fields p) \<and>
    distinct (map keyOf (fields_in m' n))"
  using resolve_fields [OF assms] inherited_distinct [of "fields_in m'" p]
  by (simp add: fields_in_def [of m' n] inherited_def)

definition demo_inherit :: model where
  "demo_inherit = empty_model\<lparr>Presets :=
     [(''card'', empty_preset\<lparr>Extends := '' base, head'', Fields := [empty_field\<lparr>FSource := ''id'', FType := ''string''\<rparr>]\<rparr>),
      (''base'', empty_preset\<lparr>Fields := [empty_field\<lparr>FSource := ''id'', FType := ''int''\<rparr>]\<rparr>),
      (''head'', empty_preset\<lparr>Extends := ''base'', Fields := [empty_field\<lparr>FSource := ''name''\<rparr>]\<rparr>)]\<rparr>"

declare inherit_dfs.simps [code]

theorem inheritance_equations_witness:
  "\<exists>m'. resolvePresetInheritance demo_inherit = Inr m' \<and>
     map FSource (fields_in m' ''card'') = [''id'', ''name''] \<and> distinct (map keyOf (fields_in m' ''card''))"
proof -
  have "is_ok (resolvePresetInheritance demo_inherit)" by code_simp
  then obtain m' where r: "resolvePresetInheritance demo_inherit = Inr m'" by (auto simp: is_ok_iff)
  have "case resolvePresetInheritance demo_inherit of Inl e \<Rightarrow> False
      | Inr m' \<Rightarrow> map FSource (fields_in m' ''card'') = [''id'', ''name'']" by code_simp
  moreover have "\<exists>p. map_of (Presets demo_inherit) ''card'' = Some p" by (simp add: demo_inherit_def)
  ultimately show ?thesis using r inheritance_equations [OF r] by auto
qed

text \<open>
  C20. Inheritance is resolved exactly when every parent a preset names exists and no preset
  extends itself, directly or through others: otherwise the loader reports an error, and it
  always returns (\<^verbatim>\<open>resolvePresetInheritance\<close>).
\<close>
theorem inheritance_succeeds_iff_acyclic:
  assumes "gowf (Presets m)"
  shows "(\<exists>m'. resolvePresetInheritance m = Inr m') \<longleftrightarrow>
    parents_exist m \<and> (\<exists>rk. extends_ranked m rk (preset_names m))"
  using resolve_acyclic [OF _ assms] resolve_total by blast

theorem inheritance_succeeds_iff_acyclic_witness:
  "parents_exist demo_inherit \<and> (\<exists>rk. extends_ranked demo_inherit rk (preset_names demo_inherit))"
proof -
  have "gowf (Presets demo_inherit)" by (simp add: demo_inherit_def)
  moreover have "is_ok (resolvePresetInheritance demo_inherit)" by code_simp
  ultimately show ?thesis using inheritance_succeeds_iff_acyclic by (auto simp: is_ok_iff)
qed

text \<open>
  A model file with the key \<^verbatim>\<open>primary_keys\<close>, which \<^verbatim>\<open>types.go\<close> describes as an optional
  setting, is always rejected: the structural check of \<^verbatim>\<open>validateYAML.go\<close> does not allow the key,
  wherever it stands among the keys of the model, so the file is not loaded.
\<close>
theorem primary_keys_rejected:
  assumes "read_yaml path = Inr (YNode DocumentNode v [YNode MappingNode v' (pre @ keyNode # valNode # post)])"
    and "even (length pre)" "yvalue keyNode = ''primary_keys''"
  shows "\<not> is_ok (load_file read_yaml decode path)"
proof -
  have "\<not> is_ok (validate_pairs (pre @ keyNode # valNode # post) ''model'')"
    using assms(2,3)
  proof (induction pre rule: induct_list012)
    case 1
    then show ?case by (simp add: allowed_keys_def)
  next
    case (3 x y zs)
    then show ?case by (auto simp: Let_def split: sum.splits)
  qed simp
  then show ?thesis using assms(1)
    by (auto simp: load_file_def is_ok_iff split: sum.splits)
qed

theorem primary_keys_rejected_witness:
  "\<not> is_ok (load_file
     (\<lambda>_. Inr (YNode DocumentNode [] [YNode MappingNode [] [YNode ScalarNode ''table'' [], YNode ScalarNode ''people'' [],
        YNode ScalarNode ''primary_keys'' [], YNode SequenceNode [] []]])) (\<lambda>_. Inr empty_model) ''Person.yml'')"
  by (rule primary_keys_rejected [where pre = "[YNode ScalarNode ''table'' [], YNode ScalarNode ''people'' []]"
      and keyNode = "YNode ScalarNode ''primary_keys'' []" and valNode = "YNode SequenceNode [] []"
      and v = "[]" and v' = "[]" and post = "[]"]) simp_all

end
