(* ===== verification/Linker.thy ===== *)
theory Linker
  imports Preset_Graph Preset_Inherit
begin

text \<open>
  Linking the registry: \<^verbatim>\<open>internal/model/linker.go\<close>. The code updates relations and presets in
  place. What it reads of other models (which exist, the models their relations name, the names
  of their presets) is not changed by linking, so every model is linked against the registry as
  it was loaded.
\<close>

section \<open>Names\<close>

text \<open>\<^verbatim>\<open>toSnakeCase\<close>, on bytes.\<close>

fun snake :: "bool \<Rightarrow> string \<Rightarrow> string" where
  "snake isFirst [] = []"
| "snake isFirst (r # rs) =
     (if \<not> isFirst \<and> CHR ''A'' \<le> r \<and> r \<le> CHR ''Z'' then [CHR ''_''] else []) @ lower_char r # snake False rs"

definition toSnakeCase :: "string \<Rightarrow> string" where
  "toSnakeCase s = snake True s"

section \<open>Relations\<close>

datatype link_error =
    PolymorphicNotBelongsTo string string
  | RelationModelNotFound string string string
  | PolymorphicThrough string string
  | ThroughNotFound string string string
  | NoThroughRelation string string string string
  | InvalidRelationType string string string
  | TemplateSourceType string string string string string
  | FormatterWithoutAlias string string string
  | ComputableNotFound string string string
  | NoNestedPreset string string string
  | MissingRelation string string string string
  | NilModelRef string string string string
  | NestedPresetNotFound string string string string

definition link_target :: "registry \<Rightarrow> string \<Rightarrow> string \<Rightarrow> model_relation \<Rightarrow> link_error + model_relation" where
  "link_target reg modelName relName rel =
     (if Polymorphic rel
      then (if RType rel \<noteq> ''belongs_to'' then Inl (PolymorphicNotBelongsTo modelName relName)
            else Inr (if TypeColumn rel = [] then rel\<lparr>TypeColumn := relName @ ''_type''\<rparr> else rel))
      else (if map_of reg (RModel rel) = None
            then Inl (RelationModelNotFound (RModel rel) modelName relName)
            else Inr (rel\<lparr>ModelRef := Some (RModel rel)\<rparr>)))"

definition link_keys :: "string \<Rightarrow> string \<Rightarrow> model_relation \<Rightarrow> model_relation" where
  "link_keys modelName relName rel =
     rel\<lparr>FK := (if FK rel \<noteq> [] then FK rel
               else if RType rel = ''belongs_to'' then relName @ ''_id''
               else if RType rel = ''has_one'' \<or> RType rel = ''has_many'' then toSnakeCase modelName @ ''_id''
               else FK rel),
         PK := (if PK rel = [] then ''id'' else PK rel)\<rparr>"

definition link_through :: "registry \<Rightarrow> string \<Rightarrow> string \<Rightarrow> model_relation \<Rightarrow> link_error + model_relation" where
  "link_through reg modelName relName rel =
     (if Through rel = [] then Inr rel
      else if Polymorphic rel then Inl (PolymorphicThrough modelName relName)
      else (case map_of reg (Through rel) of
          None \<Rightarrow> Inl (ThroughNotFound (Through rel) modelName relName)
        | Some throughModel \<Rightarrow>
            if list_ex (\<lambda>(n, throughRel). RModel throughRel = RModel rel) (Relations throughModel)
            then Inr (rel\<lparr>ThroughRef := Some (Through rel)\<rparr>)
            else Inl (NoThroughRelation (Through rel) (RModel rel) modelName relName)))"

definition link_relation :: "registry \<Rightarrow> string \<Rightarrow> string \<Rightarrow> model_relation \<Rightarrow> link_error + model_relation" where
  "link_relation reg modelName relName rel =
     bind_res (link_target reg modelName relName rel) (\<lambda>rel1.
     bind_res (link_through reg modelName relName (link_keys modelName relName rel1)) (\<lambda>rel2.
       if RType rel2 \<notin> {''has_many'', ''has_one'', ''belongs_to''}
       then Inl (InvalidRelationType modelName relName (RType rel2))
       else Inr (if RType rel2 = ''belongs_to'' \<and> Polymorphic rel2 \<and> PK rel2 = []
                 then rel2\<lparr>PK := ''id''\<rparr> else rel2)))"

section \<open>Presets\<close>

text \<open>\<^verbatim>\<open>formatterSrcRe\<close> matches: a \<^verbatim>\<open>{\<close>, at least one byte other than \<^verbatim>\<open>}\<close>, and a \<^verbatim>\<open>}\<close>.\<close>

fun is_template_source :: "string \<Rightarrow> bool" where
  "is_template_source [] = False"
| "is_template_source (c # cs) =
     (c = CHR ''{'' \<and> cs \<noteq> [] \<and> hd cs \<noteq> CHR ''}'' \<and> CHR ''}'' \<in> set cs \<or> is_template_source cs)"

text \<open>
  A field of a preset of model \<open>m\<close>, whose relations are linked. An absent map of computable
  fields and one without the name are the same error here.
\<close>

definition link_field :: "registry \<Rightarrow> string \<Rightarrow> model \<Rightarrow> string \<Rightarrow> preset_field \<Rightarrow> link_error + preset_field" where
  "link_field reg modelName m presetName f =
     (if is_template_source (FSource f) \<and> FType f \<noteq> ''formatter'' \<and> FType f \<noteq> ''nested_field''
        then Inl (TemplateSourceType (FAlias f) presetName modelName (FSource f) (FType f))
      else if is_template_source (FSource f) \<and> FType f = ''formatter'' \<and> is_blank (FAlias f)
        then Inl (FormatterWithoutAlias (FSource f) presetName modelName)
      else if FType f = ''computable'' \<and> map_of (Computable m) (FSource f) = None
        then Inl (ComputableNotFound (FSource f) presetName modelName)
      else
        (let f' = (if FAlias f = [] then f\<lparr>FAlias := FSource f\<rparr> else f)
         in if FType f' \<noteq> ''preset'' then Inr f'
            else if NestedPreset f' = [] then Inl (NoNestedPreset (FAlias f') presetName modelName)
            else (case map_of (Relations m) (FSource f') of
                None \<Rightarrow> Inl (MissingRelation (FAlias f') presetName (FSource f') modelName)
              | Some rel \<Rightarrow>
                  if Polymorphic rel then Inr (f'\<lparr>PresetRef := None\<rparr>)
                  else (case deref reg (ModelRef rel) of
                      None \<Rightarrow> Inl (NilModelRef (FAlias f') presetName (FSource f') modelName)
                    | Some nestedModel \<Rightarrow>
                        if map_of (Presets nestedModel) (NestedPreset f') = None
                        then Inl (NestedPresetNotFound (NestedPreset f') (Table nestedModel) modelName presetName)
                        else Inr (f'\<lparr>PresetRef := Some (the (ModelRef rel), NestedPreset f')\<rparr>)))))"

definition link_preset :: "registry \<Rightarrow> string \<Rightarrow> model \<Rightarrow> string \<Rightarrow> data_preset \<Rightarrow> link_error + data_preset" where
  "link_preset reg modelName m presetName preset =
     (case map_res (link_field reg modelName m presetName) (Fields preset) of
        Inl e \<Rightarrow> Inl e
      | Inr fs \<Rightarrow> Inr (preset\<lparr>PName := presetName, Fields := fs\<rparr>))"

definition link_model :: "registry \<Rightarrow> string \<Rightarrow> model \<Rightarrow> link_error + model" where
  "link_model reg modelName m =
     (case entries_res (link_relation reg modelName) (Relations m) of
        Inl e \<Rightarrow> Inl e
      | Inr rels \<Rightarrow>
        (case entries_res (link_preset reg modelName (m\<lparr>Relations := rels\<rparr>)) (Presets m) of
           Inl e \<Rightarrow> Inl e
         | Inr ps \<Rightarrow> Inr (m\<lparr>Relations := rels, Presets := ps\<rparr>)))"

definition LinkModelRelations :: "registry \<Rightarrow> link_error + registry" where
  "LinkModelRelations reg = entries_res (link_model reg) reg"

definition FindPresetByName :: "model \<Rightarrow> string \<Rightarrow> data_preset option" where
  "FindPresetByName m name = map_of (Presets m) name"

section \<open>Initialisation\<close>

datatype init_error =
    InitLink link_error
  | InitValidate preset_error
  | InitBuild build_error

text \<open>\<^verbatim>\<open>InitRegistry\<close>, after the models have been loaded.\<close>

definition InitRegistry :: "registry \<Rightarrow> init_error + registry" where
  "InitRegistry reg =
     (case LinkModelRelations reg of
        Inl e \<Rightarrow> Inl (InitLink e)
      | Inr reg1 \<Rightarrow>
        (case ValidateAllPresets reg1 of
           Inl e \<Rightarrow> Inl (InitValidate e)
         | Inr _ \<Rightarrow>
           (case BuildPresetAliasMaps reg1 of Inl e \<Rightarrow> Inl (InitBuild e) | Inr reg2 \<Rightarrow> Inr reg2)))"

section \<open>What linking establishes\<close>

text \<open>A linked relation: its references exist and its keys are set.\<close>

definition linked_rel :: "registry \<Rightarrow> model_relation \<Rightarrow> bool" where
  "linked_rel reg rel =
     (RType rel \<in> {''has_many'', ''has_one'', ''belongs_to''} \<and> FK rel \<noteq> [] \<and> PK rel \<noteq> [] \<and>
      (if Polymorphic rel then RType rel = ''belongs_to'' \<and> TypeColumn rel \<noteq> [] \<and> Through rel = []
       else map_of reg (RModel rel) \<noteq> None \<and> ModelRef rel = Some (RModel rel)) \<and>
      (Through rel = [] \<or> ThroughRef rel = Some (Through rel) \<and>
         (\<exists>tm. map_of reg (Through rel) = Some tm \<and> RModel rel \<in> RModel ` snd ` set (Relations tm))))"

lemma list_ex_RModel: "list_ex (\<lambda>(n, r). RModel r = t) xs \<longleftrightarrow> t \<in> RModel ` snd ` set xs"
  by (induction xs) auto

lemma link_target_Inr:
  "link_target reg n rn rel = Inr r1 \<Longrightarrow>
   FK r1 = FK rel \<and> PK r1 = PK rel \<and> RType r1 = RType rel \<and> RModel r1 = RModel rel \<and>
   Polymorphic r1 = Polymorphic rel \<and> Through r1 = Through rel \<and>
   (if Polymorphic rel then RType rel = ''belongs_to'' \<and> TypeColumn r1 \<noteq> [] \<and> ModelRef r1 = ModelRef rel
    else map_of reg (RModel rel) \<noteq> None \<and> ModelRef r1 = Some (RModel rel))"
  by (cases "Polymorphic rel") (auto simp: link_target_def split: if_splits)

lemma link_through_Inr:
  "link_through reg n rn rel = Inr r1 \<Longrightarrow>
   r1 = (if Through rel = [] then rel else rel\<lparr>ThroughRef := Some (Through rel)\<rparr>) \<and>
   (Through rel = [] \<or> \<not> Polymorphic rel \<and>
      (\<exists>tm. map_of reg (Through rel) = Some tm \<and> RModel rel \<in> RModel ` snd ` set (Relations tm)))"
  by (cases "Through rel = []"; cases "map_of reg (Through rel)")
    (auto simp: link_through_def list_ex_RModel split: if_splits)

lemma link_keys_facts:
  "RType (link_keys n rn rel) = RType rel" "RModel (link_keys n rn rel) = RModel rel"
  "Polymorphic (link_keys n rn rel) = Polymorphic rel" "Through (link_keys n rn rel) = Through rel"
  "ModelRef (link_keys n rn rel) = ModelRef rel" "TypeColumn (link_keys n rn rel) = TypeColumn rel"
  "PK (link_keys n rn rel) \<noteq> []"
  "RType rel \<in> {''has_many'', ''has_one'', ''belongs_to''} \<Longrightarrow> FK (link_keys n rn rel) \<noteq> []"
  by (auto simp: link_keys_def)

lemma link_relation_linked:
  assumes "link_relation reg n rn rel = Inr rel'"
  shows "linked_rel reg rel' \<and> RModel rel' = RModel rel \<and> Polymorphic rel' = Polymorphic rel \<and>
    (Polymorphic rel \<longrightarrow> ModelRef rel' = ModelRef rel)"
proof -
  obtain r1 r2 where 1: "link_target reg n rn rel = Inr r1"
    and 2: "link_through reg n rn (link_keys n rn r1) = Inr r2"
    and 3: "RType r2 \<in> {''has_many'', ''has_one'', ''belongs_to''}"
      "rel' = (if RType r2 = ''belongs_to'' \<and> Polymorphic r2 \<and> PK r2 = [] then r2\<lparr>PK := ''id''\<rparr> else r2)"
    using assms unfolding link_relation_def by (fastforce simp: res_simps split: if_splits)
  note f1 = link_target_Inr [OF 1] and f2 = link_through_Inr [OF 2]
  have r2: "RType r2 = RType rel" "RModel r2 = RModel rel" "Polymorphic r2 = Polymorphic rel"
    "ModelRef r2 = ModelRef r1" "TypeColumn r2 = TypeColumn r1" "Through r2 = Through rel"
    "PK r2 = PK (link_keys n rn r1)" "FK r2 = FK (link_keys n rn r1)"
    "Through rel \<noteq> [] \<longrightarrow> ThroughRef r2 = Some (Through rel)"
    using f1 f2 by (simp_all add: link_keys_facts)
  have "PK r2 \<noteq> []" "FK r2 \<noteq> []" using r2 3(1) f1 by (simp_all add: link_keys_facts)
  moreover from this have "rel' = r2" using 3 by simp
  ultimately have ne: "PK rel' \<noteq> []" "FK rel' \<noteq> []" "rel' = r2" by simp_all
  have thr: "Through rel = [] \<or> \<not> Polymorphic rel \<and>
      (\<exists>tm. map_of reg (Through rel) = Some tm \<and> RModel rel \<in> RModel ` snd ` set (Relations tm))"
    using f1 f2 by (simp add: link_keys_facts)
  show ?thesis
  proof (cases "Polymorphic rel")
    case True
    then show ?thesis using ne f1 r2 3(1) thr by (simp add: linked_rel_def)
  next
    case False
    then show ?thesis using ne f1 r2 3(1) thr by (simp add: linked_rel_def) blast
  qed
qed

text \<open>Linking a linked relation changes nothing.\<close>

lemma linked_rel_link:
  assumes "linked_rel reg rel"
  shows "link_relation reg n rn rel = Inr rel"
proof -
  have "ModelRef rel = Some (RModel rel) \<Longrightarrow> rel\<lparr>ModelRef := Some (RModel rel)\<rparr> = rel"
    by (cases rel) simp
  then have "link_target reg n rn rel = Inr rel"
    using assms by (cases "Polymorphic rel") (simp_all add: linked_rel_def link_target_def)
  moreover have "FK rel \<noteq> [] \<and> PK rel \<noteq> []" using assms by (simp add: linked_rel_def)
  then have "link_keys n rn rel = rel" by (simp add: link_keys_def)
  moreover have "link_through reg n rn rel = Inr rel"
  proof (cases "Through rel = []")
    case False
    moreover obtain tm where "map_of reg (Through rel) = Some tm"
      "list_ex (\<lambda>(n, r). RModel r = RModel rel) (Relations tm)"
      using assms False by (auto simp: linked_rel_def list_ex_RModel)
    moreover have "rel\<lparr>ThroughRef := Some (Through rel)\<rparr> = rel" "\<not> Polymorphic rel"
    proof -
      have "ThroughRef rel = Some (Through rel) \<Longrightarrow> rel\<lparr>ThroughRef := Some (Through rel)\<rparr> = rel"
        by (cases rel) simp
      then show "rel\<lparr>ThroughRef := Some (Through rel)\<rparr> = rel" "\<not> Polymorphic rel"
        using assms False by (simp_all add: linked_rel_def split: if_splits)
    qed
    ultimately show ?thesis by (simp add: link_through_def)
  qed (simp add: link_through_def)
  ultimately show ?thesis using assms by (simp add: link_relation_def linked_rel_def)
qed

text \<open>What linking does not change of a registry, which is all it reads of other models.\<close>

definition same_shape :: "registry \<Rightarrow> registry \<Rightarrow> bool" where
  "same_shape reg reg' =
     (\<forall>x. case map_of reg x of
            None \<Rightarrow> map_of reg' x = None
          | Some m \<Rightarrow> \<exists>m'. map_of reg' x = Some m' \<and> Table m' = Table m \<and>
              RModel ` snd ` set (Relations m') = RModel ` snd ` set (Relations m) \<and>
              (\<forall>p. map_of (Presets m') p = None \<longleftrightarrow> map_of (Presets m) p = None))"

lemma same_shape_Some:
  "same_shape reg reg' \<Longrightarrow> map_of reg x = Some m \<Longrightarrow>
   \<exists>m'. map_of reg' x = Some m' \<and> Table m' = Table m \<and>
        RModel ` snd ` set (Relations m') = RModel ` snd ` set (Relations m) \<and>
        (\<forall>p. map_of (Presets m') p = None \<longleftrightarrow> map_of (Presets m) p = None)"
  unfolding same_shape_def by (drule spec [of _ x]) simp

lemma linked_rel_shape:
  assumes "linked_rel reg rel" "same_shape reg reg'"
  shows "linked_rel reg' rel"
proof -
  have "map_of reg' x \<noteq> None" if "map_of reg x \<noteq> None" for x
    using same_shape_Some [OF assms(2)] that by blast
  moreover have "\<exists>tm. map_of reg' x = Some tm \<and> t \<in> RModel ` snd ` set (Relations tm)"
    if "map_of reg x = Some tm" "t \<in> RModel ` snd ` set (Relations tm)" for x tm t
  proof -
    note look = that
    obtain m' where m': "map_of reg' x = Some m'"
      "RModel ` snd ` set (Relations m') = RModel ` snd ` set (Relations tm)"
      using same_shape_Some [OF assms(2) look(1)] by blast
    show ?thesis by (rule exI [of _ m']) (use m' look(2) in blast)
  qed
  ultimately have "(\<exists>tm. map_of reg' (Through rel) = Some tm \<and> RModel rel \<in> RModel ` snd ` set (Relations tm))"
    if "Through rel \<noteq> []" using assms(1) that unfolding linked_rel_def by blast
  then show ?thesis
    using assms(1) \<open>\<And>x. map_of reg x \<noteq> None \<Longrightarrow> map_of reg' x \<noteq> None\<close>
    unfolding linked_rel_def by meson
qed

section \<open>Presets and models\<close>

text \<open>A linked field: checked, with an alias, and with its nested preset.\<close>

definition linked_field :: "registry \<Rightarrow> model \<Rightarrow> preset_field \<Rightarrow> bool" where
  "linked_field reg m f =
     ((is_template_source (FSource f) \<longrightarrow> FType f = ''formatter'' \<and> \<not> is_blank (FAlias f) \<or> FType f = ''nested_field'') \<and>
      (FType f = ''computable'' \<longrightarrow> map_of (Computable m) (FSource f) \<noteq> None) \<and>
      (FAlias f = [] \<longrightarrow> FSource f = []) \<and>
      (FType f = ''preset'' \<longrightarrow> NestedPreset f \<noteq> [] \<and>
         (\<exists>rel. map_of (Relations m) (FSource f) = Some rel \<and>
            (if Polymorphic rel then PresetRef f = None
             else \<exists>t nm. ModelRef rel = Some t \<and> map_of reg t = Some nm \<and>
                  map_of (Presets nm) (NestedPreset f) \<noteq> None \<and> PresetRef f = Some (t, NestedPreset f)))))"

lemma link_field_linked:
  assumes "link_field reg n m pn f = Inr f'"
  shows "linked_field reg m f'"
proof -
  have t: "\<not> (is_template_source (FSource f) \<and> FType f \<noteq> ''formatter'' \<and> FType f \<noteq> ''nested_field'')"
    "\<not> (is_template_source (FSource f) \<and> FType f = ''formatter'' \<and> is_blank (FAlias f))"
    "\<not> (FType f = ''computable'' \<and> map_of (Computable m) (FSource f) = None)"
    using assms by (auto simp: link_field_def split: if_splits)
  define g where "g = (if FAlias f = [] then f\<lparr>FAlias := FSource f\<rparr> else f)"
  have g: "FSource g = FSource f" "FType g = FType f" "NestedPreset g = NestedPreset f"
    "FAlias g = (if FAlias f = [] then FSource f else FAlias f)" by (simp_all add: g_def)
  have body: "(if FType g \<noteq> ''preset'' then Inr g
            else if NestedPreset g = [] then Inl (NoNestedPreset (FAlias g) pn n)
            else (case map_of (Relations m) (FSource g) of
                None \<Rightarrow> Inl (MissingRelation (FAlias g) pn (FSource g) n)
              | Some rel \<Rightarrow>
                  if Polymorphic rel then Inr (g\<lparr>PresetRef := None\<rparr>)
                  else (case deref reg (ModelRef rel) of
                      None \<Rightarrow> Inl (NilModelRef (FAlias g) pn (FSource g) n)
                    | Some nestedModel \<Rightarrow>
                        if map_of (Presets nestedModel) (NestedPreset g) = None
                        then Inl (NestedPresetNotFound (NestedPreset g) (Table nestedModel) n pn)
                        else Inr (g\<lparr>PresetRef := Some (the (ModelRef rel), NestedPreset g)\<rparr>)))) = Inr f'"
    using assms t by (simp only: link_field_def Let_def g_def if_False simp_thms)
  show ?thesis
  proof (cases "FType f = ''preset''")
    case False
    then have "f' = g" using body g by simp
    then show ?thesis using False t g by (auto simp: linked_field_def)
  next
    case True
    then have np: "NestedPreset f \<noteq> []" using body g by (auto split: if_splits)
    then obtain rel where rel: "map_of (Relations m) (FSource f) = Some rel"
      using body g True by (auto split: option.splits)
    show ?thesis
    proof (cases "Polymorphic rel")
      case True
      then have "f' = g\<lparr>PresetRef := None\<rparr>" using body g np rel \<open>FType f = ''preset''\<close> by simp
      then show ?thesis using True t g np rel by (auto simp: linked_field_def)
    next
      case False
      then obtain nm where nm: "deref reg (ModelRef rel) = Some nm"
        using body g np rel \<open>FType f = ''preset''\<close> by (cases "deref reg (ModelRef rel)") simp_all
      then obtain tn where tn: "ModelRef rel = Some tn" "map_of reg tn = Some nm"
        by (cases "ModelRef rel") auto
      have "map_of (Presets nm) (NestedPreset f) \<noteq> None"
        using body g np rel nm False \<open>FType f = ''preset''\<close> by (auto split: if_splits)
      moreover from this have "f' = g\<lparr>PresetRef := Some (tn, NestedPreset f)\<rparr>"
        using body g np rel nm tn False \<open>FType f = ''preset''\<close> by auto
      ultimately show ?thesis using False t g np rel tn by (auto simp: linked_field_def)
    qed
  qed
qed

lemma linked_field_link:
  assumes "linked_field reg m f"
  shows "link_field reg n m pn f = Inr f"
proof -
  have t: "\<not> (is_template_source (FSource f) \<and> FType f \<noteq> ''formatter'' \<and> FType f \<noteq> ''nested_field'')"
    "\<not> (is_template_source (FSource f) \<and> FType f = ''formatter'' \<and> is_blank (FAlias f))"
    "\<not> (FType f = ''computable'' \<and> map_of (Computable m) (FSource f) = None)"
    using assms by (auto simp: linked_field_def)
  have g: "(if FAlias f = [] then f\<lparr>FAlias := FSource f\<rparr> else f) = f"
    using assms by (cases f) (auto simp: linked_field_def)
  show ?thesis
  proof (cases "FType f = ''preset''")
    case False
    then show ?thesis using t by (simp only: link_field_def Let_def g if_False if_True simp_thms)
  next
    case True
    then obtain rel where rel: "NestedPreset f \<noteq> []" "map_of (Relations m) (FSource f) = Some rel"
      "if Polymorphic rel then PresetRef f = None
             else \<exists>t nm. ModelRef rel = Some t \<and> map_of reg t = Some nm \<and>
                  map_of (Presets nm) (NestedPreset f) \<noteq> None \<and> PresetRef f = Some (t, NestedPreset f)"
      using assms by (auto simp: linked_field_def)
    have "f\<lparr>PresetRef := PresetRef f\<rparr> = f" by simp
    then show ?thesis using t True rel
      by (simp only: link_field_def Let_def g if_False if_True simp_thms option.case)
        (auto split: if_splits)
  qed
qed

definition linked_model :: "registry \<Rightarrow> string \<Rightarrow> model \<Rightarrow> bool" where
  "linked_model reg n m =
     (list_all (\<lambda>(rn, rel). linked_rel reg rel) (Relations m) \<and>
      list_all (\<lambda>(pn, p). PName p = pn \<and> list_all (linked_field reg m) (Fields p)) (Presets m))"

definition linked_registry :: "registry \<Rightarrow> bool" where
  "linked_registry reg = list_all (\<lambda>(n, m). linked_model reg n m) reg"

lemma linked_model_link:
  assumes "linked_model reg n m"
  shows "link_model reg n m = Inr m"
proof -
  have r: "entries_res (link_relation reg n) (Relations m) = Inr (Relations m)"
    using assms linked_rel_link
    by (intro entries_res_id) (fastforce simp: linked_model_def list_all_iff)
  have "link_preset reg n m pn p = Inr p" if "(pn, p) \<in> set (Presets m)" for pn p
  proof -
    have "PName p = pn" "\<forall>f \<in> set (Fields p). linked_field reg m f"
      using assms that by (auto simp: linked_model_def list_all_iff)
    then have "map_res (link_field reg n m pn) (Fields p) = Inr (Fields p)"
      using linked_field_link by (intro map_res_id) blast
    with \<open>PName p = pn\<close> show ?thesis by (cases p) (simp add: link_preset_def)
  qed
  then have "entries_res (link_preset reg n m) (Presets m) = Inr (Presets m)"
    by (rule entries_res_id)
  with r show ?thesis by (simp add: link_model_def)
qed

lemma linked_registry_link: "linked_registry reg \<Longrightarrow> LinkModelRelations reg = Inr reg"
  unfolding LinkModelRelations_def linked_registry_def
  by (rule entries_res_id) (fastforce simp: list_all_iff intro: linked_model_link)

lemma linked_field_shape:
  assumes "linked_field reg m f" "same_shape reg reg'" "Relations m' = Relations m" "Computable m' = Computable m"
  shows "linked_field reg' m' f"
proof -
  have step: "\<exists>nm. map_of reg' t = Some nm \<and> map_of (Presets nm) p \<noteq> None"
    if look: "map_of reg t = Some nm0" "map_of (Presets nm0) p \<noteq> None" for t nm0 p
  proof -
    obtain m' where m': "map_of reg' t = Some m'" "\<forall>p. map_of (Presets m') p = None \<longleftrightarrow> map_of (Presets nm0) p = None"
      using same_shape_Some [OF assms(2) look(1)] by blast
    from m'(2) look(2) have "map_of (Presets m') p \<noteq> None" by simp
    with m'(1) show ?thesis by blast
  qed
  have "(\<exists>rel. map_of (Relations m) (FSource f) = Some rel \<and>
            (if Polymorphic rel then PresetRef f = None
             else \<exists>t nm. ModelRef rel = Some t \<and> map_of reg' t = Some nm \<and>
                  map_of (Presets nm) (NestedPreset f) \<noteq> None \<and> PresetRef f = Some (t, NestedPreset f)))"
    if ty: "FType f = ''preset''"
  proof -
    obtain rel where rel: "map_of (Relations m) (FSource f) = Some rel"
      "if Polymorphic rel then PresetRef f = None
             else \<exists>t nm. ModelRef rel = Some t \<and> map_of reg t = Some nm \<and>
                  map_of (Presets nm) (NestedPreset f) \<noteq> None \<and> PresetRef f = Some (t, NestedPreset f)"
      using assms(1) ty unfolding linked_field_def by blast
    show ?thesis
    proof (cases "Polymorphic rel")
      case True
      then show ?thesis using rel by auto
    next
      case False
      then obtain t nm where "ModelRef rel = Some t" "map_of reg t = Some nm"
        "map_of (Presets nm) (NestedPreset f) \<noteq> None" "PresetRef f = Some (t, NestedPreset f)"
        using rel(2) by auto
      then show ?thesis using step rel(1) False by (metis (no_types, lifting))
    qed
  qed
  then show ?thesis
    using assms(1) unfolding linked_field_def assms(3,4) by blast
qed

text \<open>The steps of linking keep the shape.\<close>

lemma link_model_shape:
  assumes "link_model reg n m = Inr m'"
  shows "Table m' = Table m \<and> Computable m' = Computable m \<and>
    RModel ` snd ` set (Relations m') = RModel ` snd ` set (Relations m) \<and>
    map fst (Presets m') = map fst (Presets m) \<and> map fst (Relations m') = map fst (Relations m)"
proof -
  obtain rels ps where r: "entries_res (link_relation reg n) (Relations m) = Inr rels"
    and p: "entries_res (link_preset reg n (m\<lparr>Relations := rels\<rparr>)) (Presets m) = Inr ps"
    and m': "m' = m\<lparr>Relations := rels, Presets := ps\<rparr>"
    using assms by (auto simp: link_model_def split: sum.splits)
  have "entries_res (link_relation reg n) rs = Inr rs' \<Longrightarrow>
      map (RModel \<circ> snd) rs' = map (RModel \<circ> snd) rs" for rs rs'
  proof (induction rs arbitrary: rs')
    case Nil
    then show ?case by simp
  next
    case (Cons x rs)
    then show ?case using link_relation_linked by (cases x) (auto split: sum.splits)
  qed
  from this [OF r] have "RModel ` snd ` set rels = RModel ` snd ` set (Relations m)"
    by (metis image_comp list.set_map)
  then show ?thesis using m' entries_res_keys [OF r] entries_res_keys [OF p] by simp
qed

lemma keys_None: "map fst xs = map fst ys \<Longrightarrow> map_of xs k = None \<longleftrightarrow> map_of ys k = None"
  by (metis map_of_eq_None_iff list.set_map)

lemma link_same_shape:
  assumes "LinkModelRelations reg = Inr reg'"
  shows "same_shape reg reg'"
  unfolding same_shape_def
proof
  fix x
  show "case map_of reg x of None \<Rightarrow> map_of reg' x = None
     | Some m \<Rightarrow> \<exists>m'. map_of reg' x = Some m' \<and> Table m' = Table m \<and>
         RModel ` snd ` set (Relations m') = RModel ` snd ` set (Relations m) \<and>
         (\<forall>p. map_of (Presets m') p = None \<longleftrightarrow> map_of (Presets m) p = None)"
  proof (cases "map_of reg x")
    case None
    then show ?thesis using entries_res_map_of [OF assms [unfolded LinkModelRelations_def], of x] by simp
  next
    case (Some m)
    then obtain m' where m': "map_of reg' x = Some m'" "link_model reg x m = Inr m'"
      using entries_res_map_of [OF assms [unfolded LinkModelRelations_def], of x] by auto
    note s = link_model_shape [OF m'(2)]
    have p: "\<forall>p. map_of (Presets m') p = None \<longleftrightarrow> map_of (Presets m) p = None"
      using s keys_None [of "Presets m'" "Presets m"] by blast
    have t: "Table m' = Table m" and r: "RModel ` snd ` set (Relations m') = RModel ` snd ` set (Relations m)"
      using s by (simp_all only: simp_thms)
    show ?thesis unfolding Some option.case
      by (intro exI [of _ m'] conjI) (fact m'(1) t r p)+
  qed
qed

lemma link_model_linked:
  assumes "link_model reg n m = Inr m'" "same_shape reg reg'"
  shows "linked_model reg' n m'"
proof -
  obtain rels ps where r: "entries_res (link_relation reg n) (Relations m) = Inr rels"
    and p: "entries_res (link_preset reg n (m\<lparr>Relations := rels\<rparr>)) (Presets m) = Inr ps"
    and m': "m' = m\<lparr>Relations := rels, Presets := ps\<rparr>"
    using assms(1) by (auto simp: link_model_def split: sum.splits)
  have "linked_rel reg' rel" if "(rn, rel) \<in> set rels" for rn rel
    using entries_res_set [OF r that] link_relation_linked linked_rel_shape [OF _ assms(2)] by blast
  moreover have "PName q = pn \<and> list_all (linked_field reg' m') (Fields q)" if q: "(pn, q) \<in> set ps" for pn q
  proof -
    obtain q0 where q0: "link_preset reg n (m\<lparr>Relations := rels\<rparr>) pn q0 = Inr q"
      using entries_res_set [OF p q] by blast
    then obtain fs where "map_res (link_field reg n (m\<lparr>Relations := rels\<rparr>) pn) (Fields q0) = Inr fs"
      "q = q0\<lparr>PName := pn, Fields := fs\<rparr>"
      by (cases "map_res (link_field reg n (m\<lparr>Relations := rels\<rparr>) pn) (Fields q0)")
        (auto simp: link_preset_def)
    moreover from this(1) have "list_all (linked_field reg (m\<lparr>Relations := rels\<rparr>)) fs"
      using link_field_linked by (fastforce simp: map_res_Inr list_all_iff list_all2_conv_all_nth in_set_conv_nth)
    moreover have "linked_field reg' m' f" if "linked_field reg (m\<lparr>Relations := rels\<rparr>) f" for f
      by (rule linked_field_shape [OF that assms(2)]) (simp_all add: m')
    ultimately show ?thesis by (auto simp: list_all_iff)
  qed
  ultimately show ?thesis using m' by (auto simp: linked_model_def list_all_iff)
qed

lemma link_linked_registry:
  assumes "LinkModelRelations reg = Inr reg'"
  shows "linked_registry reg'"
  unfolding linked_registry_def list_all_iff
  using entries_res_set [OF assms [unfolded LinkModelRelations_def]]
    link_model_linked [OF _ link_same_shape [OF assms]] by blast

text \<open>What the other components need of a linked registry.\<close>

lemma linked_registry_linked: "linked_registry reg \<Longrightarrow> linked reg"
  by (fastforce simp: linked_registry_def linked_def linked_model_def linked_rel_def list_all_iff split: if_splits)

definition fresh_refs :: "registry \<Rightarrow> bool" where
  "fresh_refs reg = list_all (\<lambda>(n, m). list_all (\<lambda>(rn, rel). ModelRef rel = None) (Relations m)) reg"

lemma link_wf_refs:
  assumes "LinkModelRelations reg = Inr reg'" "fresh_refs reg"
  shows "wf_refs reg'"
proof -
  have "case ModelRef rel of None \<Rightarrow> True | Some t \<Rightarrow> map_of reg' t \<noteq> None"
    if m: "(n, m') \<in> set reg'" and rel: "(rn, rel) \<in> set (Relations m')" for n m' rn rel
  proof -
    obtain m where m0: "(n, m) \<in> set reg" "link_model reg n m = Inr m'"
      using entries_res_set [OF assms(1) [unfolded LinkModelRelations_def] m] by blast
    obtain rels where "entries_res (link_relation reg n) (Relations m) = Inr rels" "Relations m' = rels"
      using m0(2) by (auto simp: link_model_def split: sum.splits)
    then obtain r0 where r0: "(rn, r0) \<in> set (Relations m)" "link_relation reg n rn r0 = Inr rel"
      using entries_res_set rel by metis
    have lr: "linked_rel reg' rel" using link_linked_registry [OF assms(1)] m rel
      by (fastforce simp: linked_registry_def linked_model_def list_all_iff)
    show ?thesis
    proof (cases "Polymorphic rel")
      case True
      have "ModelRef r0 = None" using assms(2) m0(1) r0(1) by (fastforce simp: fresh_refs_def list_all_iff)
      then show ?thesis using link_relation_linked [OF r0(2)] True by simp
    next
      case False
      then show ?thesis using lr by (simp add: linked_rel_def)
    qed
  qed
  then show ?thesis by (fastforce simp: wf_refs_def list_all_iff)
qed

section \<open>Properties\<close>

text \<open>
  C16. Linking establishes what the rest of the program relies on: every relation has a valid
  type, a foreign and a primary key and, unless it is polymorphic, a reference to an existing
  model; every field of a preset is checked, has an alias, and refers to its nested preset
  (\<^verbatim>\<open>LinkModelRelations\<close>).
\<close>
theorem link_establishes:
  assumes "LinkModelRelations reg = Inr reg'" "fresh_refs reg"
  shows "linked_registry reg' \<and> linked reg' \<and> wf_refs reg'"
  using link_linked_registry [OF assms(1)] linked_registry_linked link_wf_refs [OF assms] by blast

definition demo_loaded :: registry where
  "demo_loaded =
     [(''Person'', empty_model\<lparr>MName := ''Person'', Table := ''people'',
         Relations := [(''org'', empty_relation\<lparr>RType := ''belongs_to'', RModel := ''OrgUnit''\<rparr>)],
         Presets := [(''card'', empty_preset\<lparr>Fields :=
            [empty_field\<lparr>FSource := ''id'', FType := ''int''\<rparr>,
             empty_field\<lparr>FSource := ''org'', FType := ''preset'', NestedPreset := ''item''\<rparr>]\<rparr>)]\<rparr>),
      (''OrgUnit'', empty_model\<lparr>MName := ''OrgUnit'', Table := ''orgs'',
         Relations := [(''people'', empty_relation\<lparr>RType := ''has_many'', RModel := ''Person''\<rparr>)],
         Presets := [(''item'', empty_preset\<lparr>Fields := [empty_field\<lparr>FSource := ''name'', FType := ''string''\<rparr>]\<rparr>)]\<rparr>)]"

lemma demo_link: "is_ok (LinkModelRelations demo_loaded)"
  by code_simp

theorem link_establishes_witness:
  "\<exists>reg'. LinkModelRelations demo_loaded = Inr reg' \<and> linked reg'"
proof -
  obtain reg' where "LinkModelRelations demo_loaded = Inr reg'" using demo_link by (auto simp: is_ok_iff)
  moreover have "fresh_refs demo_loaded" by code_simp
  ultimately show ?thesis using link_establishes by blast
qed

text \<open>
  Linking is idempotent: linking a registry that has been linked succeeds and changes
  nothing, so defaults are set once and never overwritten (\<^verbatim>\<open>LinkModelRelations\<close>).
\<close>
theorem link_idempotent:
  assumes "LinkModelRelations reg = Inr reg'"
  shows "LinkModelRelations reg' = Inr reg'"
  using linked_registry_link [OF link_linked_registry [OF assms]] .

theorem link_idempotent_witness:
  "\<exists>reg'. LinkModelRelations demo_loaded = Inr reg' \<and> LinkModelRelations reg' = Inr reg'"
  using demo_link link_idempotent by (auto simp: is_ok_iff)

text \<open>
  C15. Initialisation of a loaded registry fails only by an error of linking or validation:
  when these succeed, building the alias maps does too. Afterwards every preset has an alias map
  that is a bijection (\<^verbatim>\<open>InitRegistry\<close>, composing linker, validation and alias maps).
\<close>
theorem init_registry_maps:
  assumes "fresh_refs reg" "LinkModelRelations reg = Inr reg1" "ValidateAllPresets reg1 = Inr ()"
    and "plain_names reg1"
  shows "\<exists>reg2. InitRegistry reg = Inr reg2 \<and>
    (\<forall>n m pn p. map_of reg2 n = Some m \<longrightarrow> map_of (Presets m) pn = Some p \<longrightarrow>
       (\<exists>am. FieldsAliasMap p = Some am \<and> am_wf am))"
proof -
  have l: "linked reg1" "wf_refs reg1"
    using link_wf_refs [OF assms(2,1)] linked_registry_linked [OF link_linked_registry [OF assms(2)]] by auto
  note walk = validated_walkable [OF assms(3) l]
  from BuildPresetAliasMaps_ok [OF walk] obtain reg2 where r: "BuildPresetAliasMaps reg1 = Inr reg2"
    "erase reg2 = erase reg1" "\<forall>n \<in> gokeys reg1. \<forall>pn. mapped reg1 reg2 n pn" by blast
  have "\<exists>am. FieldsAliasMap p = Some am \<and> am_wf am"
    if m: "map_of reg2 n = Some m" and p: "map_of (Presets m) pn = Some p" for n m pn p
  proof -
    obtain m0 where m0: "map_of reg1 n = Some m0" "erase_model m = erase_model m0"
      using erase_lookup [OF r(2) m] by blast
    have "pn \<in> gokeys (Presets m0)"
      using map_of_Some_gokeys [OF p] erase_preset_names [OF m0(2)] by simp
    then obtain p0 where "(pn, p0) \<in> set (Presets m0)" by auto
    then obtain ps where ps: "collectPresetRelationPaths reg1 n pn = Inr ps"
      using walk m0(1) unfolding walkable_def by blast
    have "distinct ps" using collectPresetRelationPaths_closed [OF ps assms(4)] by (simp add: paths_closed_def)
    moreover have "FieldsAliasMap p = Some (number_paths ps)"
      using r(3) map_of_Some_gokeys [OF m0(1)] m p ps by (fastforce simp: mapped_def preset_map_def)
    ultimately show ?thesis using number_paths_wf by blast
  qed
  moreover have "InitRegistry reg = Inr reg2" using assms(2,3) r(1) by (simp add: InitRegistry_def)
  ultimately show ?thesis by blast
qed

theorem init_registry_maps_witness: "\<exists>reg2. InitRegistry demo_loaded = Inr reg2"
proof -
  obtain reg1 where r: "LinkModelRelations demo_loaded = Inr reg1" using demo_link by (auto simp: is_ok_iff)
  have "case LinkModelRelations demo_loaded of Inl e \<Rightarrow> False
      | Inr reg1 \<Rightarrow> is_ok (ValidateAllPresets reg1) \<and> plain_names reg1" by code_simp
  then have "ValidateAllPresets reg1 = Inr ()" "plain_names reg1" using r by (auto simp: is_ok_iff)
  moreover have "fresh_refs demo_loaded" by code_simp
  ultimately show ?thesis using init_registry_maps r by blast
qed

end
