(* ===== verification/Alias_Cache.thy ===== *)
theory Alias_Cache
  imports Alias_Map "HOL-Library.Multiset"
begin

text \<open>
  The cache of alias maps, \<^verbatim>\<open>internal/model/alias_cache.go\<close>, and \<^verbatim>\<open>CreateAliasMap\<close>, its client.
  A time is its distance in nanoseconds from an epoch, the zero time is \<open>None\<close>. The mutex makes
  each operation atomic, so an operation is a function on the state of the cache.
\<close>

section \<open>State and operations\<close>

record cache_entry =
  CAliasMap :: alias_map
  LastUsed :: int
  CreatedAt :: int

record alias_cache =
  Items :: "(string, cache_entry) gomap"
  LastSweep :: "int option"
  TotalBytes :: int
  MaxBytes :: int

definition aliasCacheTTL :: int where "aliasCacheTTL = 7 * 24 * 3600 * 1000000000"
definition aliasCacheSweepFreq :: int where "aliasCacheSweepFreq = 3600 * 1000000000"

definition empty_cache :: alias_cache where
  "empty_cache = \<lparr>Items = [], LastSweep = None, TotalBytes = 0, MaxBytes = 0\<rparr>"

definition SetAliasCacheMaxBytes :: "int \<Rightarrow> alias_cache \<Rightarrow> alias_cache" where
  "SetAliasCacheMaxBytes n c = c\<lparr>MaxBytes := n\<rparr>"

definition estimateAliasMapBytes :: "alias_map \<Rightarrow> int" where
  "estimateAliasMapBytes am =
     sum_list (map (\<lambda>(k, v). int (length k + length v)) (PathToAlias am)) +
     sum_list (map (\<lambda>(k, v). int (length k + length v)) (AliasToPath am))"

definition expired :: "int \<Rightarrow> cache_entry \<Rightarrow> bool" where
  "expired now e = (now - LastUsed e > aliasCacheTTL)"

definition entry_bytes :: "cache_entry \<Rightarrow> int" where
  "entry_bytes e = estimateAliasMapBytes (CAliasMap e)"

fun sweep_round :: "int \<Rightarrow> string \<times> cache_entry \<Rightarrow> alias_cache \<Rightarrow> alias_cache" where
  "sweep_round now (key, entry) c =
     (if expired now entry
      then c\<lparr>Items := AList.delete key (Items c), TotalBytes := TotalBytes c - entry_bytes entry\<rparr>
      else c)"

definition maybeSweepLocked :: "int \<Rightarrow> alias_cache \<Rightarrow> alias_cache" where
  "maybeSweepLocked now c =
     (if (case LastSweep c of None \<Rightarrow> False | Some t \<Rightarrow> now - t < aliasCacheSweepFreq) then c
      else (fold (sweep_round now) (Items c) c)\<lparr>LastSweep := Some now\<rparr>)"

definition cache_get :: "string \<Rightarrow> int \<Rightarrow> alias_cache \<Rightarrow> alias_map option \<times> alias_cache" where
  "cache_get key now c0 =
     (let c = maybeSweepLocked now c0
      in case map_of (Items c) key of
           None \<Rightarrow> (None, c)
         | Some entry \<Rightarrow>
             if expired now entry then (None, c\<lparr>Items := AList.delete key (Items c)\<rparr>)
             else (Some (CAliasMap entry), c\<lparr>Items := AList.update key (entry\<lparr>LastUsed := now\<rparr>) (Items c)\<rparr>))"

definition cache_set :: "string \<Rightarrow> alias_map \<Rightarrow> int \<Rightarrow> alias_cache \<Rightarrow> alias_cache" where
  "cache_set key v now c0 =
     (let c = maybeSweepLocked now c0;
          sizeBytes = estimateAliasMapBytes v
      in if MaxBytes c > 0 \<and> sizeBytes > MaxBytes c then c
         else if MaxBytes c > 0 \<and> TotalBytes c + sizeBytes > MaxBytes c then c
         else
           (let c1 = (case map_of (Items c) key of
                        None \<Rightarrow> c
                      | Some existing \<Rightarrow> c\<lparr>TotalBytes := TotalBytes c - entry_bytes existing\<rparr>)
            in c1\<lparr>Items := AList.update key \<lparr>CAliasMap = v, LastUsed = now, CreatedAt = now\<rparr> (Items c1),
                  TotalBytes := TotalBytes c1 + sizeBytes\<rparr>))"

section \<open>The key of a request\<close>

text \<open>
  \<^verbatim>\<open>encodeCanonical\<close>. \<open>jstr\<close> and \<open>jany\<close> stand for \<^verbatim>\<open>json.Marshal\<close> on a string and on any other
  value, which fails with \<open>None\<close>; the code drops the error for a number.
\<close>

definition enc_pairs :: "(string \<Rightarrow> string) \<Rightarrow> (string \<times> string) list \<Rightarrow> string" where
  "enc_pairs jstr kvs = ''{'' @ join_str '','' (map (\<lambda>(k, e). jstr k @ '':'' @ e) (sort_key fst kvs)) @ ''}''"

fun encodeCanonical :: "(string \<Rightarrow> string) \<Rightarrow> (gany \<Rightarrow> string option) \<Rightarrow> gany \<Rightarrow> string option"
  and enc_items :: "(string \<Rightarrow> string) \<Rightarrow> (gany \<Rightarrow> string option) \<Rightarrow> gany list \<Rightarrow> string list option"
  and enc_entries ::
    "(string \<Rightarrow> string) \<Rightarrow> (gany \<Rightarrow> string option) \<Rightarrow> (string \<times> gany) list \<Rightarrow> (string \<times> string) list option" where
  "encodeCanonical jstr jany GNil = Some ''null''"
| "encodeCanonical jstr jany (GBool b) = Some (if b then ''true'' else ''false'')"
| "encodeCanonical jstr jany (GStr s) = Some (jstr s)"
| "encodeCanonical jstr jany (GInt i) = Some (case jany (GInt i) of None \<Rightarrow> [] | Some e \<Rightarrow> e)"
| "encodeCanonical jstr jany (GFloat w) = Some (case jany (GFloat w) of None \<Rightarrow> [] | Some e \<Rightarrow> e)"
| "encodeCanonical jstr jany (GStrs ss) = Some (''['' @ join_str '','' (map jstr ss) @ '']'')"
| "encodeCanonical jstr jany (GList vs) =
     map_option (\<lambda>es. ''['' @ join_str '','' es @ '']'') (enc_items jstr jany vs)"
| "encodeCanonical jstr jany (GMap f) = map_option (enc_pairs jstr) (enc_entries jstr jany f)"
| "encodeCanonical jstr jany (GMaps ms) = jany (GMaps ms)"
| "encodeCanonical jstr jany (GOpaque s) = jany (GOpaque s)"
| "enc_items jstr jany [] = Some []"
| "enc_items jstr jany (v # vs) =
     (case encodeCanonical jstr jany v of None \<Rightarrow> None | Some e \<Rightarrow>
       map_option (\<lambda>es. e # es) (enc_items jstr jany vs))"
| "enc_entries jstr jany [] = Some []"
| "enc_entries jstr jany ((k, v) # f) =
     (case encodeCanonical jstr jany v of None \<Rightarrow> None | Some e \<Rightarrow>
       map_option (\<lambda>es. (k, e) # es) (enc_entries jstr jany f))"

definition cache_preset_name :: "data_preset option \<Rightarrow> string" where
  "cache_preset_name preset =
     (case preset of
        None \<Rightarrow> ''none''
      | Some p \<Rightarrow> if \<not> is_blank (PName p) then PName p else ''custom'')"

text \<open>\<open>digest\<close> stands for the SHA-256 of the bytes, in hexadecimal.\<close>

definition aliasCacheKey ::
  "(string \<Rightarrow> string) \<Rightarrow> (string \<Rightarrow> string) \<Rightarrow> (gany \<Rightarrow> string option) \<Rightarrow>
   string \<Rightarrow> data_preset option \<Rightarrow> gofilters \<Rightarrow> string list \<Rightarrow> string option" where
  "aliasCacheKey digest jstr jany modelName preset filters sorts =
     map_option (\<lambda>data. ''aliasmap:'' @ digest data)
       (encodeCanonical jstr jany (GMap
          [(''model'', GStr modelName), (''preset'', GStr (cache_preset_name preset)),
           (''filters'', GMap filters), (''sorts'', GStrs sorts)]))"

section \<open>CreateAliasMap\<close>

text \<open>
  \<open>key\<close> is the key function above; \<open>now1\<close>, \<open>now2\<close> are the two readings of the clock. When there
  is no key the cache is left alone. The map is built for the receiver \<open>m\<close> from filters and sorts
  normalized for \<open>mdl\<close>.
\<close>

definition CreateAliasMap ::
  "(string \<Rightarrow> data_preset option \<Rightarrow> gofilters \<Rightarrow> string list \<Rightarrow> string option) \<Rightarrow>
   registry \<Rightarrow> model \<Rightarrow> model \<Rightarrow> data_preset option \<Rightarrow> gofilters \<Rightarrow> string list \<Rightarrow> int \<Rightarrow> int \<Rightarrow>
   alias_cache \<Rightarrow> ((alias_error + alias_map) \<times> alias_cache) option" where
  "CreateAliasMap key reg m mdl preset filters0 sorts0 now1 now2 c =
     (case (NormalizeFiltersWithAliases reg mdl filters0, NormalizeSortsWithAliases reg mdl sorts0) of
        (Some filters, Some sorts) \<Rightarrow>
          (case key (MName m) preset filters sorts of
             None \<Rightarrow> map_option (\<lambda>r. (r, c)) (BuildAliasMap reg m preset filters sorts)
           | Some k \<Rightarrow>
               (case cache_get k now1 c of
                  (Some am, c1) \<Rightarrow> Some (Inr am, c1)
                | (None, c1) \<Rightarrow>
                    map_option (\<lambda>r. case r of Inl e \<Rightarrow> (Inl e, c1) | Inr am \<Rightarrow> (Inr am, cache_set k am now2 c1))
                      (BuildAliasMap reg m preset filters sorts)))
      | _ \<Rightarrow> None)"

section \<open>The interface of a cache\<close>

text \<open>
  What a client relies on: a hit is an entry, and no operation makes up an entry. A client that
  stores what it computes then gets back what it would compute.
\<close>

locale memo_cache =
  fixes entry :: "'c \<Rightarrow> 'k \<Rightarrow> 'v option"
    and get :: "'k \<Rightarrow> 'c \<Rightarrow> 'v option \<times> 'c"
    and put :: "'k \<Rightarrow> 'v \<Rightarrow> 'c \<Rightarrow> 'c"
  assumes get_hit: "get k c = (Some v, c') \<Longrightarrow> entry c k = Some v"
    and get_keeps: "get k c = (r, c') \<Longrightarrow> entry c' j = Some v \<Longrightarrow> entry c j = Some v"
    and put_entry: "entry (put k v c) j = Some w \<Longrightarrow> (j = k \<and> w = v) \<or> entry c j = Some w"
begin

definition coherent :: "('k \<Rightarrow> 'v \<Rightarrow> bool) \<Rightarrow> 'c \<Rightarrow> bool" where
  "coherent right c = (\<forall>k v. entry c k = Some v \<longrightarrow> right k v)"

lemma get_coherent: "coherent right c \<Longrightarrow> get k c = (r, c') \<Longrightarrow> coherent right c'"
  unfolding coherent_def using get_keeps by blast

lemma get_right: "coherent right c \<Longrightarrow> get k c = (Some v, c') \<Longrightarrow> right k v"
  unfolding coherent_def using get_hit by blast

lemma put_coherent: "coherent right c \<Longrightarrow> right k v \<Longrightarrow> coherent right (put k v c)"
  unfolding coherent_def using put_entry by blast

end

definition cache_entry_at :: "alias_cache \<Rightarrow> string \<Rightarrow> alias_map option" where
  "cache_entry_at c k = map_option CAliasMap (map_of (Items c) k)"

lemma map_of_delete: "map_of (AList.delete k m) x = (if x = k then None else map_of m x)"
  by (simp add: delete_conv)

lemma sweep_entry:
  "map_of (Items (maybeSweepLocked now c)) k = Some e \<Longrightarrow> map_of (Items c) k = Some e"
proof -
  have round: "map_of (Items (sweep_round now x c)) k = Some e \<Longrightarrow> map_of (Items c) k = Some e" for x c
    by (cases x) (simp add: map_of_delete split: if_splits)
  have "map_of (Items (fold (sweep_round now) xs c)) k = Some e \<Longrightarrow> map_of (Items c) k = Some e" for xs c
  proof (induction xs arbitrary: c)
    case (Cons x xs)
    from Cons.IH [of "sweep_round now x c"] Cons.prems
    have "map_of (Items (sweep_round now x c)) k = Some e" by (simp del: sweep_round.simps)
    then show ?case by (rule round)
  qed simp
  then show "map_of (Items (maybeSweepLocked now c)) k = Some e \<Longrightarrow> map_of (Items c) k = Some e"
    by (auto simp: maybeSweepLocked_def split: if_splits)
qed

lemma cache_get_hit: "cache_get k now c = (Some v, c') \<Longrightarrow> cache_entry_at c k = Some v"
  by (auto simp: cache_get_def Let_def cache_entry_at_def split: option.splits if_splits dest: sweep_entry)

lemma cache_get_keeps: "cache_get k now c = (r, c') \<Longrightarrow> cache_entry_at c' j = Some v \<Longrightarrow> cache_entry_at c j = Some v"
  by (auto simp: cache_get_def Let_def cache_entry_at_def gomap_simps map_of_delete
      split: option.splits if_splits dest!: sweep_entry)

lemma cache_set_entry:
  "cache_entry_at (cache_set k v now c) j = Some w \<Longrightarrow> (j = k \<and> w = v) \<or> cache_entry_at c j = Some w"
  by (auto simp: cache_set_def Let_def cache_entry_at_def gomap_simps
      split: option.splits if_splits dest!: sweep_entry)

interpretation memo: memo_cache cache_entry_at "\<lambda>k. cache_get k now1" "\<lambda>k v. cache_set k v now2" for now1 now2
  by unfold_locales (use cache_get_hit cache_get_keeps cache_set_entry in blast)+

section \<open>What a sweep does\<close>

definition live :: "int \<Rightarrow> (string, cache_entry) gomap \<Rightarrow> (string, cache_entry) gomap" where
  "live now items = filter (\<lambda>(k, e). \<not> expired now e) items"

definition items_bytes :: "(string, cache_entry) gomap \<Rightarrow> int" where
  "items_bytes items = sum_list (map (\<lambda>(k, e). entry_bytes e) items)"

lemma items_bytes_simps [simp]:
  "items_bytes [] = 0" "items_bytes (x # xs) = entry_bytes (snd x) + items_bytes xs"
  "items_bytes (xs @ ys) = items_bytes xs + items_bytes ys"
  by (simp_all add: items_bytes_def split_def)

lemma estimate_nonneg: "0 \<le> estimateAliasMapBytes am"
  unfolding estimateAliasMapBytes_def by (intro add_nonneg_nonneg sum_list_nonneg) auto

lemma entry_bytes_nonneg: "0 \<le> entry_bytes e"
  by (simp add: entry_bytes_def estimate_nonneg)

lemma items_bytes_nonneg: "0 \<le> items_bytes xs"
  by (induction xs) (simp_all add: entry_bytes_nonneg)

lemma delete_filter: "AList.delete k m = filter (\<lambda>(j, v). j \<noteq> k) m"
  by (induction m) auto

lemma items_bytes_delete:
  "gowf m \<Longrightarrow> items_bytes (AList.delete k m) =
     items_bytes m - (case map_of m k of None \<Rightarrow> 0 | Some e \<Rightarrow> entry_bytes e)"
proof (induction m)
  case Nil
  then show ?case by simp
next
  case (Cons x m)
  have "k \<notin> gokeys m \<Longrightarrow> AList.delete k m = m" by (simp add: delete_idem map_of_None_gokeys)
  moreover have "k \<notin> gokeys m \<Longrightarrow> map_of m k = None" by (simp add: map_of_None_gokeys)
  ultimately show ?case using Cons by (cases x) auto
qed

lemma items_bytes_update:
  "gowf m \<Longrightarrow> items_bytes (AList.update k v m) =
     items_bytes m + entry_bytes v - (case map_of m k of None \<Rightarrow> 0 | Some e \<Rightarrow> entry_bytes e)"
proof (induction m)
  case Nil
  then show ?case by simp
next
  case (Cons x m)
  then show ?case by (cases x) auto
qed

lemma fold_sweep:
  "gowf (Items c) \<Longrightarrow> gowf xs \<Longrightarrow> set xs \<subseteq> set (Items c) \<Longrightarrow>
   Items (fold (sweep_round now) xs c) = filter (\<lambda>(k, e). \<not> ((k, e) \<in> set xs \<and> expired now e)) (Items c) \<and>
   TotalBytes (fold (sweep_round now) xs c) - items_bytes (Items (fold (sweep_round now) xs c)) =
     TotalBytes c - items_bytes (Items c) \<and>
   MaxBytes (fold (sweep_round now) xs c) = MaxBytes c"
proof (induction xs arbitrary: c)
  case Nil
  have "filter (\<lambda>(k, e). True) ys = ys" for ys :: "(string, cache_entry) gomap" by (induction ys) auto
  then show ?case by simp
next
  case (Cons x xs)
  obtain k e where x: "x = (k, e)" by (cases x)
  let ?c = "sweep_round now x c"
  have mem: "(k, e) \<in> set (Items c)" "map_of (Items c) k = Some e" using Cons.prems x by auto
  have other: "(j, d) \<in> set xs \<Longrightarrow> j \<noteq> k" for j d using Cons.prems(2) x by force
  have same: "j = k \<longleftrightarrow> (j, d) = (k, e)" if "(j, d) \<in> set (Items c)" for j d
    using that mem Cons.prems(1) by (metis Pair_inject map_of_is_SomeI option.inject)
  have i: "Items ?c = filter (\<lambda>(j, d). \<not> ((j, d) = (k, e) \<and> expired now e)) (Items c)"
  proof (cases "expired now e")
    case True
    then show ?thesis using same by (auto simp: x delete_filter intro!: filter_cong)
  next
    case False
    then show ?thesis by (simp add: x case_prod_unfold)
  qed
  have wf: "gowf (Items ?c)" unfolding i using Cons.prems(1) by (simp add: distinct_map_filter)
  have sub: "set xs \<subseteq> set (Items ?c)" unfolding i using Cons.prems(3) other by auto
  have b: "TotalBytes ?c - items_bytes (Items ?c) = TotalBytes c - items_bytes (Items c)"
    using mem Cons.prems(1) by (simp add: x items_bytes_delete)
  have m: "MaxBytes ?c = MaxBytes c" by (simp add: x)
  have "gowf xs" using Cons.prems(2) by simp
  note IH = Cons.IH [OF wf this sub]
  have f: "filter (\<lambda>(j, d). \<not> ((j, d) \<in> set xs \<and> expired now d)) (Items ?c) =
      filter (\<lambda>(j, d). \<not> ((j, d) \<in> set (x # xs) \<and> expired now d)) (Items c)"
    unfolding i by (auto simp: x filter_filter intro!: filter_cong)
  show ?case
    unfolding fold_Cons comp_apply
    using trans [OF IH [THEN conjunct1] f] trans [OF IH [THEN conjunct2, THEN conjunct1] b]
      trans [OF IH [THEN conjunct2, THEN conjunct2] m] by (intro conjI)
qed

lemma sweep_items:
  assumes "gowf (Items c)"
  shows "Items (maybeSweepLocked now c) \<in> {Items c, live now (Items c)}"
    and "TotalBytes (maybeSweepLocked now c) - items_bytes (Items (maybeSweepLocked now c)) =
      TotalBytes c - items_bytes (Items c)"
    and "MaxBytes (maybeSweepLocked now c) = MaxBytes c"
proof -
  have "filter (\<lambda>(k, e). \<not> ((k, e) \<in> set (Items c) \<and> expired now e)) (Items c) = live now (Items c)"
    unfolding live_def by (rule filter_cong) auto
  with fold_sweep [OF assms assms order_refl, of now]
  show "Items (maybeSweepLocked now c) \<in> {Items c, live now (Items c)}"
    "TotalBytes (maybeSweepLocked now c) - items_bytes (Items (maybeSweepLocked now c)) =
      TotalBytes c - items_bytes (Items c)" "MaxBytes (maybeSweepLocked now c) = MaxBytes c"
    by (auto simp: maybeSweepLocked_def)
qed

section \<open>The memory limit\<close>

text \<open>
  The counter never falls below the bytes held, and stays within the limit once one is set.
\<close>

definition cache_bounded :: "alias_cache \<Rightarrow> bool" where
  "cache_bounded c =
     (gowf (Items c) \<and> items_bytes (Items c) \<le> TotalBytes c \<and>
      (MaxBytes c > 0 \<longrightarrow> TotalBytes c \<le> MaxBytes c))"

definition cache_exact :: "alias_cache \<Rightarrow> bool" where
  "cache_exact c = (gowf (Items c) \<and> TotalBytes c = items_bytes (Items c))"

lemma gowf_live: "gowf m \<Longrightarrow> gowf (live now m)"
  by (simp add: live_def distinct_map_filter)

lemma items_bytes_live: "items_bytes (live now m) \<le> items_bytes m"
  by (induction m) (auto simp: live_def entry_bytes_nonneg add_increasing)

lemma sweep_bounded:
  assumes "cache_bounded c"
  shows "cache_bounded (maybeSweepLocked now c)"
proof -
  have w: "gowf (Items c)" using assms by (simp add: cache_bounded_def)
  note s = sweep_items [OF w, of now]
  have "items_bytes (Items (maybeSweepLocked now c)) \<le> items_bytes (Items c)"
    using s(1) items_bytes_live by auto
  moreover have "gowf (Items (maybeSweepLocked now c))" using s(1) w gowf_live by auto
  ultimately show ?thesis using assms s(2,3) by (auto simp: cache_bounded_def)
qed

lemma get_bounded:
  assumes "cache_bounded c" "cache_get k now c = (r, c')"
  shows "cache_bounded c'"
proof -
  let ?s = "maybeSweepLocked now c"
  note b = sweep_bounded [OF assms(1), of now]
  have w: "gowf (Items ?s)" using b by (simp add: cache_bounded_def)
  show ?thesis
  proof (cases "map_of (Items ?s) k")
    case None
    then show ?thesis using assms(2) b by (simp add: cache_get_def Let_def)
  next
    case (Some e)
    have "items_bytes (AList.delete k (Items ?s)) \<le> items_bytes (Items ?s)"
      using Some entry_bytes_nonneg w by (simp add: items_bytes_delete)
    moreover have "items_bytes (AList.update k (e\<lparr>LastUsed := now\<rparr>) (Items ?s)) = items_bytes (Items ?s)"
      using Some w by (simp add: items_bytes_update entry_bytes_def)
    ultimately show ?thesis using assms(2) Some b w
      by (auto simp: cache_get_def Let_def cache_bounded_def gomap_simps distinct_delete split: if_splits)
  qed
qed

lemma set_bounded:
  assumes "cache_bounded c"
  shows "cache_bounded (cache_set k v now c)"
proof -
  let ?s = "maybeSweepLocked now c"
  note b = sweep_bounded [OF assms, of now]
  have w: "gowf (Items ?s)" using b by (simp add: cache_bounded_def)
  show ?thesis
  proof (cases "MaxBytes ?s > 0 \<and> (estimateAliasMapBytes v > MaxBytes ?s \<or>
      TotalBytes ?s + estimateAliasMapBytes v > MaxBytes ?s)")
    case True
    then show ?thesis using b by (auto simp: cache_set_def Let_def)
  next
    case False
    then have ok: "\<not> (MaxBytes ?s > 0 \<and> estimateAliasMapBytes v > MaxBytes ?s)"
      "\<not> (MaxBytes ?s > 0 \<and> TotalBytes ?s + estimateAliasMapBytes v > MaxBytes ?s)" by auto
    let ?e = "\<lparr>CAliasMap = v, LastUsed = now, CreatedAt = now\<rparr>"
    let ?old = "case map_of (Items ?s) k of None \<Rightarrow> 0 | Some e \<Rightarrow> entry_bytes e"
    have old: "0 \<le> ?old" using entry_bytes_nonneg by (simp split: option.split)
    have r: "Items (cache_set k v now c) = AList.update k ?e (Items ?s)"
      "TotalBytes (cache_set k v now c) = TotalBytes ?s - ?old + estimateAliasMapBytes v"
      "MaxBytes (cache_set k v now c) = MaxBytes ?s"
      using ok by (auto simp: cache_set_def Let_def split: option.splits)
    have "items_bytes (AList.update k ?e (Items ?s)) = items_bytes (Items ?s) + estimateAliasMapBytes v - ?old"
      using w by (simp add: items_bytes_update entry_bytes_def)
    then show ?thesis using r ok old b w by (auto simp: cache_bounded_def gomap_simps)
  qed
qed

text \<open>Sweeping and storing keep the count exact; a look-up that drops an expired entry does not.\<close>

lemma set_exact:
  assumes "cache_exact c"
  shows "cache_exact (cache_set k v now c)"
proof -
  let ?s = "maybeSweepLocked now c"
  have w: "gowf (Items c)" using assms by (simp add: cache_exact_def)
  have ws: "gowf (Items ?s)" "TotalBytes ?s = items_bytes (Items ?s)"
    using sweep_items [OF w, of now] w gowf_live assms by (auto simp: cache_exact_def)
  then show ?thesis
    by (cases "map_of (Items ?s) k")
      (auto simp: cache_set_def Let_def cache_exact_def items_bytes_update gomap_simps entry_bytes_def)
qed

section \<open>The cache is transparent\<close>

text \<open>
  An entry is right when every request that has its key would be answered by it. \<open>key_sound\<close> is
  what the cache asks of the keys: requests with the same key have the same answer.
\<close>

type_synonym key_fun =
  "string \<Rightarrow> data_preset option \<Rightarrow> gofilters \<Rightarrow> string list \<Rightarrow> string option"

definition right_entry :: "key_fun \<Rightarrow> registry \<Rightarrow> string \<Rightarrow> alias_map \<Rightarrow> bool" where
  "right_entry key reg k am =
     (\<forall>m preset filters sorts. map_of reg (MName m) = Some m \<longrightarrow>
        key (MName m) preset filters sorts = Some k \<longrightarrow>
        BuildAliasMap reg m preset filters sorts = Some (Inr am))"

definition key_sound :: "key_fun \<Rightarrow> registry \<Rightarrow> bool" where
  "key_sound key reg =
     (\<forall>m p f s m' p' f' s'. map_of reg (MName m) = Some m \<longrightarrow> map_of reg (MName m') = Some m' \<longrightarrow>
        key (MName m) p f s \<noteq> None \<longrightarrow> key (MName m) p f s = key (MName m') p' f' s' \<longrightarrow>
        BuildAliasMap reg m p f s = BuildAliasMap reg m' p' f' s')"

definition cache_right :: "key_fun \<Rightarrow> registry \<Rightarrow> alias_cache \<Rightarrow> bool" where
  "cache_right key reg c = memo.coherent (right_entry key reg) c"

lemma CreateAliasMap_transparent:
  assumes sound: "key_sound key reg" and m: "map_of reg (MName m) = Some m"
    and right: "cache_right key reg c"
    and f: "NormalizeFiltersWithAliases reg mdl filters0 = Some filters"
    and s: "NormalizeSortsWithAliases reg mdl sorts0 = Some sorts"
    and run: "CreateAliasMap key reg m mdl preset filters0 sorts0 now1 now2 c = Some (r, c')"
  shows "BuildAliasMap reg m preset filters sorts = Some r \<and> cache_right key reg c'"
proof (cases "key (MName m) preset filters sorts")
  case None
  then show ?thesis using f s run right by (auto simp: CreateAliasMap_def)
next
  case (Some k)
  obtain g c1 where g: "cache_get k now1 c = (g, c1)" by (cases "cache_get k now1 c")
  have c1: "memo.coherent (right_entry key reg) c1"
    using memo.get_coherent right g unfolding cache_right_def by blast
  show ?thesis
  proof (cases g)
    case (Some am)
    then have "right_entry key reg k am" using memo.get_right right g unfolding cache_right_def by blast
    then have "BuildAliasMap reg m preset filters sorts = Some (Inr am)"
      using m \<open>key (MName m) preset filters sorts = Some k\<close> by (simp add: right_entry_def)
    then show ?thesis using Some g f s run \<open>key (MName m) preset filters sorts = Some k\<close> c1
      by (simp add: CreateAliasMap_def cache_right_def)
  next
    case None
    then obtain b where b: "BuildAliasMap reg m preset filters sorts = Some b"
      and r: "(r, c') = (case b of Inl e \<Rightarrow> (Inl e, c1) | Inr am \<Rightarrow> (Inr am, cache_set k am now2 c1))"
      using f s g run Some by (auto simp: CreateAliasMap_def)
    show ?thesis
    proof (cases b)
      case (Inl e)
      then show ?thesis using b r c1 by (simp add: cache_right_def)
    next
      case (Inr am)
      have "right_entry key reg k am"
        unfolding right_entry_def
      proof (intro allI impI)
        fix m' p' f' s'
        assume h: "map_of reg (MName m') = Some m'" "key (MName m') p' f' s' = Some k"
        have "BuildAliasMap reg m preset filters sorts = BuildAliasMap reg m' p' f' s'"
          using sound [unfolded key_sound_def, rule_format, OF m h(1), of preset filters sorts p' f' s'] Some h(2)
          by simp
        then show "BuildAliasMap reg m' p' f' s' = Some (Inr am)" using b Inr by simp
      qed
      then show ?thesis using b r c1 Inr memo.put_coherent by (simp add: cache_right_def)
    qed
  qed
qed

section \<open>The key does not depend on the order of maps\<close>

text \<open>\<open>same_value\<close>: the same value, up to the order in which its maps are visited.\<close>

inductive same_value :: "gany \<Rightarrow> gany \<Rightarrow> bool" where
  same_refl: "same_value v v"
| same_list: "list_all2 same_value vs ws \<Longrightarrow> same_value (GList vs) (GList ws)"
| same_map: "map fst f = map fst g \<Longrightarrow> list_all2 same_value (map snd f) (map snd g) \<Longrightarrow>
    mset g = mset h \<Longrightarrow> gowf g \<Longrightarrow> same_value (GMap f) (GMap h)"

lemma enc_items_list: "enc_items jstr jany vs = opt_map (encodeCanonical jstr jany) vs"
  by (induction vs) (auto split: option.splits)

lemma enc_entries_list:
  "enc_entries jstr jany f =
   opt_map (\<lambda>(k, v). map_option (\<lambda>e. (k, e)) (encodeCanonical jstr jany v)) f"
proof (induction f)
  case Nil
  then show ?case by simp
next
  case (Cons x f)
  then show ?case by (cases x) (auto split: option.splits)
qed

lemma opt_map_cong2:
  "list_all2 (\<lambda>x y. f x = g y) xs ys \<Longrightarrow> opt_map f xs = opt_map g ys"
  by (induction rule: list_all2_induct) (auto split: option.splits)

lemma opt_map_iff: "opt_map f us = Some vs \<longleftrightarrow> (\<forall>u \<in> set us. f u \<noteq> None) \<and> vs = map (the \<circ> f) us"
proof (induction us arbitrary: vs)
  case Nil
  then show ?case by auto
next
  case (Cons u us)
  show ?case
  proof (cases "f u")
    case None
    then show ?thesis by simp
  next
    case (Some y)
    then show ?thesis using Cons.IH by (cases "opt_map f us") auto
  qed
qed

lemma opt_map_mset:
  assumes "mset xs = mset ys" "opt_map f xs = Some zs"
  shows "\<exists>ws. opt_map f ys = Some ws \<and> mset ws = mset zs"
proof -
  have "\<forall>u \<in> set ys. f u \<noteq> None" and zs: "zs = map (the \<circ> f) xs"
    using assms(2) mset_eq_setD [OF assms(1)] by (simp_all add: opt_map_iff)
  then have "opt_map f ys = Some (map (the \<circ> f) ys)" by (simp add: opt_map_iff)
  moreover have "mset (map (the \<circ> f) ys) = mset zs" using zs assms(1) by (simp only: mset_map)
  ultimately show ?thesis by blast
qed

lemma sort_key_mset_unique:
  "mset xs = mset ys \<Longrightarrow> distinct (map f xs) \<Longrightarrow> sort_key f xs = sort_key f ys"
proof (rule properties_for_sort_key)
  assume h: "mset xs = mset ys" "distinct (map f xs)"
  then show "mset (sort_key f ys) = mset xs" by simp
  show "sorted (map f (sort_key f ys))" by simp
  fix k
  assume "k \<in> set (sort_key f ys)"
  have "distinct (map f (sort_key f ys))"
    using h by (metis distinct_map mset_eq_imp_distinct_iff mset_eq_setD mset_sort)
  moreover have "filter (\<lambda>x. f k = f x) zs = [x \<leftarrow> zs. x = k]" if "distinct (map f zs)" "k \<in> set zs" for zs
    using that by (intro filter_cong) (auto simp: distinct_map inj_on_def)
  moreover have "[x \<leftarrow> zs. x = k] = replicate (count (mset zs) k) k" for zs :: "'a list"
    by (induction zs) auto
  moreover have "k \<in> set xs" using \<open>k \<in> set (sort_key f ys)\<close> h by (metis mset_eq_setD set_sort)
  ultimately show "filter (\<lambda>x. f k = f x) (sort_key f ys) = filter (\<lambda>x. f k = f x) xs"
    using h \<open>k \<in> set (sort_key f ys)\<close> by (metis mset_sort)
qed

lemma encode_same: "same_value v w \<Longrightarrow> encodeCanonical jstr jany v = encodeCanonical jstr jany w"
proof (induction rule: same_value.induct)
  case (same_refl v)
  then show ?case by simp
next
  case (same_list vs ws)
  then have "enc_items jstr jany vs = enc_items jstr jany ws"
    unfolding enc_items_list by (intro opt_map_cong2) (auto elim: list_all2_mono)
  then show ?case by simp
next
  case (same_map f g h)
  let ?e = "\<lambda>(k, v). map_option (\<lambda>e. (k, e)) (encodeCanonical jstr jany v)"
  have "list_all2 (\<lambda>x y. ?e x = ?e y) f g"
    unfolding list_all2_conv_all_nth
  proof (intro conjI allI impI)
    show l: "length f = length g" using same_map.hyps(1) by (metis length_map)
    fix i
    assume "i < length f"
    then have i: "i < length (map snd f)" "i < length g" using l by simp_all
    have "encodeCanonical jstr jany (map snd f ! i) = encodeCanonical jstr jany (map snd g ! i)"
      using same_map.IH i(1) unfolding list_all2_conv_all_nth by blast
    then have "encodeCanonical jstr jany (snd (f ! i)) = encodeCanonical jstr jany (snd (g ! i))"
      using i by simp
    moreover have "fst (f ! i) = fst (g ! i)" using same_map.hyps(1) i l by (metis length_map nth_map)
    ultimately show "?e (f ! i) = ?e (g ! i)" by (simp add: case_prod_unfold)
  qed
  then have fg: "opt_map ?e f = opt_map ?e g" by (rule opt_map_cong2)
  show ?case
  proof (cases "opt_map ?e g")
    case None
    then have "opt_map ?e h = None"
      using opt_map_mset [OF same_map.hyps(2) [symmetric], of ?e] by (cases "opt_map ?e h") auto
    then show ?thesis using fg None by (simp add: enc_entries_list)
  next
    case (Some zs)
    then obtain ws where ws: "opt_map ?e h = Some ws" "mset ws = mset zs"
      using opt_map_mset [OF same_map.hyps(2)] by blast
    have "opt_map ?e us = Some vs \<Longrightarrow> map fst vs = map fst us" for us vs
    proof (induction us arbitrary: vs)
      case Nil
      then show ?case by simp
    next
      case (Cons u us)
      then show ?case by (cases u) (auto split: option.splits)
    qed
    from this [OF Some] have "distinct (map fst zs)" using same_map.hyps(3) by simp
    then have "sort_key fst zs = sort_key fst ws" using sort_key_mset_unique ws(2) by metis
    then show ?thesis using fg Some ws by (simp add: enc_entries_list enc_pairs_def)
  qed
qed

section \<open>Properties\<close>





text \<open>
  Storing keeps the byte counter exact, but a look-up that finds an expired entry does not:
  it deletes the entry and leaves its bytes counted, for good (\<^verbatim>\<open>aliasMapCache.get\<close>).
\<close>
theorem expired_lookup_leaks_bytes:
  assumes "cache_exact c" "LastSweep c = Some t" "now - t < aliasCacheSweepFreq"
    and "map_of (Items c) k = Some e" "expired now e"
  shows "cache_exact (cache_set k' v now c) \<and>
    TotalBytes (snd (cache_get k now c)) =
      items_bytes (Items (snd (cache_get k now c))) + estimateAliasMapBytes (CAliasMap e)"
  using set_exact [OF assms(1)] assms
  by (simp add: cache_get_def maybeSweepLocked_def cache_exact_def items_bytes_delete entry_bytes_def)

theorem expired_lookup_leaks_bytes_witness:
  "TotalBytes (snd (cache_get ''k'' (aliasCacheTTL + 2)
     \<lparr>Items = [(''k'', \<lparr>CAliasMap = \<lparr>PathToAlias = [(''org'', ''t0'')], AliasToPath = [(''t0'', ''org'')]\<rparr>, LastUsed = 1, CreatedAt = 1\<rparr>)],
      LastSweep = Some (aliasCacheTTL + 1), TotalBytes = 10, MaxBytes = 100\<rparr>)) = 10"
proof -
  let ?e = "\<lparr>CAliasMap = \<lparr>PathToAlias = [(''org'', ''t0'')], AliasToPath = [(''t0'', ''org'')]\<rparr>, LastUsed = 1, CreatedAt = 1\<rparr>"
  let ?c = "\<lparr>Items = [(''k'', ?e)], LastSweep = Some (aliasCacheTTL + 1), TotalBytes = 10, MaxBytes = 100\<rparr>"
  have x: "cache_exact ?c" by (simp add: cache_exact_def items_bytes_def entry_bytes_def estimateAliasMapBytes_def)
  have "TotalBytes (snd (cache_get ''k'' (aliasCacheTTL + 2) ?c)) =
      items_bytes (Items (snd (cache_get ''k'' (aliasCacheTTL + 2) ?c))) + estimateAliasMapBytes (CAliasMap ?e)"
    using expired_lookup_leaks_bytes [OF x, of "aliasCacheTTL + 1" "aliasCacheTTL + 2" "''k''" ?e]
    by (simp add: aliasCacheSweepFreq_def expired_def)
  then show ?thesis
    by (simp add: cache_get_def maybeSweepLocked_def aliasCacheSweepFreq_def expired_def estimateAliasMapBytes_def
        items_bytes_def)
qed

text \<open>
  The key of a request does not depend on the order in which Go visits its maps, at any
  depth: documents that are the same up to that order have the same canonical encoding and the
  same key (\<^verbatim>\<open>encodeCanonical\<close>, \<^verbatim>\<open>aliasCacheKey\<close>).
\<close>
theorem cache_key_canonical:
  assumes "same_value (GMap f) (GMap g)"
  shows "aliasCacheKey digest jstr jany n p f s = aliasCacheKey digest jstr jany n p g s"
  using encode_same [OF assms] by (simp add: aliasCacheKey_def)

theorem cache_key_canonical_witness:
  "aliasCacheKey (\<lambda>d. d) (\<lambda>s. s) (\<lambda>v. None) ''P'' None [(''a'', GNil), (''b'', GBool True)] [] =
   aliasCacheKey (\<lambda>d. d) (\<lambda>s. s) (\<lambda>v. None) ''P'' None [(''b'', GBool True), (''a'', GNil)] []"
proof (rule cache_key_canonical)
  show "same_value (GMap [(''a'', GNil), (''b'', GBool True)]) (GMap [(''b'', GBool True), (''a'', GNil)])"
    by (rule same_map [where g = "[(''a'', GNil), (''b'', GBool True)]"]) (simp_all add: same_refl)
qed

text \<open>
  The key names a preset but not its fields, so \<^verbatim>\<open>key_sound\<close> fails for two presets of one
  name: with any digest and any JSON encoder there is a sequence of two requests of which the
  second is answered with the alias map of the first, which is not the one \<^verbatim>\<open>BuildAliasMap\<close> gives
  (\<^verbatim>\<open>aliasCacheKey\<close>; the presets that \<^verbatim>\<open>MakeThroughRequest\<close> builds take the name of a real one).
\<close>
theorem cache_confuses_presets_of_one_name:
  "\<exists>reg m p1 p2 c1 r1 r2. PName p1 = PName p2 \<and>
     CreateAliasMap (aliasCacheKey digest jstr jany) reg m m (Some p1) [] [] 1 1 empty_cache = Some (r1, c1) \<and>
     fst (the (CreateAliasMap (aliasCacheKey digest jstr jany) reg m m (Some p2) [] [] 2 2 c1)) = r1 \<and>
     BuildAliasMap reg m (Some p2) [] [] = Some r2 \<and> r1 \<noteq> r2"
proof -
  let ?m = "empty_model\<lparr>MName := ''M''\<rparr>"
  let ?a1 = "\<lparr>PathToAlias = [(''x'', ''t0'')], AliasToPath = [(''t0'', ''x'')]\<rparr>"
  let ?a2 = "\<lparr>PathToAlias = [], AliasToPath = []\<rparr>"
  let ?p1 = "empty_preset\<lparr>PName := ''card'', FieldsAliasMap := Some ?a1\<rparr>"
  let ?p2 = "empty_preset\<lparr>PName := ''card'', FieldsAliasMap := Some ?a2\<rparr>"
  let ?key = "aliasCacheKey digest jstr jany"
  have nb: "\<not> is_blank ''card''" by code_simp
  obtain k where k: "?key ''M'' (Some ?p1) [] [] = Some k" "?key ''M'' (Some ?p2) [] [] = Some k"
    by (simp add: aliasCacheKey_def cache_preset_name_def nb)
  have paths: "request_paths ?m p [] [] = []" for p
    by (simp add: request_paths_def PathsFromFilters_def PathsFromSorts_def collectComputablePathsForRequest_def
        mergeAndSortPaths_def dedup_def empty_model_def)
  have b1: "BuildAliasMap [] ?m (Some ?p1) [] [] = Some (Inr ?a1)"
    by (simp add: BuildAliasMap_def paths base_aliases_def Let_def copy_alias_map_def am_add_def empty_alias_map_def)
  have b2: "BuildAliasMap [] ?m (Some ?p2) [] [] = Some (Inr ?a2)"
    by (simp add: BuildAliasMap_def paths base_aliases_def Let_def copy_alias_map_def am_add_def empty_alias_map_def)
  have n: "NormalizeFiltersWithAliases [] ?m [] = Some []" "NormalizeSortsWithAliases [] ?m [] = Some []"
    by (simp_all add: NormalizeFiltersWithAliases_def NormalizeSortsWithAliases_def)
  have g1: "cache_get k 1 empty_cache = (None, empty_cache\<lparr>LastSweep := Some 1\<rparr>)"
    by (simp add: cache_get_def maybeSweepLocked_def empty_cache_def)
  let ?c1 = "cache_set k ?a1 1 (empty_cache\<lparr>LastSweep := Some 1\<rparr>)"
  have r1: "CreateAliasMap ?key [] ?m ?m (Some ?p1) [] [] 1 1 empty_cache = Some (Inr ?a1, ?c1)"
    using k b1 n g1 by (simp add: CreateAliasMap_def)
  have "fst (cache_get k 2 ?c1) = Some ?a1"
    by (simp add: cache_get_def cache_set_def maybeSweepLocked_def empty_cache_def aliasCacheSweepFreq_def
        expired_def aliasCacheTTL_def Let_def)
  then have "fst (the (CreateAliasMap ?key [] ?m ?m (Some ?p2) [] [] 2 2 ?c1)) = Inr ?a1"
    using k n by (cases "cache_get k 2 ?c1") (simp add: CreateAliasMap_def)
  moreover have "PName ?p1 = PName ?p2" by simp
  moreover have "(Inr ?a1 :: alias_error + alias_map) \<noteq> Inr ?a2" by simp
  ultimately show ?thesis using r1 b2 by blast
qed

end
