(* ===== verification/Detect_Joins.thy ===== *)
theory Detect_Joins
  imports Alias_Map
begin

text \<open>
  Joins: \<^verbatim>\<open>internal/model/DetectJoins.go\<close>. The fields of a request lead over relations, each of
  which becomes a join under the alias the alias map has for its path; a relation with \<^verbatim>\<open>through\<close>
  becomes two, the first under a random alias.

  The random numbers are an input: \<open>rnd\<close> is the list of the results of the calls
  \<^verbatim>\<open>rand.Intn(19)\<close>, in order. The loop of \<^verbatim>\<open>generateUniqueAlias\<close> has no bound, so a list that ends
  before a free name is drawn is the error \<open>NoMoreDraws\<close>.

  The recursion over the tails of a path may expand aliases again at each model, so it is a
  partial function; \<open>None\<close> is \<^emph>\<open>does not return\<close>.
\<close>

section \<open>Random aliases\<close>

definition alias_letters :: string where
  "alias_letters = ''bcfghjklmnpqrstvwxz''"

text \<open>\<^verbatim>\<open>randomAlias\<close> with the draws that are left, \<open>None\<close> when there are too few.\<close>

fun randomAlias :: "nat \<Rightarrow> nat list \<Rightarrow> (string \<times> nat list) option" where
  "randomAlias 0 rnd = Some ([], rnd)"
| "randomAlias (Suc n) [] = None"
| "randomAlias (Suc n) (r # rnd) =
     map_option (\<lambda>(s, rest). (alias_letters ! (r mod length alias_letters) # s, rest)) (randomAlias n rnd)"

lemma randomAlias_shrink: "randomAlias n rnd = Some (s, rest) \<Longrightarrow> length rnd = length rest + n"
  by (induction n rnd arbitrary: s rule: randomAlias.induct) auto

text \<open>
  The joins made so far, \<^verbatim>\<open>joinMap\<close>, by their alias.
\<close>

type_synonym join_map = "(string, join_spec) gomap"

function generateUniqueAlias :: "join_map \<Rightarrow> nat list \<Rightarrow> (string \<times> nat list) option" where
  "generateUniqueAlias existing rnd =
     (case randomAlias 3 rnd of
        None \<Rightarrow> None
      | Some (a, rest) \<Rightarrow>
          if map_of existing a = None then Some (a, rest) else generateUniqueAlias existing rest)"
  by pat_completeness auto
termination
  by (relation "measure (\<lambda>(e, rnd). length rnd)") (auto dest: randomAlias_shrink)

declare generateUniqueAlias.simps [simp del]

section \<open>One join\<close>

datatype join_error =
    AliasNotFound string string
  | NoFinalRelation string string
  | UnsupportedJoinType string
  | NilReference
  | NoMoreDraws

definition replaceTableWithAlias :: "string \<Rightarrow> string \<Rightarrow> string" where
  "replaceTableWithAlias wh a = (if wh = [] then [] else replace_char (CHR ''.'') (a @ ''.'') wh)"

definition on_clause :: "string \<Rightarrow> string \<Rightarrow> string \<Rightarrow> string \<Rightarrow> string" where
  "on_clause a1 c1 a2 c2 = a1 @ ''.'' @ c1 @ '' = '' @ a2 @ ''.'' @ c2"

definition left_join :: "string \<Rightarrow> string \<Rightarrow> string \<Rightarrow> string \<Rightarrow> bool \<Rightarrow> join_spec" where
  "left_join tbl a on wh dist =
     \<lparr>JTable = tbl, JAlias = a, On = on, JoinType = ''LEFT JOIN'', JDistinct = dist,
      Conditions = [], JWhere = wh\<rparr>"

definition is_has :: "model_relation \<Rightarrow> bool" where
  "is_has rel = (RType rel = ''has_many'' \<or> RType rel = ''has_one'')"

text \<open>The relation of the through model that leads to the target: the first one Go visits.\<close>

definition final_relation :: "model \<Rightarrow> model_relation \<Rightarrow> model_relation option" where
  "final_relation thr rel = map_option snd (find (\<lambda>(n, sub). ModelRef sub = ModelRef rel) (Relations thr))"

text \<open>
  The joins of one relation: what is added for an alias that has no join yet. The target model
  is not nil; a nil through reference would panic.
\<close>

definition relation_joins ::
  "registry \<Rightarrow> model \<Rightarrow> model_relation \<Rightarrow> string \<Rightarrow> string \<Rightarrow> bool \<Rightarrow> join_map \<Rightarrow> nat list \<Rightarrow>
   join_error + join_spec list \<times> nat list" where
  "relation_joins reg target rel alias parentAlias throughMode joinMap rnd =
     (if Through rel \<noteq> [] \<and> \<not> throughMode then
        (case generateUniqueAlias joinMap rnd of
           None \<Rightarrow> Inl NoMoreDraws
         | Some (throughAlias, rnd') \<Rightarrow>
             (case deref reg (ThroughRef rel) of
                None \<Rightarrow> Inl NilReference
              | Some thr \<Rightarrow>
                  (case final_relation thr rel of
                     None \<Rightarrow> Inl (NoFinalRelation (Table thr) (Table target))
                   | Some finalRel \<Rightarrow>
                       Inr ([left_join (Table thr) throughAlias
                               (on_clause parentAlias (PK rel) throughAlias (FK rel))
                               (replaceTableWithAlias (ThroughWhere rel) throughAlias) False,
                             left_join (Table target) alias
                               (on_clause throughAlias (FK finalRel) alias (PK finalRel))
                               (replaceTableWithAlias (RWhere rel) alias) (is_has rel)], rnd'))))
      else if RType rel = ''belongs_to'' then
        Inr ([left_join (Table target) alias (on_clause parentAlias (FK rel) alias (PK rel))
                (replaceTableWithAlias (RWhere rel) alias) (is_has rel)], rnd)
      else if RType rel = ''has_one'' \<or> RType rel = ''has_many'' then
        Inr ([left_join (Table target) alias (on_clause alias (FK rel) parentAlias (PK rel))
                (replaceTableWithAlias (RWhere rel) alias) (is_has rel)], rnd)
      else Inl (UnsupportedJoinType (RType rel)))"

definition add_joins :: "join_spec list \<Rightarrow> join_map \<Rightarrow> join_map" where
  "add_joins js joinMap = fold (\<lambda>j jm. AList.update (JAlias j) j jm) js joinMap"

section \<open>The recursion\<close>

text \<open>Splitting a path at its first dot.\<close>

definition head_tail :: "string \<Rightarrow> string \<times> string" where
  "head_tail field = (case split2 ''.'' field of (h, None) \<Rightarrow> (h, []) | (h, Some t) \<Rightarrow> (h, t))"

text \<open>The relation a field starts with, if it is one that is joined, and its target model.\<close>

definition join_relation :: "registry \<Rightarrow> model \<Rightarrow> string \<Rightarrow> (model_relation \<times> model) option" where
  "join_relation reg m relName =
     (if relName = [] then None
      else case map_of (Relations m) relName of
        None \<Rightarrow> None
      | Some rel \<Rightarrow>
          if Polymorphic rel then None
          else map_option (Pair rel) (deref reg (ModelRef rel)))"

text \<open>
  The first field: nothing to join, an error, or the new joins with the model, the path and the
  alias under which its tail is to be joined.
\<close>

definition field_joins ::
  "registry \<Rightarrow> alias_map \<Rightarrow> model \<Rightarrow> string \<Rightarrow> join_map \<times> nat list \<Rightarrow> string \<Rightarrow> string \<Rightarrow> bool \<Rightarrow>
   join_error + (join_spec list \<times> (join_map \<times> nat list) \<times> model \<times> string \<times> string \<times> string) option" where
  "field_joins reg aliasMap m field st pathPrefix parentAlias throughMode =
     (case head_tail field of (h, tail) \<Rightarrow>
        (case join_relation reg m (trim_space h) of
           None \<Rightarrow> Inr None
         | Some (rel, target) \<Rightarrow>
             (let fullPath = pathPrefix @ trim_space h
              in case map_of (PathToAlias aliasMap) fullPath of
                   None \<Rightarrow> Inl (AliasNotFound fullPath (MName m))
                 | Some alias \<Rightarrow>
                     (case (if map_of (fst st) alias \<noteq> None then Inr ([], snd st)
                            else relation_joins reg target rel alias parentAlias throughMode
                                   (fst st) (snd st)) of
                        Inl e \<Rightarrow> Inl e
                      | Inr (js, rnd) \<Rightarrow>
                          Inr (Some (js, (add_joins js (fst st), rnd), target, tail, fullPath, alias))))))"

partial_function (option) detect_rec ::
  "registry \<Rightarrow> alias_map \<Rightarrow> model \<Rightarrow> string list \<Rightarrow> join_map \<times> nat list \<Rightarrow> string \<Rightarrow> string \<Rightarrow> bool \<Rightarrow>
   (join_error + join_spec list \<times> join_map \<times> nat list) option" where
  "detect_rec reg aliasMap m flds st pathPrefix parentAlias throughMode =
     (case flds of
        [] \<Rightarrow> Some (Inr ([], st))
      | field # rest \<Rightarrow>
          Option.bind (ExpandAliasPath reg m field) (\<lambda>expanded.
            (case field_joins reg aliasMap m (if expanded \<noteq> [] then expanded else field) st
                    pathPrefix parentAlias throughMode of
               Inl e \<Rightarrow> Some (Inl e)
             | Inr None \<Rightarrow> detect_rec reg aliasMap m rest st pathPrefix parentAlias throughMode
             | Inr (Some (js, st1, target, tail, fullPath, alias)) \<Rightarrow>
                 Option.bind
                   (if tail \<noteq> []
                    then detect_rec reg aliasMap target [tail] st1 (fullPath @ ''.'') alias False
                    else Some (Inr ([], st1)))
                   (\<lambda>r1. case r1 of
                      Inl e \<Rightarrow> Some (Inl e)
                    | Inr (js1, st2) \<Rightarrow>
                        Option.bind
                          (detect_rec reg aliasMap m rest st2 pathPrefix parentAlias throughMode)
                          (\<lambda>r2. case r2 of
                             Inl e \<Rightarrow> Some (Inl e)
                           | Inr (js2, st3) \<Rightarrow> Some (Inr (js @ js1 @ js2, st3)))))))"

declare detect_rec.simps [code]

definition DetectJoins ::
  "registry \<Rightarrow> model \<Rightarrow> alias_map \<Rightarrow> string list \<Rightarrow> string list \<Rightarrow> string list \<Rightarrow> nat list \<Rightarrow>
   (join_error + join_spec list) option" where
  "DetectJoins reg m aliasMap filterFields sortFields presetFields rnd =
     map_option (map_sum id fst)
       (detect_rec reg aliasMap m (filterFields @ sortFields @ presetFields) ([], rnd) [] ''main'' False)"

section \<open>Random aliases are free, and never those of a path\<close>

lemma randomAlias_letters:
  "randomAlias n rnd = Some (s, rest) \<Longrightarrow> length s = n \<and> set s \<subseteq> set alias_letters"
proof (induction n rnd arbitrary: s rule: randomAlias.induct)
  case (3 n r rnd)
  have "alias_letters ! (r mod length alias_letters) \<in> set alias_letters"
    by (rule nth_mem) (simp add: alias_letters_def)
  with 3 show ?case by auto
qed auto

lemma generateUniqueAlias_Some:
  "generateUniqueAlias existing rnd = Some (a, rest) \<Longrightarrow>
   map_of existing a = None \<and> length a = 3 \<and> set a \<subseteq> set alias_letters"
proof (induction existing rnd rule: generateUniqueAlias.induct)
  case (1 existing rnd)
  from 1(2) show ?case
    by (subst (asm) generateUniqueAlias.simps)
       (auto split: option.splits prod.splits if_splits dest: randomAlias_letters 1(1))
qed

text \<open>
  A free name among the draws is found: enough random numbers give an alias.
\<close>

lemma generateUniqueAlias_returns:
  "randomAlias 3 rnd = Some (a, rest) \<Longrightarrow> map_of existing a = None \<Longrightarrow>
   generateUniqueAlias existing rnd = Some (a, rest)"
  by (subst generateUniqueAlias.simps) simp

definition numbered_aliases :: "alias_map \<Rightarrow> bool" where
  "numbered_aliases am = (\<forall>p a. map_of (PathToAlias am) p = Some a \<longrightarrow> (\<exists>n. a = alias_name n))"

lemma alias_name_not_random:
  assumes "set a \<subseteq> set alias_letters"
  shows "a \<noteq> alias_name n"
proof
  assume "a = alias_name n"
  moreover obtain c cs where s: "show_nat n = c # cs" using show_nat_digits [of n] by (cases "show_nat n") auto
  ultimately have "c \<in> set alias_letters" using assms by (simp add: alias_name_def)
  moreover have "is_digit c" using show_nat_digits [of n] s by simp
  ultimately show False by (auto simp: alias_letters_def is_digit_def)
qed

lemma alias_name_not_main: "alias_name n \<noteq> ''main''"
  by (simp add: alias_name_def)

lemma random_not_main: "length a = 3 \<Longrightarrow> a \<noteq> ''main''"
  by auto

section \<open>Joins refer to what is in scope\<close>

text \<open>
  The list of joins of a statement is \<open>scoped\<close> under the aliases that are visible: each join
  adds a new alias, and its condition compares a column of it with a column of a visible one.
\<close>

definition links :: "string \<Rightarrow> join_spec \<Rightarrow> bool" where
  "links p j = (\<exists>c1 c2. On j = on_clause p c1 (JAlias j) c2 \<or> On j = on_clause (JAlias j) c1 p c2)"

fun scoped :: "string set \<Rightarrow> join_spec list \<Rightarrow> bool" where
  "scoped vis [] = True"
| "scoped vis (j # js) =
     (JAlias j \<notin> vis \<and> (\<exists>p \<in> vis. links p j) \<and> scoped (insert (JAlias j) vis) js)"

lemma scoped_append: "scoped vis (xs @ ys) \<longleftrightarrow> scoped vis xs \<and> scoped (vis \<union> JAlias ` set xs) ys"
  by (induction xs arbitrary: vis) auto

lemma scoped_fresh: "scoped vis js \<Longrightarrow> distinct (map JAlias js) \<and> JAlias ` set js \<inter> vis = {}"
proof (induction js arbitrary: vis)
  case (Cons j js)
  then show ?case using Cons.IH [of "insert (JAlias j) vis"] by auto
qed simp

lemma add_joins_keys: "gokeys (add_joins js jm) = gokeys jm \<union> JAlias ` set js"
  unfolding add_joins_def by (induction js arbitrary: jm) (auto simp: gomap_simps)

abbreviation visible :: "join_map \<Rightarrow> string set" where
  "visible jm \<equiv> insert ''main'' (gokeys jm)"

lemma relation_joins_scoped:
  assumes "relation_joins reg target rel (alias_name n) parent tm jm rnd = Inr (js, rnd')"
    and "parent \<in> visible jm" "alias_name n \<notin> gokeys jm"
  shows "scoped (visible jm) js \<and> alias_name n \<in> JAlias ` set js"
proof (cases "Through rel \<noteq> [] \<and> \<not> tm")
  case True
  then obtain ta thr fr where g: "generateUniqueAlias jm rnd = Some (ta, rnd')"
    and d: "deref reg (ThroughRef rel) = Some thr" "final_relation thr rel = Some fr"
    using assms(1) by (auto simp: relation_joins_def split: option.splits prod.splits)
  have js: "js = [left_join (Table thr) ta (on_clause parent (PK rel) ta (FK rel))
                     (replaceTableWithAlias (ThroughWhere rel) ta) False,
                   left_join (Table target) (alias_name n) (on_clause ta (FK fr) (alias_name n) (PK fr))
                     (replaceTableWithAlias (RWhere rel) (alias_name n)) (is_has rel)]"
    using assms(1) True by (simp add: relation_joins_def g d)
  have ta: "ta \<notin> gokeys jm" "ta \<noteq> ''main''" "ta \<noteq> alias_name n"
    using generateUniqueAlias_Some [OF g] alias_name_not_random random_not_main
    by (auto simp: map_of_None_gokeys)
  have "links parent (js ! 0)" "links ta (js ! 1)"
    unfolding links_def js left_join_def by auto
  then show ?thesis
    using assms(2,3) ta alias_name_not_main [of n] by (auto simp: js left_join_def)
next
  case False
  then obtain on dist where js: "js = [left_join (Table target) (alias_name n) on
      (replaceTableWithAlias (RWhere rel) (alias_name n)) dist]"
    and on: "on = on_clause parent (FK rel) (alias_name n) (PK rel) \<or>
      on = on_clause (alias_name n) (FK rel) parent (PK rel)"
    using assms(1) by (auto simp: relation_joins_def split: if_splits)
  have "links parent (hd js)" using on by (auto simp: js left_join_def links_def)
  then show ?thesis
    using assms(2,3) alias_name_not_main [of n] by (auto simp: js left_join_def)
qed

text \<open>
  The contract of the recursion: the joins returned are scoped under those there were, and the
  aliases in the map are those there were and those of the joins.
\<close>

definition detect_ok :: "join_map \<Rightarrow> join_error + join_spec list \<times> join_map \<times> nat list \<Rightarrow> bool" where
  "detect_ok jm r = (case r of
     Inl e \<Rightarrow> True
   | Inr (js, jm', rnd') \<Rightarrow> scoped (visible jm) js \<and> gokeys jm' = gokeys jm \<union> JAlias ` set js)"

lemma detect_ok_append:
  assumes "scoped (visible jm) js" "gokeys jm1 = gokeys jm \<union> JAlias ` set js"
    and "detect_ok jm1 (Inr (js1, jm2, rnd2))" "detect_ok jm2 (Inr (js2, jm3, rnd3))"
  shows "detect_ok jm (Inr (js @ js1 @ js2, jm3, rnd3))"
proof -
  have "visible jm1 = visible jm \<union> JAlias ` set js" "visible jm2 = visible jm1 \<union> JAlias ` set js1"
    using assms by (auto simp: detect_ok_def)
  then show ?thesis using assms by (auto simp: detect_ok_def scoped_append Un_assoc)
qed


lemma detect_ok_mono: "detect_ok jm (Inr (js, st')) \<Longrightarrow> gokeys jm \<subseteq> gokeys (fst st')"
  by (cases st') (simp add: detect_ok_def)

lemma bind_pair_Some:
  "Option.bind x (\<lambda>r1. case r1 of Inl e \<Rightarrow> Some (Inl e) | Inr (a, b) \<Rightarrow> g a b) = Some r \<longleftrightarrow>
   (\<exists>e. x = Some (Inl e) \<and> r = Inl e) \<or> (\<exists>a b. x = Some (Inr (a, b)) \<and> g a b = Some r)"
proof (cases x)
  case (Some y)
  then show ?thesis by (cases y) auto
qed simp

lemma field_joins_Some:
  assumes "field_joins reg am m field st prefx parent tm = Inr (Some (js, st1, target, tail, full, a))"
    and "numbered_aliases am" "parent \<in> visible (fst st)"
  shows "scoped (visible (fst st)) js \<and> gokeys (fst st1) = gokeys (fst st) \<union> JAlias ` set js \<and>
    a \<in> visible (fst st1) \<and> map_of (PathToAlias am) full = Some a \<and> map_of (fst st1) a \<noteq> None"
proof -
  obtain rel rnd where al: "map_of (PathToAlias am) full = Some a"
    and js: "(if map_of (fst st) a \<noteq> None then Inr ([], snd st)
              else relation_joins reg target rel a parent tm (fst st) (snd st)) = Inr (js, rnd)"
    and st1: "st1 = (add_joins js (fst st), rnd)"
    using assms(1)
    by (auto simp: field_joins_def Let_def split: prod.splits option.splits sum.splits)
  obtain n where n: "a = alias_name n" using assms(2) al by (auto simp: numbered_aliases_def)
  have "scoped (visible (fst st)) js \<and> a \<in> gokeys (fst st) \<union> JAlias ` set js"
  proof (cases "map_of (fst st) a")
    case None
    then have "a \<notin> gokeys (fst st)" by (simp add: map_of_None_gokeys)
    then show ?thesis
      using relation_joins_scoped [of reg target rel n parent tm "fst st" "snd st" js rnd] None js n assms(3)
      by auto
  next
    case (Some j)
    then have "js = []" using js by simp
    then show ?thesis using Some map_of_Some_gokeys by force
  qed
  then show ?thesis using al by (auto simp: st1 add_joins_keys map_of_None_gokeys)
qed

lemma detect_rec_ok:
  assumes "numbered_aliases am"
    and "detect_rec reg am m flds st prefx parent tm = Some r" "parent \<in> visible (fst st)"
  shows "detect_ok (fst st) r"
proof -
  let ?P = "\<lambda>reg am' m flds st prefx parent tm r.
    am' = am \<longrightarrow> parent \<in> visible (fst st) \<longrightarrow> detect_ok (fst st) r"
  have "?P reg am m flds st prefx parent tm r"
  proof (rule detect_rec.raw_induct [OF _ assms(2), where P = ?P], goal_cases)
    case (1 f reg am' m flds st prefx parent tm r)
    note IH = 1(1) and body = 1(2)
    show ?case
    proof (intro impI)
      assume am: "am' = am" and parent: "parent \<in> visible (fst st)"
      show "detect_ok (fst st) r"
      proof (cases flds)
        case Nil
        then have "r = Inr ([], st)" using body by simp
        then show ?thesis by (cases st) (simp add: detect_ok_def)
      next
        case (Cons fld rest)
        obtain ex where ex: "ExpandAliasPath reg m fld = Some ex"
          using body Cons by (auto simp: bind_eq_Some_conv)
        define j where j: "j = field_joins reg am m (if ex \<noteq> [] then ex else fld) st prefx parent tm"
        have body': "(case j of Inl e \<Rightarrow> Some (Inl e)
             | Inr None \<Rightarrow> f reg am m rest st prefx parent tm
             | Inr (Some (js, st1, target, tail, full, a)) \<Rightarrow>
                 Option.bind (if tail \<noteq> [] then f reg am target [tail] st1 (full @ ''.'') a False else Some (Inr ([], st1)))
                   (\<lambda>r1. case r1 of Inl e \<Rightarrow> Some (Inl e)
                    | Inr (js1, st2) \<Rightarrow> Option.bind (f reg am m rest st2 prefx parent tm)
                          (\<lambda>r2. case r2 of Inl e \<Rightarrow> Some (Inl e)
                           | Inr (js2, st3) \<Rightarrow> Some (Inr (js @ js1 @ js2, st3))))) = Some r"
          using body unfolding Cons am list.case ex Option.bind.simps j .
        show ?thesis
        proof (cases "\<exists>e. r = Inl e")
          case True
          then show ?thesis by (auto simp: detect_ok_def)
        next
          case ok: False
          show ?thesis
          proof (cases j)
            case (Inl e)
            then show ?thesis using body' ok by auto
          next
            case (Inr o1)
            show ?thesis
            proof (cases o1)
              case None
              then have "f reg am m rest st prefx parent tm = Some r" using body' Inr by simp
              from IH [OF this] show ?thesis using parent by blast
            next
              case (Some t)
              obtain js st1 target tail full a where t: "t = (js, st1, target, tail, full, a)" by (cases t)
              obtain js1 st2 js2 st3 where
                r1: "(if tail \<noteq> [] then f reg am target [tail] st1 (full @ ''.'') a False else Some (Inr ([], st1))) = Some (Inr (js1, st2))"
                and r2: "f reg am m rest st2 prefx parent tm = Some (Inr (js2, st3))"
                and r: "r = Inr (js @ js1 @ js2, st3)"
                using body' Inr Some t ok by (auto simp only: sum.case option.case prod.case bind_pair_Some)
              have fj: "scoped (visible (fst st)) js" "gokeys (fst st1) = gokeys (fst st) \<union> JAlias ` set js"
                "a \<in> visible (fst st1)"
                using field_joins_Some [of reg am m _ st prefx parent tm] j Inr Some t assms(1) parent by blast+
              have o1: "detect_ok (fst st1) (Inr (js1, st2))"
              proof (cases "tail = []")
                case True
                then show ?thesis using r1 by (cases st1) (auto simp: detect_ok_def)
              next
                case False
                then have "f reg am target [tail] st1 (full @ ''.'') a False = Some (Inr (js1, st2))"
                  using r1 by simp
                from IH [OF this] show ?thesis using fj(3) by blast
              qed
              then have "parent \<in> visible (fst st2)"
                using parent fj(2) by (auto simp: detect_ok_def split: prod.splits)
              then have o2: "detect_ok (fst st2) (Inr (js2, st3))" using IH r2 by blast
              show ?thesis
                using detect_ok_append [OF fj(1,2)] o1 o2 by (cases st2; cases st3) (simp add: r)
            qed
          qed
        qed
      qed
    qed
  qed
  then show ?thesis using assms(3) by blast
qed

section \<open>Every relation of a path is joined\<close>

text \<open>
  The aliases that a path needs, read off the alias map along the relations it leads over; the
  first segment that is not one ends the walk. \<open>clean_path\<close> is a path as the request has it
  after normalisation: no aliases to expand, no blanks around a segment.
\<close>

fun join_aliases :: "registry \<Rightarrow> alias_map \<Rightarrow> model \<Rightarrow> string \<Rightarrow> string list \<Rightarrow> string option list" where
  "join_aliases reg am m prefx [] = []"
| "join_aliases reg am m prefx (seg # segs) =
     (case join_relation reg m seg of
        None \<Rightarrow> []
      | Some (rel, target) \<Rightarrow>
          map_of (PathToAlias am) (prefx @ seg) #
          join_aliases reg am target (prefx @ seg @ ''.'') segs)"

definition clean_path :: "registry \<Rightarrow> model \<Rightarrow> string list \<Rightarrow> bool" where
  "clean_path reg m segs =
     (segs \<noteq> [] \<and> no_dots segs \<and> list_all (\<lambda>s. trim_space s = s) segs \<and> alias_free reg m segs)"

lemma head_tail_join:
  assumes "no_dots (seg # segs)"
  shows "head_tail (join_str ''.'' (seg # segs)) = (seg, join_str ''.'' segs)"
proof -
  have pre: "str_index ''.'' (s @ CHR ''.'' # t) = Some (length s)" if "CHR ''.'' \<notin> set s" for s t
    using that by (induction s) auto
  have none: "str_index ''.'' s = None" if "CHR ''.'' \<notin> set s" for s
    using that by (induction s) auto
  show ?thesis
  proof (cases segs)
    case Nil
    then show ?thesis using assms none by (simp add: head_tail_def split2_def)
  next
    case (Cons s ss)
    then show ?thesis using assms pre [of seg] by (simp add: head_tail_def split2_def)
  qed
qed

lemma clean_path_expand: "clean_path reg m segs \<Longrightarrow> ExpandAliasPath reg m (join_str ''.'' segs) = Some (join_str ''.'' segs)"
  by (rule alias_free_ExpandAliasPath) (simp add: clean_path_def split_join_dots)

lemma clean_path_next:
  assumes "clean_path reg m (seg # segs)" "join_relation reg m seg = Some (rel, target)" "segs \<noteq> []"
  shows "clean_path reg target segs"
  using assms by (auto simp: clean_path_def join_relation_def split: option.splits if_splits)

lemma join_aliases_Nil [simp]: "join_aliases reg am m prefx [[]] = []"
  by (simp add: join_relation_def)

text \<open>A successful run has processed each of its fields.\<close>

lemma detect_rec_at:
  assumes "numbered_aliases am"
  shows "detect_rec reg am m flds st prefx parent tm = Some (Inr (js, st')) \<Longrightarrow>
    parent \<in> visible (fst st) \<Longrightarrow> fld \<in> set flds \<Longrightarrow> ExpandAliasPath reg m fld = Some fld \<Longrightarrow>
    \<exists>st0. parent \<in> visible (fst st0) \<and>
      (field_joins reg am m fld st0 prefx parent tm = Inr None \<or>
       (\<exists>js0 st1 target tail full a js1 st2.
          field_joins reg am m fld st0 prefx parent tm = Inr (Some (js0, st1, target, tail, full, a)) \<and>
          (if tail \<noteq> [] then detect_rec reg am target [tail] st1 (full @ ''.'') a False
           else Some (Inr ([], st1))) = Some (Inr (js1, st2)) \<and>
          gokeys (fst st2) \<subseteq> gokeys (fst st')))"
proof (induction flds arbitrary: st js)
  case Nil
  then show ?case by simp
next
  case (Cons f rest)
  obtain ex where ex: "ExpandAliasPath reg m f = Some ex"
    using Cons.prems(1) by (subst (asm) detect_rec.simps) (auto simp: bind_eq_Some_conv)
  define j where j: "j = field_joins reg am m (if ex \<noteq> [] then ex else f) st prefx parent tm"
  have body: "(case j of Inl e \<Rightarrow> Some (Inl e)
      | Inr None \<Rightarrow> detect_rec reg am m rest st prefx parent tm
      | Inr (Some (js, st1, target, tail, full, a)) \<Rightarrow>
          Option.bind (if tail \<noteq> [] then detect_rec reg am target [tail] st1 (full @ ''.'') a False else Some (Inr ([], st1)))
            (\<lambda>r1. case r1 of Inl e \<Rightarrow> Some (Inl e)
             | Inr (js1, st2) \<Rightarrow> Option.bind (detect_rec reg am m rest st2 prefx parent tm)
                   (\<lambda>r2. case r2 of Inl e \<Rightarrow> Some (Inl e)
                    | Inr (js2, st3) \<Rightarrow> Some (Inr (js @ js1 @ js2, st3))))) = Some (Inr (js, st'))"
    using Cons.prems(1)
    by (subst (asm) detect_rec.simps) (unfold list.case ex Option.bind.simps j)
  show ?case
  proof (cases j)
    case (Inl e)
    then show ?thesis using body by simp
  next
    case (Inr o1)
    show ?thesis
    proof (cases o1)
      case None
      then have r: "detect_rec reg am m rest st prefx parent tm = Some (Inr (js, st'))"
        using body Inr by simp
      show ?thesis
      proof (cases "fld = f")
        case True
        then have "(if ex \<noteq> [] then ex else f) = fld" using ex Cons.prems(4) by simp
        then have "field_joins reg am m fld st prefx parent tm = Inr None" using j Inr None by simp
        with Cons.prems(2) show ?thesis by blast
      next
        case False
        then show ?thesis using Cons.IH [OF r Cons.prems(2)] Cons.prems(3,4) by simp
      qed
    next
      case (Some t)
      obtain js0 st1 target tail full a where t: "t = (js0, st1, target, tail, full, a)" by (cases t)
      obtain js1 st2 js2 st3 where
        r1: "(if tail \<noteq> [] then detect_rec reg am target [tail] st1 (full @ ''.'') a False else Some (Inr ([], st1))) = Some (Inr (js1, st2))"
        and r2: "detect_rec reg am m rest st2 prefx parent tm = Some (Inr (js2, st3))" and st': "st3 = st'"
        using body Inr Some t by (auto simp only: sum.case option.case prod.case bind_pair_Some sum.distinct
            sum.inject option.inject prod.inject ex_simps simp_thms)
      have fj: "gokeys (fst st) \<subseteq> gokeys (fst st1)" "a \<in> visible (fst st1)"
        using field_joins_Some [of reg am m _ st prefx parent tm] j Inr Some t assms Cons.prems(2) by blast+
      have "gokeys (fst st1) \<subseteq> gokeys (fst st2)"
      proof (cases "tail = []")
        case True
        then show ?thesis using r1 by simp
      next
        case False
        then have "detect_rec reg am target [tail] st1 (full @ ''.'') a False = Some (Inr (js1, st2))"
          using r1 by simp
        from detect_ok_mono [OF detect_rec_ok [OF assms this fj(2)]] show ?thesis .
      qed
      then have p2: "parent \<in> visible (fst st2)" using Cons.prems(2) fj(1) by blast
      have m: "gokeys (fst st2) \<subseteq> gokeys (fst st')"
        using detect_ok_mono [OF detect_rec_ok [OF assms r2 p2]] by (simp only: st')
      show ?thesis
      proof (cases "fld = f")
        case True
        then have x: "(if ex \<noteq> [] then ex else f) = fld" using ex Cons.prems(4) by simp
        have "field_joins reg am m fld st prefx parent tm = Inr (Some (js0, st1, target, tail, full, a))"
          using j [unfolded x] Inr Some t by simp
        with Cons.prems(2) r1 m show ?thesis by blast
      next
        case False
        then show ?thesis using Cons.IH [OF r2 [unfolded st'] p2] Cons.prems(3,4) by simp
      qed
    qed
  qed
qed

lemma field_joins_clean:
  assumes "clean_path reg m (seg # segs)"
  shows "field_joins reg am m (join_str ''.'' (seg # segs)) st prefx parent tm =
    (case join_relation reg m seg of
       None \<Rightarrow> Inr None
     | Some (rel, target) \<Rightarrow>
         (case map_of (PathToAlias am) (prefx @ seg) of
            None \<Rightarrow> Inl (AliasNotFound (prefx @ seg) (MName m))
          | Some a \<Rightarrow>
              (case (if map_of (fst st) a \<noteq> None then Inr ([], snd st)
                     else relation_joins reg target rel a parent tm (fst st) (snd st)) of
                 Inl e \<Rightarrow> Inl e
               | Inr (js, rnd) \<Rightarrow>
                   Inr (Some (js, (add_joins js (fst st), rnd), target, join_str ''.'' segs, prefx @ seg, a)))))"
proof -
  have t: "trim_space seg = seg" "head_tail (join_str ''.'' (seg # segs)) = (seg, join_str ''.'' segs)"
    using assms head_tail_join [of seg segs] by (simp_all add: clean_path_def)
  show ?thesis
    by (cases "join_relation reg m seg") (auto simp: field_joins_def Let_def t)
qed

lemma detect_rec_covers:
  assumes "numbered_aliases am"
  shows "detect_rec reg am m flds st prefx parent tm = Some (Inr (js, st')) \<Longrightarrow>
    parent \<in> visible (fst st) \<Longrightarrow> join_str ''.'' segs \<in> set flds \<Longrightarrow> clean_path reg m segs \<Longrightarrow>
    x \<in> set (join_aliases reg am m prefx segs) \<Longrightarrow> \<exists>a. x = Some a \<and> a \<in> gokeys (fst st')"
proof (induction segs arbitrary: m flds st prefx parent tm js st')
  case Nil
  then show ?case by simp
next
  case (Cons seg segs)
  obtain rel target where jr: "join_relation reg m seg = Some (rel, target)"
    using Cons.prems(5) by (cases "join_relation reg m seg") auto
  note fc = field_joins_clean [OF Cons.prems(4)]
  from detect_rec_at [OF assms Cons.prems(1-3) clean_path_expand [OF Cons.prems(4)]]
  show ?case
  proof (elim exE conjE)
    fix st0
    assume p0: "parent \<in> visible (fst st0)"
    and or: "field_joins reg am m (join_str ''.'' (seg # segs)) st0 prefx parent tm = Inr None \<or>
       (\<exists>js0 st1 target tail full a js1 st2.
          field_joins reg am m (join_str ''.'' (seg # segs)) st0 prefx parent tm = Inr (Some (js0, st1, target, tail, full, a)) \<and>
          (if tail \<noteq> [] then detect_rec reg am target [tail] st1 (full @ ''.'') a False
           else Some (Inr ([], st1))) = Some (Inr (js1, st2)) \<and>
          gokeys (fst st2) \<subseteq> gokeys (fst st'))"
  have "field_joins reg am m (join_str ''.'' (seg # segs)) st0 prefx parent tm \<noteq> Inr None"
    by (simp add: fc jr split: option.splits sum.splits)
  from or [unfolded disj_imp, THEN mp, OF this]
  show "\<exists>a. x = Some a \<and> a \<in> gokeys (fst st')"
  proof (elim exE conjE)
    fix js0 st1 target' tail full a js1 st2
    assume fj: "field_joins reg am m (join_str ''.'' (seg # segs)) st0 prefx parent tm = Inr (Some (js0, st1, target', tail, full, a))"
      and r1: "(if tail \<noteq> [] then detect_rec reg am target' [tail] st1 (full @ ''.'') a False
           else Some (Inr ([], st1))) = Some (Inr (js1, st2))"
      and m: "gokeys (fst st2) \<subseteq> gokeys (fst st')"
  have eqs: "target' = target" "tail = join_str ''.'' segs" "full = prefx @ seg"
    "map_of (PathToAlias am) (prefx @ seg) = Some a"
    using fj by (auto simp: fc jr split: option.splits sum.splits)
  have vis: "a \<in> visible (fst st1)" "map_of (fst st1) a \<noteq> None"
    using field_joins_Some [OF fj assms p0] by blast+
  then have a1: "a \<in> gokeys (fst st1)" by (simp add: map_of_None_gokeys)
  have mono: "gokeys (fst st1) \<subseteq> gokeys (fst st2)"
  proof (cases "tail = []")
    case True
    then show ?thesis using r1 by simp
  next
    case False
    then have "detect_rec reg am target' [tail] st1 (full @ ''.'') a False = Some (Inr (js1, st2))"
      using r1 by simp
    from detect_ok_mono [OF detect_rec_ok [OF assms this vis(1)]] show ?thesis .
  qed
  show "\<exists>a. x = Some a \<and> a \<in> gokeys (fst st')"
  proof (cases "x = Some a")
    case True
    then show ?thesis using a1 mono m by blast
  next
    case False
    then have x: "x \<in> set (join_aliases reg am target (prefx @ seg @ ''.'') segs)"
      using Cons.prems(5) jr eqs by simp
    then have ne: "segs \<noteq> []" "segs \<noteq> [[]]" by (auto simp: join_relation_def)
    then have t: "join_str ''.'' segs \<noteq> []" by (simp add: join_str_eq_Nil)
    have "detect_rec reg am target [join_str ''.'' segs] st1 ((prefx @ seg) @ ''.'') a False = Some (Inr (js1, st2))"
      using r1 t by (simp add: eqs)
    from Cons.IH [OF this vis(1) _ clean_path_next [OF Cons.prems(4) jr ne(1)]]
    have "\<exists>a. x = Some a \<and> a \<in> gokeys (fst st2)" using x by simp
    with subsetD [OF m] show ?thesis by blast
  qed
  qed
  qed
qed

section \<open>A request whose paths are registered finds all its joins\<close>

text \<open>
  Every field of the request is a clean path all of whose relations have an alias. Then the
  recursion returns, and never for lack of an alias.
\<close>

definition field_registered :: "registry \<Rightarrow> alias_map \<Rightarrow> model \<Rightarrow> string \<Rightarrow> string \<Rightarrow> bool" where
  "field_registered reg am m prefx fld =
     (clean_path reg m (split_char (CHR ''.'') fld) \<and>
      None \<notin> set (join_aliases reg am m prefx (split_char (CHR ''.'') fld)))"

fun is_missing :: "join_error \<Rightarrow> bool" where
  "is_missing (AliasNotFound p n) = True"
| "is_missing e = False"

definition not_missing :: "join_error + 'a \<Rightarrow> bool" where
  "not_missing r = (case r of Inl e \<Rightarrow> \<not> is_missing e | Inr x \<Rightarrow> True)"

lemma relation_joins_not_missing: "not_missing (relation_joins reg target rel a parent tm jm rnd)"
  by (simp add: relation_joins_def not_missing_def split: option.splits prod.splits)

lemma field_registeredD:
  assumes "field_registered reg am m prefx fld"
  obtains seg segs where "fld = join_str ''.'' (seg # segs)" "clean_path reg m (seg # segs)"
    "None \<notin> set (join_aliases reg am m prefx (seg # segs))" "split_char (CHR ''.'') fld = seg # segs"
proof -
  obtain seg segs where s: "split_char (CHR ''.'') fld = seg # segs"
    by (cases "split_char (CHR ''.'') fld") auto
  then have "fld = join_str ''.'' (seg # segs)" using join_split_char [of "CHR ''.''" fld] by simp
  with that s assms show thesis by (simp add: field_registered_def)
qed

lemma detect_rec_total:
  "(\<And>fld. fld \<in> set flds \<Longrightarrow> field_registered reg am m prefx fld) \<Longrightarrow>
   \<exists>r. detect_rec reg am m flds st prefx parent tm = Some r \<and> not_missing r"
proof (induction "\<Sum>fld\<leftarrow>flds. Suc (length fld)" arbitrary: m flds st prefx parent tm rule: less_induct)
  case less
  show ?case
  proof (cases flds)
    case Nil
    then show ?thesis by (subst detect_rec.simps) (simp add: not_missing_def)
  next
    case (Cons fld rest)
    obtain seg segs where f: "fld = join_str ''.'' (seg # segs)" "clean_path reg m (seg # segs)"
      "None \<notin> set (join_aliases reg am m prefx (seg # segs))" "split_char (CHR ''.'') fld = seg # segs"
      using less.prems [of fld] Cons field_registeredD by (metis list.set_intros(1))
    have ex: "ExpandAliasPath reg m fld = Some fld" using clean_path_expand [OF f(2)] by (simp add: f(1))
    define j where "j = field_joins reg am m fld st prefx parent tm"
    have body: "detect_rec reg am m flds st prefx parent tm =
       (case j of Inl e \<Rightarrow> Some (Inl e)
      | Inr None \<Rightarrow> detect_rec reg am m rest st prefx parent tm
      | Inr (Some (js, st1, target, tail, full, a)) \<Rightarrow>
          Option.bind (if tail \<noteq> [] then detect_rec reg am target [tail] st1 (full @ ''.'') a False else Some (Inr ([], st1)))
            (\<lambda>r1. case r1 of Inl e \<Rightarrow> Some (Inl e)
             | Inr (js1, st2) \<Rightarrow> Option.bind (detect_rec reg am m rest st2 prefx parent tm)
                   (\<lambda>r2. case r2 of Inl e \<Rightarrow> Some (Inl e)
                    | Inr (js2, st3) \<Rightarrow> Some (Inr (js @ js1 @ js2, st3)))))"
      by (subst detect_rec.simps) (simp only: Cons list.case ex Option.bind.simps j_def if_cancel)
    have rest: "\<exists>r. detect_rec reg am m rest st0 prefx parent tm = Some r \<and> not_missing r" for st0
      using less.hyps [of rest m] less.prems by (simp add: Cons)
    note fj = j_def [unfolded f(1) field_joins_clean [OF f(2)]]
    show ?thesis
    proof (cases "join_relation reg m seg")
      case None
      then show ?thesis using body rest fj by simp
    next
      case (Some rt)
      obtain rel target where rt: "rt = (rel, target)" by (cases rt)
      obtain a where a: "map_of (PathToAlias am) (prefx @ seg) = Some a"
        using f(3) Some rt by (cases "map_of (PathToAlias am) (prefx @ seg)") auto
      define k where "k = (if map_of (fst st) a \<noteq> None then Inr ([], snd st)
                     else relation_joins reg target rel a parent tm (fst st) (snd st))"
      have jk: "j = (case k of Inl e \<Rightarrow> Inl e
          | Inr (js, rnd) \<Rightarrow> Inr (Some (js, (add_joins js (fst st), rnd), target, join_str ''.'' segs, prefx @ seg, a)))"
        by (simp only: fj Some rt k_def option.case prod.case a)
      show ?thesis
      proof (cases k)
        case (Inl e)
        then have "\<not> is_missing e"
          using relation_joins_not_missing [of reg target rel a parent tm "fst st" "snd st"]
          by (auto simp: k_def not_missing_def split: if_splits)
        then show ?thesis using body jk Inl by (simp add: not_missing_def)
      next
        case (Inr p)
        obtain js rnd where p: "p = (js, rnd)" by (cases p)
        define st1 where "st1 = (add_joins js (fst st), rnd)"
        define tail where "tail = join_str ''.'' segs"
        have jj: "j = Inr (Some (js, st1, target, tail, prefx @ seg, a))"
          using jk Inr p by (simp add: st1_def tail_def)
        have "\<exists>r1. (if tail \<noteq> [] then detect_rec reg am target [tail] st1 ((prefx @ seg) @ ''.'') a False
            else Some (Inr ([], st1))) = Some r1 \<and> not_missing r1"
        proof (cases "tail = []")
          case True
          then show ?thesis by (simp add: not_missing_def)
        next
          case False
          then have ne: "segs \<noteq> []" by (auto simp: tail_def)
          have nd: "no_dots segs" using f(2) by (simp add: clean_path_def)
          have sp: "split_char (CHR ''.'') tail = segs" unfolding tail_def by (rule split_join_dots [OF ne nd])
          have "field_registered reg am target ((prefx @ seg) @ ''.'') tail"
            using f(3) Some rt clean_path_next [OF f(2) Some [unfolded rt] ne] sp
            by (simp add: field_registered_def)
          moreover have "length tail < length fld" using ne by (simp add: f(1) tail_def join_str_Cons)
          ultimately have "\<exists>r. detect_rec reg am target [tail] st1 ((prefx @ seg) @ ''.'') a False = Some r \<and> not_missing r"
            using less.hyps [of "[tail]" target "(prefx @ seg) @ ''.''"] by (simp add: Cons)
          with False show ?thesis by simp
        qed
        then obtain r1 where r1: "(if tail \<noteq> [] then detect_rec reg am target [tail] st1 ((prefx @ seg) @ ''.'') a False
            else Some (Inr ([], st1))) = Some r1" "not_missing r1" by blast
        show ?thesis
        proof (cases r1)
          case (Inl e)
          then show ?thesis using body r1 by (simp add: jj not_missing_def)
        next
          case (Inr q)
          obtain js1 st2 where q: "q = (js1, st2)" by (cases q)
          obtain r2 where r2: "detect_rec reg am m rest st2 prefx parent tm = Some r2" "not_missing r2"
            using rest by blast
          show ?thesis using body r1 Inr q r2 by (cases r2) (auto simp: jj not_missing_def)
        qed
      qed
    qed
  qed
qed

lemma DetectJoins_Inr:
  assumes "DetectJoins reg m am fs ss ps rnd = Some (Inr js)"
  shows "\<exists>st'. detect_rec reg am m (fs @ ss @ ps) ([], rnd) [] ''main'' False = Some (Inr (js, st'))"
proof -
  obtain r where r: "detect_rec reg am m (fs @ ss @ ps) ([], rnd) [] ''main'' False = Some r"
    "map_sum id fst r = Inr js"
    using assms unfolding DetectJoins_def map_option_eq_Some by blast
  then show ?thesis by (cases r) auto
qed

lemma DetectJoins_ok:
  assumes "numbered_aliases am"
    and "detect_rec reg am m flds ([], rnd) [] ''main'' False = Some (Inr (js, st'))"
  shows "scoped {''main''} js \<and> gokeys (fst st') = JAlias ` set js"
  using detect_rec_ok [OF assms] by (cases st') (simp add: detect_ok_def)

text \<open>
  \<^verbatim>\<open>replaceTableWithAlias\<close> puts the alias before every dot, also the one of a decimal number.
\<close>

lemma replaceTableWithAlias_decimal:
  "replaceTableWithAlias ''.rate > 0.5'' ''t0'' = ''t0.rate > 0t0.5''"
  by code_simp

lemma registered_fields_joined:
  assumes "\<forall>fld \<in> set (fs @ ss @ ps). field_registered reg am m [] fld" "numbered_aliases am"
  shows "\<exists>r. DetectJoins reg m am fs ss ps rnd = Some r \<and> not_missing r \<and>
    (\<forall>js. r = Inr js \<longrightarrow> (\<forall>fld \<in> set (fs @ ss @ ps).
       set (join_aliases reg am m [] (split_char (CHR ''.'') fld)) \<subseteq> Some ` JAlias ` set js))"
proof -
  obtain r where r: "detect_rec reg am m (fs @ ss @ ps) ([], rnd) [] ''main'' False = Some r" "not_missing r"
    using detect_rec_total [of "fs @ ss @ ps" reg am m "[]"] assms(1) by blast
  have D: "DetectJoins reg m am fs ss ps rnd = Some (map_sum id fst r)"
    by (simp only: DetectJoins_def r(1) option.map)
  show ?thesis
  proof (cases r)
    case (Inl e)
    then show ?thesis using D r(2) by (simp add: not_missing_def)
  next
    case (Inr q)
    obtain js st' where q: "q = (js, st')" by (cases q)
    have "x \<in> Some ` JAlias ` set js"
      if fld: "fld \<in> set (fs @ ss @ ps)" and x: "x \<in> set (join_aliases reg am m [] (split_char (CHR ''.'') fld))"
      for fld x
    proof -
      have "clean_path reg m (split_char (CHR ''.'') fld)"
        using bspec [OF assms(1) fld] by (simp add: field_registered_def)
      moreover have "join_str ''.'' (split_char (CHR ''.'') fld) \<in> set (fs @ ss @ ps)" using fld by simp
      ultimately have "\<exists>a. x = Some a \<and> a \<in> gokeys (fst st')"
        using detect_rec_covers [OF assms(2) r(1) [unfolded Inr q] _ _ _ x] by simp
      then obtain a where a: "x = Some a" "a \<in> gokeys (fst st')" by blast
      have "a \<in> JAlias ` set js"
        using a(2) DetectJoins_ok [OF assms(2) r(1) [unfolded Inr q]] by simp
      then show ?thesis unfolding a(1) by (rule imageI)
    qed
    then show ?thesis using D Inr q r(2) by (auto simp: not_missing_def)
  qed
qed

section \<open>Properties\<close>

text \<open>
  C23. The joins of a request form a valid \<^verbatim>\<open>FROM\<close> clause: no two have the same alias, none is
  called \<^verbatim>\<open>main\<close>, and the condition of each compares a column of the new table with one of a
  table that is already joined, also for through relations, whose first alias is random
  (\<^verbatim>\<open>DetectJoins\<close>, \<^verbatim>\<open>generateUniqueAlias\<close>; the map has numbered aliases, as \<^verbatim>\<open>BuildAliasMap\<close>
  gives them).
\<close>
theorem joins_in_scope:
  assumes "DetectJoins reg m am fs ss ps rnd = Some (Inr js)" "numbered_aliases am"
  shows "scoped {''main''} js \<and> distinct (map JAlias js) \<and> ''main'' \<notin> JAlias ` set js"
proof -
  obtain st' where "detect_rec reg am m (fs @ ss @ ps) ([], rnd) [] ''main'' False = Some (Inr (js, st'))"
    using DetectJoins_Inr [OF assms(1)] by blast
  then have s: "scoped {''main''} js" using DetectJoins_ok [OF assms(2)] by blast
  from scoped_fresh [OF s] s show ?thesis by blast
qed

definition demo_joins_registry :: registry where
  "demo_joins_registry =
     [(''Person'', empty_model\<lparr>MName := ''Person'', Table := ''people'',
         Relations := [(''orgs'', empty_relation\<lparr>RType := ''has_many'', RModel := ''Org'', ModelRef := Some ''Org'',
           FK := ''person_id'', PK := ''id'', Through := ''Job'', ThroughRef := Some ''Job''\<rparr>)]\<rparr>),
      (''Org'', empty_model\<lparr>MName := ''Org'', Table := ''orgs'',
         Relations := [(''city'', empty_relation\<lparr>RType := ''belongs_to'', RModel := ''City'', ModelRef := Some ''City'', FK := ''city_id'', PK := ''id''\<rparr>)]\<rparr>),
      (''City'', empty_model\<lparr>MName := ''City'', Table := ''cities''\<rparr>),
      (''Job'', empty_model\<lparr>MName := ''Job'', Table := ''jobs'',
         Relations := [(''org'', empty_relation\<lparr>RType := ''belongs_to'', RModel := ''Org'', ModelRef := Some ''Org'', FK := ''org_id'', PK := ''id''\<rparr>)]\<rparr>)]"

definition demo_joins_map :: alias_map where
  "demo_joins_map = \<lparr>PathToAlias = [(''orgs'', ''t0''), (''orgs.city'', ''t1'')],
     AliasToPath = [(''t0'', ''orgs''), (''t1'', ''orgs.city'')]\<rparr>"

definition demo_joins_model :: model where
  "demo_joins_model = the (map_of demo_joins_registry ''Person'')"

lemma demo_joins:
  "DetectJoins demo_joins_registry demo_joins_model demo_joins_map [''orgs.city''] [] [] [0, 1, 2] =
   Some (Inr [left_join ''jobs'' ''bcf'' ''main.id = bcf.person_id'' [] False,
              left_join ''orgs'' ''t0'' ''bcf.org_id = t0.id'' [] True,
              left_join ''cities'' ''t1'' ''t0.city_id = t1.id'' [] False])"
  by code_simp

lemma demo_joins_numbered: "numbered_aliases demo_joins_map"
proof -
  have "''t0'' = alias_name 0" "''t1'' = alias_name 1" by code_simp+
  then show ?thesis by (auto simp: numbered_aliases_def demo_joins_map_def split: if_splits)
qed

theorem joins_in_scope_witness:
  "\<exists>js. DetectJoins demo_joins_registry demo_joins_model demo_joins_map [''orgs.city''] [] [] [0, 1, 2] =
     Some (Inr js) \<and> map JAlias js = [''bcf'', ''t0'', ''t1''] \<and> scoped {''main''} js"
proof (intro exI conjI)
  show "DetectJoins demo_joins_registry demo_joins_model demo_joins_map [''orgs.city''] [] [] [0, 1, 2] =
   Some (Inr [left_join ''jobs'' ''bcf'' ''main.id = bcf.person_id'' [] False,
              left_join ''orgs'' ''t0'' ''bcf.org_id = t0.id'' [] True,
              left_join ''cities'' ''t1'' ''t0.city_id = t1.id'' [] False])"
    by (rule demo_joins)
qed (simp add: left_join_def, rule joins_in_scope [OF demo_joins demo_joins_numbered, THEN conjunct1])

text \<open>
  C24. When every field of a request is a normalised path all of whose relations have an alias,
  the joins are found: the recursion returns, it never reports a missing alias, and if it
  succeeds every alias that one of the paths needs is the alias of a join (\<^verbatim>\<open>DetectJoins\<close>).
\<close>
theorem registered_paths_are_joined:
  assumes "\<forall>fld \<in> set (fs @ ss @ ps). field_registered reg am m [] fld" "numbered_aliases am"
  shows "\<exists>r. DetectJoins reg m am fs ss ps rnd = Some r \<and> not_missing r \<and>
    (\<forall>js. r = Inr js \<longrightarrow> (\<forall>fld \<in> set (fs @ ss @ ps).
       set (join_aliases reg am m [] (split_char (CHR ''.'') fld)) \<subseteq> Some ` JAlias ` set js))"
  using assms by (rule registered_fields_joined)

theorem registered_paths_are_joined_witness:
  "\<exists>r. DetectJoins demo_joins_registry demo_joins_model demo_joins_map [''orgs.city''] [] [] [0, 1, 2] = Some r \<and>
     not_missing r"
proof -
  have "\<forall>fld \<in> set ([''orgs.city''] @ [] @ []). field_registered demo_joins_registry demo_joins_map demo_joins_model [] fld"
    by code_simp
  from registered_paths_are_joined [OF this demo_joins_numbered, of "[0, 1, 2]"] show ?thesis by blast
qed

end
