(* ===== verification/Where_Clause.thy ===== *)
theory Where_Clause
  imports Alias_Map
begin

text \<open>
  The conditions of a request: \<^verbatim>\<open>buildWhereClause\<close> of \<^verbatim>\<open>internal/model/BuildWhereClause.go\<close>. The
  library \<^verbatim>\<open>squirrel\<close> is not part of the repository: a condition is the term of its constructors
  that the code applies, and the rendering of such a term is not modelled. A filter document is
  visited in the order of its list; Go's order is arbitrary, so theorems hold for every order.
\<close>

section \<open>Conditions\<close>

text \<open>
  \<^verbatim>\<open>squirrel.Expr(sql, args...)\<close>, the one-entry maps \<^verbatim>\<open>Eq{sql: value}\<close>, \<^verbatim>\<open>Lt\<close>, \<^verbatim>\<open>LtOrEq\<close>, \<^verbatim>\<open>Gt\<close>,
  \<^verbatim>\<open>GtOrEq\<close>, and the slices \<^verbatim>\<open>Or\<close> and \<^verbatim>\<open>And\<close>.
\<close>

datatype sqlizer =
    SExpr string "gany list"
  | SEq string gany
  | SLt string gany
  | SLtOrEq string gany
  | SGt string gany
  | SGtOrEq string gany
  | SOr "sqlizer list"
  | SAnd "sqlizer list"

section \<open>The closures\<close>

text \<open>What all of them capture: the model, the alias map, the preset and the overrides of CTEs.\<close>

record where_env =
  EReg :: registry
  EModel :: model
  EAliases :: alias_map
  EPreset :: "data_preset option"
  EOverride :: "(string, string) gomap"

definition resolveField :: "where_env \<Rightarrow> string \<Rightarrow> string" where
  "resolveField env fld =
     (case (case map_of (EOverride env) fld of
              Some expr \<Rightarrow> if \<not> is_blank expr then Some expr else None
            | None \<Rightarrow> None) of
        Some expr \<Rightarrow> expr
      | None \<Rightarrow>
          (case resolveFieldExpression (EReg env) (EModel env) (Some (EAliases env)) fld of
             (expr, ok) \<Rightarrow>
               if ok then expr
               else (case last_split (CHR ''.'') fld of
                  Some (path, column) \<Rightarrow>
                    (case map_of (PathToAlias (EAliases env)) path of
                       None \<Rightarrow> []
                     | Some alias \<Rightarrow> alias @ ''.'' @ column)
                | None \<Rightarrow> ''main.'' @ fld)))"

definition resolveComputableAlias :: "where_env \<Rightarrow> string \<Rightarrow> string" where
  "resolveComputableAlias env field =
     (case EPreset env of
        None \<Rightarrow> []
      | Some p \<Rightarrow>
          (case map (\<lambda>f. let a = trim_space (FAlias f) in if a = [] then FSource f else a)
                  (filter (\<lambda>f. FType f = ''computable'' \<and> FSource f = field) (Fields p)) of
             [] \<Rightarrow> []
           | as \<Rightarrow> (case filter (\<lambda>a. a \<noteq> []) as of [] \<Rightarrow> [] | a # _ \<Rightarrow> quoteIdentifier a)))"

text \<open>The comparison of a text operator, with the cast of a field that is not text.\<close>

definition text_field :: "string \<Rightarrow> string \<Rightarrow> string" where
  "text_field sqlField fieldType =
     (if needsTextCast fieldType ''string'' then ''CAST('' @ sqlField @ '' AS TEXT)'' else sqlField)"

definition like_cond :: "string \<Rightarrow> string \<Rightarrow> bool \<Rightarrow> string \<Rightarrow> (string \<Rightarrow> string) \<Rightarrow> gany \<Rightarrow> sqlizer option" where
  "like_cond sqlField fieldType caseSensitive neg pat val =
     (case val of
        GStr s \<Rightarrow> Some (SExpr (text_field sqlField fieldType @ neg @
                          (if caseSensitive then '' LIKE ?'' else '' ILIKE ?'')) [GStr (pat s)])
      | _ \<Rightarrow> None)"

definition op_cond :: "string \<Rightarrow> bool \<Rightarrow> string \<Rightarrow> string \<Rightarrow> bool \<Rightarrow> gany \<Rightarrow> sqlizer option" where
  "op_cond baseOp caseSensitive sqlField fieldType agg val =
     (if baseOp = ''eq'' then
        (case val of
           GStr s \<Rightarrow>
             (let comparisonField = text_field sqlField fieldType
              in Some (if caseSensitive then SExpr (comparisonField @ '' = ?'') [GStr s]
                       else SExpr (''LOWER('' @ comparisonField @ '') = LOWER(?)'') [GStr s]))
         | GBool b \<Rightarrow>
             if \<not> b \<and> agg
             then Some (SExpr (''('' @ sqlField @ '' = false AND '' @ sqlField @ '' IS NOT NULL)'') [])
             else Some (SEq sqlField val)
         | _ \<Rightarrow> Some (SEq sqlField val))
      else if baseOp = ''in'' then Some (SEq sqlField val)
      else if baseOp = ''lt'' then Some (SLt sqlField val)
      else if baseOp = ''lte'' then Some (SLtOrEq sqlField val)
      else if baseOp = ''gt'' then Some (SGt sqlField val)
      else if baseOp = ''gte'' then Some (SGtOrEq sqlField val)
      else if baseOp = ''start'' then like_cond sqlField fieldType caseSensitive [] (\<lambda>s. s @ ''%'') val
      else if baseOp = ''end'' then like_cond sqlField fieldType caseSensitive [] (\<lambda>s. ''%'' @ s) val
      else if baseOp = ''cnt'' then like_cond sqlField fieldType caseSensitive [] (\<lambda>s. ''%'' @ s @ ''%'') val
      else if baseOp = ''not_cnt'' then like_cond sqlField fieldType caseSensitive '' NOT'' (\<lambda>s. ''%'' @ s @ ''%'') val
      else if baseOp = ''null'' then
        (case val of
           GBool b \<Rightarrow> Some (SExpr (sqlField @ (if b then '' IS NULL'' else '' IS NOT NULL'')) [])
         | _ \<Rightarrow> None)
      else if baseOp = ''is_null'' then Some (SExpr (sqlField @ '' IS NULL'') [])
      else if baseOp = ''not_null'' then Some (SExpr (sqlField @ '' IS NOT NULL'') [])
      else None)"

text \<open>One field of a composite key: its condition, if any, and whether it is an aggregate.\<close>

definition field_cond :: "where_env \<Rightarrow> string \<Rightarrow> bool \<Rightarrow> gany \<Rightarrow> string \<Rightarrow> sqlizer option \<times> bool" where
  "field_cond env baseOp caseSensitive val f =
     (let expr = resolveField env f
      in if expr = [] then (None, False)
         else
           (let agg = isAggregateExpr expr;
                alias = resolveComputableAlias env f;
                sqlField = (if agg \<and> alias \<noteq> [] then alias else expr)
            in (op_cond baseOp caseSensitive sqlField
                  (resolveFilterFieldType (EReg env) (EModel env) f) agg val, agg)))"

definition split_cs :: "string \<Rightarrow> string \<times> bool" where
  "split_cs op = (if has_suffix op ''_cs'' then (take (length op - 3) op, True) else (op, False))"

definition buildCond :: "where_env \<Rightarrow> string \<Rightarrow> string \<Rightarrow> gany \<Rightarrow> sqlizer list \<times> bool" where
  "buildCond env field op val =
     (case (ParseCompositeField field, split_cs op) of ((flds, comb), (baseOp, caseSensitive)) \<Rightarrow>
        (let rs = map (field_cond env baseOp caseSensitive val) flds;
             parts = concat (map (\<lambda>(c, agg). case c of None \<Rightarrow> [] | Some s \<Rightarrow> [s]) rs);
             hasAgg = list_ex snd rs
         in if parts = [] then ([], False)
            else if comb = ''_or_'' \<and> length parts > 1 then ([SOr parts], hasAgg)
            else if comb = ''_and_'' \<and> length parts > 1 then ([SAnd parts], hasAgg)
            else ([hd parts], hasAgg)))"

text \<open>A key of the filter document: the field, and the operator after the first \<^verbatim>\<open>__\<close>.\<close>

definition key_cond :: "where_env \<Rightarrow> string \<Rightarrow> gany \<Rightarrow> sqlizer list \<times> bool" where
  "key_cond env key val =
     (case split2 ''__'' key of
        (field, None) \<Rightarrow> buildCond env key ''eq'' val
      | (field, Some op) \<Rightarrow> buildCond env field op val)"

section \<open>Groups\<close>

text \<open>\<^verbatim>\<open>buildGroupExpr\<close>; its entries and the elements of an array give lists of conditions.\<close>

definition group_result :: "string \<Rightarrow> sqlizer list \<times> bool \<Rightarrow> (sqlizer \<times> bool) option" where
  "group_result mode r =
     (case r of (exprs, hasAgg) \<Rightarrow>
        if exprs = [] then None
        else if mode = ''or'' then Some (SOr exprs, hasAgg)
        else Some (SAnd exprs, hasAgg))"

fun group_exprs :: "(string \<Rightarrow> gany \<Rightarrow> sqlizer list \<times> bool) \<Rightarrow> gofilters \<Rightarrow> sqlizer list \<times> bool"
  and group_value :: "(string \<Rightarrow> gany \<Rightarrow> sqlizer list \<times> bool) \<Rightarrow> string \<Rightarrow> gany \<Rightarrow> sqlizer list \<times> bool"
  and group_items :: "(string \<Rightarrow> gany \<Rightarrow> sqlizer list \<times> bool) \<Rightarrow> gany list \<Rightarrow> sqlizer list \<times> bool" where
  "group_exprs cond [] = ([], False)"
| "group_exprs cond ((key, val) # f) =
     (case (if key = ''or'' \<or> key = ''and'' then group_value cond key val else cond key val) of
        (es, agg) \<Rightarrow> (case group_exprs cond f of (es', agg') \<Rightarrow> (es @ es', agg \<or> agg')))"
| "group_value cond key (GMap sub) =
     (case group_result key (group_exprs cond sub) of None \<Rightarrow> ([], False) | Some (e, agg) \<Rightarrow> ([e], agg))"
| "group_value cond key (GList arr) =
     (case group_items cond arr of (parts, subAgg) \<Rightarrow>
        if parts = [] then ([], False)
        else if key = ''or'' then ([SOr parts], subAgg)
        else ([SAnd parts], subAgg))"
| "group_value cond key val = cond key val"
| "group_items cond [] = ([], False)"
| "group_items cond (item # items) =
     (case (case item of
              GMap sub \<Rightarrow> (case group_result ''and'' (group_exprs cond sub) of
                            None \<Rightarrow> ([], False) | Some (e, agg) \<Rightarrow> ([e], agg))
            | _ \<Rightarrow> ([], False)) of
        (ps, agg) \<Rightarrow> (case group_items cond items of (ps', agg') \<Rightarrow> (ps @ ps', agg \<or> agg')))"

definition buildGroupExpr ::
  "(string \<Rightarrow> gany \<Rightarrow> sqlizer list \<times> bool) \<Rightarrow> gofilters \<Rightarrow> string \<Rightarrow> (sqlizer \<times> bool) option" where
  "buildGroupExpr cond f mode = group_result mode (group_exprs cond f)"

text \<open>
  \<^verbatim>\<open>buildGroupAnd\<close>: the parts for \<^verbatim>\<open>WHERE\<close> and those for \<^verbatim>\<open>HAVING\<close>. \<open>place\<close> sends a condition to one
  of the two; \<open>and_group\<close> is the result of a group.
\<close>

type_synonym parts = "sqlizer list \<times> sqlizer list"

definition place :: "sqlizer list \<times> bool \<Rightarrow> parts" where
  "place r = (case r of (es, agg) \<Rightarrow> if agg then ([], es) else (es, []))"

definition join_parts :: "parts \<Rightarrow> parts \<Rightarrow> parts" where
  "join_parts p q = (fst p @ fst q, snd p @ snd q)"

definition and_group :: "parts \<Rightarrow> sqlizer option \<times> sqlizer option" where
  "and_group p =
     (if fst p = [] then None else Some (SAnd (fst p)), if snd p = [] then None else Some (SAnd (snd p)))"

definition opt_list :: "'a option \<Rightarrow> 'a list" where
  "opt_list x = (case x of None \<Rightarrow> [] | Some y \<Rightarrow> [y])"

definition group_parts :: "sqlizer option \<times> sqlizer option \<Rightarrow> parts" where
  "group_parts g = (opt_list (fst g), opt_list (snd g))"

fun and_entries :: "(string \<Rightarrow> gany \<Rightarrow> sqlizer list \<times> bool) \<Rightarrow> gofilters \<Rightarrow> parts"
  and and_value :: "(string \<Rightarrow> gany \<Rightarrow> sqlizer list \<times> bool) \<Rightarrow> gany \<Rightarrow> parts"
  and and_items :: "(string \<Rightarrow> gany \<Rightarrow> sqlizer list \<times> bool) \<Rightarrow> gany list \<Rightarrow> parts" where
  "and_entries cond [] = ([], [])"
| "and_entries cond ((key, val) # f) =
     join_parts
       (if key = ''or'' then
          (case val of
             GMap sub \<Rightarrow> (case buildGroupExpr cond sub ''or'' of
                            None \<Rightarrow> ([], []) | Some (e, agg) \<Rightarrow> place ([e], agg))
           | GList arr \<Rightarrow> (case group_items cond arr of (ps, subAgg) \<Rightarrow>
                            if ps = [] then ([], []) else place ([SOr ps], subAgg))
           | _ \<Rightarrow> ([], []))
        else if key = ''and'' then and_value cond val
        else place (cond key val))
       (and_entries cond f)"
| "and_value cond (GMap sub) = group_parts (and_group (and_entries cond sub))"
| "and_value cond (GList arr) = and_items cond arr"
| "and_value cond val = ([], [])"
| "and_items cond [] = ([], [])"
| "and_items cond (item # items) =
     join_parts
       (case item of GMap sub \<Rightarrow> group_parts (and_group (and_entries cond sub)) | _ \<Rightarrow> ([], []))
       (and_items cond items)"

definition buildGroupAnd ::
  "(string \<Rightarrow> gany \<Rightarrow> sqlizer list \<times> bool) \<Rightarrow> gofilters \<Rightarrow> sqlizer option \<times> sqlizer option" where
  "buildGroupAnd cond f = and_group (and_entries cond f)"

text \<open>The conditions for \<^verbatim>\<open>WHERE\<close> and \<^verbatim>\<open>HAVING\<close>. The joins are passed to the code and never read.\<close>

definition buildWhereClause ::
  "registry \<Rightarrow> model \<Rightarrow> alias_map \<Rightarrow> data_preset option \<Rightarrow> gofilters \<Rightarrow> (string, string) gomap \<Rightarrow>
   sqlizer option \<times> sqlizer option" where
  "buildWhereClause reg m aliasMap preset filters override =
     buildGroupAnd (key_cond \<lparr>EReg = reg, EModel = m, EAliases = aliasMap, EPreset = preset,
                              EOverride = override\<rparr>) filters"

section \<open>The meaning of conditions\<close>

text \<open>
  Truth of a condition for given truth values of its comparisons. A missing condition does not
  restrict anything.
\<close>

fun holds :: "(sqlizer \<Rightarrow> bool) \<Rightarrow> sqlizer \<Rightarrow> bool" where
  "holds v (SOr es) = (\<exists>e \<in> set es. holds v e)"
| "holds v (SAnd es) = (\<forall>e \<in> set es. holds v e)"
| "holds v leaf = v leaf"

definition holds_opt :: "(sqlizer \<Rightarrow> bool) \<Rightarrow> sqlizer option \<Rightarrow> bool" where
  "holds_opt v c = (case c of None \<Rightarrow> True | Some e \<Rightarrow> holds v e)"

definition holds_parts :: "(sqlizer \<Rightarrow> bool) \<Rightarrow> parts \<Rightarrow> bool" where
  "holds_parts v p = ((\<forall>e \<in> set (fst p). holds v e) \<and> (\<forall>e \<in> set (snd p). holds v e))"

lemma holds_parts_simps [simp]:
  "holds_parts v ([], [])"
  "holds_parts v (join_parts p q) \<longleftrightarrow> holds_parts v p \<and> holds_parts v q"
  "holds_parts v (place (es, agg)) \<longleftrightarrow> (\<forall>e \<in> set es. holds v e)"
  "holds_parts v (group_parts (and_group p)) \<longleftrightarrow> holds_parts v p"
  by (auto simp: holds_parts_def join_parts_def place_def group_parts_def and_group_def opt_list_def)

lemma holds_and_group:
  "holds_opt v (fst (and_group p)) \<and> holds_opt v (snd (and_group p)) \<longleftrightarrow> holds_parts v p"
  by (auto simp: holds_opt_def holds_parts_def and_group_def)

text \<open>
  A document is \<open>grouped\<close> when the values of the keys \<^verbatim>\<open>or\<close> and \<^verbatim>\<open>and\<close> that the conjunctions
  reach are maps or arrays; the code ignores other values there.
\<close>

fun grouped :: "gofilters \<Rightarrow> bool"
  and grouped_value :: "string \<Rightarrow> gany \<Rightarrow> bool"
  and grouped_items :: "gany list \<Rightarrow> bool" where
  "grouped [] = True"
| "grouped ((key, val) # f) =
     ((if key = ''or'' \<or> key = ''and'' then grouped_value key val else True) \<and> grouped f)"
| "grouped_value key (GMap sub) = (if key = ''and'' then grouped sub else True)"
| "grouped_value key (GList arr) = (if key = ''and'' then grouped_items arr else True)"
| "grouped_value key val = False"
| "grouped_items [] = True"
| "grouped_items (item # items) =
     ((case item of GMap sub \<Rightarrow> grouped sub | _ \<Rightarrow> True) \<and> grouped_items items)"

definition all_hold :: "(sqlizer \<Rightarrow> bool) \<Rightarrow> sqlizer list \<times> bool \<Rightarrow> bool" where
  "all_hold v r = (\<forall>e \<in> set (fst r). holds v e)"

lemma group_result_and:
  "(\<forall>e \<in> set (fst (case group_result ''and'' r of None \<Rightarrow> ([], False) | Some (e, agg) \<Rightarrow> ([e], agg))). holds v e) =
   all_hold v r"
  by (cases r) (auto simp: group_result_def all_hold_def)

text \<open>The split into two parts does not change the meaning of the conjunction.\<close>

lemma all_hold_Cons:
  "all_hold v (group_exprs cond ((key, val) # f)) \<longleftrightarrow>
     all_hold v (if key = ''or'' \<or> key = ''and'' then group_value cond key val else cond key val) \<and>
     all_hold v (group_exprs cond f)"
  by (auto simp: all_hold_def split: prod.splits)

lemma or_entry_holds:
  assumes "grouped_value ''or'' val"
  shows "holds_parts v (case val of
           GMap sub \<Rightarrow> (case buildGroupExpr cond sub ''or'' of
                          None \<Rightarrow> ([], []) | Some (e, agg) \<Rightarrow> place ([e], agg))
         | GList arr \<Rightarrow> (case group_items cond arr of (ps, subAgg) \<Rightarrow>
                          if ps = [] then ([], []) else place ([SOr ps], subAgg))
         | _ \<Rightarrow> ([], [])) = all_hold v (group_value cond ''or'' val)"
  using assms
  by (cases val) (auto simp: buildGroupExpr_def all_hold_def group_result_def split: prod.splits)

lemma and_entries_holds:
  "grouped f \<Longrightarrow> holds_parts v (and_entries cond f) = all_hold v (group_exprs cond f)"
  "grouped_value ''and'' val \<Longrightarrow>
     holds_parts v (and_value cond val) = all_hold v (group_value cond ''and'' val)"
  "grouped_items items \<Longrightarrow> holds_parts v (and_items cond items) = all_hold v (group_items cond items)"
proof (induction cond f and cond val and cond items rule: and_entries_and_value_and_items.induct)
  case (1 cond)
  then show ?case by (simp add: all_hold_def)
next
  case (2 cond key val f)
  then have rest: "holds_parts v (and_entries cond f) = all_hold v (group_exprs cond f)" by simp
  have "holds_parts v (place (cond key val)) = all_hold v (cond key val)"
    by (cases "cond key val") (simp add: all_hold_def)
  then show ?case
    using 2 rest or_entry_holds [of val v cond] unfolding all_hold_Cons by auto
next
  case (3 cond sub)
  then show ?case using group_result_and [of "group_exprs cond sub" v] by (simp add: all_hold_def)
next
  case (4 cond arr)
  then show ?case by (auto simp: all_hold_def split: prod.splits)
next
  case (6 cond)
  then show ?case by (simp add: all_hold_def)
next
  case (7 cond item items)
  have "holds_parts v (case item of GMap sub \<Rightarrow> group_parts (and_group (and_entries cond sub)) | _ \<Rightarrow> ([], [])) =
      (\<forall>e \<in> set (fst (case item of
              GMap sub \<Rightarrow> (case group_result ''and'' (group_exprs cond sub) of
                            None \<Rightarrow> ([], False) | Some (e, agg) \<Rightarrow> ([e], agg))
            | _ \<Rightarrow> ([], False))). holds v e)"
    using 7 group_result_and by (cases item) simp_all
  moreover have "holds_parts v (and_items cond items) = all_hold v (group_items cond items)" using 7 by simp
  ultimately show ?case by (auto simp: all_hold_def split: prod.splits)
qed simp_all

section \<open>No aggregate in the WHERE part\<close>

text \<open>The SQL texts of the comparisons of a condition.\<close>

fun texts :: "sqlizer \<Rightarrow> string list" where
  "texts (SExpr s args) = [s]"
| "texts (SEq s x) = [s]"
| "texts (SLt s x) = [s]"
| "texts (SLtOrEq s x) = [s]"
| "texts (SGt s x) = [s]"
| "texts (SGtOrEq s x) = [s]"
| "texts (SOr es) = concat (map texts es)"
| "texts (SAnd es) = concat (map texts es)"

definition texts_of :: "sqlizer option \<Rightarrow> string set" where
  "texts_of c = (case c of None \<Rightarrow> {} | Some e \<Rightarrow> set (texts e))"

text \<open>
  Text that can follow an expression without completing a call of an aggregate: it starts with
  a blank or a closing parenthesis, and its first byte that is not blank is no opening one.
\<close>

definition safe_tail :: "string \<Rightarrow> bool" where
  "safe_tail t =
     (t \<noteq> [] \<and> (hd t = CHR '' '' \<or> hd t = CHR '')'') \<and>
      \<not> prefix ''('' (dropWhile is_re_space t) \<and> \<not> agg_scan True t \<and> \<not> agg_scan False t)"

lemma agg_call_at_append:
  assumes "agg_call_at (s @ t)" "safe_tail t" "s \<noteq> []"
  shows "agg_call_at s"
proof -
  obtain kw where kw: "kw \<in> {''sum'', ''count'', ''avg'', ''min'', ''max''}"
    and pre: "prefix kw (to_lower (s @ t))"
    and par: "prefix ''('' (dropWhile is_re_space (drop (length kw) (s @ t)))"
    using assms(1) unfolding agg_call_at_def list_ex_iff list.set by blast
  obtain c t' where t: "t = c # t'" "c = CHR '' '' \<or> c = CHR '')''"
    using assms(2) by (cases t) (auto simp: safe_tail_def)
  have low: "lower_char c = c" using t(2) by (auto simp: lower_char_def)
  have len: "length kw \<le> length s"
  proof (rule ccontr)
    assume "\<not> length kw \<le> length s"
    then have "kw ! length s = to_lower (s @ t) ! length s"
      using pre by (auto simp: prefix_def nth_append)
    also have "\<dots> = c" by (simp add: to_lower_def t(1) nth_append low)
    finally have "c \<in> set kw" using \<open>\<not> length kw \<le> length s\<close> by (metis not_le nth_mem)
    then show False using kw t(2) by auto
  qed
  have "prefix kw (to_lower s)"
    using pre len prefix_length_prefix [of kw "to_lower (s @ t)" "to_lower s"] by (simp add: to_lower_def)
  moreover have "prefix ''('' (dropWhile is_re_space (drop (length kw) s))"
  proof (cases "\<forall>x \<in> set (drop (length kw) s). is_re_space x")
    case True
    then have "dropWhile is_re_space (drop (length kw) (s @ t)) = dropWhile is_re_space t"
      using len by (simp add: dropWhile_append2)
    then show ?thesis using par assms(2) by (simp add: safe_tail_def)
  next
    case False
    then have "dropWhile is_re_space (drop (length kw) (s @ t)) = dropWhile is_re_space (drop (length kw) s) @ t"
      using len by (auto simp: dropWhile_append)
    moreover have "dropWhile is_re_space (drop (length kw) s) \<noteq> []"
      using False by (auto simp: dropWhile_eq_Nil_conv)
    ultimately show ?thesis using par by (cases "dropWhile is_re_space (drop (length kw) s)") auto
  qed
  ultimately show ?thesis using kw unfolding agg_call_at_def list_ex_iff list.set by blast
qed

lemma agg_scan_append:
  "agg_scan pw (s @ t) \<Longrightarrow> safe_tail t \<Longrightarrow> agg_scan pw s"
proof (induction s arbitrary: pw)
  case Nil
  then show ?case by (cases pw) (simp_all add: safe_tail_def)
next
  case (Cons c cs)
  then show ?case using agg_call_at_append [of "c # cs" t] by auto
qed

lemma safe_tails:
  "safe_tail '' IS NULL''" "safe_tail '' IS NOT NULL''" "safe_tail '' = ?''"
  "safe_tail '' LIKE ?''" "safe_tail '' ILIKE ?''" "safe_tail '' NOT LIKE ?''" "safe_tail '' NOT ILIKE ?''"
  "safe_tail '' AS TEXT)''" "safe_tail '') = LOWER(?)''"
  by code_simp+

lemma isAggregate_tail: "safe_tail t \<Longrightarrow> \<not> isAggregateExpr e \<Longrightarrow> \<not> isAggregateExpr (e @ t)"
  unfolding isAggregateExpr_def using agg_scan_append by blast

text \<open>The two letters at its start tell the name of an aggregate from other words.\<close>

lemma agg_call_at_start:
  assumes "agg_call_at (c # s)"
  shows "lower_char c \<in> {CHR ''s'', CHR ''c'', CHR ''a'', CHR ''m''}"
    and "lower_char c = CHR ''c'' \<Longrightarrow> s \<noteq> [] \<and> lower_char (hd s) = CHR ''o''"
  using assms by (cases s; auto simp: agg_call_at_def to_lower_def)+

lemma lower_letters:
  "lower_char CHR ''C'' = CHR ''c''" "lower_char CHR ''A'' = CHR ''a''" "lower_char CHR ''S'' = CHR ''s''"
  "lower_char CHR ''T'' = CHR ''t''" "lower_char CHR ''('' = CHR ''(''" "lower_char CHR ''L'' = CHR ''l''"
  "lower_char CHR ''O'' = CHR ''o''" "lower_char CHR ''W'' = CHR ''w''" "lower_char CHR ''E'' = CHR ''e''"
  "lower_char CHR ''R'' = CHR ''r''"
  by code_simp+

lemma ident_letters:
  "isIdentPart CHR ''C''" "isIdentPart CHR ''A''" "isIdentPart CHR ''S''" "isIdentPart CHR ''T''"
  "isIdentPart CHR ''L''" "isIdentPart CHR ''O''" "isIdentPart CHR ''W''" "isIdentPart CHR ''E''"
  "isIdentPart CHR ''R''" "\<not> isIdentPart CHR ''(''"
  by code_simp+

lemma isAggregate_cast: "isAggregateExpr (''CAST('' @ e) = isAggregateExpr e"
proof -
  have "\<not> agg_call_at (CHR ''C'' # ''AST('' @ e)"
    using agg_call_at_start(2) [of "CHR ''C''" "''AST('' @ e"] by (auto simp: lower_letters)
  moreover have "\<not> agg_call_at (CHR ''('' # e)"
    using agg_call_at_start(1) [of "CHR ''(''" e] by (auto simp: lower_letters)
  ultimately show ?thesis by (simp add: isAggregateExpr_def ident_letters)
qed

lemma isAggregate_lower: "isAggregateExpr (''LOWER('' @ e) = isAggregateExpr e"
proof -
  have "\<not> agg_call_at (CHR ''L'' # ''OWER('' @ e)"
    using agg_call_at_start(1) [of "CHR ''L''" "''OWER('' @ e"] by (auto simp: lower_letters)
  moreover have "\<not> agg_call_at (CHR ''('' # e)"
    using agg_call_at_start(1) [of "CHR ''(''" e] by (auto simp: lower_letters)
  ultimately show ?thesis by (simp add: isAggregateExpr_def ident_letters)
qed

lemma text_field_no_aggregate:
  "\<not> isAggregateExpr e \<Longrightarrow> \<not> isAggregateExpr (text_field e ft)"
  using isAggregate_tail [of "'' AS TEXT)''" e] isAggregate_cast [of "e @ '' AS TEXT)''"] safe_tails
  by (simp add: text_field_def)

text \<open>A comparison of a field that is no aggregate is none either.\<close>

lemma op_cond_no_aggregate:
  assumes "op_cond op cs e ft False val = Some c" "\<not> isAggregateExpr e"
  shows "\<forall>t \<in> set (texts c). \<not> isAggregateExpr t"
proof -
  have like: "\<forall>t \<in> set (texts c). \<not> isAggregateExpr t"
    if "like_cond e ft cs neg pat val = Some c" "neg = [] \<or> neg = '' NOT''" for neg pat
    using that assms(2) text_field_no_aggregate [of e ft] isAggregate_tail [of _ "text_field e ft"] safe_tails
    by (auto simp: like_cond_def split: gany.splits if_splits)
  have eq: "\<forall>t \<in> set (texts (if cs then SExpr (text_field e ft @ '' = ?'') [GStr s]
      else SExpr (''LOWER('' @ text_field e ft @ '') = LOWER(?)'') [GStr s])). \<not> isAggregateExpr t" for s
    using assms(2) text_field_no_aggregate [of e ft] isAggregate_tail [of _ "text_field e ft"] safe_tails
      isAggregate_lower [of "text_field e ft @ '') = LOWER(?)''"] by simp
  have null: "\<not> isAggregateExpr (e @ '' IS NULL'')" "\<not> isAggregateExpr (e @ '' IS NOT NULL'')"
    using assms(2) isAggregate_tail safe_tails by blast+
  show ?thesis
    using assms like eq null
    by (auto simp: op_cond_def Let_def split: if_splits gany.splits)
qed

definition no_aggregates :: "sqlizer \<Rightarrow> bool" where
  "no_aggregates c = (\<forall>t \<in> set (texts c). \<not> isAggregateExpr t)"

lemma no_aggregates_simps [simp]:
  "no_aggregates (SOr es) \<longleftrightarrow> list_all no_aggregates es"
  "no_aggregates (SAnd es) \<longleftrightarrow> list_all no_aggregates es"
  by (auto simp: no_aggregates_def list_all_iff)

definition clean_cond :: "(string \<Rightarrow> gany \<Rightarrow> sqlizer list \<times> bool) \<Rightarrow> bool" where
  "clean_cond cond = (\<forall>key val. \<not> snd (cond key val) \<longrightarrow> list_all no_aggregates (fst (cond key val)))"

lemma buildCond_clean: "\<not> snd (buildCond env field op val) \<Longrightarrow> list_all no_aggregates (fst (buildCond env field op val))"
proof -
  assume n: "\<not> snd (buildCond env field op val)"
  obtain flds comb baseOp cs where p: "ParseCompositeField field = (flds, comb)" "split_cs op = (baseOp, cs)"
    by (cases "ParseCompositeField field"; cases "split_cs op")
  let ?rs = "map (field_cond env baseOp cs val) flds"
  let ?parts = "concat (map (\<lambda>(c, agg). case c of None \<Rightarrow> [] | Some s \<Rightarrow> [s]) ?rs)"
  have clean: "list_all no_aggregates ?parts" if h: "\<not> list_ex snd ?rs"
  proof -
    have "no_aggregates c" if "f \<in> set flds" "field_cond env baseOp cs val f = (Some c, agg)" for f c agg
    proof -
      have "\<not> agg" using h that by (force simp: list_ex_iff)
      then have "\<not> isAggregateExpr (resolveField env f)"
        "op_cond baseOp cs (resolveField env f) (resolveFilterFieldType (EReg env) (EModel env) f) False val = Some c"
        using that(2) by (auto simp: field_cond_def Let_def split: if_splits)
      from op_cond_no_aggregate [OF this(2,1)] show ?thesis by (simp add: no_aggregates_def)
    qed
    then show ?thesis by (auto simp: list_all_iff split: option.splits) (metis prod.collapse)
  qed
  define parts where "parts = ?parts"
  have bc: "buildCond env field op val =
     (if parts = [] then ([], False)
      else if comb = ''_or_'' \<and> length parts > 1 then ([SOr parts], list_ex snd ?rs)
      else if comb = ''_and_'' \<and> length parts > 1 then ([SAnd parts], list_ex snd ?rs)
      else ([hd parts], list_ex snd ?rs))"
    unfolding buildCond_def p prod.case Let_def parts_def ..
  have "parts = [] \<or> list_all no_aggregates parts"
    using n clean unfolding bc parts_def by (auto split: if_splits)
  then show ?thesis unfolding bc by (cases parts) (auto simp: list_all_iff)
qed

lemma key_cond_clean: "clean_cond (key_cond env)"
  using buildCond_clean by (auto simp: clean_cond_def key_cond_def split: prod.splits option.splits)

lemma group_exprs_clean:
  assumes "clean_cond cond"
  shows "\<not> snd (group_exprs cond f) \<Longrightarrow> list_all no_aggregates (fst (group_exprs cond f))"
    and "\<not> snd (group_value cond key val) \<Longrightarrow> list_all no_aggregates (fst (group_value cond key val))"
    and "\<not> snd (group_items cond items) \<Longrightarrow> list_all no_aggregates (fst (group_items cond items))"
  using assms
proof (induction cond f and cond key val and cond items rule: group_exprs_group_value_group_items.induct)
  case (2 cond key val f)
  have "\<not> snd (cond key val) \<Longrightarrow> list_all no_aggregates (fst (cond key val))"
    using 2 by (simp add: clean_cond_def)
  with 2 show ?case
    by (cases "cond key val"; cases "group_value cond key val"; cases "group_exprs cond f")
       (auto split: if_splits)
next
  case (3 cond key sub)
  then show ?case by (cases "group_exprs cond sub") (auto simp: group_result_def split: if_splits)
next
  case (4 cond key arr)
  then show ?case by (cases "group_items cond arr") (auto split: if_splits)
next
  case (7 cond item items)
  then show ?case
    by (cases item; cases "group_items cond items")
       (auto simp: group_result_def split: if_splits prod.splits option.splits)
qed (auto simp: clean_cond_def)

section \<open>Values are only arguments\<close>

text \<open>
  The skeleton of a condition: its SQL texts, connectives and number of arguments. Replacing the
  strings among the values of a document leaves the skeletons of its conditions alone.
\<close>

fun skeleton :: "sqlizer \<Rightarrow> sqlizer" where
  "skeleton (SExpr s args) = SExpr s (map (\<lambda>_. GNil) args)"
| "skeleton (SEq s x) = SEq s GNil"
| "skeleton (SLt s x) = SLt s GNil"
| "skeleton (SLtOrEq s x) = SLtOrEq s GNil"
| "skeleton (SGt s x) = SGt s GNil"
| "skeleton (SGtOrEq s x) = SGtOrEq s GNil"
| "skeleton (SOr es) = SOr (map skeleton es)"
| "skeleton (SAnd es) = SAnd (map skeleton es)"

fun map_val :: "(string \<Rightarrow> string) \<Rightarrow> gany \<Rightarrow> gany" where
  "map_val g (GStr s) = GStr (g s)"
| "map_val g (GStrs ss) = GStrs (map g ss)"
| "map_val g (GList xs) = GList (map (map_val g) xs)"
| "map_val g (GMap kvs) = GMap (map (\<lambda>(k, x). (k, map_val g x)) kvs)"
| "map_val g x = x"

definition map_doc :: "(string \<Rightarrow> string) \<Rightarrow> gofilters \<Rightarrow> gofilters" where
  "map_doc g f = map (\<lambda>(k, x). (k, map_val g x)) f"

lemma map_doc_simps [simp]:
  "map_doc g [] = []" "map_doc g ((k, x) # f) = (k, map_val g x) # map_doc g f"
  by (simp_all add: map_doc_def)

lemma map_val_GMap [simp]: "map_val g (GMap kvs) = GMap (map_doc g kvs)"
  by (simp add: map_doc_def)

declare map_val.simps(4) [simp del]

definition same_skel :: "sqlizer list \<times> bool \<Rightarrow> sqlizer list \<times> bool \<Rightarrow> bool" where
  "same_skel r r' = (map skeleton (fst r) = map skeleton (fst r') \<and> snd r = snd r')"

definition value_blind :: "(string \<Rightarrow> string) \<Rightarrow> (string \<Rightarrow> gany \<Rightarrow> sqlizer list \<times> bool) \<Rightarrow> bool" where
  "value_blind g cond = (\<forall>key val. same_skel (cond key (map_val g val)) (cond key val))"

lemma op_cond_map_val:
  "map_option skeleton (op_cond op cs e ft agg (map_val g val)) = map_option skeleton (op_cond op cs e ft agg val)"
  by (cases val) (simp_all add: op_cond_def like_cond_def Let_def)

lemma same_skel_Nil: "same_skel r r' \<Longrightarrow> fst r = [] \<longleftrightarrow> fst r' = []"
  by (auto simp: same_skel_def)

lemma buildCond_map_val: "same_skel (buildCond env field op (map_val g val)) (buildCond env field op val)"
proof -
  obtain flds comb baseOp cs where p: "ParseCompositeField field = (flds, comb)" "split_cs op = (baseOp, cs)"
    by (cases "ParseCompositeField field"; cases "split_cs op")
  define rs where "rs = (\<lambda>v. map (field_cond env baseOp cs v) flds)"
  define parts where "parts = (\<lambda>v. concat (map (\<lambda>(c, agg). case c of None \<Rightarrow> [] | Some s \<Rightarrow> [s]) (rs v)))"
  have bc: "buildCond env field op v =
     (if parts v = [] then ([], False)
      else if comb = ''_or_'' \<and> length (parts v) > 1 then ([SOr (parts v)], list_ex snd (rs v))
      else if comb = ''_and_'' \<and> length (parts v) > 1 then ([SAnd (parts v)], list_ex snd (rs v))
      else ([hd (parts v)], list_ex snd (rs v)))" for v
    unfolding buildCond_def p prod.case Let_def parts_def rs_def ..
  have "snd (field_cond env baseOp cs (map_val g val) f) = snd (field_cond env baseOp cs val f) \<and>
      map_option skeleton (fst (field_cond env baseOp cs (map_val g val) f)) =
      map_option skeleton (fst (field_cond env baseOp cs val f))" for f
    by (simp add: field_cond_def Let_def op_cond_map_val)
  then have f: "snd \<circ> field_cond env baseOp cs (map_val g val) = snd \<circ> field_cond env baseOp cs val"
    "\<And>f. map_option skeleton (fst (field_cond env baseOp cs (map_val g val) f)) =
      map_option skeleton (fst (field_cond env baseOp cs val f))" by auto
  have agg: "list_ex snd (rs (map_val g val)) = list_ex snd (rs val)"
    using f(1) by (simp add: rs_def list_ex_iff comp_def) (metis)
  have skel: "map skeleton (parts v) =
      concat (map (\<lambda>f. case map_option skeleton (fst (field_cond env baseOp cs v f)) of None \<Rightarrow> [] | Some s \<Rightarrow> [s]) flds)" for v
    unfolding parts_def rs_def map_concat map_map comp_def
    by (intro arg_cong [of _ _ concat] map_cong refl) (auto split: prod.splits option.splits)
  have sk: "map skeleton (parts (map_val g val)) = map skeleton (parts val)"
    unfolding skel f(2) ..
  then have len: "length (parts (map_val g val)) = length (parts val)" by (metis length_map)
  have hd: "skeleton (hd (parts (map_val g val))) = skeleton (hd (parts val))" if "parts val \<noteq> []"
    using sk that len by (metis hd_map length_0_conv)
  have e: "parts (map_val g val) = [] \<longleftrightarrow> parts val = []" using len by auto
  show ?thesis
    unfolding bc same_skel_def
    by (cases "parts val = []") (simp_all add: e len sk agg hd del: length_greater_0_conv)
qed

lemma key_cond_blind: "value_blind g (key_cond env)"
  using buildCond_map_val by (auto simp: value_blind_def key_cond_def split: prod.splits option.splits)

lemma group_exprs_blind:
  assumes "value_blind g cond"
  shows "same_skel (group_exprs cond (map_doc g f)) (group_exprs cond f)"
    and "same_skel (group_value cond key (map_val g val)) (group_value cond key val)"
    and "same_skel (group_items cond (map (map_val g) items)) (group_items cond items)"
  using assms
proof (induction cond f and cond key val and cond items rule: group_exprs_group_value_group_items.induct)
  case (1 cond)
  then show ?case by (simp add: same_skel_def)
next
  case (2 cond key val f)
  have "same_skel (cond key (map_val g val)) (cond key val)" using 2 by (simp add: value_blind_def)
  with 2 show ?case by (auto simp: same_skel_def split: prod.splits)
next
  case (3 cond key sub)
  then have "same_skel (group_exprs cond (map_doc g sub)) (group_exprs cond sub)" by simp
  then show ?case by (auto simp: same_skel_def group_result_def split: prod.splits)
next
  case (4 cond key arr)
  then have "same_skel (group_items cond (map (map_val g) arr)) (group_items cond arr)" by simp
  then show ?case by (auto simp: same_skel_def split: prod.splits)
next
  case (6 cond)
  then show ?case by (simp add: same_skel_def)
next
  case (7 cond item items)
  have r: "same_skel (group_items cond (map (map_val g) items)) (group_items cond items)"
    by (rule 7(2) [OF prod.collapse 7(3)])
  show ?case
  proof (cases "\<exists>sub. item = GMap sub")
    case True
    then obtain sub where sub: "item = GMap sub" by blast
    then have "same_skel (group_exprs cond (map_doc g sub)) (group_exprs cond sub)" using 7 by simp
    then show ?thesis using r by (auto simp: sub same_skel_def group_result_def split: prod.splits)
  next
    case False
    then show ?thesis using r by (cases item) (auto simp: same_skel_def split: prod.splits)
  qed
qed (simp_all add: value_blind_def, (metis map_val.simps)+)

lemma and_entries_clean:
  assumes "clean_cond cond"
  shows "list_all no_aggregates (fst (and_entries cond f))"
    and "list_all no_aggregates (fst (and_value cond val))"
    and "list_all no_aggregates (fst (and_items cond items))"
  using assms
proof (induction cond f and cond val and cond items rule: and_entries_and_value_and_items.induct)
  case (2 cond key val f)
  have c: "list_all no_aggregates (fst (place (cond key val)))"
    using 2 by (cases "cond key val") (auto simp: clean_cond_def place_def, metis fst_conv snd_conv)
  have o: "list_all no_aggregates (fst (case val of
           GMap sub \<Rightarrow> (case buildGroupExpr cond sub ''or'' of
                          None \<Rightarrow> ([], []) | Some (e, agg) \<Rightarrow> place ([e], agg))
         | GList arr \<Rightarrow> (case group_items cond arr of (ps, subAgg) \<Rightarrow>
                          if ps = [] then ([], []) else place ([SOr ps], subAgg))
         | _ \<Rightarrow> ([], [])))"
    using group_exprs_clean [of cond] 2
    by (auto simp: buildGroupExpr_def group_result_def place_def
        split: gany.splits prod.splits option.splits)
       (metis fst_conv snd_conv)+
  show ?case using c o 2 by (auto simp: join_parts_def)
next
  case (7 cond item items)
  then show ?case
    by (cases item) (auto simp: join_parts_def group_parts_def and_group_def opt_list_def)
qed (auto simp: group_parts_def and_group_def opt_list_def)

definition parts_skel :: "parts \<Rightarrow> sqlizer list \<times> sqlizer list" where
  "parts_skel p = (map skeleton (fst p), map skeleton (snd p))"

lemma parts_skel_simps [simp]:
  "parts_skel (join_parts p q) = join_parts (parts_skel p) (parts_skel q)"
  "parts_skel (group_parts (and_group p)) = group_parts (and_group (parts_skel p))"
  "parts_skel ([], []) = ([], [])"
  by (simp_all add: parts_skel_def join_parts_def group_parts_def and_group_def opt_list_def)

lemma place_skel: "same_skel r r' \<Longrightarrow> parts_skel (place r) = parts_skel (place r')"
  by (cases r; cases r') (auto simp: same_skel_def parts_skel_def place_def)

lemma or_value_skel:
  assumes "value_blind g cond"
  shows "parts_skel (case map_val g val of
           GMap sub \<Rightarrow> (case buildGroupExpr cond sub ''or'' of
                          None \<Rightarrow> ([], []) | Some (e, agg) \<Rightarrow> place ([e], agg))
         | GList arr \<Rightarrow> (case group_items cond arr of (ps, subAgg) \<Rightarrow>
                          if ps = [] then ([], []) else place ([SOr ps], subAgg))
         | _ \<Rightarrow> ([], [])) =
     parts_skel (case val of
           GMap sub \<Rightarrow> (case buildGroupExpr cond sub ''or'' of
                          None \<Rightarrow> ([], []) | Some (e, agg) \<Rightarrow> place ([e], agg))
         | GList arr \<Rightarrow> (case group_items cond arr of (ps, subAgg) \<Rightarrow>
                          if ps = [] then ([], []) else place ([SOr ps], subAgg))
         | _ \<Rightarrow> ([], []))"
proof (cases val)
  case (GMap sub)
  then show ?thesis using group_exprs_blind(1) [OF assms, of sub]
    by (auto simp: buildGroupExpr_def group_result_def same_skel_def place_def parts_skel_def split: prod.splits)
next
  case (GList arr)
  then show ?thesis using group_exprs_blind(3) [OF assms, of arr]
    by (auto simp: same_skel_def place_def parts_skel_def split: prod.splits)
qed simp_all

lemma and_entries_blind:
  assumes "value_blind g cond"
  shows "parts_skel (and_entries cond (map_doc g f)) = parts_skel (and_entries cond f)"
    and "parts_skel (and_value cond (map_val g val)) = parts_skel (and_value cond val)"
    and "parts_skel (and_items cond (map (map_val g) items)) = parts_skel (and_items cond items)"
  using assms
proof (induction cond f and cond val and cond items rule: and_entries_and_value_and_items.induct)
  case (2 cond key val f)
  have "parts_skel (place (cond key (map_val g val))) = parts_skel (place (cond key val))"
    using 2 by (intro place_skel) (simp add: value_blind_def)
  then show ?case using 2 or_value_skel [of g cond val] by simp
next
  case (7 cond item items)
  then show ?case by (cases item) simp_all
qed simp_all

section \<open>Properties\<close>

text \<open>
  C25. Splitting a filter document into \<^verbatim>\<open>WHERE\<close> and \<^verbatim>\<open>HAVING\<close> keeps its meaning: a row passes both
  exactly when it passes the one condition that the document is without the split, whatever the
  truth of the comparisons (\<^verbatim>\<open>buildGroupAnd\<close> against \<^verbatim>\<open>buildGroupExpr\<close>; the document is \<open>grouped\<close>).
\<close>
theorem where_having_split:
  assumes "buildWhereClause reg m am preset filters ov = (w, h)" "grouped filters"
  shows "holds_opt v w \<and> holds_opt v h \<longleftrightarrow>
    holds_opt v (map_option fst (buildGroupExpr
      (key_cond \<lparr>EReg = reg, EModel = m, EAliases = am, EPreset = preset, EOverride = ov\<rparr>) filters ''and''))"
proof -
  let ?cond = "key_cond \<lparr>EReg = reg, EModel = m, EAliases = am, EPreset = preset, EOverride = ov\<rparr>"
  have "holds_opt v w \<and> holds_opt v h \<longleftrightarrow> holds_parts v (and_entries ?cond filters)"
    using assms(1) holds_and_group [of v "and_entries ?cond filters"]
    by (auto simp: buildWhereClause_def buildGroupAnd_def)
  also have "\<dots> = all_hold v (group_exprs ?cond filters)" by (rule and_entries_holds(1) [OF assms(2)])
  also have "\<dots> = holds_opt v (map_option fst (buildGroupExpr ?cond filters ''and''))"
    by (cases "group_exprs ?cond filters") (auto simp: buildGroupExpr_def group_result_def holds_opt_def all_hold_def)
  finally show ?thesis .
qed

definition demo_filters :: gofilters where
  "demo_filters = [(''total__gt'', GInt 3), (''or'', GMap [(''name__cnt'', GStr ''x''), (''id'', GInt 1)])]"

definition demo_where_model :: model where
  "demo_where_model = empty_model\<lparr>MName := ''M'', Computable := [(''total'', \<lparr>CSource = ''SUM(x)'', CWhere = [], CType = []\<rparr>)]\<rparr>"

lemma demo_where:
  "buildWhereClause [] demo_where_model empty_alias_map None demo_filters [] =
   (Some (SAnd [SOr [SExpr ''main.name ILIKE ?'' [GStr ''%x%''], SEq ''main.id'' (GInt 1)]]),
    Some (SAnd [SGt ''SUM(main.x)'' (GInt 3)]))"
  by code_simp

theorem where_having_split_witness:
  "\<forall>v. holds_opt v (Some (SAnd [SOr [SExpr ''main.name ILIKE ?'' [GStr ''%x%''], SEq ''main.id'' (GInt 1)]])) \<and>
   holds_opt v (Some (SAnd [SGt ''SUM(main.x)'' (GInt 3)])) \<longleftrightarrow>
   holds_opt v (map_option fst (buildGroupExpr
      (key_cond \<lparr>EReg = [], EModel = demo_where_model, EAliases = empty_alias_map, EPreset = None, EOverride = []\<rparr>)
      demo_filters ''and''))"
  by (intro allI where_having_split [OF demo_where]) (simp add: demo_filters_def)

text \<open>
  No comparison in the \<^verbatim>\<open>WHERE\<close> part calls an aggregate: every condition that does is put in
  the \<^verbatim>\<open>HAVING\<close> part, with the whole group it belongs to (\<^verbatim>\<open>buildWhereClause\<close>; an aggregate is what
  \<^verbatim>\<open>isAggregateExpr\<close> finds in the SQL text, casts and \<^verbatim>\<open>LOWER\<close> included).
\<close>
theorem where_part_has_no_aggregate:
  "\<forall>t \<in> texts_of (fst (buildWhereClause reg m am preset filters ov)). \<not> isAggregateExpr t"
proof -
  let ?p = "and_entries (key_cond \<lparr>EReg = reg, EModel = m, EAliases = am, EPreset = preset, EOverride = ov\<rparr>) filters"
  have "list_all no_aggregates (fst ?p)" by (rule and_entries_clean(1) [OF key_cond_clean])
  then have "fst ?p = [] \<or> no_aggregates (SAnd (fst ?p))" by simp
  then show ?thesis
    by (auto simp: buildWhereClause_def buildGroupAnd_def and_group_def texts_of_def no_aggregates_def)
qed

theorem where_part_has_no_aggregate_witness:
  "\<not> isAggregateExpr ''main.name ILIKE ?'' \<and> \<not> isAggregateExpr ''main.id''"
  using where_part_has_no_aggregate [of "[]" demo_where_model empty_alias_map None demo_filters "[]"]
  by (simp add: demo_where texts_of_def)


end
