(* ===== verification/Scan_Columns.thy ===== *)
theory Scan_Columns
  imports Linker Computable_Utils Field_Expr
begin

text \<open>
  What a preset selects: \<^verbatim>\<open>ScanPresetFields.go\<close> and \<^verbatim>\<open>ScanColumns.go\<close> of \<^verbatim>\<open>internal/model\<close>. Both
  walks follow nested presets of \<^verbatim>\<open>belongs_to\<close> relations with no limit on the depth, so they are
  partial functions: \<open>None\<close> is \<^emph>\<open>does not return\<close>.
\<close>

section \<open>The relation paths of a preset\<close>

definition append_once :: "string \<Rightarrow> string list \<Rightarrow> string list" where
  "append_once path out = (if path \<in> set out then out else out @ [path])"

definition trim_suffix :: "string \<Rightarrow> string \<Rightarrow> string" where
  "trim_suffix suf s = (if has_suffix s suf then take (length s - length suf) s else s)"

text \<open>
  The paths in the placeholders of a \<^verbatim>\<open>nested_field\<close> or \<^verbatim>\<open>formatter\<close>, up to their last dot.
\<close>

definition placeholder_paths :: "string \<Rightarrow> preset_field \<Rightarrow> string list" where
  "placeholder_paths prefx f =
     (if FType f = ''nested_field'' \<or> FType f = ''formatter'' then
        concat (map (\<lambda>p.
          let trimmed = trim_suffix ''.'' prefx;
              full = (if prefx \<noteq> [] \<and> trimmed \<noteq> [] then trimmed @ ''.'' @ p else p)
          in case last_split (CHR ''.'') full of
               None \<Rightarrow> []
             | Some (h, t) \<Rightarrow> if h \<noteq> [] then [h] else []) (extractPathsFromExpr (FSource f)))
      else [])"

definition relation_path :: "string \<Rightarrow> string \<Rightarrow> string" where
  "relation_path prefx relKey =
     (if prefx = [] then relKey @ ''.''
      else if has_suffix prefx ''.'' then prefx @ relKey @ ''.''
      else prefx @ ''.'' @ relKey)"

text \<open>The preset a field nests: the name after a dot, if there is one, in the related model.\<close>

definition nested_name :: "string \<Rightarrow> string" where
  "nested_name nested = (case split2 ''.'' nested of (h, None) \<Rightarrow> nested | (h, Some t) \<Rightarrow> t)"

definition nested_of :: "registry \<Rightarrow> model_relation \<Rightarrow> preset_field \<Rightarrow> (model \<times> data_preset) option" where
  "nested_of reg rel f =
     (if NestedPreset f = [] then None
      else case deref reg (ModelRef rel) of
        None \<Rightarrow> None
      | Some related \<Rightarrow> map_option (Pair related) (map_of (Presets related) (nested_name (NestedPreset f))))"

text \<open>The \<^verbatim>\<open>belongs_to\<close> relation of a field of type \<^verbatim>\<open>preset\<close>.\<close>

definition belongs_relation :: "model \<Rightarrow> preset_field \<Rightarrow> model_relation option" where
  "belongs_relation m f =
     (if FType f \<noteq> ''preset'' \<or> FSource f = [] then None
      else case map_of (Relations m) (FSource f) of
        None \<Rightarrow> None
      | Some rel \<Rightarrow> if RType rel = ''belongs_to'' then Some rel else None)"

partial_function (option) scan_fields ::
  "registry \<Rightarrow> model \<Rightarrow> preset_field list \<Rightarrow> string \<Rightarrow> string list \<Rightarrow> string list option" where
  "scan_fields reg m flds prefx out =
     (case flds of
        [] \<Rightarrow> Some out
      | f # rest \<Rightarrow>
          (case belongs_relation m f of
             None \<Rightarrow> scan_fields reg m rest prefx (fold append_once (placeholder_paths prefx f) out)
           | Some rel \<Rightarrow>
               (let path = relation_path prefx (FSource f)
                in case nested_of reg rel f of
                     None \<Rightarrow> scan_fields reg m rest prefx (append_once path out)
                   | Some (related, np) \<Rightarrow>
                       Option.bind (scan_fields reg related (Fields np) path []) (\<lambda>sub.
                         scan_fields reg m rest prefx (fold append_once sub (append_once path out))))))"

declare scan_fields.simps [code]

definition ScanPresetFields :: "registry \<Rightarrow> model \<Rightarrow> data_preset \<Rightarrow> string \<Rightarrow> string list option" where
  "ScanPresetFields reg m preset prefx = scan_fields reg m (Fields preset) prefx []"

section \<open>The columns of a preset\<close>

definition alias_for :: "alias_map option \<Rightarrow> string \<Rightarrow> string" where
  "alias_for aliasMap path =
     (if path = [] then ''main''
      else case aliasMap of
        None \<Rightarrow> ''main''
      | Some am \<Rightarrow> (case map_of (PathToAlias am) path of
          None \<Rightarrow> ''main''
        | Some a \<Rightarrow> if a \<noteq> [] then a else ''main''))"

text \<open>The state of the loop: the columns and the expressions that have been added by it.\<close>

type_synonym scan_state = "select_column list \<times> string list"

definition add_col :: "string \<Rightarrow> string \<Rightarrow> string \<Rightarrow> scan_state \<Rightarrow> scan_state" where
  "add_col expr key fType st =
     (if expr = [] \<or> key = [] then st
      else if expr \<in> set (snd st) then st
      else (fst st @ [\<lparr>Expr = expr, Key = key, ColType = fType\<rparr>], snd st @ [expr]))"

definition joinKey :: "string \<Rightarrow> string \<Rightarrow> string" where
  "joinKey pref name = (if is_blank pref then name else pref @ ''.'' @ name)"

definition field_name :: "preset_field \<Rightarrow> string" where
  "field_name f = (let a = trim_space (FAlias f) in if a = [] then FSource f else a)"

definition plain_types :: "string list" where
  "plain_types = [''int'', ''string'', ''bool'', ''float'', ''UUID'', ''time'', ''datetime'', ''date'']"

definition computable_col ::
  "model \<Rightarrow> alias_map option \<Rightarrow> string \<Rightarrow> preset_field \<Rightarrow> scan_state \<Rightarrow> scan_state" where
  "computable_col m aliasMap prefx f st =
     (case map_of (Computable m) (FSource f) of
        None \<Rightarrow> st
      | Some cmp \<Rightarrow>
          (let expr = applyAliasPlaceholders (CSource cmp) aliasMap prefx;
               body = (if isSubquerySource expr then wrapSubquery expr else expr)
           in add_col (body @ '' AS '' @ quoteIdentifier (field_name f)) (joinKey prefx (field_name f))
                (if is_blank (CType cmp) then FType f else CType cmp) st))"

definition plain_col :: "alias_map option \<Rightarrow> string \<Rightarrow> preset_field \<Rightarrow> scan_state \<Rightarrow> scan_state" where
  "plain_col aliasMap prefx f st =
     (if isSubquerySource (FSource f) then
        add_col (wrapSubquery (applyAliasPlaceholders (FSource f) aliasMap prefx) @ '' AS '' @
                 quoteIdentifier (field_name f)) (joinKey prefx (field_name f)) (FType f) st
      else add_col (alias_for aliasMap prefx @ ''.'' @ FSource f) (joinKey prefx (field_name f)) (FType f) st)"

definition polymorphic_cols ::
  "alias_map option \<Rightarrow> string \<Rightarrow> string \<Rightarrow> model_relation \<Rightarrow> scan_state \<Rightarrow> scan_state" where
  "polymorphic_cols aliasMap prefx relKey rel st =
     (let parentAlias = alias_for aliasMap prefx;
          typeCol = (if is_blank (TypeColumn rel) then relKey @ ''_type'' else TypeColumn rel)
      in add_col (parentAlias @ ''.'' @ typeCol) (joinKey prefx typeCol) ''string''
           (add_col (parentAlias @ ''.'' @ FK rel) (joinKey prefx (FK rel)) ''int'' st))"

text \<open>
  What a field adds that is not a nested preset to walk, and else the model and the preset to
  walk. A link of the field to its preset comes first.
\<close>

definition nested_preset :: "registry \<Rightarrow> model_relation \<Rightarrow> preset_field \<Rightarrow> (model \<times> data_preset) option" where
  "nested_preset reg rel f =
     (case deref reg (ModelRef rel) of
        None \<Rightarrow> None
      | Some target \<Rightarrow>
          map_option (Pair target)
            (case PresetRef f of
               Some (mn, pn) \<Rightarrow> (case map_of reg mn of None \<Rightarrow> None | Some pm \<Rightarrow> map_of (Presets pm) pn)
             | None \<Rightarrow> if NestedPreset f \<noteq> [] then map_of (Presets target) (NestedPreset f) else None))"

definition field_cols ::
  "registry \<Rightarrow> model \<Rightarrow> alias_map option \<Rightarrow> string \<Rightarrow> preset_field \<Rightarrow> scan_state \<Rightarrow>
   scan_state + model \<times> data_preset" where
  "field_cols reg m aliasMap prefx f st =
     (if FType f = ''preset'' then
        (case map_of (Relations m) (FSource f) of
           None \<Rightarrow> Inl st
         | Some rel \<Rightarrow>
             if Polymorphic rel then Inl (polymorphic_cols aliasMap prefx (FSource f) rel st)
             else if RType rel = ''belongs_to'' then
               (case nested_preset reg rel f of None \<Rightarrow> Inl st | Some t \<Rightarrow> Inr t)
             else if RType rel = ''has_one'' \<or> RType rel = ''has_many'' then
               Inl (add_col (alias_for aliasMap prefx @ ''.'' @ PK rel) (joinKey prefx (PK rel)) ''int'' st)
             else Inl st)
      else if FType f = ''computable'' then Inl (computable_col m aliasMap prefx f st)
      else if FType f \<in> set plain_types then Inl (plain_col aliasMap prefx f st)
      else Inl st)"

partial_function (option) scan_cols ::
  "registry \<Rightarrow> model \<Rightarrow> preset_field list \<Rightarrow> alias_map option \<Rightarrow> string \<Rightarrow> scan_state \<Rightarrow>
   select_column list option" where
  "scan_cols reg m flds aliasMap prefx st =
     (case flds of
        [] \<Rightarrow> Some (fst st)
      | f # rest \<Rightarrow>
          (case field_cols reg m aliasMap prefx f st of
             Inl st' \<Rightarrow> scan_cols reg m rest aliasMap prefx st'
           | Inr (target, np) \<Rightarrow>
               Option.bind
                 (scan_cols reg target (Fields np) aliasMap
                    (if prefx \<noteq> [] then prefx @ ''.'' @ FSource f else FSource f) ([], []))
                 (\<lambda>sub. scan_cols reg m rest aliasMap prefx (fst st @ sub, snd st))))"

declare scan_cols.simps [code]

definition ScanColumns ::
  "registry \<Rightarrow> model \<Rightarrow> data_preset option \<Rightarrow> alias_map option \<Rightarrow> string \<Rightarrow> select_column list option" where
  "ScanColumns reg m preset aliasMap prefx =
     (case preset of None \<Rightarrow> Some [] | Some p \<Rightarrow> scan_cols reg m (Fields p) aliasMap prefx ([], []))"

section \<open>When the walks return\<close>

text \<open>
  The presets a field leads to: the target of the walk over columns, which does not depend on
  its state, and that of the walk over fields.
\<close>

definition column_target :: "registry \<Rightarrow> model \<Rightarrow> preset_field \<Rightarrow> (model \<times> data_preset) option" where
  "column_target reg m f =
     (if FType f \<noteq> ''preset'' then None
      else case map_of (Relations m) (FSource f) of
        None \<Rightarrow> None
      | Some rel \<Rightarrow>
          if Polymorphic rel \<or> RType rel \<noteq> ''belongs_to'' then None else nested_preset reg rel f)"

definition field_target :: "registry \<Rightarrow> model \<Rightarrow> preset_field \<Rightarrow> (model \<times> data_preset) option" where
  "field_target reg m f =
     (case belongs_relation m f of None \<Rightarrow> None | Some rel \<Rightarrow> nested_of reg rel f)"

lemma field_cols_target:
  "field_cols reg m am prefx f st = Inr t \<longleftrightarrow> column_target reg m f = Some t"
  by (auto simp: field_cols_def column_target_def split: option.splits)

lemma scan_cols_Cons:
  "scan_cols reg m (f # rest) am prefx st =
     (case field_cols reg m am prefx f st of
        Inl st' \<Rightarrow> scan_cols reg m rest am prefx st'
      | Inr (target, np) \<Rightarrow>
          Option.bind
            (scan_cols reg target (Fields np) am (if prefx \<noteq> [] then prefx @ ''.'' @ FSource f else FSource f) ([], []))
            (\<lambda>sub. scan_cols reg m rest am prefx (fst st @ sub, snd st)))"
  by (subst scan_cols.simps) simp

lemma scan_cols_Nil: "scan_cols reg m [] am prefx st = Some (fst st)"
  by (subst scan_cols.simps) simp

text \<open>A rank that every nesting lowers: no preset is nested in itself.\<close>

definition nesting_ranked :: "registry \<Rightarrow> (model \<Rightarrow> data_preset \<Rightarrow> nat) \<Rightarrow> bool" where
  "nesting_ranked reg rk =
     (\<forall>m p f t tp. f \<in> set (Fields p) \<longrightarrow>
        column_target reg m f = Some (t, tp) \<or> field_target reg m f = Some (t, tp) \<longrightarrow> rk t tp < rk m p)"

lemma scan_cols_returns_fields:
  assumes "\<And>f t tp prefx. f \<in> set flds \<Longrightarrow> column_target reg m f = Some (t, tp) \<Longrightarrow>
      \<exists>cs. scan_cols reg t (Fields tp) am prefx ([], []) = Some cs"
  shows "\<exists>cs. scan_cols reg m flds am prefx st = Some cs"
  using assms
proof (induction flds arbitrary: st)
  case Nil
  then show ?case by (simp add: scan_cols_Nil)
next
  case (Cons f rest)
  have rest: "\<exists>cs. scan_cols reg m rest am prefx st' = Some cs" for st'
    by (rule Cons.IH, rule Cons.prems) simp_all
  show ?case
  proof (cases "field_cols reg m am prefx f st")
    case (Inl st')
    then show ?thesis using rest by (simp add: scan_cols_Cons)
  next
    case (Inr q)
    obtain t tp where q: "q = (t, tp)" by (cases q)
    have "column_target reg m f = Some (t, tp)" using Inr q field_cols_target by simp
    then obtain cs where "scan_cols reg t (Fields tp) am
        (if prefx \<noteq> [] then prefx @ ''.'' @ FSource f else FSource f) ([], []) = Some cs"
      using Cons.prems [of f t tp] by auto
    then show ?thesis using rest Inr q by (simp add: scan_cols_Cons)
  qed
qed

lemma scan_cols_returns:
  assumes "nesting_ranked reg rk"
  shows "\<exists>cs. scan_cols reg m (Fields (p :: data_preset)) am prefx st = Some cs"
proof (induction "rk m p" arbitrary: m p prefx st rule: less_induct)
  case less
  show ?case
    by (rule scan_cols_returns_fields) (use less assms in \<open>auto simp: nesting_ranked_def\<close>)
qed

lemma scan_fields_Cons:
  "scan_fields reg m (f # rest) prefx out =
     (case belongs_relation m f of
        None \<Rightarrow> scan_fields reg m rest prefx (fold append_once (placeholder_paths prefx f) out)
      | Some rel \<Rightarrow>
          (let path = relation_path prefx (FSource f)
           in case nested_of reg rel f of
                None \<Rightarrow> scan_fields reg m rest prefx (append_once path out)
              | Some (related, np) \<Rightarrow>
                  Option.bind (scan_fields reg related (Fields np) path []) (\<lambda>sub.
                    scan_fields reg m rest prefx (fold append_once sub (append_once path out)))))"
  by (subst scan_fields.simps) simp

lemma scan_fields_Nil: "scan_fields reg m [] prefx out = Some out"
  by (subst scan_fields.simps) simp

lemma scan_fields_returns_fields:
  assumes "\<And>f t tp prefx. f \<in> set flds \<Longrightarrow> field_target reg m f = Some (t, tp) \<Longrightarrow>
      \<exists>ps. scan_fields reg t (Fields tp) prefx [] = Some ps"
  shows "\<exists>ps. scan_fields reg m flds prefx out = Some ps"
  using assms
proof (induction flds arbitrary: out)
  case Nil
  then show ?case by (simp add: scan_fields_Nil)
next
  case (Cons f rest)
  have rest: "\<exists>ps. scan_fields reg m rest prefx out' = Some ps" for out'
    by (rule Cons.IH, rule Cons.prems) simp_all
  show ?case
  proof (cases "field_target reg m f")
    case None
    then show ?thesis using rest
      by (auto simp: scan_fields_Cons field_target_def Let_def split: option.splits)
  next
    case (Some q)
    obtain t tp where q: "q = (t, tp)" by (cases q)
    obtain rel where rel: "belongs_relation m f = Some rel" "nested_of reg rel f = Some (t, tp)"
      using Some q by (auto simp: field_target_def split: option.splits)
    obtain ps where "scan_fields reg t (Fields tp) (relation_path prefx (FSource f)) [] = Some ps"
      using Cons.prems [of f t tp] Some q by auto
    then show ?thesis using rest rel by (simp add: scan_fields_Cons Let_def)
  qed
qed

lemma scan_fields_returns:
  assumes "nesting_ranked reg rk"
  shows "\<exists>ps. scan_fields reg m (Fields (p :: data_preset)) prefx out = Some ps"
proof (induction "rk m p" arbitrary: m p prefx out rule: less_induct)
  case less
  show ?case
    by (rule scan_fields_returns_fields) (use less assms in \<open>auto simp: nesting_ranked_def\<close>)
qed

text \<open>
  Presets each of which nests one of them: the walk over the columns never returns.
\<close>

definition nesting_cycle :: "registry \<Rightarrow> (model \<times> data_preset) set \<Rightarrow> bool" where
  "nesting_cycle reg C =
     (\<forall>(m, p) \<in> C. \<exists>f \<in> set (Fields p). \<exists>t \<in> C. column_target reg m f = Some t)"

lemma scan_cols_diverges:
  assumes cyc: "nesting_cycle reg C"
    and "f \<in> set flds" "column_target reg m f = Some t" "t \<in> C"
  shows "scan_cols reg m flds am prefx st = None"
proof (rule ccontr)
  assume "scan_cols reg m flds am prefx st \<noteq> None"
  then obtain y where y: "scan_cols reg m flds am prefx st = Some y" by blast
  let ?P = "\<lambda>r m flds am prefx st y. r = reg \<longrightarrow>
     (\<exists>f \<in> set flds. \<exists>t \<in> C. column_target reg m f = Some t) \<longrightarrow> False"
  have "?P reg m flds am prefx st y"
  proof (rule scan_cols.raw_induct [OF _ y, where P = ?P], goal_cases)
    case (1 g r m flds am prefx st y)
    note IH = 1(1) and body = 1(2)
    show ?case
    proof (intro impI)
      assume r: "r = reg" and ex: "\<exists>f \<in> set flds. \<exists>t \<in> C. column_target reg m f = Some t"
      then obtain x rest where flds: "flds = x # rest" by (cases flds) auto
      show False
      proof (cases "field_cols reg m am prefx x st")
        case (Inl st')
        then have "g reg m rest am prefx st' = Some y" using body by (simp add: flds r)
        moreover have "column_target reg m x \<noteq> Some t" for t using Inl field_cols_target by (metis sum.distinct(1))
        ultimately show False using IH ex by (simp add: flds)
      next
        case (Inr q)
        obtain t tp where q: "q = (t, tp)" by (cases q)
        then obtain sub where s: "g reg t (Fields tp) am (if prefx \<noteq> [] then prefx @ ''.'' @ FSource x else FSource x) ([], []) = Some sub"
          and r2: "g reg m rest am prefx (fst st @ sub, snd st) = Some y"
          using body Inr by (auto simp: flds r bind_eq_Some_conv)
        have xt: "column_target reg m x = Some (t, tp)" using Inr q field_cols_target by simp
        show False
        proof (cases "(t, tp) \<in> C")
          case True
          then have "\<exists>f \<in> set (Fields tp). \<exists>t' \<in> C. column_target reg t f = Some t'"
            using cyc by (auto simp: nesting_cycle_def)
          with IH [OF s] show False by simp
        next
          case False
          then have "\<exists>f \<in> set rest. \<exists>t \<in> C. column_target reg m f = Some t"
            using ex xt by (auto simp: flds)
          with IH [OF r2] show False by simp
        qed
      qed
    qed
  qed
  then show False using assms(2-4) by blast
qed

section \<open>Properties\<close>


definition demo_flat :: data_preset where
  "demo_flat = empty_preset\<lparr>Fields := [empty_field\<lparr>FSource := ''name'', FType := ''string''\<rparr>]\<rparr>"


text \<open>
  A preset that is nested in itself over \<^verbatim>\<open>belongs_to\<close> relations makes the walk over its
  columns recurse forever: the limit \<^verbatim>\<open>max_depth\<close>, with which validation accepts a reentrant
  relation and the alias maps are built, is not observed by \<^verbatim>\<open>ScanColumns\<close>.
\<close>
theorem cyclic_preset_never_returns:
  assumes "nesting_cycle reg C" "(m, p) \<in> C"
  shows "ScanColumns reg m (Some p) am prefx = None"
proof -
  obtain f t where "f \<in> set (Fields p)" "t \<in> C" "column_target reg m f = Some t"
    using assms by (auto simp: nesting_cycle_def)
  then show ?thesis using scan_cols_diverges [OF assms(1)] by (simp add: ScanColumns_def)
qed

definition demo_tree_linked :: registry where
  "demo_tree_linked = (case InitRegistry demo_tree of Inl e \<Rightarrow> [] | Inr reg \<Rightarrow> reg)"

theorem cyclic_preset_never_returns_witness:
  "\<exists>reg m p. InitRegistry demo_tree = Inr reg \<and> map_of reg ''Node'' = Some m \<and>
     map_of (Presets m) ''card'' = Some p \<and> ScanColumns reg m (Some p) (FieldsAliasMap p) [] = None"
proof -
  have ok: "is_ok (InitRegistry demo_tree)" by code_simp
  let ?m = "the (map_of demo_tree_linked ''Node'')"
  let ?p = "the (map_of (Presets ?m) ''card'')"
  have "map_of demo_tree_linked ''Node'' \<noteq> None \<and> map_of (Presets ?m) ''card'' \<noteq> None \<and>
     list_ex (\<lambda>f. column_target demo_tree_linked ?m f = Some (?m, ?p)) (Fields ?p)"
    by code_simp
  then have p: "map_of demo_tree_linked ''Node'' = Some ?m" "map_of (Presets ?m) ''card'' = Some ?p"
    and c: "nesting_cycle demo_tree_linked {(?m, ?p)}"
    by (auto simp: nesting_cycle_def list_ex_iff)
  have "ScanColumns demo_tree_linked ?m (Some ?p) (FieldsAliasMap ?p) [] = None"
    by (rule cyclic_preset_never_returns [OF c]) simp
  moreover have "InitRegistry demo_tree = Inr demo_tree_linked"
    using ok by (auto simp: demo_tree_linked_def is_ok_iff)
  ultimately show ?thesis using p by blast
qed

end
