(* ===== verification/Query_Builder.thy ===== *)
theory Query_Builder
  imports Detect_Joins Where_Clause Scan_Columns
begin

text \<open>
  The statements the program builds, and \<^verbatim>\<open>internal/model/cte_helpers.go\<close>. A
  \<^verbatim>\<open>squirrel.SelectBuilder\<close> is the record of the clauses that have been given to it, in order;
  turning it into SQL text (\<^verbatim>\<open>ToSql\<close>) is the library's and a parameter of the model. The
  placeholder format is a setting of that rendering.
\<close>

section \<open>Statements\<close>

record clauses =
  Prefixes :: "(string \<times> gany list) list"
  IsDistinct :: bool
  Columns :: "string list"
  LeftJoins :: "string list"
  Wheres :: "sqlizer list"
  GroupBys :: "string list"
  Havings :: "sqlizer list"
  OrderBys :: "string list"
  Limit :: "64 word option"
  Offset :: "64 word option"

datatype query = Query (from_of: source) (clauses_of: clauses)
  and source = Tbl string | Sub query string

definition no_clauses :: clauses where
  "no_clauses = \<lparr>Prefixes = [], IsDistinct = False, Columns = [], LeftJoins = [], Wheres = [],
     GroupBys = [], Havings = [], OrderBys = [], Limit = None, Offset = None\<rparr>"

text \<open>\<^verbatim>\<open>Where\<close> and \<^verbatim>\<open>Having\<close> with a condition that may be nil.\<close>

definition add_where :: "sqlizer option \<Rightarrow> clauses \<Rightarrow> clauses" where
  "add_where w c = c\<lparr>Wheres := Wheres c @ opt_list w\<rparr>"

definition add_having :: "sqlizer option \<Rightarrow> clauses \<Rightarrow> clauses" where
  "add_having h c = c\<lparr>Havings := Havings c @ opt_list h\<rparr>"

definition add_column :: "string \<Rightarrow> clauses \<Rightarrow> clauses" where
  "add_column e c = c\<lparr>Columns := Columns c @ [e]\<rparr>"

definition add_left_join :: "string \<Rightarrow> clauses \<Rightarrow> clauses" where
  "add_left_join j c = c\<lparr>LeftJoins := LeftJoins c @ [j]\<rparr>"

definition paginate :: "64 word \<Rightarrow> 64 word \<Rightarrow> clauses \<Rightarrow> clauses" where
  "paginate offset limit c =
     c\<lparr>Limit := (if limit > 0 then Some limit else Limit c),
       Offset := (if offset > 0 then Some offset else Offset c)\<rparr>"

definition main_from :: "model \<Rightarrow> source" where
  "main_from m = Tbl (Table m @ '' AS main'')"

text \<open>The text of a join: the condition, with that of the relation if it has one.\<close>

definition join_text :: "join_spec \<Rightarrow> string" where
  "join_text j =
     (let onClause = (if JWhere j \<noteq> [] then ''('' @ On j @ '') AND ('' @ JWhere j @ '')'' else On j)
      in JTable j @ '' AS '' @ JAlias j @ '' ON '' @ onClause)"

definition add_join_specs :: "join_spec list \<Rightarrow> clauses \<Rightarrow> clauses" where
  "add_join_specs js c = fold (\<lambda>j. add_left_join (join_text j)) js c"

section \<open>Common table expressions for aggregates over has\_many relations\<close>

record cte_spec =
  CName :: string
  CJoin :: join_spec
  CFields :: "(string, string) gomap"

text \<open>
  The computable fields a request uses; the fields of the preset only by their type.
\<close>

definition cte_used :: "model \<Rightarrow> data_preset option \<Rightarrow> gofilters \<Rightarrow> string list \<Rightarrow> string list" where
  "cte_used m preset filters sorts =
     dedup_from []
       ((case preset of
           None \<Rightarrow> []
         | Some p \<Rightarrow> map FSource (filter (\<lambda>f. FType f = ''computable'') (Fields p))) @
        filter (\<lambda>n. map_of (Computable m) n \<noteq> None)
          (map (\<lambda>(key, val). fst (split_op key)) filters @
           concat (map (\<lambda>s. case str_fields s of [] \<Rightarrow> [] | fld # _ \<Rightarrow> [fld]) sorts)))"

text \<open>The only \<^verbatim>\<open>has_many\<close> path among the paths of an expression; empty when there are two.\<close>

fun pick_has_many :: "registry \<Rightarrow> model \<Rightarrow> string \<Rightarrow> string list \<Rightarrow> string" where
  "pick_has_many reg m acc [] = acc"
| "pick_has_many reg m acc (p # ps) =
     (if isHasManyPath reg m p then
        (if acc \<noteq> [] \<and> acc \<noteq> p then [] else pick_has_many reg m p ps)
      else pick_has_many reg m acc ps)"

definition join_by_alias :: "join_spec list \<Rightarrow> string \<Rightarrow> join_spec option" where
  "join_by_alias joins a = find (\<lambda>j. JAlias j = a \<and> a \<noteq> []) (rev joins)"

text \<open>
  Where a computable field goes: its expression, the alias of the relation and its join.
\<close>

definition cte_place ::
  "registry \<Rightarrow> model \<Rightarrow> alias_map \<Rightarrow> join_spec list \<Rightarrow> string \<Rightarrow> (string \<times> join_spec \<times> string) option" where
  "cte_place reg m aliasMap joins name =
     (case map_of (Computable m) name of
        None \<Rightarrow> None
      | Some cmp \<Rightarrow>
          if is_blank (CSource cmp) then None
          else (let path = pick_has_many reg m [] (extractPathsFromExpr (CSource cmp))
                in if path = [] then None
                   else case map_of (PathToAlias aliasMap) path of
                     None \<Rightarrow> None
                   | Some a \<Rightarrow>
                       if a = [] then None
                       else (case join_by_alias joins a of
                               None \<Rightarrow> None
                             | Some j \<Rightarrow> Some (a, j, applyAliasPlaceholders (CSource cmp) (Some aliasMap) []))))"

type_synonym cte_state = "(string, cte_spec) gomap \<times> (string, string) gomap \<times> string list"

definition cte_step ::
  "registry \<Rightarrow> model \<Rightarrow> alias_map \<Rightarrow> join_spec list \<Rightarrow> string \<Rightarrow> cte_state \<Rightarrow> cte_state" where
  "cte_step reg m aliasMap joins name st =
     (case st of (byAlias, override, skip) \<Rightarrow>
        (case cte_place reg m aliasMap joins name of
           None \<Rightarrow> st
         | Some (a, j, expr) \<Rightarrow>
             (let spec = (case map_of byAlias a of
                            Some s \<Rightarrow> s
                          | None \<Rightarrow> \<lparr>CName = a @ ''_agg'', CJoin = j, CFields = []\<rparr>);
                  spec' = spec\<lparr>CFields := AList.update name expr (CFields spec)\<rparr>
              in (AList.update a spec' byAlias,
                  AList.update name (CName spec @ ''.'' @ quoteIdentifier name) override,
                  append_once a skip))))"

definition buildHasManyCTEs ::
  "registry \<Rightarrow> model \<Rightarrow> data_preset option \<Rightarrow> gofilters \<Rightarrow> string list \<Rightarrow> alias_map \<Rightarrow> join_spec list \<Rightarrow>
   cte_spec list \<times> (string, string) gomap \<times> string list" where
  "buildHasManyCTEs reg m preset filters sorts aliasMap joins =
     (case fold (cte_step reg m aliasMap joins) (cte_used m preset filters sorts) ([], [], []) of
        (byAlias, override, skip) \<Rightarrow> (map snd byAlias, override, skip))"

text \<open>The statement of one expression.\<close>

definition cte_query :: "model \<Rightarrow> cte_spec \<Rightarrow> query" where
  "cte_query m spec =
     Query (main_from m)
       ((add_join_specs [CJoin spec] no_clauses)\<lparr>
          Columns := ''main.id'' # map (\<lambda>(name, expr). expr @ '' AS '' @ quoteIdentifier name) (CFields spec),
          GroupBys := [''main.id'']\<rparr>)"

type_synonym to_sql = "query \<Rightarrow> string + string \<times> gany list"

definition buildCTEQueries :: "to_sql \<Rightarrow> model \<Rightarrow> cte_spec list \<Rightarrow> string + string \<times> gany list" where
  "buildCTEQueries toSql m specs =
     (if specs = [] then Inr ([], [])
      else (case map_res (\<lambda>spec. case toSql (cte_query m spec) of
                            Inl e \<Rightarrow> Inl e
                          | Inr (sql, args) \<Rightarrow> Inr (CName spec @ '' AS ('' @ sql @ '')'', args)) specs of
              Inl e \<Rightarrow> Inl e
            | Inr parts \<Rightarrow> Inr (''WITH '' @ join_str '', '' (map fst parts), concat (map snd parts))))"

definition filterJoinSpecs :: "join_spec list \<Rightarrow> string list \<Rightarrow> join_spec list" where
  "filterJoinSpecs joins skip = filter (\<lambda>j. JAlias j \<notin> set skip) joins"

text \<open>The expressions are prefixed to a statement and joined to it by the key of the root.\<close>

definition add_ctes :: "to_sql \<Rightarrow> model \<Rightarrow> cte_spec list \<Rightarrow> clauses \<Rightarrow> string + clauses" where
  "add_ctes toSql m specs c =
     (if specs = [] then Inr c
      else (case buildCTEQueries toSql m specs of
              Inl e \<Rightarrow> Inl e
            | Inr pre \<Rightarrow>
                Inr (fold (\<lambda>spec. add_left_join (CName spec @ '' ON '' @ CName spec @ ''.id = main.id'')) specs
                       (c\<lparr>Prefixes := Prefixes c @ [pre]\<rparr>))))"

end
