(* ===== verification/Index_Query.thy ===== *)
theory Index_Query
  imports Query_Builder
begin

text \<open>
  The statement of a page of rows: \<^verbatim>\<open>internal/model/BuildIndexQuery.go\<close>. The result is \<open>None\<close> when
  an expansion of aliases or a walk over a preset does not return.
\<close>

section \<open>Simple columns\<close>

text \<open>\<^verbatim>\<open>strings.LastIndex(s, sub)\<close>.\<close>

definition last_index :: "string \<Rightarrow> string \<Rightarrow> nat option" where
  "last_index sub s = map_option (\<lambda>i. length s - i - length sub) (str_index (rev sub) (rev s))"

text \<open>The expression without a trailing \<^verbatim>\<open>AS alias\<close>.\<close>

definition strip_as :: "string \<Rightarrow> string" where
  "strip_as e =
     (case last_index '' as '' (to_lower e) of
        None \<Rightarrow> e
      | Some i \<Rightarrow> if i > 0 then trim_space (take i e) else e)"

definition isSimpleColumnExpr :: "string \<Rightarrow> bool" where
  "isSimpleColumnExpr expr =
     (let e0 = trim_space expr
      in if e0 = [] then False
         else (let e = strip_as e0
               in if list_ex (\<lambda>c. c \<in> set '' ()+'') e then False
                  else (case str_index ''.'' e of
                          None \<Rightarrow> False
                        | Some dot \<Rightarrow> \<not> (dot = 0 \<or> int dot \<ge> int (length e) - 1))))"

definition baseColumnExpr :: "string \<Rightarrow> string" where
  "baseColumnExpr expr = (let e = trim_space expr in if e = [] then e else strip_as e)"

section \<open>Columns and groups\<close>

text \<open>The columns of computable fields that a common table expression has taken over.\<close>

definition override_by_alias :: "data_preset \<Rightarrow> (string, string) gomap \<Rightarrow> (string, string) gomap" where
  "override_by_alias preset override =
     fold (\<lambda>f m. if FType f \<noteq> ''computable'' then m
                 else (case map_of override (FSource f) of
                         None \<Rightarrow> m
                       | Some expr \<Rightarrow>
                           AList.update (field_name f) (expr @ '' AS '' @ quoteIdentifier (field_name f)) m))
       (Fields preset) []"

definition column_exprs :: "data_preset \<Rightarrow> (string, string) gomap \<Rightarrow> select_column list \<Rightarrow> string list" where
  "column_exprs preset override cols =
     map (\<lambda>c. case map_of (override_by_alias preset override) (Key c) of Some e \<Rightarrow> e | None \<Rightarrow> Expr c) cols"

text \<open>The columns of \<^verbatim>\<open>has_many\<close> relations that computable expressions mention.\<close>

definition has_many_aliases :: "registry \<Rightarrow> model \<Rightarrow> alias_map \<Rightarrow> string set" where
  "has_many_aliases reg m am = set (map snd (filter (\<lambda>(path, a). isHasManyPath reg m path) (PathToAlias am)))"

definition group_has_many ::
  "registry \<Rightarrow> model \<Rightarrow> alias_map \<Rightarrow> string list \<Rightarrow> string list \<Rightarrow> string list" where
  "group_has_many reg m am compExprs groups =
     fold append_once
       (concat (map (\<lambda>e. extractQualifiedColumns e (has_many_aliases reg m am)) compExprs)) groups"

definition index_groups ::
  "registry \<Rightarrow> model \<Rightarrow> alias_map \<Rightarrow> data_preset \<Rightarrow> gofilters \<Rightarrow> string list \<Rightarrow> (string, string) gomap \<Rightarrow>
   bool \<Rightarrow> string list \<Rightarrow> string list" where
  "index_groups reg m am preset filters sorts override hasDistinct colExprs =
     (if \<not> hasDistinct then []
      else (let simple = map baseColumnExpr (filter isSimpleColumnExpr colExprs)
            in if override = []
               then group_has_many reg m am
                      (collectComputableExprsForRequest reg m (Some preset) filters sorts (Some am)) simple
               else simple))"

section \<open>ORDER BY\<close>

text \<open>
  The state of the loop over the sorts: column expressions, the normalised ones among them,
  grouping columns, order expressions.
\<close>

record order_state =
  OCols :: "string list"
  OSeen :: "string list"
  OGroups :: "string list"
  OOrders :: "string list"

definition normalizeExpr :: "string \<Rightarrow> string" where
  "normalizeExpr s = to_lower (trim_space s)"

definition add_select :: "bool \<Rightarrow> string \<Rightarrow> order_state \<Rightarrow> order_state" where
  "add_select hasDistinct expr st =
     (if \<not> hasDistinct \<or> expr = [] then st
      else if normalizeExpr expr \<in> set (OSeen st) then st
      else st\<lparr>OCols := OCols st @ [expr], OSeen := OSeen st @ [normalizeExpr expr],
              OGroups := (if isSimpleColumnExpr expr then append_once (baseColumnExpr expr) (OGroups st)
                          else OGroups st)\<rparr>)"

definition order_text :: "string \<Rightarrow> string \<Rightarrow> string" where
  "order_text expr dir = (if dir \<noteq> [] then expr @ '' '' @ dir else expr)"

definition add_order :: "bool \<Rightarrow> string \<Rightarrow> string \<Rightarrow> order_state \<Rightarrow> order_state" where
  "add_order hasDistinct expr dir st =
     add_select hasDistinct expr (st\<lparr>OOrders := OOrders st @ [order_text expr dir]\<rparr>)"

text \<open>
  The expression of a sort: an overridden one, that of the first field of the preset with this
  name, or that of the path. The last resort is for a path the resolver does not know.
\<close>

definition preset_order ::
  "registry \<Rightarrow> model \<Rightarrow> alias_map \<Rightarrow> data_preset \<Rightarrow> string \<Rightarrow> string option" where
  "preset_order reg m am preset fieldPath =
     find (\<lambda>e. e \<noteq> [])
       (map (\<lambda>f. trim_space (fst (resolveFieldExpression reg m (Some am) (FSource f))))
         (filter (\<lambda>f. field_name f = fieldPath \<and> snd (resolveFieldExpression reg m (Some am) (FSource f)))
            (Fields preset)))"

definition sort_expr ::
  "registry \<Rightarrow> model \<Rightarrow> alias_map \<Rightarrow> data_preset \<Rightarrow> (string, string) gomap \<Rightarrow> string \<Rightarrow> string option" where
  "sort_expr reg m am preset override fieldPath =
     (case map_of override fieldPath of
        Some expr \<Rightarrow> Some expr
      | None \<Rightarrow>
          (case preset_order reg m am preset fieldPath of
             Some expr \<Rightarrow> Some expr
           | None \<Rightarrow>
               (case resolveFieldExpression reg m (Some am) fieldPath of
                  (expr, ok) \<Rightarrow>
                    if ok then Some (trim_space expr)
                    else (case last_split (CHR ''.'') fieldPath of
                            None \<Rightarrow> None
                          | Some (presetPath, fieldName) \<Rightarrow>
                              (case map_of (PathToAlias am) presetPath of
                                 Some a \<Rightarrow> Some (a @ ''.'' @ fieldName)
                               | None \<Rightarrow> Some (presetPath @ ''.'' @ fieldName))))))"

definition sort_dir :: "string \<Rightarrow> string" where
  "sort_dir s = (case split2 '' '' s of (p, None) \<Rightarrow> [] | (p, Some d) \<Rightarrow> trim_space d)"

definition sort_step ::
  "registry \<Rightarrow> model \<Rightarrow> alias_map \<Rightarrow> data_preset \<Rightarrow> (string, string) gomap \<Rightarrow> bool \<Rightarrow> string \<Rightarrow>
   order_state \<Rightarrow> order_state option" where
  "sort_step reg m am preset override hasDistinct s st =
     map_option (\<lambda>fieldPath.
         case sort_expr reg m am preset override fieldPath of
           None \<Rightarrow> st
         | Some expr \<Rightarrow> add_order hasDistinct expr (sort_dir s) st)
       (expandPathWithAliases reg m (fst (split2 '' '' s)))"

fun fold_opt :: "('x \<Rightarrow> 's \<Rightarrow> 's option) \<Rightarrow> 'x list \<Rightarrow> 's \<Rightarrow> 's option" where
  "fold_opt f [] s = Some s"
| "fold_opt f (x # xs) s = (case f x s of None \<Rightarrow> None | Some s' \<Rightarrow> fold_opt f xs s')"

section \<open>The statement\<close>

datatype query_error =
    PresetIsNil string
  | JoinFailed join_error
  | CteFailed string

text \<open>The joins of a request and what common table expressions make of them.\<close>

definition request_joins ::
  "to_sql \<Rightarrow> registry \<Rightarrow> model \<Rightarrow> alias_map \<Rightarrow> data_preset option \<Rightarrow> gofilters \<Rightarrow> string list \<Rightarrow>
   string list \<Rightarrow> string list \<Rightarrow> nat list \<Rightarrow>
   (query_error + clauses \<times> join_spec list \<times> cte_spec list \<times> (string, string) gomap) option" where
  "request_joins toSql reg m am preset filters sorts sortFields presetPaths rnd =
     map_option (\<lambda>r. case r of
         Inl e \<Rightarrow> Inl (JoinFailed e)
       | Inr joins \<Rightarrow>
           (case buildHasManyCTEs reg m preset filters sorts am joins of
              (ctes, override, skip) \<Rightarrow>
                (case add_ctes toSql m ctes no_clauses of
                   Inl e \<Rightarrow> Inl (CteFailed e)
                 | Inr c \<Rightarrow>
                     (let rest = filterJoinSpecs joins skip
                      in Inr (add_join_specs rest c, rest, ctes, override)))))
       (DetectJoins reg m am (PathsFromFilters filters) sortFields presetPaths rnd)"

definition group_clause :: "bool \<Rightarrow> string list \<Rightarrow> clauses \<Rightarrow> clauses" where
  "group_clause hasDistinct groups c =
     (if hasDistinct \<and> groups \<noteq> [] then c\<lparr>GroupBys := GroupBys c @ groups\<rparr>
      else if hasDistinct then c\<lparr>IsDistinct := True\<rparr>
      else c)"

definition BuildIndexQuery ::
  "to_sql \<Rightarrow> registry \<Rightarrow> model \<Rightarrow> alias_map \<Rightarrow> gofilters \<Rightarrow> string list \<Rightarrow> data_preset option \<Rightarrow>
   64 word \<Rightarrow> 64 word \<Rightarrow> nat list \<Rightarrow> (query_error + query) option" where
  "BuildIndexQuery toSql reg m am filters sorts preset0 offset limit rnd =
     (case preset0 of
        None \<Rightarrow> Some (Inl (PresetIsNil (Table m)))
      | Some preset \<Rightarrow>
          Option.bind (ScanPresetFields reg m preset []) (\<lambda>presetPaths.
          Option.bind (request_joins toSql reg m am preset0 filters sorts
              (map (\<lambda>s. fst (split2 '' '' s)) sorts)
              (presetPaths @ collectComputablePathsForRequest m preset0 filters sorts) rnd) (\<lambda>r.
            case r of
              Inl e \<Rightarrow> Some (Inl e)
            | Inr (c, joins, ctes, override) \<Rightarrow>
                Option.bind (ScanColumns reg m preset0 (Some am) []) (\<lambda>selectCols.
                  (let hasDistinct = list_ex JDistinct joins;
                       colExprs = column_exprs preset override selectCols;
                       groups = index_groups reg m am preset filters sorts override hasDistinct colExprs
                   in case buildWhereClause reg m am preset0 filters override of
                        (w, h) \<Rightarrow>
                          map_option (\<lambda>st.
                              Inr (Query (main_from m)
                                (paginate offset limit
                                  ((group_clause hasDistinct (OGroups st)
                                     ((add_having h (add_where w c))\<lparr>Columns := OCols st\<rparr>))\<lparr>OrderBys := OOrders st\<rparr>))))
                            (fold_opt (sort_step reg m am preset override hasDistinct) sorts
                               \<lparr>OCols = colExprs, OSeen = map normalizeExpr colExprs,
                                OGroups = groups, OOrders = []\<rparr>))))))"

section \<open>The clauses fit together\<close>

lemma append_once_set [simp]: "set (append_once x xs) = insert x (set xs)"
  by (auto simp: append_once_def)

lemma fold_append_once_set: "set (fold append_once ys xs) = set xs \<union> set ys"
  by (induction ys arbitrary: xs) auto

text \<open>
  The contract of the loop over the sorts. In a statement without duplicates, every order
  expression is selected and every simple column that is selected is grouped.
\<close>

definition selected :: "string list \<Rightarrow> string \<Rightarrow> bool" where
  "selected cols ot =
     (\<exists>e dir. ot = order_text e dir \<and> (e = [] \<or> normalizeExpr e \<in> normalizeExpr ` set cols))"

lemma selected_mono: "selected cols ot \<Longrightarrow> set cols \<subseteq> set cols' \<Longrightarrow> selected cols' ot"
  unfolding selected_def by blast

lemma selected_order: "e = [] \<or> normalizeExpr e \<in> normalizeExpr ` set cols \<Longrightarrow> selected cols (order_text e dir)"
  unfolding selected_def by blast

definition order_ok :: "bool \<Rightarrow> order_state \<Rightarrow> bool" where
  "order_ok hasDistinct st =
     (set (OSeen st) = normalizeExpr ` set (OCols st) \<and>
      (hasDistinct \<longrightarrow>
        (\<forall>e \<in> set (OCols st). isSimpleColumnExpr e \<longrightarrow> baseColumnExpr e \<in> set (OGroups st)) \<and>
        (\<forall>ot \<in> set (OOrders st). selected (OCols st) ot)))"

lemma add_order_ok:
  assumes "order_ok hasDistinct st"
  shows "order_ok hasDistinct (add_order hasDistinct expr dir st)"
proof (cases "hasDistinct \<and> expr \<noteq> [] \<and> normalizeExpr expr \<notin> set (OSeen st)")
  case True
  then have "add_order hasDistinct expr dir st = st\<lparr>OOrders := OOrders st @ [order_text expr dir],
      OCols := OCols st @ [expr], OSeen := OSeen st @ [normalizeExpr expr],
      OGroups := (if isSimpleColumnExpr expr then append_once (baseColumnExpr expr) (OGroups st) else OGroups st)\<rparr>"
    by (simp add: add_order_def add_select_def)
  then show ?thesis using assms
    by (auto simp: order_ok_def intro!: selected_order intro: selected_mono)
next
  case False
  then have "add_order hasDistinct expr dir st = st\<lparr>OOrders := OOrders st @ [order_text expr dir]\<rparr>"
    by (auto simp: add_order_def add_select_def)
  then show ?thesis using assms False by (auto simp: order_ok_def intro!: selected_order)
qed

lemma sorts_ok:
  "fold_opt (sort_step reg m am preset ov dst) sorts st = Some st' \<Longrightarrow> order_ok dst st \<Longrightarrow> order_ok dst st'"
proof (induction sorts arbitrary: st)
  case (Cons s sorts)
  obtain st1 where "sort_step reg m am preset ov dst s st = Some st1"
    "fold_opt (sort_step reg m am preset ov dst) sorts st1 = Some st'"
    using Cons.prems(1) by (auto split: option.splits)
  moreover from this(1) have "order_ok dst st1"
    using Cons.prems(2) add_order_ok by (auto simp: sort_step_def split: option.splits)
  ultimately show ?case using Cons.IH by blast
qed simp

lemma index_groups_simple:
  "e \<in> set colExprs \<Longrightarrow> isSimpleColumnExpr e \<Longrightarrow>
   baseColumnExpr e \<in> set (index_groups reg m am preset filters sorts ov True colExprs)"
  by (auto simp: index_groups_def Let_def group_has_many_def fold_append_once_set)

text \<open>What the joins and expressions leave untouched.\<close>

lemma add_left_join_simps [simp]:
  "GroupBys (add_left_join j c) = GroupBys c" "IsDistinct (add_left_join j c) = IsDistinct c"
  "Wheres (add_left_join j c) = Wheres c" "Havings (add_left_join j c) = Havings c"
  "LeftJoins (add_left_join j c) = LeftJoins c @ [j]" "Limit (add_left_join j c) = Limit c"
  "Offset (add_left_join j c) = Offset c" "Columns (add_left_join j c) = Columns c"
  by (simp_all add: add_left_join_def)

lemma fold_left_join_simps [simp]:
  "GroupBys (fold (\<lambda>x. add_left_join (f x)) xs c) = GroupBys c"
  "IsDistinct (fold (\<lambda>x. add_left_join (f x)) xs c) = IsDistinct c"
  "Wheres (fold (\<lambda>x. add_left_join (f x)) xs c) = Wheres c"
  "Havings (fold (\<lambda>x. add_left_join (f x)) xs c) = Havings c"
  "LeftJoins (fold (\<lambda>x. add_left_join (f x)) xs c) = LeftJoins c @ map f xs"
  "Limit (fold (\<lambda>x. add_left_join (f x)) xs c) = Limit c"
  "Offset (fold (\<lambda>x. add_left_join (f x)) xs c) = Offset c"
  "Columns (fold (\<lambda>x. add_left_join (f x)) xs c) = Columns c"
  by (induction xs arbitrary: c) simp_all

definition only_joins :: "clauses \<Rightarrow> bool" where
  "only_joins c = (GroupBys c = [] \<and> \<not> IsDistinct c \<and> Wheres c = [] \<and> Havings c = [] \<and>
     Limit c = None \<and> Offset c = None \<and> Columns c = [])"

lemma add_ctes_only_joins: "add_ctes toSql m ctes no_clauses = Inr c \<Longrightarrow> only_joins c"
  by (auto simp: add_ctes_def only_joins_def no_clauses_def split: if_splits sum.splits)

lemma request_joins_only:
  assumes "request_joins toSql reg m am preset filters sorts sf pp rnd = Some (Inr (c, joins, ctes, ov))"
  shows "only_joins c"
proof -
  obtain r where r: "DetectJoins reg m am (PathsFromFilters filters) sf pp rnd = Some r"
    using assms by (auto simp: request_joins_def)
  obtain js where js: "r = Inr js" using assms by (cases r) (auto simp: request_joins_def r)
  obtain ctes0 ov0 skip where b: "buildHasManyCTEs reg m preset filters sorts am js = (ctes0, ov0, skip)"
    by (cases "buildHasManyCTEs reg m preset filters sorts am js")
  obtain c0 where c0: "add_ctes toSql m ctes0 no_clauses = Inr c0"
    using assms by (cases "add_ctes toSql m ctes0 no_clauses") (auto simp: request_joins_def r js b)
  then have "c = add_join_specs (filterJoinSpecs js skip) c0"
    using assms by (auto simp: request_joins_def r js b Let_def)
  then show ?thesis using add_ctes_only_joins [OF c0] by (simp add: only_joins_def add_join_specs_def)
qed

lemma BuildIndexQuery_Inr:
  assumes "BuildIndexQuery toSql reg m am filters sorts preset0 offset limit rnd = Some (Inr q)"
  shows "\<exists>preset presetPaths c joins ctes ov cols st w h.
    preset0 = Some preset \<and> ScanPresetFields reg m preset [] = Some presetPaths \<and>
    request_joins toSql reg m am preset0 filters sorts (map (\<lambda>s. fst (split2 '' '' s)) sorts)
      (presetPaths @ collectComputablePathsForRequest m preset0 filters sorts) rnd = Some (Inr (c, joins, ctes, ov)) \<and>
    ScanColumns reg m preset0 (Some am) [] = Some cols \<and>
    buildWhereClause reg m am preset0 filters ov = (w, h) \<and>
    fold_opt (sort_step reg m am preset ov (list_ex JDistinct joins)) sorts
      \<lparr>OCols = column_exprs preset ov cols, OSeen = map normalizeExpr (column_exprs preset ov cols),
       OGroups = index_groups reg m am preset filters sorts ov (list_ex JDistinct joins) (column_exprs preset ov cols),
       OOrders = []\<rparr> = Some st \<and>
    q = Query (main_from m) (paginate offset limit
          ((group_clause (list_ex JDistinct joins) (OGroups st)
             ((add_having h (add_where w c))\<lparr>Columns := OCols st\<rparr>))\<lparr>OrderBys := OOrders st\<rparr>))"
proof -
  obtain preset where p: "preset0 = Some preset"
    using assms by (auto simp: BuildIndexQuery_def split: option.splits)
  obtain pp r where pp: "ScanPresetFields reg m preset [] = Some pp"
    and r: "request_joins toSql reg m am preset0 filters sorts (map (\<lambda>s. fst (split2 '' '' s)) sorts)
      (pp @ collectComputablePathsForRequest m preset0 filters sorts) rnd = Some r"
    using assms by (auto simp: BuildIndexQuery_def p bind_eq_Some_conv)
  obtain t where t: "r = Inr t" using assms by (cases r) (auto simp: BuildIndexQuery_def p pp r [unfolded p])
  obtain c joins ctes ov where j: "t = (c, joins, ctes, ov)" by (cases t)
  obtain cols where cols: "ScanColumns reg m preset0 (Some am) [] = Some cols"
    using assms by (auto simp: BuildIndexQuery_def p pp r [unfolded p] t j bind_eq_Some_conv)
  obtain w h where w: "buildWhereClause reg m am preset0 filters ov = (w, h)"
    by (cases "buildWhereClause reg m am preset0 filters ov")
  show ?thesis
    using assms
    by (auto simp: BuildIndexQuery_def p pp r [unfolded p] t j cols [unfolded p] w [unfolded p] Let_def)
qed

section \<open>Properties\<close>

text \<open>
  C27. The clauses of the page statement fit together. When duplicates are removed, by \<^verbatim>\<open>GROUP BY\<close>
  or \<^verbatim>\<open>DISTINCT\<close>, every \<^verbatim>\<open>ORDER BY\<close> expression is selected, as SQL demands, and every simple
  column that is selected is grouped by; when they are not, there is neither. A limit or offset
  is set exactly when it is positive (\<^verbatim>\<open>BuildIndexQuery\<close>).
\<close>
theorem index_statement_fits:
  assumes "BuildIndexQuery toSql reg m am filters sorts preset offset limit rnd = Some (Inr (Query src c))"
  shows "(IsDistinct c \<or> GroupBys c \<noteq> [] \<longrightarrow>
      (\<forall>ot \<in> set (OrderBys c). selected (Columns c) ot) \<and>
      (\<forall>e \<in> set (Columns c). isSimpleColumnExpr e \<longrightarrow> baseColumnExpr e \<in> set (GroupBys c))) \<and>
    \<not> (IsDistinct c \<and> GroupBys c \<noteq> []) \<and>
    Limit c = (if limit > 0 then Some limit else None) \<and> Offset c = (if offset > 0 then Some offset else None)"
proof -
  obtain p pp c0 joins ctes ov cols st w h where
    r: "request_joins toSql reg m am preset filters sorts (map (\<lambda>s. fst (split2 '' '' s)) sorts)
      (pp @ collectComputablePathsForRequest m preset filters sorts) rnd = Some (Inr (c0, joins, ctes, ov))"
    and st: "fold_opt (sort_step reg m am p ov (list_ex JDistinct joins)) sorts
      \<lparr>OCols = column_exprs p ov cols, OSeen = map normalizeExpr (column_exprs p ov cols),
       OGroups = index_groups reg m am p filters sorts ov (list_ex JDistinct joins) (column_exprs p ov cols),
       OOrders = []\<rparr> = Some st"
    and q: "Query src c = Query (main_from m) (paginate offset limit
          ((group_clause (list_ex JDistinct joins) (OGroups st)
             ((add_having h (add_where w c0))\<lparr>Columns := OCols st\<rparr>))\<lparr>OrderBys := OOrders st\<rparr>))"
    using BuildIndexQuery_Inr [OF assms] by blast
  define dst where "dst = list_ex JDistinct joins"
  have "order_ok dst st"
    by (rule sorts_ok [OF st [folded dst_def]])
       (cases dst; simp add: order_ok_def index_groups_simple)
  moreover have c: "Columns c = OCols st" "OrderBys c = OOrders st" "GroupBys c = (if dst then OGroups st else [])"
    "IsDistinct c = (dst \<and> OGroups st = [])" "Limit c = (if limit > 0 then Some limit else None)"
    "Offset c = (if offset > 0 then Some offset else None)"
    using q request_joins_only [OF r]
    by (auto simp: dst_def paginate_def group_clause_def add_having_def add_where_def only_joins_def)
  ultimately show ?thesis by (simp only: c order_ok_def) auto
qed

definition demo_index_preset :: data_preset where
  "demo_index_preset = empty_preset\<lparr>PName := ''card'', Fields := [empty_field\<lparr>FSource := ''id'', FType := ''int'', FAlias := ''id''\<rparr>]\<rparr>"

definition demo_index :: "(query_error + query) option" where
  "demo_index = BuildIndexQuery (\<lambda>q. Inr ([], [])) demo_joins_registry demo_joins_model demo_joins_map
     [] [''orgs.city.name DESC''] (Some demo_index_preset) 0 20 [0, 1, 2]"

lemma demo_index_run:
  "demo_index = Some (Inr (Query (Tbl ''people AS main'')
     \<lparr>Prefixes = [], IsDistinct = False, Columns = [''main.id'', ''t1.name''],
      LeftJoins = [''jobs AS bcf ON main.id = bcf.person_id'', ''orgs AS t0 ON bcf.org_id = t0.id'',
                   ''cities AS t1 ON t0.city_id = t1.id''],
      Wheres = [], GroupBys = [''main.id'', ''t1.name''],
      Havings = [], OrderBys = [''t1.name DESC''], Limit = Some 20, Offset = None\<rparr>))"
  by code_simp

theorem index_statement_fits_witness:
  "\<exists>src c. demo_index = Some (Inr (Query src c)) \<and> GroupBys c \<noteq> [] \<and> OrderBys c = [''t1.name DESC''] \<and>
     (\<forall>ot \<in> set (OrderBys c). selected (Columns c) ot) \<and> Limit c = Some 20"
proof -
  from index_statement_fits [OF demo_index_run [unfolded demo_index_def]]
  have sel: "selected [''main.id'', ''t1.name''] ''t1.name DESC''" by simp
  show ?thesis by (intro exI conjI, rule demo_index_run) (simp_all add: sel)
qed

end
