(* ===== verification/Count_Queries.thy ===== *)
theory Count_Queries
  imports Index_Query
begin

text \<open>
  The other statements over the rows of a request: \<^verbatim>\<open>BuildCountQuery.go\<close>, \<^verbatim>\<open>distinct.go\<close> and
  \<^verbatim>\<open>aggregates.go\<close> of \<^verbatim>\<open>internal/model\<close>. Errors are a sum type, and \<open>None\<close> is a run that does not
  return, as in the theories before.
\<close>

section \<open>Counting\<close>

definition count_groups ::
  "registry \<Rightarrow> model \<Rightarrow> alias_map \<Rightarrow> data_preset option \<Rightarrow> gofilters \<Rightarrow> (string, string) gomap \<Rightarrow> string list" where
  "count_groups reg m am preset filters override =
     (if override = []
      then group_has_many reg m am
             (collectComputableExprsForRequest reg m preset filters [] (Some am)) [''main.id'']
      else [''main.id''])"

text \<open>
  \<^verbatim>\<open>BuildCountQuery\<close>. With a \<^verbatim>\<open>HAVING\<close> part the code builds the prefix and the joins a second time
  for the inner statement; they are those of the first.
\<close>

definition BuildCountQuery ::
  "to_sql \<Rightarrow> registry \<Rightarrow> model \<Rightarrow> alias_map \<Rightarrow> data_preset option \<Rightarrow> gofilters \<Rightarrow> nat list \<Rightarrow>
   (query_error + query) option" where
  "BuildCountQuery toSql reg m am preset filters0 rnd =
     Option.bind (NormalizeFiltersWithAliases reg m filters0) (\<lambda>filters.
       map_option (\<lambda>r. case r of
           Inl e \<Rightarrow> Inl e
         | Inr (c, joins, ctes, override) \<Rightarrow>
             (let hasDistinct = list_ex JDistinct joins;
                  column = (if hasDistinct then ''COUNT(DISTINCT main.id)'' else ''COUNT(*)'')
              in case buildWhereClause reg m am preset filters override of
                   (w, None) \<Rightarrow> Inr (Query (main_from m) (add_where w (add_column column c)))
                 | (w, Some h) \<Rightarrow>
                     (let inner = Query (main_from m)
                            (add_having (Some h)
                               ((add_column ''main.id'' (add_where w c))\<lparr>
                                  GroupBys := count_groups reg m am preset filters override\<rparr>))
                      in Inr (Query (Sub inner ''sub'') (add_column ''COUNT(*)'' no_clauses)))))
         (request_joins toSql reg m am preset filters [] []
            (collectComputablePathsForRequest m preset filters []) rnd))"

section \<open>Distinct values\<close>

datatype distinct_error =
    FieldRequired
  | InvalidField string
  | DistinctRelationNotFound string
  | TraversesHasMany string string
  | CouldNotResolve string

text \<open>
  The walk over the segments of the field; \<open>pre\<close> are those passed. Each must be an identifier,
  and each but the last a relation to one row.
\<close>

fun distinct_walk :: "registry \<Rightarrow> model \<Rightarrow> string \<Rightarrow> string list \<Rightarrow> string list \<Rightarrow> distinct_error + unit" where
  "distinct_walk reg cur field pre [] = Inr ()"
| "distinct_walk reg cur field pre (seg # segs) =
     (if \<not> is_ident seg \<or> isSQLKeyword seg then Inl (InvalidField field)
      else if segs = [] then Inr ()
      else (case map_of (Relations cur) seg of
              None \<Rightarrow> Inl (DistinctRelationNotFound (join_str ''.'' (pre @ [seg])))
            | Some rel \<Rightarrow>
                (case deref reg (ModelRef rel) of
                   None \<Rightarrow> Inl (DistinctRelationNotFound (join_str ''.'' (pre @ [seg])))
                 | Some nxt \<Rightarrow>
                     if Polymorphic rel then Inl (DistinctRelationNotFound (join_str ''.'' (pre @ [seg])))
                     else if RType rel = ''has_many''
                       then Inl (TraversesHasMany field (join_str ''.'' (pre @ [seg])))
                     else distinct_walk reg nxt field (pre @ [seg]) segs)))"

definition ResolveDistinctField ::
  "registry \<Rightarrow> model \<Rightarrow> alias_map \<Rightarrow> string \<Rightarrow> (distinct_error + string \<times> string) option" where
  "ResolveDistinctField reg m am field0 =
     map_option (\<lambda>expanded.
         let field = trim_space expanded
         in if field = [] then Inl FieldRequired
            else (case distinct_walk reg m field [] (split_char (CHR ''.'') field) of
                    Inl e \<Rightarrow> Inl e
                  | Inr u \<Rightarrow>
                      (case resolveFieldExpression reg m (Some am) field of
                         (expr, ok) \<Rightarrow>
                           if \<not> ok \<or> is_blank expr \<or> isAggregateExpr expr then Inl (CouldNotResolve field)
                           else Inr (field, expr))))
       (ExpandAliasPath reg m field0)"

definition BuildDistinctValuesQuery ::
  "to_sql \<Rightarrow> registry \<Rightarrow> model \<Rightarrow> alias_map \<Rightarrow> gofilters \<Rightarrow> string \<Rightarrow> 64 word \<Rightarrow> 64 word \<Rightarrow> nat list \<Rightarrow>
   ((distinct_error + query_error) + query) option" where
  "BuildDistinctValuesQuery toSql reg m am filters0 field0 offset limit rnd =
     Option.bind (NormalizeFiltersWithAliases reg m filters0) (\<lambda>filters.
     Option.bind (ResolveDistinctField reg m am field0) (\<lambda>res.
       case res of
         Inl e \<Rightarrow> Some (Inl (Inl e))
       | Inr (field, expr) \<Rightarrow>
           map_option (\<lambda>r. case r of
               Inl e \<Rightarrow> Inl (Inr e)
             | Inr (c, joins, ctes, override) \<Rightarrow>
                 (case buildWhereClause reg m am None filters override of
                    (w, having) \<Rightarrow>
                      (let base = add_where w c;
                           page = (\<lambda>cl. paginate offset limit (cl\<lparr>OrderBys := [''value ASC'']\<rparr>))
                       in case having of
                            None \<Rightarrow> Inr (Query (main_from m)
                              (page (add_column (''DISTINCT '' @ expr @ '' AS value'') base)))
                          | Some h \<Rightarrow>
                              (let inner = Query (main_from m)
                                     (add_having (Some h)
                                        ((add_column (expr @ '' AS value'') base)\<lparr>
                                           GroupBys := map (\<lambda>k. ''main.'' @ k) (GetPrimaryKeys m) @ [expr]\<rparr>))
                               in Inr (Query (Sub inner ''distinct_roots'')
                                    (page (add_column ''DISTINCT distinct_roots.value AS value'' no_clauses)))))))
             (request_joins toSql reg m am None filters [field @ '' ASC''] [field]
                (collectComputablePathsForRequest m None filters [field @ '' ASC'']) rnd)))"

definition BuildDistinctCountQuery ::
  "to_sql \<Rightarrow> registry \<Rightarrow> model \<Rightarrow> alias_map \<Rightarrow> gofilters \<Rightarrow> string \<Rightarrow> nat list \<Rightarrow>
   ((distinct_error + query_error) + query) option" where
  "BuildDistinctCountQuery toSql reg m am filters field rnd =
     map_option (\<lambda>r. case r of
         Inl e \<Rightarrow> Inl e
       | Inr values \<Rightarrow> Inr (Query (Sub values ''distinct_values'') (add_column ''COUNT(*)'' no_clauses)))
       (BuildDistinctValuesQuery toSql reg m am filters field 0 0 rnd)"

section \<open>Aggregates\<close>

record aggregate_spec =
  GName :: string
  GFn :: string
  GField :: string

record resolved_aggregate =
  RName :: string
  RFn :: string
  RField :: string
  RAggType :: string
  RExpr :: string
  RAlias :: string

definition normalizeAggregateFn :: "string \<Rightarrow> string" where
  "normalizeAggregateFn fn = to_lower (trim_space fn)"

datatype aggregate_error =
    NameRequired
  | DuplicateName string
  | AggregateFieldRequired string
  | UnsupportedFunction string string
  | NotAggregatable string string
  | BadFieldPath string distinct_error
  | FunctionNotAllowed string string string
  | Unresolved string string

definition aggregateFunctionAllowed :: "aggregatable \<Rightarrow> string \<Rightarrow> bool" where
  "aggregateFunctionAllowed cfg fn = list_ex (\<lambda>allowed. normalizeAggregateFn allowed = fn) (AFunctions cfg)"

fun aggregate_walk :: "registry \<Rightarrow> model \<Rightarrow> string \<Rightarrow> string list \<Rightarrow> string list \<Rightarrow> distinct_error + unit" where
  "aggregate_walk reg cur field pre [] = Inr ()"
| "aggregate_walk reg cur field pre (seg # segs) =
     (if segs = [] then Inr ()
      else (case map_of (Relations cur) seg of
              None \<Rightarrow> Inl (DistinctRelationNotFound (join_str ''.'' (pre @ [seg])))
            | Some rel \<Rightarrow>
                (case deref reg (ModelRef rel) of
                   None \<Rightarrow> Inl (DistinctRelationNotFound (join_str ''.'' (pre @ [seg])))
                 | Some nxt \<Rightarrow>
                     if RType rel = ''has_many''
                       then Inl (TraversesHasMany field (join_str ''.'' (pre @ [seg])))
                     else aggregate_walk reg nxt field (pre @ [seg]) segs)))"

definition validateAggregateFieldPath :: "registry \<Rightarrow> model \<Rightarrow> string \<Rightarrow> distinct_error + unit" where
  "validateAggregateFieldPath reg m field = aggregate_walk reg m field [] (split_char (CHR ''.'') field)"

text \<open>One specification, at its position in the list; \<open>seen\<close> are the names before it.\<close>

definition resolve_aggregate ::
  "registry \<Rightarrow> model \<Rightarrow> alias_map \<Rightarrow> nat \<Rightarrow> string list \<Rightarrow> aggregate_spec \<Rightarrow>
   (aggregate_error + resolved_aggregate) option" where
  "resolve_aggregate reg m am i seen spec =
     (let name = trim_space (GName spec)
      in if name = [] then Some (Inl NameRequired)
         else if name \<in> set seen then Some (Inl (DuplicateName name))
         else map_option (\<lambda>expanded.
           let field = trim_space expanded; fn = normalizeAggregateFn (GFn spec)
           in if field = [] then Inl (AggregateFieldRequired name)
              else if fn \<notin> {''sum'', ''avg'', ''min'', ''max''} then Inl (UnsupportedFunction name (GFn spec))
              else (case map_of (Aggregatable m) field of
                 None \<Rightarrow> Inl (NotAggregatable name field)
               | Some cfg \<Rightarrow>
                   (case validateAggregateFieldPath reg m field of
                      Inl e \<Rightarrow> Inl (BadFieldPath name e)
                    | Inr u \<Rightarrow>
                        if \<not> aggregateFunctionAllowed cfg fn then Inl (FunctionNotAllowed name fn field)
                        else (case resolveFieldExpression reg m (Some am) field of
                           (expr, ok) \<Rightarrow>
                             if \<not> ok \<or> is_blank expr then Inl (Unresolved name field)
                             else Inr \<lparr>RName = name, RFn = fn, RField = field,
                                       RAggType = trim_space (AType cfg), RExpr = expr,
                                       RAlias = ''__agg_'' @ show_nat i\<rparr>))))
           (ExpandAliasPath reg m (GField spec)))"

fun resolve_aggregates ::
  "registry \<Rightarrow> model \<Rightarrow> alias_map \<Rightarrow> nat \<Rightarrow> string list \<Rightarrow> aggregate_spec list \<Rightarrow>
   (aggregate_error + resolved_aggregate list) option" where
  "resolve_aggregates reg m am i seen [] = Some (Inr [])"
| "resolve_aggregates reg m am i seen (spec # specs) =
     (case resolve_aggregate reg m am i seen spec of
        None \<Rightarrow> None
      | Some (Inl e) \<Rightarrow> Some (Inl e)
      | Some (Inr a) \<Rightarrow>
          map_option (\<lambda>r. case r of Inl e \<Rightarrow> Inl e | Inr as \<Rightarrow> Inr (a # as))
            (resolve_aggregates reg m am (Suc i) (RName a # seen) specs))"

definition ValidateAndResolveAggregates ::
  "registry \<Rightarrow> model \<Rightarrow> alias_map \<Rightarrow> aggregate_spec list \<Rightarrow>
   (aggregate_error + resolved_aggregate list) option" where
  "ValidateAndResolveAggregates reg m am aggregates = resolve_aggregates reg m am 0 [] aggregates"

text \<open>The relation paths that aggregates need, in order of insertion.\<close>

definition aggregate_paths :: "registry \<Rightarrow> model \<Rightarrow> string \<Rightarrow> string list" where
  "aggregate_paths reg m field =
     (let (basePath, fieldName) = (case last_split (CHR ''.'') field of None \<Rightarrow> ([], field) | Some p \<Rightarrow> p);
          cur = (case last_split (CHR ''.'') field of
                    None \<Rightarrow> Some m
                  | Some p \<Rightarrow> walk_relations reg m (split_char (CHR ''.'') basePath));
          comps = (case cur of
                     None \<Rightarrow> []
                   | Some t \<Rightarrow> (case map_of (Computable t) fieldName of
                       None \<Rightarrow> []
                     | Some cmp \<Rightarrow> extractPathsFromExpr (CSource cmp) @ extractPathsFromExpr (CWhere cmp)))
      in basePath # map (\<lambda>p. if basePath \<noteq> [] then basePath @ ''.'' @ p else p) comps)"

definition collectAggregatePaths :: "registry \<Rightarrow> model \<Rightarrow> aggregate_spec list \<Rightarrow> string list option" where
  "collectAggregatePaths reg m aggregates =
     map_option (\<lambda>flds. dedup_from [] (filter (\<lambda>p. p \<noteq> [])
         (map trim_space (concat (map (\<lambda>field0. let field = trim_space field0
            in if field = [] then [] else aggregate_paths reg m field) flds)))))
       (opt_map (\<lambda>spec. ExpandAliasPath reg m (GField spec)) aggregates)"

definition toAggregateSpecs :: "resolved_aggregate list \<Rightarrow> aggregate_spec list" where
  "toAggregateSpecs as = map (\<lambda>a. \<lparr>GName = RName a, GFn = RFn a, GField = RField a\<rparr>) as"

text \<open>
  The entries for the aggregates are added to the map that \<^verbatim>\<open>CreateAliasMap\<close> returns, in place;
  the argument is that map.
\<close>

definition alias_map_for_aggregates ::
  "registry \<Rightarrow> model \<Rightarrow> alias_map \<Rightarrow> aggregate_spec list \<Rightarrow> (alias_error + alias_map) option" where
  "alias_map_for_aggregates reg m am aggregates =
     Option.bind (collectAggregatePaths reg m aggregates) (\<lambda>paths.
       map_option (map_sum id fst)
         (ensure_all reg m (mergeAndSortPaths [paths]) (am, detectNextAliasIndex am)))"

definition outer_aggregates :: "resolved_aggregate list \<Rightarrow> clauses \<Rightarrow> clauses" where
  "outer_aggregates as c =
     fold (\<lambda>a. add_column (to_upper (RFn a) @ ''(sub.'' @ quoteIdentifier (RAlias a) @ '') AS '' @
                            quoteIdentifier (RAlias a))) as c"

definition aggregate_groups :: "resolved_aggregate list \<Rightarrow> string list" where
  "aggregate_groups as = ''main.id'' # map RExpr (filter (\<lambda>a. \<not> isAggregateExpr (RExpr a)) as)"

definition BuildCountAggregateQuery ::
  "to_sql \<Rightarrow> registry \<Rightarrow> model \<Rightarrow> alias_map \<Rightarrow> data_preset option \<Rightarrow> gofilters \<Rightarrow>
   resolved_aggregate list \<Rightarrow> nat list \<Rightarrow> (query_error + query) option" where
  "BuildCountAggregateQuery toSql reg m am preset filters0 aggregates rnd =
     Option.bind (NormalizeFiltersWithAliases reg m filters0) (\<lambda>filters.
     Option.bind (collectAggregatePaths reg m (toAggregateSpecs aggregates)) (\<lambda>aggPaths.
       let fieldPaths = concat (map (\<lambda>a. case last_split (CHR ''.'') (RField a) of
                                      None \<Rightarrow> [] | Some (p, c) \<Rightarrow> [p]) aggregates);
           compPaths = collectComputablePathsForRequest m preset filters [] @ aggPaths
       in map_option (\<lambda>r. case r of
           Inl e \<Rightarrow> Inl (JoinFailed e)
         | Inr joins \<Rightarrow>
             (case buildHasManyCTEs reg m preset filters [] am joins of
                (ctes, override, skip) \<Rightarrow>
                  (case add_ctes toSql m ctes no_clauses of
                     Inl e \<Rightarrow> Inl (CteFailed e)
                   | Inr c \<Rightarrow>
                       (case buildWhereClause reg m am preset filters override of
                          (w, having) \<Rightarrow>
                            (let base = add_where w (add_join_specs (filterJoinSpecs joins skip) c);
                                 inner0 = fold (\<lambda>a. add_column (RExpr a @ '' AS '' @ quoteIdentifier (RAlias a)))
                                            aggregates (add_column ''main.id'' base);
                                 groups = aggregate_groups aggregates;
                                 inner = (case having of
                                    None \<Rightarrow> inner0\<lparr>IsDistinct := True\<rparr>
                                  | Some h \<Rightarrow>
                                      add_having (Some h) (inner0\<lparr>GroupBys :=
                                        fold append_once (filter (\<lambda>e. \<not> isAggregateExpr e)
                                          (collectComputableExprsForRequest reg m preset filters [] (Some am))) groups\<rparr>))
                             in Inr (Query (Sub (Query (main_from m) inner) ''sub'')
                                  (outer_aggregates aggregates (add_column ''COUNT(*) AS count'' no_clauses))))))))
         (DetectJoins reg m am (mergeAndSortPaths [PathsFromFilters filters, fieldPaths]) [] compPaths rnd)))"

section \<open>What is resolved is safe\<close>

text \<open>A path of relations each of which leads to at most one row.\<close>

fun to_one_path :: "registry \<Rightarrow> model \<Rightarrow> string list \<Rightarrow> bool" where
  "to_one_path reg cur [] = True"
| "to_one_path reg cur (seg # segs) =
     (case map_of (Relations cur) seg of
        None \<Rightarrow> False
      | Some rel \<Rightarrow> RType rel \<noteq> ''has_many'' \<and>
          (case deref reg (ModelRef rel) of None \<Rightarrow> False | Some nxt \<Rightarrow> to_one_path reg nxt segs))"

definition safe_ident :: "string \<Rightarrow> bool" where
  "safe_ident seg = (is_ident seg \<and> \<not> isSQLKeyword seg)"

lemma distinct_walk_Inr:
  "distinct_walk reg cur field pre segs = Inr () \<Longrightarrow> segs \<noteq> [] \<Longrightarrow>
   list_all safe_ident segs \<and> to_one_path reg cur (butlast segs)"
proof (induction reg cur field pre segs rule: distinct_walk.induct)
  case (2 reg cur field pre seg segs)
  then show ?case
    by (cases "segs = []") (auto simp: safe_ident_def split: option.splits if_splits)
qed simp

lemma aggregate_walk_Inr:
  "aggregate_walk reg cur field pre segs = Inr () \<Longrightarrow> segs \<noteq> [] \<Longrightarrow> to_one_path reg cur (butlast segs)"
proof (induction reg cur field pre segs rule: aggregate_walk.induct)
  case (2 reg cur field pre seg segs)
  then show ?case by (cases "segs = []") (auto split: option.splits if_splits)
qed simp

lemma ResolveDistinctField_Inr:
  assumes "ResolveDistinctField reg m am field0 = Some (Inr (field, expr))"
  shows "distinct_walk reg m field [] (split_char (CHR ''.'') field) = Inr () \<and>
    fst (resolveFieldExpression reg m (Some am) field) = expr \<and> \<not> isAggregateExpr expr"
  using assms
  by (auto simp: ResolveDistinctField_def Let_def split: if_splits sum.splits prod.splits)

text \<open>The specification of one resolved aggregate.\<close>

definition aggregate_ok :: "registry \<Rightarrow> model \<Rightarrow> resolved_aggregate \<Rightarrow> bool" where
  "aggregate_ok reg m a =
     (RFn a \<in> {''sum'', ''avg'', ''min'', ''max''} \<and>
      (\<exists>cfg. map_of (Aggregatable m) (RField a) = Some cfg \<and> aggregateFunctionAllowed cfg (RFn a)) \<and>
      to_one_path reg m (butlast (split_char (CHR ''.'') (RField a))))"

lemma resolve_aggregate_Inr:
  assumes "resolve_aggregate reg m am i seen spec = Some (Inr a)"
  shows "aggregate_ok reg m a \<and> RName a \<notin> set seen \<and> RAlias a = ''__agg_'' @ show_nat i \<and>
    RName a = trim_space (GName spec)"
proof -
  let ?name = "trim_space (GName spec)" and ?fn = "normalizeAggregateFn (GFn spec)"
  have n: "?name \<noteq> []" "?name \<notin> set seen"
    using assms by (auto simp: resolve_aggregate_def Let_def split: if_splits)
  obtain ex where ex: "ExpandAliasPath reg m (GField spec) = Some ex"
    using assms n by (auto simp: resolve_aggregate_def Let_def)
  let ?f = "trim_space ex"
  have f: "?f \<noteq> []" "?fn \<in> {''sum'', ''avg'', ''min'', ''max''}"
    using assms n ex by (auto simp: resolve_aggregate_def Let_def split: if_splits)
  obtain cfg where cfg: "map_of (Aggregatable m) ?f = Some cfg"
    using assms n ex f by (cases "map_of (Aggregatable m) ?f") (auto simp: resolve_aggregate_def Let_def)
  have path: "validateAggregateFieldPath reg m ?f = Inr ()"
    using assms n ex f cfg
    by (cases "validateAggregateFieldPath reg m ?f") (auto simp: resolve_aggregate_def Let_def)
  have fn: "aggregateFunctionAllowed cfg ?fn"
    using assms n ex f cfg path by (auto simp: resolve_aggregate_def Let_def split: if_splits)
  have "a = \<lparr>RName = ?name, RFn = ?fn, RField = ?f, RAggType = trim_space (AType cfg),
      RExpr = fst (resolveFieldExpression reg m (Some am) ?f), RAlias = ''__agg_'' @ show_nat i\<rparr>"
    using assms n ex f cfg path fn
    by (auto simp: resolve_aggregate_def Let_def split: if_splits prod.splits)
  then show ?thesis
    using n f(2) cfg fn aggregate_walk_Inr [OF path [unfolded validateAggregateFieldPath_def]]
    by (simp add: aggregate_ok_def)
qed

lemma resolve_aggregates_Inr:
  "resolve_aggregates reg m am i seen specs = Some (Inr as) \<Longrightarrow>
   map RAlias as = map (\<lambda>j. ''__agg_'' @ show_nat j) [i..<i + length specs] \<and>
   map RName as = map (\<lambda>s. trim_space (GName s)) specs \<and>
   list_all (aggregate_ok reg m) as \<and> distinct (map RName as) \<and> set (map RName as) \<inter> set seen = {}"
proof (induction specs arbitrary: i seen as)
  case (Cons spec specs)
  obtain a where a: "resolve_aggregate reg m am i seen spec = Some (Inr a)"
    using Cons.prems by (auto split: option.splits sum.splits)
  then obtain z where z: "resolve_aggregates reg m am (Suc i) (RName a # seen) specs = Some z"
    using Cons.prems by auto
  then obtain as' where as': "resolve_aggregates reg m am (Suc i) (RName a # seen) specs = Some (Inr as')"
    "as = a # as'"
    using Cons.prems a by (cases z) auto
  note r = resolve_aggregate_Inr [OF a] and ih = Cons.IH [OF as'(1)]
  have u: "[i..<i + length (spec # specs)] = i # [Suc i..<Suc i + length specs]"
    by (simp add: upt_conv_Cons del: upt_Suc)
  have 1: "map RAlias as = map (\<lambda>j. ''__agg_'' @ show_nat j) [i..<i + length (spec # specs)]"
    unfolding u using r ih as'(2) by simp
  have 2: "map RName as = map (\<lambda>s. trim_space (GName s)) (spec # specs)" "list_all (aggregate_ok reg m) as"
    using r ih as'(2) by simp_all
  have i: "set (map RName as') \<inter> set (RName a # seen) = {}" "distinct (map RName as')" "RName a \<notin> set seen"
    using ih r by blast+
  then have "distinct (map RName as)" "set (map RName as) \<inter> set seen = {}"
    unfolding as'(2) by auto
  with 1 2 show ?case by blast
qed simp

section \<open>Properties\<close>

text \<open>
  C30. What a client aggregates is under the control of the configuration: when the aggregates of a
  request are accepted, there is one for each specification, their names and their column
  aliases are distinct, each function is one of the four and allowed for its field, the field is
  declared aggregatable, and its path leads over relations to one row only, so no row is counted
  twice (\<^verbatim>\<open>ValidateAndResolveAggregates\<close>).
\<close>
theorem aggregates_are_controlled:
  assumes "ValidateAndResolveAggregates reg m am specs = Some (Inr as)"
  shows "length as = length specs \<and> distinct (map RName as) \<and> distinct (map RAlias as) \<and>
    list_all (aggregate_ok reg m) as"
proof -
  note r = resolve_aggregates_Inr [OF assms [unfolded ValidateAndResolveAggregates_def]]
  then have "length as = length specs" by (metis length_map)
  moreover have "distinct (map RAlias as)" using r by (simp add: distinct_map inj_on_def)
  ultimately show ?thesis using r by blast
qed

definition demo_agg_model :: model where
  "demo_agg_model = empty_model\<lparr>MName := ''Pay'', Table := ''pays'',
     Aggregatable := [(''amount'', \<lparr>AFunctions = [''Sum'', ''max''], AType = ''float''\<rparr>)]\<rparr>"

definition demo_agg_specs :: "aggregate_spec list" where
  "demo_agg_specs = [\<lparr>GName = ''total'', GFn = '' SUM'', GField = ''amount''\<rparr>,
     \<lparr>GName = ''top'', GFn = ''max'', GField = ''amount''\<rparr>]"

lemma demo_aggregates:
  "ValidateAndResolveAggregates [] demo_agg_model empty_alias_map demo_agg_specs =
   Some (Inr [\<lparr>RName = ''total'', RFn = ''sum'', RField = ''amount'', RAggType = ''float'', RExpr = ''main.amount'', RAlias = ''__agg_0''\<rparr>,
              \<lparr>RName = ''top'', RFn = ''max'', RField = ''amount'', RAggType = ''float'', RExpr = ''main.amount'', RAlias = ''__agg_1''\<rparr>])"
  by code_simp

theorem aggregates_are_controlled_witness:
  "\<exists>as. ValidateAndResolveAggregates [] demo_agg_model empty_alias_map demo_agg_specs = Some (Inr as) \<and>
     length as = 2 \<and> distinct (map RAlias as) \<and> list_all (aggregate_ok [] demo_agg_model) as"
proof (intro exI conjI)
  show "ValidateAndResolveAggregates [] demo_agg_model empty_alias_map demo_agg_specs =
   Some (Inr [\<lparr>RName = ''total'', RFn = ''sum'', RField = ''amount'', RAggType = ''float'', RExpr = ''main.amount'', RAlias = ''__agg_0''\<rparr>,
              \<lparr>RName = ''top'', RFn = ''max'', RField = ''amount'', RAggType = ''float'', RExpr = ''main.amount'', RAlias = ''__agg_1''\<rparr>])"
    by (rule demo_aggregates)
  show "length [\<lparr>RName = ''total'', RFn = ''sum'', RField = ''amount'', RAggType = ''float'', RExpr = ''main.amount'', RAlias = ''__agg_0''\<rparr>,
              \<lparr>RName = ''top'', RFn = ''max'', RField = ''amount'', RAggType = ''float'', RExpr = ''main.amount'', RAlias = ''__agg_1''\<rparr>] = 2"
    by simp
qed (use aggregates_are_controlled [OF demo_aggregates] in blast)+

text \<open>
  C29. The field of a distinct request cannot smuggle SQL: when it is resolved, every segment of it
  is an identifier that is no keyword, its relations lead to one row each, and its expression
  calls no aggregate (\<^verbatim>\<open>ResolveDistinctField\<close>; other keys of a request are not checked so).
\<close>
theorem distinct_field_is_safe:
  assumes "ResolveDistinctField reg m am field0 = Some (Inr (field, expr))"
  shows "list_all safe_ident (split_char (CHR ''.'') field) \<and>
    to_one_path reg m (butlast (split_char (CHR ''.'') field)) \<and> \<not> isAggregateExpr expr"
  using ResolveDistinctField_Inr [OF assms] distinct_walk_Inr [of reg m field "[]"] by simp

theorem distinct_field_is_safe_witness:
  "ResolveDistinctField [] demo_agg_model empty_alias_map '' amount'' = Some (Inr (''amount'', ''main.amount'')) \<and>
   list_all safe_ident (split_char (CHR ''.'') ''amount'')"
proof -
  have "ResolveDistinctField [] demo_agg_model empty_alias_map '' amount'' = Some (Inr (''amount'', ''main.amount''))"
    by code_simp
  with distinct_field_is_safe [OF this] show ?thesis by blast
qed

section \<open>Counting agrees with paging\<close>

definition no_has_many_computables :: "registry \<Rightarrow> model \<Rightarrow> bool" where
  "no_has_many_computables reg m =
     list_all (\<lambda>(n, cmp). pick_has_many reg m [] (extractPathsFromExpr (CSource cmp)) = []) (Computable m)"

lemma cte_place_None:
  assumes "no_has_many_computables reg m"
  shows "cte_place reg m am joins n = None"
proof (cases "map_of (Computable m) n")
  case (Some cmp)
  then have "pick_has_many reg m [] (extractPathsFromExpr (CSource cmp)) = []"
    using assms by (auto simp: no_has_many_computables_def list_all_iff dest!: map_of_SomeD)
  then show ?thesis using Some by (simp add: cte_place_def Let_def)
qed (simp add: cte_place_def)

lemma no_ctes:
  assumes "no_has_many_computables reg m"
  shows "buildHasManyCTEs reg m preset filters sorts am joins = ([], [], [])"
proof -
  have "fold (cte_step reg m am joins) ns st = st" for ns st
    by (induction ns) (simp_all add: cte_step_def cte_place_None [OF assms])
  then show ?thesis by (simp add: buildHasManyCTEs_def)
qed

lemma request_joins_no_ctes:
  assumes "no_has_many_computables reg m"
    and "request_joins toSql reg m am preset filters sorts sf pp rnd = Some (Inr (c, joins, ctes, ov))"
  shows "ov = [] \<and> ctes = []"
proof -
  obtain r where r: "DetectJoins reg m am (PathsFromFilters filters) sf pp rnd = Some r"
    using assms(2) by (auto simp: request_joins_def)
  then show ?thesis using assms(2) no_ctes [OF assms(1)]
    by (cases r) (auto simp: request_joins_def add_ctes_def Let_def)
qed

text \<open>The conditions on the rows of the root table: those of the inner statement, if there is one.\<close>

fun row_conditions :: "query \<Rightarrow> source \<times> sqlizer list \<times> sqlizer list" where
  "row_conditions (Query (Tbl t) c) = (Tbl t, Wheres c, Havings c)"
| "row_conditions (Query (Sub (Query src c') a) c) = (src, Wheres c', Havings c')"

lemma BuildCountQuery_conditions:
  assumes "BuildCountQuery toSql reg m am preset filters0 rnd = Some (Inr qc)"
    and "NormalizeFiltersWithAliases reg m filters0 = Some filters"
    and "no_has_many_computables reg m"
    and "buildWhereClause reg m am preset filters [] = (w, h)"
  shows "row_conditions qc = (main_from m, opt_list w, opt_list h)"
proof -
  obtain r where r: "request_joins toSql reg m am preset filters [] []
      (collectComputablePathsForRequest m preset filters []) rnd = Some r"
    using assms(1,2) by (auto simp: BuildCountQuery_def)
  obtain t where t: "r = Inr t" using assms(1,2) by (cases r) (auto simp: BuildCountQuery_def r)
  obtain c joins ctes ov where j: "t = (c, joins, ctes, ov)" by (cases t)
  note rj = r [unfolded t j]
  have c: "Wheres c = []" "Havings c = []" "ov = []"
    using request_joins_only [OF rj] request_joins_no_ctes [OF assms(3) rj] by (auto simp: only_joins_def)
  show ?thesis
    using assms(1,2,4) c
    by (cases h) (auto simp: BuildCountQuery_def rj Let_def main_from_def add_where_def add_having_def
        add_column_def opt_list_def)
qed


lemma demo_count_run:
  "BuildCountQuery (\<lambda>q. Inr ([], [])) demo_joins_registry demo_joins_model demo_joins_map
     (Some demo_index_preset) [(''id'', GInt 7)] [] =
   Some (Inr (Query (Tbl ''people AS main'')
     (no_clauses\<lparr>Columns := [''COUNT(*)''], Wheres := [SAnd [SEq ''main.id'' (GInt 7)]]\<rparr>)))"
  by code_simp

lemma demo_page_run:
  "BuildIndexQuery (\<lambda>q. Inr ([], [])) demo_joins_registry demo_joins_model demo_joins_map
     [(''id'', GInt 7)] [''id''] (Some demo_index_preset) 40 20 [] =
   Some (Inr (Query (Tbl ''people AS main'')
     (no_clauses\<lparr>Columns := [''main.id''], Wheres := [SAnd [SEq ''main.id'' (GInt 7)]],
        OrderBys := [''main.id''], Limit := Some 20, Offset := Some 40\<rparr>)))"
  by code_simp


end
