(* ===== verification/Scan_Rows.thy ===== *)
theory Scan_Rows
  imports Scan_Columns
begin

text \<open>
  Rows: \<^verbatim>\<open>internal/model/ScanFlatRows.go\<close>. The values of a row are converted by the types of its
  columns, and the flat row with keys such as \<^verbatim>\<open>address.area.id\<close> is folded into nested objects.
\<close>

section \<open>Folding a flat row\<close>

text \<open>
  Keys that end at their only dot (\<^verbatim>\<open>address.\<close>) count as leaves under what stands before it. The
  values of a bucket are those of the keys with its head, under their tails; the buckets follow
  the order in which the heads appear, where Go's order is arbitrary.
\<close>

definition leaf_part :: "(string, gany) gomap \<Rightarrow> (string, gany) gomap" where
  "leaf_part flat =
     fold (\<lambda>(k, v) r. case split2 ''.'' k of
             (h, Some t) \<Rightarrow> if t = [] then AList.update h v r else r
           | (h, None) \<Rightarrow> r) flat
       (fold (\<lambda>(k, v) r. if CHR ''.'' \<notin> set k then AList.update k v r else r) flat [])"

definition bucket_heads :: "(string, gany) gomap \<Rightarrow> string list" where
  "bucket_heads flat =
     dedup_from [] (concat (map (\<lambda>(k, v). case split2 ''.'' k of
        (h, Some t) \<Rightarrow> if t = [] then [] else [h] | (h, None) \<Rightarrow> []) flat))"

definition bucket :: "string \<Rightarrow> (string, gany) gomap \<Rightarrow> (string, gany) gomap" where
  "bucket head flat =
     fold (\<lambda>(k, v) r. case split2 ''.'' k of
             (h, Some t) \<Rightarrow> if t \<noteq> [] \<and> h = head then AList.update t v r else r
           | (h, None) \<Rightarrow> r) flat []"

definition key_bytes :: "(string, gany) gomap \<Rightarrow> nat" where
  "key_bytes flat = sum_list (map (\<lambda>(k, v). Suc (length k)) flat)"

lemma key_bytes_update: "key_bytes (AList.update k v m) \<le> key_bytes m + Suc (length k)"
  by (induction m) (auto simp: key_bytes_def)

lemma split2_dot:
  "split2 ''.'' k = (h, Some t) \<Longrightarrow> k = h @ ''.'' @ t"
  by (auto simp: split2_def split: option.splits dest: str_index_split)

lemma bucket_smaller_aux:
  "key_bytes (fold (\<lambda>(k, v) r. case split2 ''.'' k of
             (h, Some t) \<Rightarrow> if t \<noteq> [] \<and> h = head then AList.update t v r else r
           | (h, None) \<Rightarrow> r) flat r) \<le> key_bytes flat + key_bytes r"
proof (induction flat arbitrary: r)
  case Nil
  then show ?case by simp
next
  case (Cons kv flat)
  obtain k v h ot where kv: "kv = (k, v)" "split2 ''.'' k = (h, ot)" by (metis surj_pair)
  show ?case
  proof (cases ot)
    case None
    then show ?thesis using Cons [of r] by (simp add: kv key_bytes_def)
  next
    case (Some t)
    then have "length t < length k" using split2_dot [of k h t] kv by simp
    then show ?thesis
      using Cons [of r] Cons [of "AList.update t v r"] key_bytes_update [of t v r]
      by (auto simp: kv Some key_bytes_def)
  qed
qed

lemma bucket_smaller:
  assumes "head \<in> set (bucket_heads flat)"
  shows "key_bytes (bucket head flat) < key_bytes flat"
proof -
  obtain k v t where k: "(k, v) \<in> set flat" "split2 ''.'' k = (head, Some t)" "t \<noteq> []"
    using assms
    by (auto simp: bucket_heads_def set_dedup_from split: prod.splits option.splits if_splits) metis
  then obtain xs ys where f: "flat = xs @ (k, v) # ys" by (meson split_list)
  have "length t < length k" using split2_dot [OF k(2)] by simp
  let ?f = "\<lambda>(k, v) r. case split2 ''.'' k of
             (h, Some t) \<Rightarrow> if t \<noteq> [] \<and> h = head then AList.update t v r else r
           | (h, None) \<Rightarrow> (r :: (string, gany) gomap)"
  have "key_bytes (bucket head flat) \<le> key_bytes ys + key_bytes (AList.update t v (fold ?f xs []))"
    using bucket_smaller_aux [of head ys] k by (simp add: bucket_def f)
  also have "\<dots> \<le> key_bytes ys + (key_bytes xs + Suc (length t))"
    using key_bytes_update [of t v "fold ?f xs []"] bucket_smaller_aux [of head xs "[]"]
    by (simp add: key_bytes_def)
  also have "\<dots> < key_bytes flat" using \<open>length t < length k\<close> by (simp add: f key_bytes_def)
  finally show ?thesis .
qed

function FoldFlatRowByPreset :: "(string, gany) gomap \<Rightarrow> (string, gany) gomap" where
  "FoldFlatRowByPreset flat =
     fold (\<lambda>head res. AList.update head (GMap (FoldFlatRowByPreset (bucket head flat))) res)
       (bucket_heads flat) (leaf_part flat)"
  by pat_completeness auto
termination
  by (relation "measure key_bytes") (auto dest: bucket_smaller)

declare FoldFlatRowByPreset.simps [simp del]

definition FoldFlatRowsByPreset :: "(string, gany) gomap list \<Rightarrow> (string, gany) gomap list" where
  "FoldFlatRowsByPreset rows = map FoldFlatRowByPreset rows"

section \<open>Reading the rows\<close>

text \<open>
  A value as the driver gives it: a byte slice, an array of 16 bytes, a UUID, or any other value.
  The driver's \<^verbatim>\<open>any\<close> of a byte slice that is not converted, the text of a UUID (package
  \<^verbatim>\<open>google/uuid\<close>) and the bits of \<^verbatim>\<open>strconv.ParseFloat\<close> are parameters.
\<close>

datatype cell = CBytes string | CArr16 string | CUuid string | CVal gany

record conversions =
  RawBytes :: "string \<Rightarrow> gany"
  RawUuid :: "string \<Rightarrow> gany"
  UuidText :: "string \<Rightarrow> string"
  ParseFloat :: "string \<Rightarrow> 64 word"

text \<open>
  \<^verbatim>\<open>strconv.ParseInt(s, 10, 64)\<close> without its error: the nearest value of 64 bits for a number out
  of range, zero for what is no number.
\<close>

definition parseInt :: "string \<Rightarrow> int" where
  "parseInt s =
     (let (neg, ds) = (case s of [] \<Rightarrow> (False, []) | c # cs \<Rightarrow>
                        if c = CHR ''-'' then (True, cs) else if c = CHR ''+'' then (False, cs)
                        else (False, s));
          n = int (read_digits ds); v = (if neg then - n else n)
      in if ds = [] \<or> \<not> list_all is_digit ds then 0
         else if v < - (2 ^ 63) then - (2 ^ 63) else if v \<ge> 2 ^ 63 then 2 ^ 63 - 1 else v)"

definition raw_value :: "conversions \<Rightarrow> cell \<Rightarrow> gany" where
  "raw_value cv c =
     (case c of CBytes b \<Rightarrow> RawBytes cv b | CArr16 b \<Rightarrow> RawUuid cv b | CUuid b \<Rightarrow> RawUuid cv b | CVal x \<Rightarrow> x)"

definition convert :: "conversions \<Rightarrow> string \<Rightarrow> cell \<Rightarrow> gany" where
  "convert cv ty c =
     (if ty = ''UUID'' then
        (case c of
           CBytes b \<Rightarrow> if length b = 16 then GStr (UuidText cv b) else raw_value cv c
         | CArr16 b \<Rightarrow> GStr (UuidText cv b)
         | CUuid b \<Rightarrow> GStr (UuidText cv b)
         | CVal x \<Rightarrow> x)
      else (case c of
              CBytes b \<Rightarrow>
                if ty = ''int'' then GInt (parseInt b)
                else if ty = ''float'' then GFloat (ParseFloat cv b)
                else if ty = ''bool'' then GBool (b = ''t'')
                else if ty = ''string'' then GStr b
                else raw_value cv c
            | _ \<Rightarrow> raw_value cv c))"

datatype scan_error = NoColumns | RowFailed string | TooFewValues nat nat

definition scan_row :: "conversions \<Rightarrow> select_column list \<Rightarrow> cell list \<Rightarrow> scan_error + (string, gany) gomap" where
  "scan_row cv cols vals =
     (if length vals < length cols then Inl (TooFewValues (length cols) (length vals))
      else Inr (FoldFlatRowByPreset
        (fold (\<lambda>(col, v) row.
           if is_blank (Key col) then row else AList.update (Key col) (convert cv (ColType col) v) row)
           (zip cols vals) [])))"

text \<open>
  \<open>rows\<close> are the results of \<^verbatim>\<open>rows.Values\<close> up to the end, \<open>final\<close> is that of \<^verbatim>\<open>rows.Err\<close>.
\<close>

definition ScanFlatRows ::
  "conversions \<Rightarrow> registry \<Rightarrow> model \<Rightarrow> data_preset option \<Rightarrow> alias_map \<Rightarrow> (string + cell list) list \<Rightarrow>
   string option \<Rightarrow> (scan_error + (string, gany) gomap list) option" where
  "ScanFlatRows cv reg m preset aliasMap rows final =
     map_option (\<lambda>cols.
         if cols = [] then Inl NoColumns
         else (case map_res (\<lambda>r. case r of Inl e \<Rightarrow> Inl (RowFailed e) | Inr vals \<Rightarrow> scan_row cv cols vals) rows of
                 Inl e \<Rightarrow> Inl e
               | Inr out \<Rightarrow> (case final of None \<Rightarrow> Inr out | Some e \<Rightarrow> Inl (RowFailed e))))
       (ScanColumns reg m preset (Some aliasMap) [])"

section \<open>Folding loses nothing\<close>

text \<open>The flat row of an object: the paths to its values that are no objects.\<close>

fun flat_entry :: "string \<Rightarrow> gany \<Rightarrow> (string, gany) gomap"
  and flat_entries :: "(string, gany) gomap \<Rightarrow> (string, gany) gomap" where
  "flat_entry k (GMap sub) = map (\<lambda>(t, v). (k @ ''.'' @ t, v)) (flat_entries sub)"
| "flat_entry k v = [(k, v)]"
| "flat_entries [] = []"
| "flat_entries ((k, v) # m) = flat_entry k v @ flat_entries m"

fun is_object :: "gany \<Rightarrow> bool" where
  "is_object (GMap m) = True"
| "is_object v = False"

text \<open>
  A row that can be folded without a conflict: distinct keys, none of which leads through the
  value of another, no empty segment after the first, and values that are no objects.
\<close>

definition foldable :: "(string, gany) gomap \<Rightarrow> bool" where
  "foldable flat =
     (gowf flat \<and>
      (\<forall>k v. map_of flat k = Some v \<longrightarrow>
         \<not> is_object v \<and> [] \<notin> set (tl (split_char (CHR ''.'') k)) \<and>
         (\<forall>t. map_of flat (k @ ''.'' @ t) = None)))"

lemma split2_dot_iff:
  "split2 ''.'' k = (h, Some t) \<longleftrightarrow> k = h @ ''.'' @ t \<and> CHR ''.'' \<notin> set h"
  "split2 ''.'' k = (h, None) \<longleftrightarrow> k = h \<and> CHR ''.'' \<notin> set h"
proof -
  have pre: "str_index ''.'' (s @ CHR ''.'' # t) = Some (length s)" if "CHR ''.'' \<notin> set s" for s t
    using that by (induction s) auto
  have none: "str_index ''.'' s = None" if "CHR ''.'' \<notin> set s" for s
    using that by (induction s) auto
  have "(\<exists>a b. k = a @ CHR ''.'' # b \<and> CHR ''.'' \<notin> set a) \<or> CHR ''.'' \<notin> set k"
    by (meson split_list_first)
  then show "split2 ''.'' k = (h, Some t) \<longleftrightarrow> k = h @ ''.'' @ t \<and> CHR ''.'' \<notin> set h"
    "split2 ''.'' k = (h, None) \<longleftrightarrow> k = h \<and> CHR ''.'' \<notin> set h"
    using pre none by (auto simp: split2_def)
qed

text \<open>A fold of updates, one for each entry that \<open>g\<close> selects under a key of its own.\<close>

lemma fold_updates:
  assumes f: "\<And>x r. f x r = (case g x of None \<Rightarrow> r | Some (k, v) \<Rightarrow> AList.update k v r)"
    and "\<And>x k v. x \<in> set xs \<Longrightarrow> g x = Some (k, v) \<Longrightarrow> F k = Some v"
  shows "map_of (fold f xs r) k =
      (if \<exists>x \<in> set xs. \<exists>v. g x = Some (k, v) then F k else map_of r k) \<and>
    (gowf r \<longrightarrow> gowf (fold f xs r))"
  using assms(2)
proof (induction xs arbitrary: r)
  case Nil
  then show ?case by simp
next
  case (Cons x xs)
  have IH: "map_of (fold f xs r) k =
      (if \<exists>x \<in> set xs. \<exists>v. g x = Some (k, v) then F k else map_of r k) \<and>
    (gowf r \<longrightarrow> gowf (fold f xs r))" for r
  proof (rule Cons.IH)
    fix y k v assume "y \<in> set xs" "g y = Some (k, v)"
    then show "F k = Some v" using Cons.prems [of y k v] by simp
  qed
  show ?case
  proof (cases "g x")
    case None
    then have "f x r = r" by (simp add: f)
    then show ?thesis using IH [of r] None by simp
  next
    case (Some kv)
    obtain k0 v0 where kv: "kv = (k0, v0)" by (cases kv)
    have g: "g x = Some (k0, v0)" using Some kv by simp
    have u: "f x r = AList.update k0 v0 r" by (simp add: f g)
    have "F k0 = Some v0" using Cons.prems [of x k0 v0] g by simp
    then show ?thesis using IH [of "AList.update k0 v0 r"] by (simp add: u g gomap_simps)
  qed
qed

lemma foldable_tail:
  assumes "foldable flat" "map_of flat k = Some v" "split2 ''.'' k = (h, Some t)"
  shows "t \<noteq> []"
proof -
  have k: "k = h @ ''.'' @ t" "CHR ''.'' \<notin> set h" using assms(3) unfolding split2_dot_iff by simp_all
  then have "split_char (CHR ''.'') k = h # split_char (CHR ''.'') t" by (simp add: split_char_append)
  moreover have "[] \<notin> set (tl (split_char (CHR ''.'') k))"
    using assms(1) [unfolded foldable_def, THEN conjunct2, THEN spec, THEN spec, THEN mp, OF assms(2)] by simp
  ultimately have "[] \<notin> set (split_char (CHR ''.'') t)" by simp
  then show ?thesis by auto
qed

lemma foldable_entry:
  assumes "foldable flat"
  shows "(k, v) \<in> set flat \<longleftrightarrow> map_of flat k = Some v"
  by (rule gowf_lookup) (rule assms [unfolded foldable_def, THEN conjunct1])

definition leaf_sel :: "string \<times> gany \<Rightarrow> (string \<times> gany) option" where
  "leaf_sel x = (if CHR ''.'' \<notin> set (fst x) then Some x else None)"

definition bucket_sel :: "string \<Rightarrow> string \<times> gany \<Rightarrow> (string \<times> gany) option" where
  "bucket_sel h x = (case split2 ''.'' (fst x) of
     (h', Some t) \<Rightarrow> if t \<noteq> [] \<and> h' = h then Some (t, snd x) else None
   | (h', None) \<Rightarrow> None)"

lemma bucket_sel_iff:
  assumes "CHR ''.'' \<notin> set h"
  shows "bucket_sel h x = Some (t, v) \<longleftrightarrow> t \<noteq> [] \<and> x = (h @ ''.'' @ t, v)"
proof -
  obtain k w where x: "x = (k, w)" by (cases x)
  obtain h' ot where s: "split2 ''.'' k = (h', ot)" by (cases "split2 ''.'' k")
  show ?thesis
  proof (cases ot)
    case None
    then have "k = h' \<and> CHR ''.'' \<notin> set h'" using s split2_dot_iff(2) by simp
    moreover have "bucket_sel h x = None" by (simp add: bucket_sel_def x s None)
    ultimately show ?thesis by (auto simp: x)
  next
    case (Some t')
    then have k: "k = h' @ ''.'' @ t' \<and> CHR ''.'' \<notin> set h'" using s split2_dot_iff(1) by simp
    have "h = h' \<and> t = t'" if "k = h @ ''.'' @ t"
      using that split2_dot_iff(1) [of k h t] s Some assms by simp
    moreover have "bucket_sel h x = (if t' \<noteq> [] \<and> h' = h then Some (t', w) else None)"
      by (simp add: bucket_sel_def x s Some)
    ultimately show ?thesis using k by (auto simp: x)
  qed
qed

lemma leaf_part_lookup:
  assumes "foldable flat"
  shows "map_of (leaf_part flat) k = (if CHR ''.'' \<notin> set k then map_of flat k else None) \<and> gowf (leaf_part flat)"
proof -
  let ?f = "\<lambda>(k, v) r. if CHR ''.'' \<notin> set k then AList.update k v r else (r :: (string, gany) gomap)"
  have inner: "map_of (fold ?f flat []) k =
        (if \<exists>x \<in> set flat. \<exists>v. leaf_sel x = Some (k, v) then map_of flat k else map_of [] k) \<and>
      (gowf ([] :: (string, gany) gomap) \<longrightarrow> gowf (fold ?f flat []))"
  proof (rule fold_updates)
    fix x :: "string \<times> gany" and r
    show "?f x r = (case leaf_sel x of None \<Rightarrow> r | Some (k, v) \<Rightarrow> AList.update k v r)"
      by (cases x) (simp add: leaf_sel_def)
  next
    fix x k v assume "x \<in> set flat" "leaf_sel x = Some (k, v)"
    then show "map_of flat k = Some v"
      using foldable_entry [OF assms] by (simp add: leaf_sel_def split: if_splits)
  qed
  have outer: "fold (\<lambda>(k, v) r. case split2 ''.'' k of
             (h, Some t) \<Rightarrow> if t = [] then AList.update h v r else r
           | (h, None) \<Rightarrow> r) xs r = r" if "set xs \<subseteq> set flat" for xs r
    using that
  proof (induction xs)
    case (Cons x xs)
    obtain k v where x: "x = (k, v)" by (cases x)
    have "map_of flat k = Some v" using Cons.prems x foldable_entry [OF assms] by auto
    then have "(case split2 ''.'' k of (h, Some t) \<Rightarrow> if t = [] then AList.update h v r else r | (h, None) \<Rightarrow> r) = r"
      using foldable_tail [OF assms] by (auto split: prod.splits option.splits)
    then show ?case using Cons x by simp
  qed simp
  have "leaf_part flat = fold ?f flat []" unfolding leaf_part_def by (rule outer) simp
  moreover have "(\<exists>x \<in> set flat. \<exists>v. leaf_sel x = Some (k, v)) \<longleftrightarrow> CHR ''.'' \<notin> set k \<and> map_of flat k \<noteq> None"
  proof
    assume "\<exists>x \<in> set flat. \<exists>v. leaf_sel x = Some (k, v)"
    then obtain x v where "x \<in> set flat" "leaf_sel x = Some (k, v)" by blast
    then show "CHR ''.'' \<notin> set k \<and> map_of flat k \<noteq> None"
      using foldable_entry [OF assms, of k v] by (simp add: leaf_sel_def split: if_splits)
  next
    assume k: "CHR ''.'' \<notin> set k \<and> map_of flat k \<noteq> None"
    then obtain v where "(k, v) \<in> set flat" using foldable_entry [OF assms] by auto
    moreover have "leaf_sel (k, v) = Some (k, v)" using k by (simp add: leaf_sel_def)
    ultimately show "\<exists>x \<in> set flat. \<exists>v. leaf_sel x = Some (k, v)" by blast
  qed
  ultimately show ?thesis using inner by auto
qed

lemma bucket_lookup:
  assumes "foldable flat" "CHR ''.'' \<notin> set h"
  shows "map_of (bucket h flat) t = (if t \<noteq> [] then map_of flat (h @ ''.'' @ t) else None) \<and> gowf (bucket h flat)"
proof -
  let ?f = "\<lambda>(k, v) r. case split2 ''.'' k of
             (h', Some t) \<Rightarrow> if t \<noteq> [] \<and> h' = h then AList.update t v r else r
           | (h', None) \<Rightarrow> (r :: (string, gany) gomap)"
  let ?F = "\<lambda>t. map_of flat (h @ ''.'' @ t)"
  have "map_of (fold ?f flat []) t =
        (if \<exists>x \<in> set flat. \<exists>v. bucket_sel h x = Some (t, v) then ?F t else map_of [] t) \<and>
      (gowf ([] :: (string, gany) gomap) \<longrightarrow> gowf (fold ?f flat []))"
  proof (rule fold_updates)
    fix x :: "string \<times> gany" and r
    obtain k v where x: "x = (k, v)" by (cases x)
    obtain h' ot where s: "split2 ''.'' k = (h', ot)" by (cases "split2 ''.'' k")
    show "?f x r = (case bucket_sel h x of None \<Rightarrow> r | Some (k, v) \<Rightarrow> AList.update k v r)"
      by (cases ot) (simp_all add: x s bucket_sel_def)
  next
    fix x k v assume "x \<in> set flat" "bucket_sel h x = Some (k, v)"
    then show "map_of flat (h @ ''.'' @ k) = Some v"
      using foldable_entry [OF assms(1)] bucket_sel_iff [OF assms(2)] by simp
  qed
  moreover have "(\<exists>x \<in> set flat. \<exists>v. bucket_sel h x = Some (t, v)) \<longleftrightarrow> t \<noteq> [] \<and> ?F t \<noteq> None"
    unfolding bucket_sel_iff [OF assms(2)] using foldable_entry [OF assms(1), of "h @ ''.'' @ t"] by auto
  ultimately show ?thesis by (cases "t \<noteq> [] \<and> ?F t \<noteq> None") (auto simp: bucket_def)
qed


lemma bucket_heads_iff:
  assumes "foldable flat"
  shows "h \<in> set (bucket_heads flat) \<longleftrightarrow> CHR ''.'' \<notin> set h \<and> (\<exists>t. t \<noteq> [] \<and> map_of flat (h @ ''.'' @ t) \<noteq> None)"
proof -
  have "h \<in> set (bucket_heads flat) \<longleftrightarrow>
      (\<exists>k v. (k, v) \<in> set flat \<and> (\<exists>t. t \<noteq> [] \<and> split2 ''.'' k = (h, Some t)))"
    unfolding bucket_heads_def set_dedup_from
    by (force split: prod.splits option.splits if_splits)
  also have "\<dots> \<longleftrightarrow> (\<exists>t v. t \<noteq> [] \<and> (h @ ''.'' @ t, v) \<in> set flat \<and> CHR ''.'' \<notin> set h)"
    unfolding split2_dot_iff by blast
  also have "\<dots> \<longleftrightarrow> CHR ''.'' \<notin> set h \<and> (\<exists>t. t \<noteq> [] \<and> map_of flat (h @ ''.'' @ t) \<noteq> None)"
    unfolding foldable_entry [OF assms] by auto
  finally show ?thesis .
qed

lemma foldable_bucket:
  assumes "foldable flat" "CHR ''.'' \<notin> set h"
  shows "foldable (bucket h flat)"
  unfolding foldable_def
proof (intro conjI allI impI)
  show "gowf (bucket h flat)" using bucket_lookup [OF assms] by simp
  fix k v assume "map_of (bucket h flat) k = Some v"
  then have k: "map_of flat (h @ ''.'' @ k) = Some v" using bucket_lookup [OF assms, of k] by (simp split: if_splits)
  note ok = assms(1) [unfolded foldable_def, THEN conjunct2, THEN spec, THEN spec, THEN mp, OF k]
  show "\<not> is_object v" using ok by simp
  have "split_char (CHR ''.'') (h @ ''.'' @ k) = h # split_char (CHR ''.'') k"
    using assms(2) by (simp add: split_char_append)
  then have "[] \<notin> set (split_char (CHR ''.'') k)" using ok by simp
  then show "[] \<notin> set (tl (split_char (CHR ''.'') k))" by (cases "split_char (CHR ''.'') k") simp_all
  fix t
  have "map_of flat ((h @ ''.'' @ k) @ ''.'' @ t) = None" using ok by blast
  then show "map_of (bucket h flat) (k @ ''.'' @ t) = None"
    using bucket_lookup [OF assms, of "k @ ''.'' @ t"] by simp
qed

text \<open>What a path leads to in an object, and the same of the flattened object.\<close>

definition entry_at :: "gany option \<Rightarrow> string option \<Rightarrow> gany option" where
  "entry_at ov ot =
     (case ov of None \<Rightarrow> None
      | Some v \<Rightarrow> (case ot of
          None \<Rightarrow> if is_object v then None else Some v
        | Some t \<Rightarrow> (case v of GMap sub \<Rightarrow> map_of (flat_entries sub) t | _ \<Rightarrow> None)))"

lemma flat_entry_lookup:
  assumes "CHR ''.'' \<notin> set h" "split2 ''.'' k = (h', ot)"
  shows "map_of (flat_entry h v) k = (if h' = h then entry_at (Some v) ot else None)"
proof (cases "is_object v")
  case False
  then have "flat_entry h v = [(h, v)]" by (cases v) simp_all
  then show ?thesis using assms False
    by (cases ot; cases v) (auto simp: entry_at_def split2_dot_iff)
next
  case True
  then obtain sub where v: "v = GMap sub" by (cases v) simp_all
  have off: "map_of (map (\<lambda>(t, v). (h @ ''.'' @ t, v)) es) k = None" if "\<nexists>t. k = h @ ''.'' @ t" for es :: "(string, gany) gomap"
    using that by (induction es) auto
  have on: "map_of (map (\<lambda>(t, v). (h @ ''.'' @ t, v)) es) (h @ ''.'' @ t) = map_of es t" for t and es :: "(string, gany) gomap"
    by (induction es) auto
  show ?thesis
  proof (cases ot)
    case None
    then have "k = h'" "CHR ''.'' \<notin> set h'" using assms(2) split2_dot_iff(2) by simp_all
    then have "\<nexists>t. k = h @ ''.'' @ t" by auto
    then show ?thesis using off by (simp add: v None entry_at_def)
  next
    case (Some t)
    then have k: "k = h' @ ''.'' @ t" "CHR ''.'' \<notin> set h'" using assms(2) split2_dot_iff(1) by simp_all
    show ?thesis
    proof (cases "h' = h")
      case True
      then show ?thesis using on k by (simp add: v Some entry_at_def)
    next
      case False
      have "\<nexists>u. k = h @ ''.'' @ u"
      proof
        assume "\<exists>u. k = h @ ''.'' @ u"
        then obtain u where "k = h @ ''.'' @ u" ..
        then have "split2 ''.'' k = (h, Some u)" using assms(1) split2_dot_iff(1) by simp
        then show False using assms(2) False by simp
      qed
      then show ?thesis using off False by (simp add: v)
    qed
  qed
qed

lemma flat_lookup:
  assumes "gowf m" "\<And>h. h \<in> gokeys m \<Longrightarrow> CHR ''.'' \<notin> set h" "split2 ''.'' k = (h, ot)"
  shows "map_of (flat_entries m) k = entry_at (map_of m h) ot"
  using assms(1,2)
proof (induction m)
  case Nil
  then show ?case by (simp add: entry_at_def)
next
  case (Cons kv m)
  obtain k0 v0 where kv: "kv = (k0, v0)" by (cases kv)
  have "gowf m" "k0 \<notin> gokeys m" "CHR ''.'' \<notin> set k0" using Cons.prems by (auto simp: kv)
  have IH: "map_of (flat_entries m) k = entry_at (map_of m h) ot"
    by (rule Cons.IH) (use Cons.prems \<open>gowf m\<close> in \<open>auto simp: kv\<close>)
  have e: "map_of (flat_entry k0 v0) k = (if h = k0 then entry_at (Some v0) ot else None)"
    using flat_entry_lookup [OF \<open>CHR ''.'' \<notin> set k0\<close> assms(3)] .
  show ?case
  proof (cases "h = k0")
    case True
    have "map_of m h = None" using True \<open>k0 \<notin> gokeys m\<close> by (simp add: map_of_eq_None_iff)
    then have "map_of (flat_entries m) k = None" using IH by (simp add: entry_at_def)
    then show ?thesis using e True
      by (simp add: kv map_add_def split: option.splits)
  next
    case False
    then show ?thesis using e IH by (simp add: kv map_add_def split: option.splits)
  qed
qed

lemma fold_objects:
  "map_of (fold (\<lambda>h res. AList.update h (F h) res) hs r) k = (if k \<in> set hs then Some (F k) else map_of r k) \<and>
    (gowf r \<longrightarrow> gowf (fold (\<lambda>h res. AList.update h (F h) res) hs r))"
  by (induction hs arbitrary: r) (auto simp: gomap_simps)

text \<open>What a row is folded into: an object for each head, a value for each key without a dot.\<close>

lemma folded_row:
  assumes "foldable flat"
  shows "map_of (FoldFlatRowByPreset flat) h =
      (if h \<in> set (bucket_heads flat) then Some (GMap (FoldFlatRowByPreset (bucket h flat)))
       else if CHR ''.'' \<notin> set h then map_of flat h else None)"
    and "gowf (FoldFlatRowByPreset flat)"
    and "h \<in> gokeys (FoldFlatRowByPreset flat) \<Longrightarrow> CHR ''.'' \<notin> set h"
proof -
  define obj where "obj h = GMap (FoldFlatRowByPreset (bucket h flat))" for h
  have res: "FoldFlatRowByPreset flat = fold (\<lambda>h r. AList.update h (obj h) r) (bucket_heads flat) (leaf_part flat)"
    by (subst FoldFlatRowByPreset.simps) (simp add: obj_def)
  have at: "map_of (FoldFlatRowByPreset flat) h = (if h \<in> set (bucket_heads flat) then Some (obj h)
      else if CHR ''.'' \<notin> set h then map_of flat h else None)" for h
    using fold_objects [of obj "bucket_heads flat" "leaf_part flat" h] leaf_part_lookup [OF assms, of h]
    by (simp add: res)
  then show "map_of (FoldFlatRowByPreset flat) h =
      (if h \<in> set (bucket_heads flat) then Some (GMap (FoldFlatRowByPreset (bucket h flat)))
       else if CHR ''.'' \<notin> set h then map_of flat h else None)" by (simp add: obj_def)
  show "gowf (FoldFlatRowByPreset flat)"
    using fold_objects [of obj "bucket_heads flat" "leaf_part flat"] leaf_part_lookup [OF assms] by (simp add: res)
  assume "h \<in> gokeys (FoldFlatRowByPreset flat)"
  then have "map_of (FoldFlatRowByPreset flat) h \<noteq> None" by (simp add: map_of_eq_None_iff)
  then show "CHR ''.'' \<notin> set h" using at [of h] bucket_heads_iff [OF assms, of h] by (auto split: if_splits)
qed

lemma folded_look:
  "foldable flat \<Longrightarrow> split2 ''.'' k = (h, ot) \<Longrightarrow>
   map_of (flat_entries (FoldFlatRowByPreset flat)) k = entry_at (map_of (FoldFlatRowByPreset flat) h) ot"
  by (rule flat_lookup [OF folded_row(2) folded_row(3)])

lemma foldable_leaf: "foldable flat \<Longrightarrow> map_of flat h = Some v \<Longrightarrow> \<not> is_object v \<and> map_of flat (h @ ''.'' @ t) = None"
  unfolding foldable_def by blast

text \<open>A path whose head is no object.\<close>

lemma folded_leaf:
  assumes flat: "foldable flat" and k: "split2 ''.'' k = (h, ot)" and head: "h \<notin> set (bucket_heads flat)"
  shows "map_of (flat_entries (FoldFlatRowByPreset flat)) k = map_of flat k"
proof -
  have h: "CHR ''.'' \<notin> set h" using k split2_dot_iff by (cases ot) auto
  have r: "map_of (FoldFlatRowByPreset flat) h = map_of flat h" using folded_row(1) [OF flat, of h] head h by simp
  show ?thesis
  proof (cases ot)
    case None
    have "k = h" using k None split2_dot_iff(2) by simp
    then show ?thesis using folded_look [OF flat k] r foldable_leaf [OF flat, of h]
      by (cases "map_of flat h") (auto simp: None entry_at_def)
  next
    case (Some t)
    have k': "k = h @ ''.'' @ t" using k Some split2_dot_iff(1) by simp
    have "map_of flat k = None"
      using head h bucket_heads_iff [OF flat, of h] foldable_tail [OF flat _ k [unfolded Some]]
      by (cases "map_of flat k") (auto simp: k')
    moreover have "entry_at (map_of flat h) (Some t) = None"
    proof (cases "map_of flat h")
      case (Some v)
      then have "\<not> is_object v" using foldable_leaf [OF flat] by blast
      then show ?thesis by (cases v) (simp_all add: entry_at_def Some)
    qed (simp add: entry_at_def)
    ultimately show ?thesis using folded_look [OF flat k] r by (simp add: Some)
  qed
qed

text \<open>
  C32. A row whose keys do not lead through one another is folded without loss: the object that
  \<^verbatim>\<open>FoldFlatRowByPreset\<close> returns, flattened back into paths, has at every path the value that the
  row had there, and no other path.
\<close>

theorem fold_flat_roundtrip:
  assumes "foldable flat"
  shows "map_of (flat_entries (FoldFlatRowByPreset flat)) k = map_of flat k"
  using assms
proof (induction flat arbitrary: k rule: FoldFlatRowByPreset.induct)
  case (1 flat)
  note flat = \<open>foldable flat\<close>
  obtain h ot where k: "split2 ''.'' k = (h, ot)" by (cases "split2 ''.'' k")
  show ?case
  proof (cases "h \<in> set (bucket_heads flat)")
    case True
    then obtain u where h: "CHR ''.'' \<notin> set h" and u: "map_of flat (h @ ''.'' @ u) \<noteq> None"
      using bucket_heads_iff [OF flat] by blast
    have r: "map_of (FoldFlatRowByPreset flat) h = Some (GMap (FoldFlatRowByPreset (bucket h flat)))"
      using folded_row(1) [OF flat, of h] True by simp
    show ?thesis
    proof (cases ot)
      case None
      have "map_of flat h = None" using foldable_leaf [OF flat, of h _ u] u by (cases "map_of flat h") auto
      moreover have "k = h" using k None split2_dot_iff(2) by simp
      ultimately show ?thesis using folded_look [OF flat k] r by (simp add: None entry_at_def)
    next
      case (Some t)
      have k': "k = h @ ''.'' @ t" using k Some split2_dot_iff(1) by simp
      have "map_of (flat_entries (FoldFlatRowByPreset flat)) k = map_of (bucket h flat) t"
        using folded_look [OF flat k] r "1.IH" [OF True foldable_bucket [OF flat h]] by (simp add: Some entry_at_def)
      also have "\<dots> = map_of flat k"
        using bucket_lookup [OF flat h, of t] foldable_tail [OF flat _ k [unfolded Some]]
        by (cases "map_of flat k") (auto simp: k')
      finally show ?thesis .
    qed
  qed (rule folded_leaf [OF flat k])
qed

theorem fold_flat_roundtrip_witness:
  "map_of (flat_entries (FoldFlatRowByPreset
      [(''id'', GInt 7), (''address.area.id'', GInt 3), (''address.zip'', GStr ''020''), (''name'', GNil)])) ''address.area.id''
    = Some (GInt 3)"
proof -
  have "foldable [(''id'', GInt 7), (''address.area.id'', GInt 3), (''address.zip'', GStr ''020''), (''name'', GNil)]"
    by (auto simp: foldable_def split: if_splits)
  from fold_flat_roundtrip [OF this, of "''address.area.id''"] show ?thesis by simp
qed

end
