(* ===== verification/Formatter.thy ===== *)
theory Formatter
  imports Computable_Utils "HOL-Library.List_Lexorder" "HOL-Library.Char_ord"
begin

text \<open>
  Formatters: the templates of \<^verbatim>\<open>internal/resolver/finalizeItems.go\<close> (\<^verbatim>\<open>applyFormatter\<close> and what it
  calls). A template holds tokens such as \<^verbatim>\<open>{person.name}[0..2]\<close> and ternaries such as
  \<^verbatim>\<open>{? age >= 18 ? "adult" : null}\<close>, and is filled from a row.

  A number of a Go type other than \<^verbatim>\<open>int\<close>, \<^verbatim>\<open>int32\<close>, \<^verbatim>\<open>int64\<close>, \<^verbatim>\<open>float32\<close> and \<^verbatim>\<open>float64\<close> is an opaque
  value here, as it is to the code.
\<close>

section \<open>Floating-point numbers\<close>

text \<open>
  A \<^verbatim>\<open>float64\<close> is its bit pattern. Comparison is that of IEEE 754: nothing compares to a NaN, and
  the two zeros are equal. The decimal text of a number (\<^verbatim>\<open>%v\<close>) and \<^verbatim>\<open>strconv.ParseFloat\<close>, with
  \<open>None\<close> for its error, are parameters.
\<close>

record float_text =
  ShowFloat :: "64 word \<Rightarrow> string"
  ReadFloat :: "string \<Rightarrow> 64 word option"

definition float_nan :: "64 word \<Rightarrow> bool" where
  "float_nan w = (take_bit 11 (drop_bit 52 w) = 0x7FF \<and> take_bit 52 w \<noteq> 0)"

definition float_order :: "64 word \<Rightarrow> int" where
  "float_order w = (let mag = uint (take_bit 63 w) in if w \<ge> 2 ^ 63 then - mag else mag)"

definition float_eq :: "64 word \<Rightarrow> 64 word \<Rightarrow> bool" where
  "float_eq a b = (\<not> float_nan a \<and> \<not> float_nan b \<and> float_order a = float_order b)"

definition float_lt :: "64 word \<Rightarrow> 64 word \<Rightarrow> bool" where
  "float_lt a b = (\<not> float_nan a \<and> \<not> float_nan b \<and> float_order a < float_order b)"

definition float_le :: "64 word \<Rightarrow> 64 word \<Rightarrow> bool" where
  "float_le a b = (float_lt a b \<or> float_eq a b)"

text \<open>
  \<^verbatim>\<open>float64(i)\<close> of an integer, rounded to the nearest, ties to even: with exponent \<open>e\<close> and the
  rounded significand \<open>q\<close>, a carry out of \<open>q\<close> goes into the exponent.
\<close>

fun bit_length :: "nat \<Rightarrow> nat" where
  "bit_length n = (if n = 0 then 0 else Suc (bit_length (n div 2)))"

declare bit_length.simps [simp del]

definition float_bits :: "nat \<Rightarrow> nat" where
  "float_bits n =
     (if n = 0 then 0
      else
        (let e = bit_length n - 1
         in if e \<le> 52 then (e + 1022) * 2 ^ 52 + n * 2 ^ (52 - e)
            else
              (let half = 2 ^ (e - 53); q = n div (2 * half); r = n mod (2 * half);
                   q' = (if r > half \<or> r = half \<and> odd q then q + 1 else q)
               in (e + 1022) * 2 ^ 52 + q')))"

definition float_of_int :: "int \<Rightarrow> 64 word" where
  "float_of_int i = of_nat (float_bits (nat \<bar>i\<bar>)) + (if i < 0 then 2 ^ 63 else 0)"

section \<open>The text of a value\<close>

definition show_int :: "int \<Rightarrow> string" where
  "show_int i = (if i < 0 then CHR ''-'' # show_nat (nat (- i)) else show_nat (nat i))"

text \<open>\<^verbatim>\<open>fmt.Sprintf("%v", v)\<close>; the entries of a map are printed in the order of their keys.\<close>

definition map_text :: "(string \<times> string) list \<Rightarrow> string" where
  "map_text kvs = ''map['' @ join_str '' '' (map (\<lambda>(k, s). k @ '':'' @ s) (sort_key fst kvs)) @ '']''"

definition list_text :: "string list \<Rightarrow> string" where
  "list_text ss = ''['' @ join_str '' '' ss @ '']''"

fun sprint :: "float_text \<Rightarrow> gany \<Rightarrow> string"
  and sprint_list :: "float_text \<Rightarrow> gany list \<Rightarrow> string list"
  and sprint_entries :: "float_text \<Rightarrow> (string \<times> gany) list \<Rightarrow> (string \<times> string) list"
  and sprint_maps :: "float_text \<Rightarrow> (string \<times> gany) list list \<Rightarrow> string list" where
  "sprint fl GNil = ''<nil>''"
| "sprint fl (GBool b) = (if b then ''true'' else ''false'')"
| "sprint fl (GInt i) = show_int i"
| "sprint fl (GFloat w) = ShowFloat fl w"
| "sprint fl (GStr s) = s"
| "sprint fl (GStrs ss) = list_text ss"
| "sprint fl (GList vs) = list_text (sprint_list fl vs)"
| "sprint fl (GMap m) = map_text (sprint_entries fl m)"
| "sprint fl (GMaps ms) = list_text (sprint_maps fl ms)"
| "sprint fl (GOpaque s) = s"
| "sprint_list fl [] = []"
| "sprint_list fl (v # vs) = sprint fl v # sprint_list fl vs"
| "sprint_entries fl [] = []"
| "sprint_entries fl ((k, v) # m) = (k, sprint fl v) # sprint_entries fl m"
| "sprint_maps fl [] = []"
| "sprint_maps fl (m # ms) = map_text (sprint_entries fl m) # sprint_maps fl ms"

text \<open>
  \<^verbatim>\<open>[]rune(s)\<close>, each rune as its own UTF-8 text: a byte that starts no valid encoding is the
  rune U+FFFD.
\<close>

definition byte_in :: "nat \<Rightarrow> nat \<Rightarrow> string \<Rightarrow> nat \<Rightarrow> bool" where
  "byte_in lo hi s i = (i < length s \<and> lo \<le> of_char (s ! i) \<and> of_char (s ! i) \<le> hi)"

definition rune_length :: "string \<Rightarrow> nat option" where
  "rune_length s =
     (if byte_in 0 0x7F s 0 then Some 1
      else if byte_in 0xC2 0xDF s 0 then (if byte_in 0x80 0xBF s 1 then Some 2 else None)
      else if byte_in 0xE0 0xEF s 0 then
        (if byte_in (if byte_in 0xE0 0xE0 s 0 then 0xA0 else 0x80)
                    (if byte_in 0xED 0xED s 0 then 0x9F else 0xBF) s 1 \<and> byte_in 0x80 0xBF s 2
         then Some 3 else None)
      else if byte_in 0xF0 0xF4 s 0 then
        (if byte_in (if byte_in 0xF0 0xF0 s 0 then 0x90 else 0x80)
                    (if byte_in 0xF4 0xF4 s 0 then 0x8F else 0xBF) s 1 \<and>
            byte_in 0x80 0xBF s 2 \<and> byte_in 0x80 0xBF s 3
         then Some 4 else None)
      else None)"

fun runes :: "string \<Rightarrow> string list" where
  "runes [] = []"
| "runes (c # s) =
     (case rune_length (c # s) of
        None \<Rightarrow> [CHR 0xEF, CHR 0xBF, CHR 0xBD] # runes s
      | Some n \<Rightarrow> (c # take (n - 1) s) # runes (drop (n - 1) s))"

section \<open>Tokens\<close>

fun getNested :: "gany \<Rightarrow> string list \<Rightarrow> gany" where
  "getNested cur [] = cur"
| "getNested cur (p # ps) =
     (case cur of
        GMap mm \<Rightarrow> getNested (case map_of mm p of None \<Rightarrow> GNil | Some v \<Rightarrow> v) ps
      | _ \<Rightarrow> GNil)"

definition row_value :: "(string, gany) gomap \<Rightarrow> string \<Rightarrow> gany" where
  "row_value row path =
     (case map_of row path of Some v \<Rightarrow> v | None \<Rightarrow> getNested (GMap row) (split_char (CHR ''.'') path))"

text \<open>
  \<^verbatim>\<open>reToken\<close>: a path in braces, and an index or a range in brackets if one follows. The indexes
  are natural numbers; the code's \<^verbatim>\<open>Atoi\<close> stops at the greatest \<^verbatim>\<open>int\<close>, which is past the end of
  every string, too.
\<close>

definition token_char :: "char \<Rightarrow> bool" where
  "token_char c = (isIdentPart c \<or> c = CHR ''.'')"

type_synonym token_index = "(nat \<times> nat option) option"

definition read_index :: "string \<Rightarrow> token_index \<times> string" where
  "read_index s =
     (case s of
        [] \<Rightarrow> (None, s)
      | b # t \<Rightarrow>
          if b \<noteq> CHR ''['' \<or> takeWhile is_digit t = [] then (None, s)
          else
            (let i = read_digits (takeWhile is_digit t); r = dropWhile is_digit t
             in if has_prefix r '']'' then (Some (i, None), drop 1 r)
                else if has_prefix r ''..'' then
                  (let ds = takeWhile is_digit (drop 2 r); r' = dropWhile is_digit (drop 2 r)
                   in if ds \<noteq> [] \<and> has_prefix r' '']'' then (Some (i, Some (read_digits ds)), drop 1 r')
                      else (None, s))
                else (None, s)))"

definition next_token :: "string \<Rightarrow> (string \<times> token_index \<times> string) option" where
  "next_token s =
     (case s of
        [] \<Rightarrow> None
      | b # t \<Rightarrow>
          (let path = takeWhile token_char t; r = dropWhile token_char t
           in if b = CHR ''{'' \<and> path \<noteq> [] \<and> has_prefix r ''}'' then Some (path, read_index (drop 1 r))
              else None))"

definition token_value :: "float_text \<Rightarrow> (string, gany) gomap \<Rightarrow> string \<Rightarrow> token_index \<Rightarrow> string" where
  "token_value fl row path idx =
     (let val = row_value row path; s = sprint fl val; rs = runes s
      in if val = GNil then []
         else (case idx of
                 None \<Rightarrow> s
               | Some (i, None) \<Rightarrow> if i < length rs then rs ! i else []
               | Some (i, Some j) \<Rightarrow>
                   (let j' = min j (length rs) in if i \<ge> j' then [] else concat (take (j' - i) (drop i rs)))))"

lemma read_index_length: "length (snd (read_index s)) \<le> length s"
proof (cases s)
  case (Cons b t)
  define r where "r = dropWhile is_digit t"
  define r' where "r' = dropWhile is_digit (drop 2 r)"
  have "length r \<le> length t" unfolding r_def by (rule length_dropWhile_le)
  moreover have "length r' \<le> length (drop 2 r)" unfolding r'_def by (rule length_dropWhile_le)
  moreover have "snd (read_index s) \<in> {s, drop 1 r, drop 1 r'}"
    unfolding read_index_def Cons list.case Let_def r_def [symmetric] r'_def [symmetric]
    by (simp only: if_distrib [of snd] snd_conv) (simp split: if_split)
  ultimately show ?thesis by (auto simp: Cons)
qed (simp add: read_index_def)

lemma next_token_length: "next_token s = Some (p, i, r) \<Longrightarrow> length r < length s"
proof (cases s)
  case (Cons b t)
  assume "next_token s = Some (p, i, r)"
  then have "(i, r) = read_index (drop 1 (dropWhile token_char t))"
    by (simp add: next_token_def Cons Let_def split: if_splits)
  then have "length r \<le> length (drop 1 (dropWhile token_char t))" using read_index_length by (metis snd_conv)
  also have "\<dots> \<le> length t" using length_dropWhile_le [of token_char t] by simp
  finally show ?thesis by (simp add: Cons)
qed (simp add: next_token_def)

function subst_tokens :: "float_text \<Rightarrow> (string, gany) gomap \<Rightarrow> string \<Rightarrow> string" where
  "subst_tokens fl row [] = []"
| "subst_tokens fl row (c # s) =
     (case next_token (c # s) of
        None \<Rightarrow> c # subst_tokens fl row s
      | Some (path, idx, rest) \<Rightarrow> token_value fl row path idx @ subst_tokens fl row rest)"
  by pat_completeness auto
termination
  by (relation "measure (\<lambda>(fl, row, s). length s)") (auto dest: next_token_length)

section \<open>Conditions\<close>

text \<open>The value of a literal: \<^verbatim>\<open>parseLiteral\<close>, whose error is always nil.\<close>

definition is_quoted :: "string \<Rightarrow> bool" where
  "is_quoted s = (length s \<ge> 2 \<and> (hd s = CHR 0x22 \<and> last s = CHR 0x22 \<or> hd s = CHR 0x27 \<and> last s = CHR 0x27))"

definition unquoteIfQuoted :: "string \<Rightarrow> string" where
  "unquoteIfQuoted s0 = (let s = trim_space s0 in if is_quoted s then butlast (tl s) else s)"

definition isNullLiteral :: "string \<Rightarrow> bool" where
  "isNullLiteral s = (to_lower (trim_space s) = ''null'')"

definition parseLiteral :: "float_text \<Rightarrow> string \<Rightarrow> gany" where
  "parseLiteral fl s0 =
     (let s = trim_space s0
      in if s = ''null'' then GNil
         else if s = ''true'' then GBool True
         else if s = ''false'' then GBool False
         else if is_quoted s then GStr (butlast (tl s))
         else (case atoi s of
                 Some i \<Rightarrow> GFloat (float_of_int i)
               | None \<Rightarrow> (case ReadFloat fl s of Some w \<Rightarrow> GFloat w | None \<Rightarrow> GStr s)))"

definition toNumber :: "float_text \<Rightarrow> gany \<Rightarrow> 64 word option" where
  "toNumber fl v =
     (case v of
        GInt i \<Rightarrow> Some (float_of_int i)
      | GFloat w \<Rightarrow> Some w
      | GStr s \<Rightarrow> ReadFloat fl s
      | _ \<Rightarrow> None)"

definition toString :: "float_text \<Rightarrow> gany \<Rightarrow> string" where
  "toString fl v = (if v = GNil then [] else sprint fl v)"

definition isTruthy :: "gany \<Rightarrow> bool" where
  "isTruthy v =
     (case v of
        GNil \<Rightarrow> False
      | GBool b \<Rightarrow> b
      | GStr s \<Rightarrow> s \<noteq> []
      | GInt i \<Rightarrow> \<not> float_eq (float_of_int i) 0
      | GFloat w \<Rightarrow> \<not> float_eq w 0
      | _ \<Rightarrow> True)"

text \<open>The operators, in the order in which the regular expression tries them.\<close>

definition operators :: "string list" where
  "operators = [''=='', ''='', ''!='', ''>='', ''<='', ''>'', ''<'']"

definition op_at :: "string \<Rightarrow> string option" where
  "op_at s = find (has_prefix s) operators"

text \<open>The first operator, with what stands before and after it; \<^verbatim>\<open>=\<close> is \<^verbatim>\<open>==\<close>.\<close>

fun find_op :: "string \<Rightarrow> (string \<times> string \<times> string) option" where
  "find_op [] = None"
| "find_op (c # s) =
     (case op_at (c # s) of
        Some oper \<Rightarrow> Some ([], (if oper = ''='' then ''=='' else oper), drop (length oper) (c # s))
      | None \<Rightarrow> map_option (\<lambda>(l, oper, r). (c # l, oper, r)) (find_op s))"

definition compare_by ::
  "('a \<Rightarrow> 'a \<Rightarrow> bool) \<Rightarrow> ('a \<Rightarrow> 'a \<Rightarrow> bool) \<Rightarrow> ('a \<Rightarrow> 'a \<Rightarrow> bool) \<Rightarrow> string \<Rightarrow> 'a \<Rightarrow> 'a \<Rightarrow> bool" where
  "compare_by eq lt le oper x y =
     (if oper = ''=='' then eq x y
      else if oper = ''!='' then \<not> eq x y
      else if oper = ''>'' then lt y x
      else if oper = ''>='' then le y x
      else if oper = ''<'' then lt x y
      else if oper = ''<='' then le x y
      else False)"

definition compareValues :: "float_text \<Rightarrow> gany \<Rightarrow> string \<Rightarrow> gany \<Rightarrow> bool" where
  "compareValues fl lv oper rv =
     (case (toNumber fl lv, toNumber fl rv) of
        (Some ln, Some rn) \<Rightarrow> compare_by float_eq float_lt float_le oper ln rn
      | _ \<Rightarrow>
         (case (lv, rv) of
            (GBool lb, GBool rb) \<Rightarrow>
              if oper = ''=='' then lb = rb else if oper = ''!='' then lb \<noteq> rb else False
          | _ \<Rightarrow> compare_by (=) (<) (\<le>) oper (toString fl lv) (toString fl rv)))"

text \<open>\<^verbatim>\<open>evalCondition\<close>; the only error is that of an empty condition, \<open>None\<close>.\<close>

definition evalCondition :: "float_text \<Rightarrow> string \<Rightarrow> (string, gany) gomap \<Rightarrow> bool option" where
  "evalCondition fl cond0 row =
     (let cond = trim_space cond0
      in if cond = [] then None
         else (case find_op cond of
                 None \<Rightarrow> Some (isTruthy (row_value row cond))
               | Some (l, oper, r) \<Rightarrow>
                   Some (compareValues fl (row_value row (trim_space l)) oper (parseLiteral fl (trim_space r)))))"

section \<open>Ternaries\<close>

definition is_quote :: "char \<Rightarrow> bool" where
  "is_quote c = (c = CHR 0x22 \<or> c = CHR 0x27)"

text \<open>
  The block of a ternary up to the brace that closes it, and what follows; \<open>None\<close> when no brace
  does. \<open>q\<close> is the quote the scan is in and \<open>prev\<close> the byte before.
\<close>

fun tern_block :: "nat \<Rightarrow> char option \<Rightarrow> char \<Rightarrow> string \<Rightarrow> (string \<times> string) option" where
  "tern_block depth q prev [] = None"
| "tern_block depth q prev (c # s) =
     (if q = None \<and> c = CHR ''}'' \<and> depth = 1 then Some ([], s)
      else map_option (\<lambda>(b, rest). (c # b, rest))
        (case q of
           Some qc \<Rightarrow> tern_block depth (if c = qc \<and> prev \<noteq> CHR 0x5C then None else q) c s
         | None \<Rightarrow>
             if is_quote c then tern_block depth (Some c) c s
             else if c = CHR ''{'' then tern_block (depth + 1) None c s
             else if c = CHR ''}'' then tern_block (depth - 1) None c s
             else tern_block depth None c s))"

text \<open>The positions of the first question mark and the first colon after it, outside quotes and braces.\<close>

fun top_marks ::
  "nat \<Rightarrow> char option \<Rightarrow> nat \<Rightarrow> char \<Rightarrow> nat option \<Rightarrow> string \<Rightarrow> (nat \<times> nat) option" where
  "top_marks i q depth prev qPos [] = None"
| "top_marks i q depth prev qPos (c # s) =
     (case q of
        Some qc \<Rightarrow> top_marks (i + 1) (if c = qc \<and> prev \<noteq> CHR 0x5C then None else q) depth c qPos s
      | None \<Rightarrow>
          if is_quote c then top_marks (i + 1) (Some c) depth c qPos s
          else if c = CHR ''{'' then top_marks (i + 1) None (depth + 1) c qPos s
          else if c = CHR ''}'' then top_marks (i + 1) None (depth - 1) c qPos s
          else if c = CHR ''?'' \<and> depth = 0 \<and> qPos = None then top_marks (i + 1) None depth c (Some i) s
          else if c = CHR '':'' \<and> depth = 0 \<and> qPos \<noteq> None then Some (the qPos, i)
          else top_marks (i + 1) None depth c qPos s)"

definition split_ternary :: "string \<Rightarrow> (string \<times> string \<times> string) option" where
  "split_ternary block =
     map_option (\<lambda>(q, c). (trim_space (take q block), trim_space (take (c - q - 1) (drop (q + 1) block)),
                           trim_space (drop (c + 1) block)))
       (top_marks 0 None 0 (CHR ''?'') None block)"

lemma trim_space_length: "length (trim_space s) \<le> length s"
  using suffix_length_le [OF trim_left_suffix [of s]] suffix_length_le [OF trim_left_rev_suffix [of "rev (trim_left s)"]]
  by (simp add: trim_space_def)

lemma unquote_length: "length (unquoteIfQuoted s) \<le> length s"
  using trim_space_length [of s] by (auto simp: unquoteIfQuoted_def Let_def)

lemma tern_block_length:
  "tern_block d q p s = Some (b, rest) \<Longrightarrow> length b + length rest < length s"
  by (induction d q p s arbitrary: b rest rule: tern_block.induct)
     (fastforce split: if_splits option.splits)+

lemma split_ternary_length:
  assumes "split_ternary block = Some (c, t, e)"
  shows "length t < length block \<and> length e < length block"
proof -
  have ne: "block \<noteq> []" using assms by (auto simp: split_ternary_def)
  obtain i j where "t = trim_space (take (j - i - 1) (drop (i + 1) block))" "e = trim_space (drop (j + 1) block)"
    using assms by (auto simp: split_ternary_def)
  moreover have "length (take (j - i - 1) (drop (i + 1) block)) < length block"
    "length (drop (j + 1) block) < length block" using ne by (cases block; simp)+
  ultimately show ?thesis using trim_space_length le_less_trans by metis
qed

text \<open>
  \<^verbatim>\<open>applyFormatter\<close>, \<^verbatim>\<open>replaceTernaries\<close> and \<^verbatim>\<open>evalTernaryBlock\<close> call one another. The branch that
  a ternary chooses is a template of its own.
\<close>

function applyFormatter :: "float_text \<Rightarrow> string \<Rightarrow> (string, gany) gomap \<Rightarrow> string"
  and replaceTernaries :: "float_text \<Rightarrow> string \<Rightarrow> (string, gany) gomap \<Rightarrow> string"
  and evalTernaryBlock :: "float_text \<Rightarrow> string \<Rightarrow> (string, gany) gomap \<Rightarrow> string" where
  "applyFormatter fl fmtStr row = subst_tokens fl row (replaceTernaries fl fmtStr row)"
| "replaceTernaries fl [] row = []"
| "replaceTernaries fl (c # s) row =
     (if c = CHR ''{'' \<and> has_prefix s ''?'' then
        (case tern_block 1 None (CHR ''?'') (drop 1 s) of
           None \<Rightarrow> c # s
         | Some (block, rest) \<Rightarrow> evalTernaryBlock fl block row @ replaceTernaries fl rest row)
      else c # replaceTernaries fl s row)"
| "evalTernaryBlock fl block row =
     (case split_ternary block of
        None \<Rightarrow> ''{?'' @ block @ ''}''
      | Some (cond, thenStr, elseStr) \<Rightarrow>
          (let chosen = (if evalCondition fl cond row = Some True then thenStr else elseStr)
           in if isNullLiteral chosen then [] else applyFormatter fl (unquoteIfQuoted chosen) row))"
  by pat_completeness auto
termination
proof (relation "measure (case_sum (\<lambda>(fl, s, row). 2 * length s + 1)
    (case_sum (\<lambda>(fl, s, row). 2 * length s) (\<lambda>(fl, s, row). 2 * length s + 1)))", goal_cases)
  case (3 fl c s row x block rest)
  then show ?case using tern_block_length [of 1 None "CHR ''?''" "drop 1 s" block rest] by simp
next
  case (4 fl c s row x block rest)
  then show ?case using tern_block_length [of 1 None "CHR ''?''" "drop 1 s" block rest] by simp
next
  case (6 fl block row x cond y thenStr elseStr chosen)
  then show ?case
    using split_ternary_length [of block cond thenStr elseStr] unquote_length [of chosen] by (auto split: if_splits)
qed simp_all

declare applyFormatter.simps [simp del] evalTernaryBlock.simps [simp del]

section \<open>Templates of tokens\<close>

text \<open>A template as the list of its pieces, its text, and what it means for a row.\<close>

datatype piece = Lit string | Tok string token_index

fun index_text :: "token_index \<Rightarrow> string" where
  "index_text None = []"
| "index_text (Some (i, None)) = ''['' @ show_nat i @ '']''"
| "index_text (Some (i, Some j)) = ''['' @ show_nat i @ ''..'' @ show_nat j @ '']''"

fun piece_text :: "piece \<Rightarrow> string" where
  "piece_text (Lit t) = t"
| "piece_text (Tok path idx) = ''{'' @ path @ ''}'' @ index_text idx"

fun piece_value :: "float_text \<Rightarrow> (string, gany) gomap \<Rightarrow> piece \<Rightarrow> string" where
  "piece_value fl row (Lit t) = t"
| "piece_value fl row (Tok path idx) = token_value fl row path idx"

definition template :: "piece list \<Rightarrow> string" where
  "template ps = concat (map piece_text ps)"

fun pieces_ok :: "piece list \<Rightarrow> bool" where
  "pieces_ok [] = True"
| "pieces_ok (Lit t # ps) = (CHR ''{'' \<notin> set t \<and> pieces_ok ps)"
| "pieces_ok (Tok path idx # ps) =
     (path \<noteq> [] \<and> list_all token_char path \<and>
      (idx = None \<longrightarrow> \<not> has_prefix (template ps) ''['') \<and> pieces_ok ps)"

lemma digits_span:
  assumes "\<not> is_digit c"
  shows "takeWhile is_digit (show_nat n @ c # s) = show_nat n" "dropWhile is_digit (show_nat n @ c # s) = c # s"
  using show_nat_digits [of n] assms by (auto simp: list_all_iff takeWhile_append2 dropWhile_append2)

lemma read_index_text:
  assumes "idx = None \<Longrightarrow> \<not> has_prefix s ''[''"
  shows "read_index (index_text idx @ s) = (idx, s)"
proof -
  have d: "\<not> is_digit CHR '']''" "\<not> is_digit CHR ''.''" by (simp_all add: is_digit_def)
  have n: "show_nat n \<noteq> []" "read_digits (show_nat n) = n" for n using show_nat_digits [of n] by simp_all
  show ?thesis
  proof (cases idx rule: index_text.cases)
    case 1
    then show ?thesis using assms by (cases s) (auto simp: read_index_def has_prefix_def)
  next
    case (2 i)
    then show ?thesis by (simp add: read_index_def digits_span d n has_prefix_def)
  next
    case (3 i j)
    then show ?thesis by (simp add: read_index_def digits_span d n has_prefix_def)
  qed
qed

lemma token_span:
  assumes "list_all token_char path"
  shows "takeWhile token_char (path @ CHR ''}'' # s) = path" "dropWhile token_char (path @ CHR ''}'' # s) = CHR ''}'' # s"
proof -
  have "\<not> token_char CHR ''}''" by (simp add: token_char_def isIdentPart_def isIdentStart_def is_digit_def)
  then show "takeWhile token_char (path @ CHR ''}'' # s) = path" "dropWhile token_char (path @ CHR ''}'' # s) = CHR ''}'' # s"
    using assms by (auto simp: list_all_iff takeWhile_append2 dropWhile_append2)
qed

lemma next_token_text:
  assumes "path \<noteq> []" "list_all token_char path" "idx = None \<Longrightarrow> \<not> has_prefix s ''[''"
  shows "next_token (piece_text (Tok path idx) @ s) = Some (path, idx, s)"
  using assms read_index_text [OF assms(3)]
  by (simp add: next_token_def token_span has_prefix_def)

lemma subst_tokens_lit:
  "CHR ''{'' \<notin> set t \<Longrightarrow> subst_tokens fl row (t @ s) = t @ subst_tokens fl row s"
  by (induction t) (auto simp: next_token_def)

lemma subst_tokens_template:
  "pieces_ok ps \<Longrightarrow> subst_tokens fl row (template ps) = concat (map (piece_value fl row) ps)"
proof (induction ps rule: pieces_ok.induct)
  case 1
  then show ?case by (simp add: template_def)
next
  case (2 t ps)
  then show ?case by (simp add: template_def subst_tokens_lit)
next
  case (3 path idx ps)
  have "next_token (piece_text (Tok path idx) @ template ps) = Some (path, idx, template ps)"
    by (rule next_token_text) (use 3(2) in auto)
  moreover obtain s where "piece_text (Tok path idx) @ template ps = CHR ''{'' # s" by simp
  ultimately have "subst_tokens fl row (piece_text (Tok path idx) @ template ps) =
      token_value fl row path idx @ subst_tokens fl row (template ps)"
    by simp
  then show ?case using 3 by (simp add: template_def)
qed

lemma replaceTernaries_lit:
  "CHR ''{'' \<notin> set t \<Longrightarrow> replaceTernaries fl (t @ s) row = t @ replaceTernaries fl s row"
  by (induction t) auto

lemma index_text_plain: "CHR ''{'' \<notin> set (index_text idx)"
proof -
  have "CHR ''{'' \<notin> set (show_nat n)" for n
    using show_nat_digits [of n] by (auto simp: list_all_iff is_digit_def)
  then show ?thesis by (cases idx rule: index_text.cases) auto
qed

lemma replaceTernaries_template: "pieces_ok ps \<Longrightarrow> replaceTernaries fl (template ps) row = template ps"
proof (induction ps rule: pieces_ok.induct)
  case 1
  then show ?case by (simp add: template_def)
next
  case (2 t ps)
  then show ?case by (simp add: template_def replaceTernaries_lit)
next
  case (3 path idx ps)
  have no: "\<not> token_char CHR ''{''" "\<not> token_char CHR ''?''"
    by (simp_all add: token_char_def isIdentPart_def isIdentStart_def is_digit_def)
  have p: "CHR ''{'' \<notin> set (path @ ''}'' @ index_text idx)"
    using 3(2) no(1) index_text_plain by (auto simp: list_all_iff)
  have q: "\<not> has_prefix (path @ s) ''?''" for s
    using 3(2) no(2) by (cases path) (auto simp: has_prefix_def)
  have "replaceTernaries fl (CHR ''{'' # (path @ ''}'' @ index_text idx) @ template ps) row =
      CHR ''{'' # (path @ ''}'' @ index_text idx) @ template ps"
    using replaceTernaries_lit [OF p, of fl "template ps" row] 3 q [of "''}'' @ index_text idx @ template ps"]
    by simp
  then show ?case by (simp add: template_def)
qed

section \<open>Ternaries with balanced parts\<close>

text \<open>
  A part of a ternary without quotes whose braces are balanced, with question marks and colons
  only inside braces.
\<close>

fun part_ok :: "nat \<Rightarrow> string \<Rightarrow> bool" where
  "part_ok d [] = (d = 0)"
| "part_ok d (c # s) =
     (if is_quote c then False
      else if c = CHR ''{'' then part_ok (d + 1) s
      else if c = CHR ''}'' then d > 0 \<and> part_ok (d - 1) s
      else if c = CHR ''?'' \<or> c = CHR '':'' then d > 0 \<and> part_ok d s
      else part_ok d s)"

lemma tern_block_prev: "tern_block d None p s = tern_block d None p' s"
  by (cases s) simp_all

lemma tern_block_part:
  assumes "part_ok d s" "k > 0"
  shows "tern_block (d + k) None p (s @ t) = map_option (\<lambda>(b, r). (s @ b, r)) (tern_block k None p t)"
  using assms
proof (induction d s arbitrary: p rule: part_ok.induct)
  case (1 d)
  then show ?case by (cases "tern_block k None p t") auto
next
  case (2 d c s)
  have "\<exists>d'. part_ok d' s \<and> tern_block (d + k) None p (c # s @ t) =
      map_option (\<lambda>(b, r). (c # b, r)) (tern_block (d' + k) None c (s @ t)) \<and>
      (\<forall>p. tern_block (d' + k) None p (s @ t) = map_option (\<lambda>(b, r). (s @ b, r)) (tern_block k None p t))"
    using 2 by (auto split: if_splits)
  then obtain d' where "tern_block (d + k) None p (c # s @ t) =
      map_option (\<lambda>(b, r). (c # b, r)) (map_option (\<lambda>(b, r). (s @ b, r)) (tern_block k None c t))" by metis
  then show ?case
    using tern_block_prev [of k c t p] by (simp add: option.map_comp comp_def case_prod_beta)
qed

lemma top_marks_part:
  assumes "part_ok d s"
  shows "top_marks i None d p qPos (s @ t) = top_marks (i + length s) None 0 p qPos t"
  using assms
proof (induction d s arbitrary: i p rule: part_ok.induct)
  case (1 d)
  then show ?case by simp
next
  case (2 d c s)
  have prev: "top_marks j None 0 c qPos t = top_marks j None 0 p qPos t" for j by (cases t) simp_all
  show ?case using 2 prev by (auto split: if_splits)
qed

lemma ternary_text:
  assumes "part_ok 0 cond" "part_ok 0 a" "part_ok 0 b"
  shows "tern_block 1 None p (cond @ ''?'' @ a @ '':'' @ b @ ''}'' @ rest) = Some (cond @ ''?'' @ a @ '':'' @ b, rest)"
    and "split_ternary (cond @ ''?'' @ a @ '':'' @ b) = Some (trim_space cond, trim_space a, trim_space b)"
proof -
  have step: "tern_block 1 None p (x @ t) = map_option (\<lambda>(b, r). (x @ b, r)) (tern_block 1 None p t)"
    if "part_ok 0 x" for x t p using tern_block_part [OF that, of 1 p t] by simp
  have chr: "tern_block 1 None p (c # t) = map_option (\<lambda>(b, r). (c # b, r)) (tern_block 1 None p t)"
    if "c = CHR ''?'' \<or> c = CHR '':''" for c t p
    using that tern_block_prev [of 1 c t p] by (auto simp: is_quote_def)
  show "tern_block 1 None p (cond @ ''?'' @ a @ '':'' @ b @ ''}'' @ rest) = Some (cond @ ''?'' @ a @ '':'' @ b, rest)"
    using step [OF assms(1), of p "''?'' @ a @ '':'' @ b @ ''}'' @ rest"] chr [of "CHR ''?''" p "a @ '':'' @ b @ ''}'' @ rest"]
      step [OF assms(2), of p "'':'' @ b @ ''}'' @ rest"] chr [of "CHR '':''" p "b @ ''}'' @ rest"]
      step [OF assms(3), of p "''}'' @ rest"] by simp
  have "top_marks 0 None 0 p None (cond @ ''?'' @ a @ '':'' @ b) = Some (length cond, length cond + 1 + length a)" for p
    using top_marks_part [OF assms(1), of 0 p None "''?'' @ a @ '':'' @ b"]
      top_marks_part [OF assms(2), of "length cond + 1" "CHR ''?''" "Some (length cond)" "'':'' @ b"]
    by (simp add: is_quote_def)
  then show "split_ternary (cond @ ''?'' @ a @ '':'' @ b) = Some (trim_space cond, trim_space a, trim_space b)"
    by (simp add: split_ternary_def)
qed

section \<open>Integers as floating-point numbers\<close>

lemma bit_length_bounds: "n > 0 \<Longrightarrow> 2 ^ (bit_length n - 1) \<le> n \<and> n < 2 ^ bit_length n \<and> bit_length n > 0"
proof (induction n rule: bit_length.induct)
  case (1 n)
  show ?case
  proof (cases "n = 1")
    case True
    then show ?thesis by (simp add: bit_length.simps)
  next
    case False
    with 1 have "n div 2 > 0" by linarith
    with 1 have IH: "2 ^ (bit_length (n div 2) - 1) \<le> n div 2" "n div 2 < 2 ^ bit_length (n div 2)"
      "bit_length (n div 2) > 0" by auto
    have b: "bit_length n = Suc (bit_length (n div 2))" using 1 by (simp add: bit_length.simps [of n])
    have "2 * 2 ^ (bit_length (n div 2) - 1) = (2 :: nat) ^ bit_length (n div 2)"
      using IH(3) by (simp add: power_eq_if)
    then have "(2 :: nat) ^ bit_length (n div 2) \<le> n" using IH(1) by linarith
    moreover have "n < 2 * 2 ^ bit_length (n div 2)" using IH(2) by linarith
    ultimately show ?thesis by (simp add: b)
  qed
qed

text \<open>Below \<open>2 ^ 53\<close> the significand is the number itself, shifted.\<close>

lemma float_bits_small:
  assumes "0 < n" "n < 2 ^ 53"
  obtains e where "e \<le> 52" "2 ^ e \<le> n" "n < 2 ^ Suc e" "float_bits n = (e + 1022) * 2 ^ 52 + n * 2 ^ (52 - e)"
    "2 ^ 52 \<le> n * 2 ^ (52 - e)" "n * 2 ^ (52 - e) < 2 ^ 53"
proof -
  define e where "e = bit_length n - 1"
  have b: "2 ^ e \<le> n" "n < 2 ^ Suc e" using bit_length_bounds [OF assms(1)] by (auto simp: e_def)
  have "(2 :: nat) ^ e < 2 ^ 53" using b(1) assms(2) by (rule le_less_trans)
  then have "e < 53" by (rule power_less_imp_less_exp [rotated]) simp
  then have e: "e \<le> 52" by simp
  then have s: "(2 :: nat) ^ 52 = 2 ^ e * 2 ^ (52 - e)" "(2 :: nat) ^ 53 = 2 ^ Suc e * 2 ^ (52 - e)"
    by (simp_all flip: power_add)
  show thesis
  proof (rule that)
    show "float_bits n = (e + 1022) * 2 ^ 52 + n * 2 ^ (52 - e)"
      unfolding float_bits_def Let_def e_def [symmetric] using assms(1) e by simp
    show "2 ^ 52 \<le> n * 2 ^ (52 - e)" unfolding s using b(1) by (rule mult_le_mono1)
    show "n * 2 ^ (52 - e) < 2 ^ 53" unfolding s using b(2) by simp
  qed (use b e in auto)
qed

lemma float_bits_less:
  assumes "m < n" "n < 2 ^ 53"
  shows "float_bits m < float_bits n"
proof (cases "m = 0")
  case True
  obtain e where "float_bits n = (e + 1022) * 2 ^ 52 + n * 2 ^ (52 - e)"
    using float_bits_small [of n] assms by auto
  then show ?thesis using True assms by (simp add: float_bits_def)
next
  case False
  then have m: "0 < m" "m < 2 ^ 53" and n: "0 < n" "n < 2 ^ 53" using assms by simp_all
  obtain e where e: "2 ^ e \<le> m" "m < 2 ^ Suc e" "float_bits m = (e + 1022) * 2 ^ 52 + m * 2 ^ (52 - e)"
    "m * 2 ^ (52 - e) < 2 ^ 53" by (rule float_bits_small [OF m])
  obtain f where f: "2 ^ f \<le> n" "n < 2 ^ Suc f" "float_bits n = (f + 1022) * 2 ^ 52 + n * 2 ^ (52 - f)"
    "2 ^ 52 \<le> n * 2 ^ (52 - f)" by (rule float_bits_small [OF n])
  have "(2 :: nat) ^ e < 2 ^ Suc f" using e(1) f(2) assms(1) by linarith
  then have "e \<le> f" using power_strict_increasing_iff [of "2 :: nat" e "Suc f"] by simp
  then consider "e = f" | "Suc e \<le> f" by linarith
  then show ?thesis
  proof cases
    case 1
    then show ?thesis using e(3) f(3) assms(1) by simp
  next
    case 2
    have "float_bits m < (e + 1022) * 2 ^ 52 + 2 ^ 53" using e(3,4) by linarith
    also have "\<dots> \<le> (f + 1022) * 2 ^ 52 + 2 ^ 52" using 2 by simp
    also have "\<dots> \<le> float_bits n" using f(3,4) by linarith
    finally show ?thesis .
  qed
qed

lemma float_bits_bound: "n < 2 ^ 53 \<Longrightarrow> float_bits n < 0x43F0000000000000"
proof (cases "n = 0")
  case False
  assume "n < 2 ^ 53"
  then obtain e where e: "e \<le> 52" "float_bits n = (e + 1022) * 2 ^ 52 + n * 2 ^ (52 - e)" "n * 2 ^ (52 - e) < 2 ^ 53"
    using float_bits_small [of n] False by auto
  have "(e + 1022) * 2 ^ 52 \<le> (1074 :: nat) * 2 ^ 52" using e(1) by (intro mult_le_mono1) simp
  then show ?thesis using e(2,3) by simp
qed (simp add: float_bits_def)

text \<open>The order of bit patterns that are no NaN.\<close>

lemma float_word:
  assumes "k < 0x43F0000000000000"
  shows "float_order (of_nat k) = int k" "float_order (of_nat k + 2 ^ 63) = - int k"
    "\<not> float_nan (of_nat k)" "\<not> float_nan (of_nat k + 2 ^ 63)"
proof -
  have k: "k < 2 ^ 63" "k < 2 ^ 64" using assms by simp_all
  have u: "unat (of_nat k :: 64 word) = k" using k by (simp add: unat_of_nat take_bit_nat_eq_self)
  have u': "unat (of_nat k + 2 ^ 63 :: 64 word) = k + 2 ^ 63"
    using k u by (simp add: unat_plus_if_size word_size)
  show "float_order (of_nat k) = int k"
    using k u by (simp add: float_order_def Let_def word_le_nat_alt uint_nat unsigned_take_bit_eq take_bit_nat_eq_self flip: of_nat_take_bit)
  have t: "take_bit 63 (k + 2 ^ 63) = k" using k by (simp add: take_bit_eq_mod)
  show "float_order (of_nat k + 2 ^ 63) = - int k"
    using k u' t by (simp add: float_order_def Let_def word_le_nat_alt uint_nat unsigned_take_bit_eq flip: of_nat_take_bit)
  have d: "k div 2 ^ 52 < 0x43F" using assms by (simp add: less_mult_imp_div_less)
  have "take_bit 11 (k div 2 ^ 52) \<noteq> (0x7FF :: nat)" using d by (simp add: take_bit_eq_mod)
  moreover have "take_bit 11 ((k + 2 ^ 63) div 2 ^ 52) \<noteq> (0x7FF :: nat)"
  proof -
    have "(k + 2 ^ 63) div 2 ^ 52 = k div 2 ^ 52 + 2 ^ 11"
      using div_mult_self1 [of "2 ^ 52 :: nat" k "2 ^ 11"] by (simp add: algebra_simps)
    then show ?thesis using d by (simp add: take_bit_eq_mod)
  qed
  moreover have "\<not> float_nan w" if "take_bit 11 (unat w div 2 ^ 52) \<noteq> 0x7FF" for w :: "64 word"
  proof
    assume "float_nan w"
    then have "unat (take_bit 11 (drop_bit 52 w)) = unat (0x7FF :: 64 word)" by (simp add: float_nan_def)
    also have "unat (take_bit 11 (drop_bit 52 w)) = take_bit 11 (unat w div 2 ^ 52)"
      by (simp only: unsigned_take_bit_eq unat_drop_bit_eq flip: drop_bit_eq_div [of 52 "unat w"])
    finally show False using that by simp
  qed
  ultimately show "\<not> float_nan (of_nat k)" "\<not> float_nan (of_nat k + 2 ^ 63)"
    unfolding u u' by (metis u, metis u')
qed

lemma float_of_int_order:
  assumes "\<bar>i\<bar> < 2 ^ 53"
  shows "float_order (float_of_int i) = (if i < 0 then - int (float_bits (nat (- i))) else int (float_bits (nat i)))"
    "\<not> float_nan (float_of_int i)"
proof -
  have k: "float_bits (nat \<bar>i\<bar>) < 0x43F0000000000000"
    by (rule float_bits_bound) (use assms in \<open>simp add: nat_less_iff\<close>)
  then show "float_order (float_of_int i) = (if i < 0 then - int (float_bits (nat (- i))) else int (float_bits (nat i)))"
    "\<not> float_nan (float_of_int i)"
    using float_word [OF k] by (auto simp: float_of_int_def)
qed

lemma float_order_less:
  assumes "\<bar>i\<bar> < 2 ^ 53" "\<bar>j\<bar> < 2 ^ 53"
  shows "float_order (float_of_int i) < float_order (float_of_int j) \<longleftrightarrow> i < j"
proof -
  have mono: "float_order (float_of_int i) < float_order (float_of_int j)"
    if "i < j" "\<bar>i\<bar> < 2 ^ 53" "\<bar>j\<bar> < 2 ^ 53" for i j
  proof -
    consider "0 \<le> i" | "j < 0" | "i < 0" "0 \<le> j" by linarith
    then show ?thesis
    proof cases
      case 1
      then have "float_bits (nat i) < float_bits (nat j)" using that by (intro float_bits_less) auto
      then show ?thesis using 1 that by (simp add: float_of_int_order)
    next
      case 2
      then have "float_bits (nat (- j)) < float_bits (nat (- i))" using that by (intro float_bits_less) auto
      then show ?thesis using 2 that by (simp add: float_of_int_order)
    next
      case 3
      have "0 = float_bits 0" by (simp add: float_bits_def)
      also have "\<dots> < float_bits (nat (- i))" using 3 that by (intro float_bits_less) auto
      finally show ?thesis using 3 that by (simp add: float_of_int_order)
    qed
  qed
  show ?thesis using mono [of i j] mono [of j i] assms by (cases i j rule: linorder_cases) auto
qed

lemma atoi_show_int: "\<bar>i\<bar> < 2 ^ 63 \<Longrightarrow> atoi (show_int i) = Some i"
proof (cases "i < 0")
  case True
  assume "\<bar>i\<bar> < 2 ^ 63"
  then show ?thesis using True show_nat_digits [of "nat (- i)"] by (simp add: atoi_def show_int_def)
next
  case False
  assume "\<bar>i\<bar> < 2 ^ 63"
  then have "nat i < 2 ^ 63" using False by (simp add: nat_less_iff)
  then show ?thesis using False atoi_show_nat [of "nat i"] by (simp add: show_int_def)
qed

lemma show_int_plain:
  "show_int i \<noteq> []" "list_all (\<lambda>c. is_digit c \<or> c = CHR ''-'') (show_int i)"
  using show_nat_digits [of "nat i"] show_nat_digits [of "nat (- i)"]
  by (auto simp: show_int_def list_all_iff)

lemma parseLiteral_show_int:
  assumes "\<bar>i\<bar> < 2 ^ 63"
  shows "parseLiteral fl (show_int i) = GFloat (float_of_int i)"
proof -
  let ?s = "show_int i"
  have c: "is_digit c \<or> c = CHR ''-''" if "c \<in> set ?s" for c
    using show_int_plain(2) [of i] that by (simp add: list_all_iff)
  have ends: "hd ?s \<in> set ?s" "last ?s \<in> set ?s" using show_int_plain(1) by simp_all
  have pl: "plain_char c" if "is_digit c \<or> c = CHR ''-''" for c
    using that by (auto simp: plain_char_def is_ascii_space_def is_digit_def)
  have "trim_space ?s = ?s" by (rule trim_space_plain) (use c ends pl in blast)
  moreover have "?s \<notin> {''null'', ''true'', ''false''}"
    using c [OF ends(1)] by (auto simp: is_digit_def)
  moreover have "\<not> is_quoted ?s" using c [OF ends(1)] by (auto simp: is_quoted_def is_digit_def)
  ultimately show ?thesis using atoi_show_int [OF assms] by (simp add: parseLiteral_def Let_def)
qed

lemma compareValues_ints:
  assumes "\<bar>i\<bar> < 2 ^ 53" "\<bar>j\<bar> < 2 ^ 53"
  shows "compareValues fl (GInt i) oper (parseLiteral fl (show_int j)) = compare_by (=) (<) (\<le>) oper i j"
proof -
  have j: "parseLiteral fl (show_int j) = GFloat (float_of_int j)"
    by (rule parseLiteral_show_int) (use assms(2) in simp)
  have "float_lt (float_of_int a) (float_of_int b) \<longleftrightarrow> a < b" "float_eq (float_of_int a) (float_of_int b) \<longleftrightarrow> a = b"
    if "\<bar>a\<bar> < 2 ^ 53" "\<bar>b\<bar> < 2 ^ 53" for a b
    using float_order_less [OF that] float_order_less [OF that(2,1)] that
    by (auto simp: float_lt_def float_eq_def float_of_int_order(2))
  then show ?thesis
    using assms by (auto simp: compareValues_def toNumber_def j compare_by_def float_le_def)
qed

section \<open>Properties\<close>

text \<open>
  C38. A template of text and tokens is filled piece by piece: the text is kept, every token is
  replaced by the value of its path, or by the rune or the range of runes its index selects, and
  nothing else is replaced (\<^verbatim>\<open>applyFormatter\<close>, \<^verbatim>\<open>reToken\<close>).
\<close>
theorem formatter_fills_tokens:
  assumes "pieces_ok ps"
  shows "applyFormatter fl (template ps) row = concat (map (piece_value fl row) ps)"
  using replaceTernaries_template [OF assms] subst_tokens_template [OF assms]
  by (simp add: applyFormatter.simps)

definition demo_floats :: float_text where
  "demo_floats = \<lparr>ShowFloat = \<lambda>w. ''1.5'', ReadFloat = \<lambda>s. None\<rparr>"

theorem formatter_fills_tokens_witness:
  "applyFormatter demo_floats ''Dr {org.name}[0..2], {age}''
     [(''org'', GMap [(''name'', GStr ''Riga'')]), (''age'', GInt (- 7))] = ''Dr Ri, -7''"
proof -
  let ?ps = "[Lit ''Dr '', Tok ''org.name'' (Some (0, Some 2)), Lit '', '', Tok ''age'' None]"
  have s: "show_nat 0 = ''0''" "show_nat 2 = ''2''" "show_nat 7 = ''7''" by code_simp+
  have "pieces_ok ?ps"
    by (simp add: template_def has_prefix_def token_char_def isIdentPart_def isIdentStart_def is_digit_def)
  from formatter_fills_tokens [OF this, of demo_floats "[(''org'', GMap [(''name'', GStr ''Riga'')]), (''age'', GInt (- 7))]"]
  have "applyFormatter demo_floats (template ?ps) [(''org'', GMap [(''name'', GStr ''Riga'')]), (''age'', GInt (- 7))] =
      concat (map (piece_value demo_floats [(''org'', GMap [(''name'', GStr ''Riga'')]), (''age'', GInt (- 7))]) ?ps)" .
  moreover have "template ?ps = ''Dr {org.name}[0..2], {age}''" by (simp add: template_def s)
  moreover have "concat (map (piece_value demo_floats [(''org'', GMap [(''name'', GStr ''Riga'')]), (''age'', GInt (- 7))]) ?ps) = ''Dr Ri, -7''"
    by code_simp
  ultimately show ?thesis by simp
qed

lemma formatter_ternary_aux:
  assumes "part_ok 0 cond" "part_ok 0 a" "part_ok 0 b"
    and "chosen = (if evalCondition fl (trim_space cond) row = Some True then trim_space a else trim_space b)"
  shows "applyFormatter fl (''{?'' @ cond @ ''?'' @ a @ '':'' @ b @ ''}'') row =
    (if isNullLiteral chosen then []
     else subst_tokens fl row (applyFormatter fl (unquoteIfQuoted chosen) row))"
proof -
  have "applyFormatter fl (''{?'' @ cond @ ''?'' @ a @ '':'' @ b @ ''}'') row =
      subst_tokens fl row (evalTernaryBlock fl (cond @ ''?'' @ a @ '':'' @ b) row)"
    using ternary_text(1) [OF assms(1-3), of "CHR ''?''" "[]"]
    by (subst applyFormatter.simps) (simp add: has_prefix_def)
  then show ?thesis
    using ternary_text(2) [OF assms(1-3)] by (simp add: evalTernaryBlock.simps assms(4) Let_def)
qed

text \<open>
  A ternary whose parts have balanced braces chooses by its condition, an error or a false
  value choosing the second branch; a branch \<^verbatim>\<open>null\<close> is empty, and any other is a template that is
  filled, after which its result is filled again (\<^verbatim>\<open>replaceTernaries\<close>, \<^verbatim>\<open>evalTernaryBlock\<close>).
\<close>
theorem formatter_ternary:
  assumes "part_ok 0 cond" "part_ok 0 a" "part_ok 0 b"
    and "chosen = (if evalCondition fl (trim_space cond) row = Some True then trim_space a else trim_space b)"
  shows "applyFormatter fl (''{?'' @ cond @ ''?'' @ a @ '':'' @ b @ ''}'') row =
    (if isNullLiteral chosen then []
     else subst_tokens fl row (applyFormatter fl (unquoteIfQuoted chosen) row))"
  using assms by (rule formatter_ternary_aux)

text \<open>What a row holds is therefore expanded like a template, when a ternary has put it there.\<close>

lemma formatter_expands_values:
  assumes "map_of row ''ok'' = Some (GBool True)" "map_of row ''name'' = Some (GStr v)"
  shows "applyFormatter fl ''{?ok?{name}:-}'' row = subst_tokens fl row v"
proof -
  have tok: "applyFormatter fl ''{name}'' row = v"
    using replaceTernaries_template [of "[Tok ''name'' None]" fl row] subst_tokens_template [of "[Tok ''name'' None]" fl row] assms(2)
    by (simp add: applyFormatter.simps template_def has_prefix_def token_char_def isIdentPart_def isIdentStart_def
        is_digit_def token_value_def row_value_def Let_def)
  have triv: "trim_space ''ok'' = ''ok''" "trim_space ''{name}'' = ''{name}''" "find_op ''ok'' = None"
    "part_ok 0 ''ok''" "part_ok 0 ''{name}''" "part_ok 0 ''-''" "\<not> isNullLiteral ''{name}''"
    "unquoteIfQuoted ''{name}'' = ''{name}''" by code_simp+
  have "evalCondition fl ''ok'' row = Some True"
    using assms(1) by (simp add: evalCondition_def Let_def triv row_value_def isTruthy_def del: find_op.simps)
  then show ?thesis
    using formatter_ternary_aux [OF triv(4-6) refl, of fl row] tok by (simp add: triv)
qed

theorem formatter_ternary_witness:
  "applyFormatter demo_floats ''{? age >= 18 ? {name} : null}'' [(''age'', GInt 20), (''name'', GStr ''Ann'')] = ''Ann''"
proof -
  let ?row = "[(''age'', GInt 20), (''name'', GStr ''Ann'')]"
  have p: "part_ok 0 '' age >= 18 ''" "part_ok 0 '' {name} ''" "part_ok 0 '' null''" by code_simp+
  have c: "(if evalCondition demo_floats (trim_space '' age >= 18 '') ?row = Some True then trim_space '' {name} ''
      else trim_space '' null'') = ''{name}''"
  proof -
    have t: "trim_space '' age >= 18 '' = ''age >= 18''" "trim_space '' {name} '' = ''{name}''"
      "trim_space ''age >= 18'' = ''age >= 18''" "find_op ''age >= 18'' = Some (''age '', ''>='', '' 18'')"
      "trim_space ''age '' = ''age''" "trim_space '' 18'' = show_int 18" "row_value ?row ''age'' = GInt 20"
      by code_simp+
    have "compareValues demo_floats (GInt 20) ''>='' (parseLiteral demo_floats (show_int 18))"
      using compareValues_ints [of 20 18 demo_floats "''>=''"] by (simp add: compare_by_def)
    then have "evalCondition demo_floats ''age >= 18'' ?row = Some True"
      by (simp only: evalCondition_def Let_def t option.case prod.case list.distinct if_False)
    then show ?thesis by (simp only: t if_True simp_thms)
  qed
  have v: "subst_tokens demo_floats ?row (applyFormatter demo_floats (unquoteIfQuoted ''{name}'') ?row) = ''Ann''"
    "\<not> isNullLiteral ''{name}''" by code_simp+
  show ?thesis using formatter_ternary [OF p refl, of demo_floats ?row] unfolding c using v by simp
qed

text \<open>
  A condition compares two integers below \<open>2 ^ 53\<close> exactly, although it compares them as
  floating-point numbers (\<^verbatim>\<open>compareValues\<close>, \<^verbatim>\<open>toNumber\<close>, \<^verbatim>\<open>parseLiteral\<close>). The bound is tight.
\<close>
theorem formatter_compares_integers:
  assumes "\<bar>i\<bar> < 2 ^ 53" "\<bar>j\<bar> < 2 ^ 53"
  shows "compareValues fl (GInt i) oper (parseLiteral fl (show_int j)) = compare_by (=) (<) (\<le>) oper i j"
  using assms by (rule compareValues_ints)

theorem formatter_compares_integers_witness:
  "\<not> compareValues demo_floats (GInt (- 9)) ''>='' (parseLiteral demo_floats (show_int 10))"
  using formatter_compares_integers [of "- 9" 10 demo_floats "''>=''"] by (simp add: compare_by_def)

lemma large_integers_collapse: "float_of_int (2 ^ 53 + 1) = float_of_int (2 ^ 53)"
  by (simp add: float_of_int_def float_bits_def bit_length.simps Let_def)

end
