(* ===== verification/Through_Request.thy ===== *)
theory Through_Request
  imports Linker "HOL-Library.Word"
begin

text \<open>
  The requests for related rows: \<^verbatim>\<open>types.go\<close>, \<^verbatim>\<open>parsecondition.go\<close> and \<^verbatim>\<open>MakeThroughRequest.go\<close> of
  \<^verbatim>\<open>internal/resolver\<close>.
\<close>

section \<open>Requests\<close>

record index_request =
  QModel :: string
  QPreset :: string
  QFilters :: gofilters
  QSorts :: "string list"
  QOffset :: "64 word"
  QLimit :: "64 word"
  UniqueBy :: string
  PresetObj :: "data_preset option"
  UnwrapField :: string

definition maxLimit :: "64 word" where
  "maxLimit = 1000"

section \<open>The order of a relation\<close>

text \<open>
  One part of \<^verbatim>\<open>order\<close>, the text between two commas: the column and the direction. A leading dot
  is dropped.
\<close>

definition order_part :: "string \<Rightarrow> (string \<times> string) option" where
  "order_part part =
     (let s = trim_space part; up = to_upper s;
          (s1, dir) = (if has_suffix up '' DESC'' then (trim_space (take (length s - 4) s), ''DESC'')
                       else if has_suffix up '' ASC'' then (trim_space (take (length s - 3) s), ''ASC'')
                       else (s, ''ASC''));
          s2 = (if has_prefix s1 ''.'' then drop 1 s1 else s1)
      in if s = [] \<or> s2 = [] then None else Some (s2, dir))"

definition sorts_by :: "string \<Rightarrow> string \<Rightarrow> bool" where
  "sorts_by target s = (case str_fields s of [] \<Rightarrow> False | fld # _ \<Rightarrow> to_lower fld = to_lower target)"

text \<open>\<open>prefx\<close> is empty or ends with a dot; the rows are put in a definite order by the key at last.\<close>

definition buildOrderSorts :: "string \<Rightarrow> string \<Rightarrow> string list" where
  "buildOrderSorts order0 prefx =
     (let order = trim_space order0; targetID = prefx @ ''id'';
          sorts = map (\<lambda>(s, dir). prefx @ s @ '' '' @ dir)
                    (List.map_filter order_part (split_char (CHR '','') order))
      in if order = [] then [targetID @ '' ASC'']
         else if list_ex (sorts_by targetID) sorts then sorts
         else sorts @ [targetID @ '' ASC''])"

section \<open>Conditions of relations\<close>

definition trim_set :: "char set \<Rightarrow> string \<Rightarrow> string" where
  "trim_set cs s = rev (dropWhile (\<lambda>c. c \<in> cs) (rev (dropWhile (\<lambda>c. c \<in> cs) s)))"

definition trim_quotes :: "string \<Rightarrow> string" where
  "trim_quotes s = trim_set {CHR 0x27, CHR 0x22} s"

text \<open>The operators in the order in which they are looked for, with the suffix of the filter key.\<close>

definition condition_ops :: "(string \<times> string) list" where
  "condition_ops =
     [(''<='', ''__lte''), (''>='', ''__gte''), (''<'', ''__lt''), (''>'', ''__gt''), ('' in '', ''__in''),
      ('' cnt '', ''__cnt''), ('' start '', ''__start''), ('' end '', ''__end''), (''='', ''__eq'')]"

definition parseCondition :: "string \<Rightarrow> (string \<times> gany) option" where
  "parseCondition cond0 =
     (let cond1 = trim_space cond0;
          cond = (if has_prefix cond1 ''.'' then drop 1 cond1 else cond1)
      in case find (\<lambda>(oper, suf). contains cond oper) condition_ops of
           None \<Rightarrow> None
         | Some (oper, suf) \<Rightarrow>
             (case split2 oper cond of
                (l, None) \<Rightarrow> None
              | (l, Some r) \<Rightarrow>
                  (let field = trim_space l; raw = trim_quotes (trim_space r)
                   in Some (field @ suf,
                        if oper = '' in ''
                        then GStrs (map (\<lambda>it. trim_quotes (trim_space it)) (split_char (CHR '','') raw))
                        else GStr raw))))"

section \<open>The request for the rows of a relation\<close>

datatype through_error =
    ThroughNil
  | NoUnwrapKey string string
  | NoNestedPreset string string

text \<open>The first \<^verbatim>\<open>belongs_to\<close> of the intermediate model that leads to the final model.\<close>

definition find_unwrap_key :: "model \<Rightarrow> string option \<Rightarrow> string option" where
  "find_unwrap_key through final =
     map_option fst (find (\<lambda>(key, r). RType r = ''belongs_to'' \<and> ModelRef r = final) (Relations through))"

definition key_field :: "string \<Rightarrow> preset_field" where
  "key_field fk = empty_field\<lparr>FSource := fk, FType := ''int'', FAlias := fk\<rparr>"

definition makeSyntheticPreset :: "data_preset \<Rightarrow> string \<Rightarrow> data_preset" where
  "makeSyntheticPreset orig fk =
     empty_preset\<lparr>PName := PName orig, Fields := key_field fk # Fields orig, FieldsAliasMap := FieldsAliasMap orig\<rparr>"

definition through_preset :: "string \<Rightarrow> string \<Rightarrow> string \<Rightarrow> string \<Rightarrow> data_preset" where
  "through_preset fk unwrapKey final nestedPreset =
     empty_preset\<lparr>PName := nestedPreset,
       Fields := [key_field fk,
                  empty_field\<lparr>FSource := unwrapKey, FType := ''preset'', FAlias := unwrapKey,
                    NestedPreset := nestedPreset, PresetRef := Some (final, nestedPreset)\<rparr>],
       FieldsAliasMap := Some \<lparr>PathToAlias = [(unwrapKey, ''t0'')], AliasToPath = [(''t0'', unwrapKey)]\<rparr>\<rparr>"

definition add_condition :: "(string \<Rightarrow> string) \<Rightarrow> string \<Rightarrow> gofilters \<Rightarrow> gofilters" where
  "add_condition f cond filters =
     (case parseCondition cond of
        None \<Rightarrow> filters
      | Some (key, val) \<Rightarrow> AList.update (f key) val filters)"

definition MakeThroughChildRequest ::
  "registry \<Rightarrow> model \<Rightarrow> model_relation \<Rightarrow> string \<Rightarrow> gany list \<Rightarrow> through_error + index_request" where
  "MakeThroughChildRequest reg parent rel nestedPreset parentIDs =
     (case (ThroughRef rel, deref reg (ThroughRef rel), ModelRef rel, deref reg (ModelRef rel)) of
        (Some throughName, Some through, Some finalName, Some final) \<Rightarrow>
          (let fk = (if is_blank (FK rel) then Table parent @ ''_id'' else trim_space (FK rel))
           in case find_unwrap_key through (ModelRef rel) of
                None \<Rightarrow> Inl (NoUnwrapKey (Table through) (Table final))
              | Some unwrapKey \<Rightarrow>
                  if unwrapKey = [] then Inl (NoUnwrapKey (Table through) (Table final))
                  else if map_of (Presets final) nestedPreset = None
                  then Inl (NoNestedPreset nestedPreset (Table final))
                  else Inr \<lparr>QModel = throughName, QPreset = [],
                        QFilters =
                          add_condition (\<lambda>key. unwrapKey @ ''.'' @ key) (RWhere rel)
                            (add_condition id (ThroughWhere rel) [(fk @ ''__in'', GList parentIDs)]),
                        QSorts = buildOrderSorts (ROrder rel) (unwrapKey @ ''.''),
                        QOffset = 0, QLimit = maxLimit, UniqueBy = [],
                        PresetObj = Some (through_preset fk unwrapKey finalName nestedPreset),
                        UnwrapField = unwrapKey\<rparr>)
      | _ \<Rightarrow> Inl ThroughNil)"

section \<open>Words and spaces\<close>

definition word_char :: "char \<Rightarrow> bool" where
  "word_char c = (isIdentPart c \<or> c = CHR ''.'')"

definition is_word :: "string \<Rightarrow> bool" where
  "is_word s = (s \<noteq> [] \<and> list_all word_char s)"

lemma word_char_plain: "word_char c \<Longrightarrow> plain_char c"
  by (auto simp: word_char_def isIdentPart_def isIdentStart_def is_digit_def plain_char_def is_ascii_space_def Let_def)

lemma word_char_not:
  "word_char c \<Longrightarrow> c \<notin> {CHR '' '', CHR ''<'', CHR ''>'', CHR ''='', CHR '','', CHR 0x27, CHR 0x22}"
  by (auto simp: word_char_def isIdentPart_def isIdentStart_def is_digit_def Let_def)

lemma is_word_notin:
  "is_word s \<Longrightarrow> c \<in> {CHR '' '', CHR ''<'', CHR ''>'', CHR ''='', CHR '','', CHR 0x27, CHR 0x22} \<Longrightarrow> c \<notin> set s"
  using word_char_not by (auto simp: is_word_def list_all_iff)

lemma is_word_clean:
  assumes "is_word s"
  shows "CHR '' '' \<notin> set s" "CHR ''<'' \<notin> set s" "CHR ''>'' \<notin> set s" "CHR ''='' \<notin> set s"
    "CHR '','' \<notin> set s" "CHR 0x27 \<notin> set s" "CHR 0x22 \<notin> set s" "s \<noteq> []"
proof -
  show "s \<noteq> []" using assms by (simp add: is_word_def)
qed (rule is_word_notin [OF assms], simp)+

lemma is_word_ends: "is_word s \<Longrightarrow> plain_char (hd s) \<and> plain_char (last s)"
  using word_char_plain by (auto simp: is_word_def list_all_iff)

lemma trim_left_space: "is_ascii_space c \<Longrightarrow> trim_left (c # s) = trim_left s"
  by (cases s rule: trim_left.cases) auto

lemma trim_left_rev_space: "is_ascii_space c \<Longrightarrow> trim_left_rev (c # s) = trim_left_rev s"
  by (cases s rule: trim_left_rev.cases) auto

lemma trim_word:
  assumes "is_word s"
  shows "trim_space s = s" "trim_space (s @ '' '') = s" "trim_space ('' '' @ s) = s"
proof -
  have e: "plain_char (hd s)" "plain_char (last s)" "s \<noteq> []"
    using is_word_ends [OF assms] assms by (auto simp: is_word_def)
  have sp: "is_ascii_space CHR '' ''" by (simp add: is_ascii_space_def)
  show s: "trim_space s = s" by (rule trim_space_plain) (use e in simp)
  show "trim_space (s @ '' '') = s"
    using e sp by (simp add: trim_space_def trim_left_plain trim_left_rev_space trim_left_rev_plain hd_rev)
  show "trim_space ('' '' @ s) = s"
    using s sp by (simp add: trim_space_def trim_left_space)
qed

lemma str_index_first:
  "sub \<noteq> [] \<Longrightarrow> hd sub \<notin> set a \<Longrightarrow> str_index sub (a @ sub @ b) = Some (length a)"
proof (induction a)
  case Nil
  then show ?case by (cases sub) simp_all
next
  case (Cons c a)
  then have "\<not> prefix sub (c # a @ sub @ b)" by (cases sub) auto
  then show ?case using Cons by simp
qed

lemma split2_first: "sub \<noteq> [] \<Longrightarrow> hd sub \<notin> set a \<Longrightarrow> split2 sub (a @ sub @ b) = (a, Some b)"
  using str_index_first [of sub a b] by (simp add: split2_def)

lemma contains_set: "contains s sub \<Longrightarrow> set sub \<subseteq> set s"
  unfolding contains_def by (auto dest!: str_index_split) (metis Un_iff set_append)

lemma split_char_concat: "split_char c (p @ c # s) = split_char c p @ split_char c s"
  by (induction p) (auto split: list.splits)

lemma contains_word:
  assumes "contains (f @ '' '' @ mid @ '' '' @ v) ('' '' @ w @ '' '')"
    and "CHR '' '' \<notin> set f \<union> set mid \<union> set v" "CHR '' '' \<notin> set w"
  shows "mid = w"
proof -
  let ?t = "f @ '' '' @ mid @ '' '' @ v"
  obtain i where "str_index ('' '' @ w @ '' '') ?t = Some i" using assms(1) by (auto simp: contains_def)
  from str_index_split [OF this] obtain x y where "?t = x @ '' '' @ w @ '' '' @ y" by (metis append_assoc)
  then have "split_char (CHR '' '') ?t = split_char (CHR '' '') x @ split_char (CHR '' '') w @ split_char (CHR '' '') y"
    by (simp add: split_char_concat)
  moreover have "split_char (CHR '' '') ?t = [f, mid, v]"
    using assms(2) by (simp add: split_char_append split_char_id)
  ultimately have "split_char (CHR '' '') x @ w # split_char (CHR '' '') y = [f, mid, v]"
    using assms(3) by (simp add: split_char_id)
  moreover have "split_char (CHR '' '') x \<noteq> []" "split_char (CHR '' '') y \<noteq> []" by simp_all
  ultimately show ?thesis
    by (cases "split_char (CHR '' '') x"; cases "tl (split_char (CHR '' '') x)") (auto simp: append_eq_Cons_conv)
qed

text \<open>A value as it may be written: bare or in quotes.\<close>

definition written :: "string \<Rightarrow> string set" where
  "written v = {v, [CHR 0x27] @ v @ [CHR 0x27], [CHR 0x22] @ v @ [CHR 0x22]}"

lemma trim_quotes_written:
  assumes "is_word v" "raw \<in> written v"
  shows "trim_quotes raw = v" "trim_space ('' '' @ raw) = raw" "trim_space raw = raw"
    "\<And>c. c \<in> {CHR '' '', CHR ''<'', CHR ''>'', CHR ''=''} \<Longrightarrow> c \<notin> set raw" "raw \<noteq> []" "plain_char (last raw)"
proof -
  let ?Q = "{CHR 0x27, CHR 0x22}"
  have q: "hd v \<notin> ?Q" "last v \<notin> ?Q" "v \<noteq> []"
  proof -
    have "x \<notin> ?Q" if "x \<in> set v" for x using that is_word_clean(6,7) [OF assms(1)] by auto
    then show "hd v \<notin> ?Q" "last v \<notin> ?Q" "v \<noteq> []" using is_word_clean(8) [OF assms(1)] hd_in_set last_in_set by blast+
  qed
  have gen: "dropWhile (\<lambda>c. c \<in> ?Q) (x @ s) = x @ s" if "x \<noteq> []" "hd x \<notin> ?Q" for x s
    using that by (cases x) simp_all
  have d: "dropWhile (\<lambda>c. c \<in> ?Q) (v @ s) = v @ s" "dropWhile (\<lambda>c. c \<in> ?Q) (rev v @ s) = rev v @ s" for s
  proof -
    have "rev v \<noteq> []" "hd (rev v) \<notin> ?Q" using q by (simp_all add: hd_rev)
    then show "dropWhile (\<lambda>c. c \<in> ?Q) (rev v @ s) = rev v @ s" by (rule gen)
    show "dropWhile (\<lambda>c. c \<in> ?Q) (v @ s) = v @ s" using q(3,1) by (rule gen)
  qed
  show "trim_quotes raw = v"
    using assms(2) d [of "[]"] d [of "[CHR 0x27]"] d [of "[CHR 0x22]"] by (auto simp: trim_quotes_def trim_set_def written_def)
  have "plain_char CHR 0x27" "plain_char CHR 0x22" by (simp_all add: plain_char_def is_ascii_space_def)
  then have e: "raw \<noteq> []" "plain_char (hd raw)" "plain_char (last raw)"
    using assms(2) is_word_ends [OF assms(1)] q(3) by (auto simp: written_def)
  then show t: "trim_space raw = raw" "raw \<noteq> []" "plain_char (last raw)" by (simp_all add: trim_space_plain)
  show "trim_space ('' '' @ raw) = raw"
    using t(1) trim_left_space [of "CHR '' ''" raw] by (simp add: trim_space_def is_ascii_space_def)
  show "c \<notin> set raw" if "c \<in> {CHR '' '', CHR ''<'', CHR ''>'', CHR ''=''}" for c
    using assms(2) is_word_notin [OF assms(1), of c] that by (auto simp: written_def)
qed

definition condition_words :: "(string \<times> string) list" where
  "condition_words =
     [(''<='', ''__lte''), (''>='', ''__gte''), (''<'', ''__lt''), (''>'', ''__gt''), (''in'', ''__in''),
      (''cnt'', ''__cnt''), (''start'', ''__start''), (''end'', ''__end''), (''='', ''__eq'')]"

definition op_text :: "string \<Rightarrow> string" where
  "op_text w = (if w \<in> {''in'', ''cnt'', ''start'', ''end''} then '' '' @ w @ '' '' else w)"

lemma symbol_op:
  assumes "(w, suf) \<in> set condition_words" "w \<notin> {''in'', ''cnt'', ''start'', ''end''}" "is_word f"
  shows "op_text w = w" "w \<noteq> []" "hd w \<notin> set (f @ '' '')"
proof -
  have "w \<noteq> [] \<and> hd w \<in> {CHR ''<'', CHR ''>'', CHR ''=''}"
    using assms(1,2) unfolding condition_words_def set_simps insert_iff empty_iff prod.inject
    by (elim disjE conjE FalseE; simp)
  then show "op_text w = w" "w \<noteq> []" "hd w \<notin> set (f @ '' '')"
    using assms(2) is_word_clean [OF assms(3)] by (auto simp: op_text_def)
qed

lemma find_condition_op:
  assumes "is_word f" "is_word v" "raw \<in> written v" "(w, suf) \<in> set condition_words"
  shows "find (\<lambda>(oper, suf). contains (f @ '' '' @ w @ '' '' @ raw) oper) condition_ops = Some (op_text w, suf)"
proof -
  define t where "t = f @ '' '' @ w @ '' '' @ raw"
  note raw = trim_quotes_written [OF assms(2,3)]
  have sp: "CHR '' '' \<notin> set f" "CHR '' '' \<notin> set raw" using is_word_clean [OF assms(1)] raw(4) by simp_all
  have w: "CHR '' '' \<notin> set w" "w \<noteq> []" using assms(4) by (auto simp: condition_words_def)
  have sym: "\<not> contains t p" if "c \<in> set p" "c \<in> {CHR ''<'', CHR ''>'', CHR ''=''}" "c \<notin> set w" for p c
    using contains_set [of t p] that is_word_notin [OF assms(1), of c] raw(4) [of c] by (auto simp: t_def)
  have n: "CHR ''<'' \<notin> set w \<Longrightarrow> \<not> contains t ''<=''" "CHR ''='' \<notin> set w \<Longrightarrow> \<not> contains t ''<=''"
    "CHR ''>'' \<notin> set w \<Longrightarrow> \<not> contains t ''>=''" "CHR ''='' \<notin> set w \<Longrightarrow> \<not> contains t ''>=''"
    "CHR ''<'' \<notin> set w \<Longrightarrow> \<not> contains t ''<''" "CHR ''>'' \<notin> set w \<Longrightarrow> \<not> contains t ''>''"
    "CHR ''='' \<notin> set w \<Longrightarrow> \<not> contains t ''=''"
    using sym [of "CHR ''<''"] sym [of "CHR ''>''"] sym [of "CHR ''=''"] by auto
  have wrd: "\<not> contains t ('' '' @ x @ '' '')" if "w \<noteq> x" "CHR '' '' \<notin> set x" for x
    using contains_word [of f w raw x] sp w that by (auto simp: t_def)
  have m: "w \<noteq> ''in'' \<Longrightarrow> \<not> contains t '' in ''" "w \<noteq> ''cnt'' \<Longrightarrow> \<not> contains t '' cnt ''"
    "w \<noteq> ''start'' \<Longrightarrow> \<not> contains t '' start ''" "w \<noteq> ''end'' \<Longrightarrow> \<not> contains t '' end ''"
    using wrd [of "''in''"] wrd [of "''cnt''"] wrd [of "''start''"] wrd [of "''end''"] by simp_all
  have here: "contains t (op_text w)"
  proof (cases "w \<in> {''in'', ''cnt'', ''start'', ''end''}")
    case True
    then have "op_text w = '' '' @ w @ '' ''" by (simp add: op_text_def)
    then show ?thesis using str_index_first [of "op_text w" f raw] sp by (simp add: contains_def t_def)
  next
    case False
    note o = symbol_op [OF assms(4) False assms(1)]
    show ?thesis using str_index_first [OF o(2,3), of "'' '' @ raw"] o(1) by (simp add: contains_def t_def)
  qed
  have "find (\<lambda>(oper, suf). contains t oper) condition_ops = Some (op_text w, suf)"
    using assms(4) unfolding condition_words_def set_simps insert_iff empty_iff prod.inject
    by (elim disjE conjE FalseE; insert here n m; hypsubst; simp add: condition_ops_def op_text_def)
  then show ?thesis unfolding t_def .
qed

text \<open>
  A condition of a relation made of a column, an operator and a value, bare or in quotes, is
  read as the filter on that column with the operator's suffix and that value
  (\<^verbatim>\<open>parseCondition\<close>); \<^verbatim>\<open>in\<close> gives a list.
\<close>
theorem condition_is_read:
  assumes "is_word f" "is_word v" "raw \<in> written v" "(w, suf) \<in> set condition_words"
  shows "parseCondition (''.'' @ f @ '' '' @ w @ '' '' @ raw) =
    Some (f @ suf, if w = ''in'' then GStrs [v] else GStr v)"
proof -
  let ?t = "f @ '' '' @ w @ '' '' @ raw"
  note raw = trim_quotes_written [OF assms(2,3)]
  have "plain_char CHR ''.''" by (simp add: plain_char_def is_ascii_space_def)
  then have "trim_space (''.'' @ ?t) = ''.'' @ ?t" by (intro trim_space_plain) (use raw(5,6) in simp)
  moreover have "split2 (op_text w) ?t =
      (if w \<in> {''in'', ''cnt'', ''start'', ''end''} then (f, Some raw) else (f @ '' '', Some ('' '' @ raw)))"
  proof (cases "w \<in> {''in'', ''cnt'', ''start'', ''end''}")
    case True
    then show ?thesis using split2_first [of "op_text w" f raw] is_word_clean [OF assms(1)] by (simp add: op_text_def)
  next
    case False
    note o = symbol_op [OF assms(4) False assms(1)]
    show ?thesis using False split2_first [OF o(2,3), of "'' '' @ raw"] o(1) by simp
  qed
  moreover have "split_char (CHR '','') v = [v]" using is_word_clean(5) [OF assms(2)] by (simp add: split_char_id)
  moreover have "op_text w = '' in '' \<longleftrightarrow> w = ''in''" using assms(4) by (auto simp: op_text_def condition_words_def)
  moreover have "trim_quotes v = v" using trim_quotes_written(1) [OF assms(2), of v] by (simp add: written_def)
  ultimately show ?thesis
    using find_condition_op [OF assms] trim_word [OF assms(1)] trim_word [OF assms(2)] raw(1-3)
    by (simp add: parseCondition_def Let_def has_prefix_def)
qed

theorem condition_is_read_witness:
  "parseCondition ''.used = true'' = Some (''used__eq'', GStr ''true'')"
proof -
  have "is_word ''used''" "is_word ''true''" "''true'' \<in> written ''true''" "(''='', ''__eq'') \<in> set condition_words"
    by code_simp+
  from condition_is_read [OF this] show ?thesis by simp
qed

text \<open>An operator inside the value is taken for that of the condition.\<close>

lemma operator_in_value:
  "parseCondition (''.name = '' @ [CHR 0x27] @ ''a<b'' @ [CHR 0x27]) =
   Some (''name = '' @ [CHR 0x27] @ ''a__lt'', GStr ''b'')"
  by code_simp

section \<open>The order is definite\<close>

lemma fields_plain: "plain_char a \<Longrightarrow> fields_acc acc (a # s) = fields_acc (a # acc) s"
  by (cases "(acc, a # s)" rule: fields_acc.cases)
     (auto simp: plain_char_def not_space2_plain not_space3_plain)

lemma fields_space: "is_ascii_space a \<Longrightarrow> fields_acc acc (a # s) = flush acc @ fields_acc [] s"
  by (cases "(acc, a # s)" rule: fields_acc.cases) (auto simp: flush_def)

lemma fields_word: "list_all plain_char w \<Longrightarrow> fields_acc acc (w @ s) = fields_acc (rev w @ acc) s"
  by (induction w arbitrary: acc) (simp_all add: fields_plain)

lemma first_field_word:
  assumes "is_word w"
  shows "\<exists>rest. str_fields (w @ '' '' @ s) = w # rest"
proof -
  have "list_all plain_char w" using assms word_char_plain by (auto simp: is_word_def list_all_iff)
  then have "str_fields (w @ '' '' @ s) = flush (rev w) @ fields_acc [] s"
    by (simp add: str_fields_def fields_word fields_space is_ascii_space_def)
  then show ?thesis using assms by (auto simp: flush_def is_word_def)
qed

lemma order_part_Some: "order_part part = Some (c, dir) \<Longrightarrow> c \<noteq> [] \<and> dir \<in> {''ASC'', ''DESC''}"
  by (auto simp: order_part_def Let_def split: if_splits)

text \<open>
  The rows of a relation come in a definite order: the sorts built from its \<^verbatim>\<open>order\<close> are never
  empty, each names a column under the prefix and a direction, and one of them is the key of the
  row, which breaks ties (\<^verbatim>\<open>buildOrderSorts\<close>).
\<close>
theorem order_sorts_definite:
  assumes "prefx = [] \<or> is_word prefx"
  shows "(\<exists>s \<in> set (buildOrderSorts order prefx). sorts_by (prefx @ ''id'') s) \<and>
    (\<forall>s \<in> set (buildOrderSorts order prefx).
       \<exists>c dir. s = prefx @ c @ '' '' @ dir \<and> c \<noteq> [] \<and> dir \<in> {''ASC'', ''DESC''})"
proof -
  let ?id = "(prefx @ ''id'') @ '' '' @ ''ASC''"
  define sorts where "sorts = map (\<lambda>(s, dir). prefx @ s @ '' '' @ dir)
                    (List.map_filter order_part (split_char (CHR '','') (trim_space order)))"
  have "is_word (prefx @ ''id'')"
    using assms by (auto simp: is_word_def word_char_def isIdentPart_def isIdentStart_def)
  from first_field_word [OF this, of "''ASC''"] have id: "sorts_by (prefx @ ''id'') ?id"
    by (auto simp: sorts_by_def)
  have form: "\<exists>c dir. ?id = prefx @ c @ '' '' @ dir \<and> c \<noteq> [] \<and> dir \<in> {''ASC'', ''DESC''}"
    by (rule exI [of _ "''id''"], rule exI [of _ "''ASC''"]) simp
  have forms: "\<exists>c dir. s = prefx @ c @ '' '' @ dir \<and> c \<noteq> [] \<and> dir \<in> {''ASC'', ''DESC''}" if s: "s \<in> set sorts" for s
  proof -
    obtain c dir part where "s = prefx @ c @ '' '' @ dir" "order_part part = Some (c, dir)"
      using s by (auto simp: sorts_def List.map_filter_def split: option.splits)
    then show ?thesis using order_part_Some by blast
  qed
  have "buildOrderSorts order prefx =
      (if trim_space order = [] then [?id]
       else if list_ex (sorts_by (prefx @ ''id'')) sorts then sorts else sorts @ [?id])"
    by (simp add: buildOrderSorts_def sorts_def Let_def)
  then show ?thesis using id form forms by (auto simp: list_ex_iff)
qed

theorem order_sorts_definite_witness:
  "\<exists>s \<in> set (buildOrderSorts ''.name DESC, .used'' ''person.''). sorts_by ''person.id'' s"
proof -
  have "''person.'' = [] \<or> is_word ''person.''" by code_simp
  from order_sorts_definite [OF this, of "''.name DESC, .used''"] show ?thesis by simp
qed

end
