(* ===== verification/Localization.thy ===== *)
theory Localization
  imports Model_Types
begin

text \<open>
  Localisation: \<^verbatim>\<open>internal/model/Localization.go\<close> and \<^verbatim>\<open>internal/resolver/locales.go\<close>. The active
  locale, its layouts and its dictionary are the state; reading the file and decoding the YAML are
  the argument of \<^verbatim>\<open>LoadLocales\<close>, and formatting a time by a layout is a parameter.
\<close>

section \<open>Dictionaries\<close>

text \<open>
  A key of a dictionary. Keys of Go's type \<^verbatim>\<open>any\<close> are equal when type and value are: the decoder
  gives an \<^verbatim>\<open>int\<close>, while the database driver gives integers of a definite size. \<open>KBad\<close> is a value
  that cannot be a key, such as a map: looking it up panics.
\<close>

datatype lkey = KStr string | KInt int | KSized int | KBool bool | KFloat "64 word" | KNil | KOther string | KBad

fun value_key :: "gany \<Rightarrow> lkey" where
  "value_key (GStr s) = KStr s"
| "value_key (GInt i) = KSized i"
| "value_key (GBool b) = KBool b"
| "value_key (GFloat w) = KFloat w"
| "value_key GNil = KNil"
| "value_key (GOpaque s) = KOther s"
| "value_key v = KBad"

text \<open>A decoded value: a string, a map, or another value by the text \<^verbatim>\<open>%v\<close> prints for it.\<close>

datatype raw_locale = RStr string | ROther string | RMap "(lkey \<times> raw_locale) list"

datatype locale_node = LNode (LValue: string) (LChildren: "(lkey \<times> locale_node) list option")

fun parse_node :: "raw_locale \<Rightarrow> locale_node"
  and parseNodeMap :: "(lkey \<times> raw_locale) list \<Rightarrow> (lkey \<times> locale_node) list" where
  "parse_node (RStr s) = LNode s None"
| "parse_node (ROther s) = LNode s None"
| "parse_node (RMap m) = LNode [] (Some (parseNodeMap m))"
| "parseNodeMap [] = []"
| "parseNodeMap ((k, v) # raw) = (k, parse_node v) # parseNodeMap raw"

record layout_settings =
  LDate :: string
  LTime :: string
  LDateTime :: string

record locale_state =
  ActiveLocale :: string
  ActiveLayouts :: layout_settings
  ActiveDict :: "(lkey, locale_node) gomap"

definition default_layouts :: layout_settings where
  "default_layouts = \<lparr>LDate = ''2006-01-02'', LTime = ''15:04:05'', LDateTime = ''2006-01-02 15:04:05''\<rparr>"

definition layout_or :: "(lkey \<times> raw_locale) list \<Rightarrow> string \<Rightarrow> string \<Rightarrow> string" where
  "layout_or v key old = (case map_of v (KStr key) of Some (RStr s) \<Rightarrow> if s \<noteq> [] then s else old | _ \<Rightarrow> old)"

definition set_layouts :: "raw_locale \<Rightarrow> layout_settings \<Rightarrow> layout_settings" where
  "set_layouts ls l =
     (case ls of
        RMap v \<Rightarrow> \<lparr>LDate = layout_or v ''date'' (LDate l), LTime = layout_or v ''ttime'' (LTime l),
                   LDateTime = layout_or v ''datetime'' (LDateTime l)\<rparr>
      | _ \<Rightarrow> l)"

text \<open>The second argument is the outcome of reading and of decoding the file.\<close>

datatype locale_error = CannotRead string | CannotUnmarshal string

definition LoadLocales ::
  "string \<Rightarrow> locale_error + (lkey \<times> raw_locale) list \<Rightarrow> locale_state \<Rightarrow> locale_error option \<times> locale_state" where
  "LoadLocales loc file st0 =
     (let st = st0\<lparr>ActiveLocale := loc, ActiveLayouts := default_layouts\<rparr>
      in case file of
           Inl e \<Rightarrow> (Some e, st)
         | Inr raw \<Rightarrow>
             (case map_of raw (KStr ''layoutSettings'') of
                None \<Rightarrow> (None, st\<lparr>ActiveDict := parseNodeMap raw\<rparr>)
              | Some ls \<Rightarrow>
                  (None, st\<lparr>ActiveLayouts := set_layouts ls default_layouts,
                            ActiveDict := parseNodeMap (AList.delete (KStr ''layoutSettings'') raw)\<rparr>)))"

text \<open>
  \<^verbatim>\<open>Translate\<close>: the translation of a path, or its last element. Below a leaf the code keeps looking
  in the map the leaf was in.
\<close>

fun translate_from :: "(lkey, locale_node) gomap \<Rightarrow> locale_node option \<Rightarrow> string list \<Rightarrow> locale_node option option" where
  "translate_from node cur [] = Some cur"
| "translate_from node cur (p # ps) =
     (case map_of node (KStr p) of
        None \<Rightarrow> None
      | Some nxt \<Rightarrow>
          translate_from (case LChildren nxt of Some ch \<Rightarrow> ch | None \<Rightarrow> node) (Some nxt) ps)"

definition Translate :: "locale_state \<Rightarrow> string list \<Rightarrow> string" where
  "Translate st path =
     (case translate_from (ActiveDict st) None path of
        Some (Some cur) \<Rightarrow> if LValue cur \<noteq> [] then LValue cur else last path
      | _ \<Rightarrow> last path)"

text \<open>\<^verbatim>\<open>Lookup\<close>: \<open>None\<close> is a panic, \<open>Some None\<close> is that there is no translation.\<close>

fun Lookup :: "locale_node \<Rightarrow> lkey list \<Rightarrow> string option option" where
  "Lookup n [] = Some (if LValue n \<noteq> [] then Some (LValue n) else None)"
| "Lookup n (k # ks) =
     (if k = KBad then None
      else case LChildren n of
        None \<Rightarrow> Some None
      | Some ch \<Rightarrow> (case map_of ch k of None \<Rightarrow> Some None | Some n' \<Rightarrow> Lookup n' ks))"

definition dict_lookup :: "(lkey, locale_node) gomap \<Rightarrow> string \<Rightarrow> lkey list \<Rightarrow> string option option" where
  "dict_lookup dict name keys =
     (case map_of dict (KStr name) of None \<Rightarrow> Some None | Some n \<Rightarrow> Lookup n keys)"

section \<open>Localising items\<close>

definition toIntKey :: "gany \<Rightarrow> int option" where
  "toIntKey v = (case v of GInt i \<Rightarrow> if i < 2 ^ 63 then Some i else None | _ \<Rightarrow> None)"

text \<open>\<open>fmt\<close> formats a time by a layout; it is \<open>None\<close> for any other value.\<close>

definition formatTemporal ::
  "(string \<Rightarrow> gany \<Rightarrow> string option) \<Rightarrow> layout_settings \<Rightarrow> string \<Rightarrow> gany \<Rightarrow> string option" where
  "formatTemporal fmt l kind v =
     (if kind = ''date'' then fmt (LDate l) v
      else if kind = ''time'' then fmt (LTime l) v
      else if kind = ''datetime'' then fmt (LDateTime l) v
      else None)"

text \<open>
  The look-ups for one name of a field: under the model and the preset, under the preset, under
  the name alone. The first that finds a text decides.
\<close>

definition try_next :: "string option option \<Rightarrow> string option option \<Rightarrow> string option option" where
  "try_next r next = (case r of Some None \<Rightarrow> next | _ \<Rightarrow> r)"

definition field_translation ::
  "(lkey, locale_node) gomap \<Rightarrow> string \<Rightarrow> string \<Rightarrow> string \<Rightarrow> string \<Rightarrow> gany \<Rightarrow> string option option" where
  "field_translation dict modelName presetName ty lookupKey v =
     try_next (dict_lookup dict modelName [KStr presetName, KStr lookupKey, value_key v])
       (try_next (dict_lookup dict presetName [KStr lookupKey, value_key v])
          (if ty = ''int'' then
             (case toIntKey v of None \<Rightarrow> Some None | Some k \<Rightarrow> dict_lookup dict lookupKey [KInt k])
           else dict_lookup dict lookupKey [value_key v]))"

fun first_translation ::
  "(lkey, locale_node) gomap \<Rightarrow> string \<Rightarrow> string \<Rightarrow> string \<Rightarrow> string list \<Rightarrow> gany \<Rightarrow> string option option" where
  "first_translation dict modelName presetName ty [] v = Some None"
| "first_translation dict modelName presetName ty (k # ks) v =
     try_next (field_translation dict modelName presetName ty k v)
       (first_translation dict modelName presetName ty ks v)"

definition localize_field ::
  "(string \<Rightarrow> gany \<Rightarrow> string option) \<Rightarrow> locale_state \<Rightarrow> string \<Rightarrow> string \<Rightarrow> preset_field \<Rightarrow>
   (string, gany) gomap \<Rightarrow> (string, gany) gomap option" where
  "localize_field fmt st modelName presetName f item =
     (if \<not> Localize f then Some item
      else
        (let key = (if FAlias f = [] then FSource f else FAlias f);
             keys = (if FSource f \<noteq> [] \<and> FSource f \<noteq> key then [key, FSource f] else [key])
         in case (case map_of item key of Some v \<Rightarrow> Some v | None \<Rightarrow> map_of item (FSource f)) of
              None \<Rightarrow> Some item
            | Some v \<Rightarrow>
                (case (if FType f \<in> {''date'', ''time'', ''datetime''}
                       then formatTemporal fmt (ActiveLayouts st) (FType f) v else None) of
                   Some formatted \<Rightarrow> Some (AList.update key (GStr formatted) item)
                 | None \<Rightarrow>
                     map_option (\<lambda>t. AList.update key (case t of Some s \<Rightarrow> GStr s | None \<Rightarrow> v) item)
                       (first_translation (ActiveDict st) modelName presetName (FType f) keys v))))"

fun localize_fields ::
  "(string \<Rightarrow> gany \<Rightarrow> string option) \<Rightarrow> locale_state \<Rightarrow> string \<Rightarrow> string \<Rightarrow> preset_field list \<Rightarrow>
   (string, gany) gomap \<Rightarrow> (string, gany) gomap option" where
  "localize_fields fmt st modelName presetName [] item = Some item"
| "localize_fields fmt st modelName presetName (f # fs) item =
     (case localize_field fmt st modelName presetName f item of
        None \<Rightarrow> None
      | Some item' \<Rightarrow> localize_fields fmt st modelName presetName fs item')"

text \<open>
  \<^verbatim>\<open>applyLocalization\<close> for one item; the items do not influence each other. \<open>None\<close> is a panic.
\<close>

definition applyLocalization ::
  "(string \<Rightarrow> gany \<Rightarrow> string option) \<Rightarrow> locale_state \<Rightarrow> string \<Rightarrow> data_preset \<Rightarrow>
   (string, gany) gomap \<Rightarrow> (string, gany) gomap option" where
  "applyLocalization fmt st modelName p item = localize_fields fmt st modelName (PName p) (Fields p) item"

section \<open>What localisation changes\<close>

lemma localize_field_other:
  assumes "localize_field fmt st mn pn f item = Some item'"
    and "\<not> (Localize f \<and> k = (if FAlias f = [] then FSource f else FAlias f))"
  shows "map_of item' k = map_of item k"
  using assms
  by (auto simp: localize_field_def Let_def gomap_simps split: if_splits option.splits)

lemma localize_fields_other:
  assumes "localize_fields fmt st mn pn fs item = Some item'"
    and "\<And>f. f \<in> set fs \<Longrightarrow> Localize f \<Longrightarrow> k \<noteq> (if FAlias f = [] then FSource f else FAlias f)"
  shows "map_of item' k = map_of item k"
  using assms
proof (induction fs arbitrary: item)
  case (Cons f fs)
  obtain it where it: "localize_field fmt st mn pn f item = Some it"
    "localize_fields fmt st mn pn fs it = Some item'"
    using Cons.prems(1) by (auto split: option.splits)
  have "map_of item' k = map_of it k" by (rule Cons.IH [OF it(2)]) (use Cons.prems(2) in auto)
  also have "\<dots> = map_of item k"
    by (rule localize_field_other [OF it(1)]) (use Cons.prems(2) [of f] in auto)
  finally show ?case .
qed simp

text \<open>A row without values that cannot be keys is localised without a panic.\<close>

lemma Lookup_total: "KBad \<notin> set keys \<Longrightarrow> Lookup n keys \<noteq> None"
  by (induction n keys rule: Lookup.induct) (auto split: option.splits)

lemma dict_lookup_total: "KBad \<notin> set keys \<Longrightarrow> dict_lookup dict name keys \<noteq> None"
  using Lookup_total by (auto simp: dict_lookup_def split: option.splits)

lemma first_translation_total:
  assumes "value_key v \<noteq> KBad"
  shows "first_translation dict mn pn ty ks v \<noteq> None"
proof (induction ks)
  case (Cons k ks)
  have nxt: "try_next r r' \<noteq> None" if "r \<noteq> None" "r' \<noteq> None" for r r'
    using that by (auto simp: try_next_def split: option.splits)
  have l: "dict_lookup dict n keys \<noteq> None" if "set keys \<subseteq> {KStr pn, KStr k, value_key v} \<union> range KInt" for n keys
    using that assms by (intro dict_lookup_total) auto
  have "field_translation dict mn pn ty k v \<noteq> None"
    unfolding field_translation_def by (intro nxt l) (auto split: option.split simp del: not_None_eq intro!: l)
  then show ?case using Cons by (auto simp: try_next_def split: option.splits)
qed simp

definition hashable :: "(string, gany) gomap \<Rightarrow> bool" where
  "hashable item = list_all (\<lambda>kv. value_key (snd kv) \<noteq> KBad) item"

lemma hashable_lookup: "hashable item \<Longrightarrow> map_of item k = Some v \<Longrightarrow> value_key v \<noteq> KBad"
  by (fastforce simp: hashable_def list_all_iff dest: map_of_SomeD)

lemma hashable_update: "hashable item \<Longrightarrow> value_key v \<noteq> KBad \<Longrightarrow> hashable (AList.update k v item)"
  by (induction item) (auto simp: hashable_def)

lemma localize_field_total:
  assumes "hashable item"
  shows "\<exists>item'. localize_field fmt st mn pn f item = Some item' \<and> hashable item'"
proof -
  define key where "key = (if FAlias f = [] then FSource f else FAlias f)"
  define ks where "ks = (if FSource f \<noteq> [] \<and> FSource f \<noteq> key then [key, FSource f] else [key])"
  define ov where "ov = (case map_of item key of Some v \<Rightarrow> Some v | None \<Rightarrow> map_of item (FSource f))"
  show ?thesis
  proof (cases "\<not> Localize f \<or> ov = None")
    case True
    then show ?thesis
      using assms unfolding localize_field_def Let_def key_def [symmetric] ks_def [symmetric] ov_def [symmetric] by auto
  next
    case False
    then obtain v where v: "Localize f" "ov = Some v" by auto
    then have ok: "value_key v \<noteq> KBad" using hashable_lookup [OF assms] by (auto simp: ov_def split: option.splits)
    obtain t where t: "first_translation (ActiveDict st) mn pn (FType f) ks v = Some t"
      using first_translation_total [OF ok] by blast
    define tm where "tm = (if FType f \<in> {''date'', ''time'', ''datetime''}
      then formatTemporal fmt (ActiveLayouts st) (FType f) v else None)"
    have "localize_field fmt st mn pn f item = Some (AList.update key
        (case tm of Some s \<Rightarrow> GStr s | None \<Rightarrow> (case t of Some s \<Rightarrow> GStr s | None \<Rightarrow> v)) item)"
      unfolding localize_field_def Let_def key_def [symmetric] ks_def [symmetric] ov_def [symmetric] v
        option.case tm_def [symmetric]
      using v(1) t by (cases tm) simp_all
    then show ?thesis using assms ok by (auto intro!: hashable_update split: option.split)
  qed
qed

lemma localize_fields_total:
  "hashable item \<Longrightarrow> \<exists>item'. localize_fields fmt st mn pn fs item = Some item'"
proof (induction fs arbitrary: item)
  case (Cons f fs)
  obtain it where "localize_field fmt st mn pn f item = Some it" "hashable it"
    using localize_field_total [OF Cons.prems] by blast
  then show ?case using Cons.IH by simp
qed simp

text \<open>
  An item whose values can all be keys is localised without a panic, and only the localised
  fields of the preset change in it, each under its alias (\<^verbatim>\<open>applyLocalization\<close>).
\<close>
theorem localization_is_local:
  assumes "hashable item"
  shows "\<exists>item'. applyLocalization fmt st mn p item = Some item' \<and>
     (\<forall>k. list_all (\<lambda>f. \<not> (Localize f \<and> k = (if FAlias f = [] then FSource f else FAlias f))) (Fields p) \<longrightarrow>
        map_of item' k = map_of item k)"
proof -
  obtain item' where item': "localize_fields fmt st mn (PName p) (Fields p) item = Some item'"
    using localize_fields_total [OF assms] by blast
  have "map_of item' k = map_of item k"
    if "list_all (\<lambda>f. \<not> (Localize f \<and> k = (if FAlias f = [] then FSource f else FAlias f))) (Fields p)" for k
    by (rule localize_fields_other [OF item']) (use that in \<open>auto simp: list_all_iff\<close>)
  then show ?thesis using item' by (auto simp: applyLocalization_def)
qed

definition loc_preset :: data_preset where
  "loc_preset = empty_preset\<lparr>PName := ''row'', Fields :=
     [empty_field\<lparr>FSource := ''status'', FType := ''int'', Localize := True\<rparr>,
      empty_field\<lparr>FSource := ''name'', FType := ''string''\<rparr>]\<rparr>"

definition loc_state :: locale_state where
  "loc_state = snd (LoadLocales ''en'' (Inr [(KStr ''status'', RMap [(KInt 1, RStr ''active'')])])
     \<lparr>ActiveLocale = [], ActiveLayouts = default_layouts, ActiveDict = []\<rparr>)"

theorem localization_is_local_witness:
  "\<exists>item'. applyLocalization (\<lambda>l v. None) loc_state ''Person'' loc_preset
       [(''status'', GInt 1), (''name'', GStr ''active'')] = Some item' \<and>
     map_of item' ''name'' = Some (GStr ''active'') \<and> map_of item' ''status'' = Some (GStr ''active'')"
proof -
  let ?item = "[(''status'', GInt 1), (''name'', GStr ''active'')]"
  have h: "hashable ?item" "applyLocalization (\<lambda>l v. None) loc_state ''Person'' loc_preset ?item =
      Some [(''status'', GStr ''active''), (''name'', GStr ''active'')]" by code_simp+
  have "list_all (\<lambda>f. \<not> (Localize f \<and> ''name'' = (if FAlias f = [] then FSource f else FAlias f))) (Fields loc_preset)"
    by code_simp
  with localization_is_local [OF h(1), of "\<lambda>l v. None" loc_state "''Person''" loc_preset] show ?thesis
    using h(2) by auto
qed

text \<open>
  The decoder of the locale file gives keys of type \<^verbatim>\<open>int\<close>; the values of a row have integers of a
  definite size, and are only looked up as \<^verbatim>\<open>int\<close> under the name of an \<^verbatim>\<open>int\<close> field alone: under
  a model or a preset, an integer is never found.
\<close>

lemma sized_key_not_found:
  "\<forall>n. map_of dict (KSized n) = None \<Longrightarrow> Lookup (LNode v (Some dict)) (value_key (GInt i) # ks) = Some None"
  by simp

end
