(* ===== verification/Finalize_Items.thy ===== *)
theory Finalize_Items
  imports Formatter Scan_Columns Through_Request Localization
begin

text \<open>
  The last stage of a request: \<^verbatim>\<open>finalizeItems.go\<close> of \<^verbatim>\<open>internal/resolver\<close>. Fields get their
  aliases, empty objects become null, values are localised, formatters are evaluated, internal
  fields are removed and nested objects get their aliases.

  The code runs each pass over all items; as no pass of one item reads another, a pass is a
  function of one item here. Nested presets are followed with no limit on the depth, so the passes
  are partial functions: \<open>None\<close> is \<^emph>\<open>does not return\<close> (in localisation, a panic). An object is a
  value: a \<^verbatim>\<open>nested_field\<close> that names an object copies it, where the code lets both names refer to it.
\<close>

type_synonym row = "(string, gany) gomap"

section \<open>Paths into an item\<close>

text \<open>
  The segments of a dotted path, without blanks (\<^verbatim>\<open>getCtx\<close>, \<^verbatim>\<open>getMapAt\<close>, \<^verbatim>\<open>getValueAtPath\<close>). Updating
  the object that a path leads to in place is \<open>modify_at\<close>.
\<close>

definition path_segs :: "string \<Rightarrow> string list" where
  "path_segs path = filter (\<lambda>s. s \<noteq> []) (map trim_space (split_char (CHR ''.'') path))"

fun value_at :: "gany \<Rightarrow> string list \<Rightarrow> gany option" where
  "value_at cur [] = Some cur"
| "value_at cur (seg # segs) =
     (case cur of
        GMap mm \<Rightarrow> (case map_of mm seg of None \<Rightarrow> None | Some v \<Rightarrow> value_at v segs)
      | _ \<Rightarrow> None)"

definition map_at :: "row \<Rightarrow> string list \<Rightarrow> row option" where
  "map_at root segs = (case value_at (GMap root) segs of Some (GMap mm) \<Rightarrow> Some mm | _ \<Rightarrow> None)"

fun modify_at :: "string list \<Rightarrow> (row \<Rightarrow> row) \<Rightarrow> row \<Rightarrow> row" where
  "modify_at [] f row = f row"
| "modify_at (seg # segs) f row =
     (case map_of row seg of
        Some (GMap mm) \<Rightarrow> AList.update seg (GMap (modify_at segs f mm)) row
      | _ \<Rightarrow> row)"

definition prefixFor :: "string \<Rightarrow> string \<Rightarrow> string" where
  "prefixFor base relKey = (if base = [] then relKey else base @ ''.'' @ relKey)"

text \<open>The key under which the rows of a relation stand (\<^verbatim>\<open>fieldKey\<close>), and the relation of a preset field.\<close>

definition fieldKey :: "preset_field \<Rightarrow> string" where
  "fieldKey f = (if is_blank (FAlias f) then FSource f else FAlias f)"

definition preset_relation :: "model \<Rightarrow> preset_field \<Rightarrow> model_relation option" where
  "preset_relation m f = (if FType f = ''preset'' then map_of (Relations m) (FSource f) else None)"

text \<open>The model and the preset that a \<^verbatim>\<open>belongs_to\<close> field nests.\<close>

definition belongs_target :: "registry \<Rightarrow> model \<Rightarrow> preset_field \<Rightarrow> (model \<times> data_preset) option" where
  "belongs_target reg m f =
     (case preset_relation m f of
        None \<Rightarrow> None
      | Some rel \<Rightarrow> if RType rel = ''belongs_to'' then nested_preset reg rel f else None)"

section \<open>Aliases of fields\<close>

definition alias_field :: "preset_field \<Rightarrow> row \<Rightarrow> row" where
  "alias_field f item =
     (if FType f = ''preset'' \<or> FType f = ''formatter'' \<or> FAlias f = [] \<or> FAlias f = FSource f then item
      else case map_of item (FAlias f) of
        Some _ \<Rightarrow> item
      | None \<Rightarrow> (case map_of item (FSource f) of
          Some v \<Rightarrow> AList.delete (FSource f) (AList.update (FAlias f) v item)
        | None \<Rightarrow> item))"

definition applyFieldAliases :: "data_preset \<Rightarrow> row \<Rightarrow> row" where
  "applyFieldAliases p item = fold alias_field (Fields p) item"

section \<open>Empty objects\<close>

text \<open>
  \<^verbatim>\<open>isEmptyMap\<close>: only a value that is neither nil nor an object nor a list of one of the two types
  makes the function return false; the other cases of the switch fall out of it into the next round.
\<close>

fun is_container :: "gany \<Rightarrow> bool" where
  "is_container (GMap m) = True"
| "is_container (GList vs) = True"
| "is_container (GMaps ms) = True"
| "is_container v = False"

definition isEmptyMap :: "row \<Rightarrow> bool" where
  "isEmptyMap mm = list_all (\<lambda>(k, v). v = GNil \<or> is_container v) mm"

text \<open>\<^verbatim>\<open>setPathToNil\<close> takes the segments as they are written.\<close>

definition setPathToNil :: "row \<Rightarrow> string \<Rightarrow> row" where
  "setPathToNil root path =
     (let segs = split_char (CHR ''.'') path
      in modify_at (butlast segs) (AList.update (last segs) GNil) root)"

definition collapse_field :: "string \<Rightarrow> preset_field \<Rightarrow> row \<Rightarrow> row" where
  "collapse_field prefx f item =
     (let alt = fieldKey f;
          paths = (if alt \<noteq> FSource f then [prefixFor prefx (FSource f), prefixFor prefx alt]
                   else [prefixFor prefx (FSource f)])
      in case find (\<lambda>pth. case map_at item (path_segs pth) of Some mm \<Rightarrow> isEmptyMap mm | None \<Rightarrow> False) paths of
           None \<Rightarrow> item
         | Some pth \<Rightarrow> setPathToNil item pth)"

partial_function (option) collapseEmptyBelongsTo ::
  "registry \<Rightarrow> model \<Rightarrow> preset_field list \<Rightarrow> string \<Rightarrow> row \<Rightarrow> row option" where
  "collapseEmptyBelongsTo reg m flds prefx item =
     (case flds of
        [] \<Rightarrow> Some item
      | f # rest \<Rightarrow>
          (case preset_relation m f of
             None \<Rightarrow> collapseEmptyBelongsTo reg m rest prefx item
           | Some rel \<Rightarrow>
               if RType rel \<noteq> ''belongs_to'' then collapseEmptyBelongsTo reg m rest prefx item
               else Option.bind
                 (case nested_preset reg rel f of
                    None \<Rightarrow> Some item
                  | Some (nm, np) \<Rightarrow> collapseEmptyBelongsTo reg nm (Fields np) (prefixFor prefx (FSource f)) item)
                 (\<lambda>item'. collapseEmptyBelongsTo reg m rest prefx (collapse_field prefx f item'))))"

declare collapseEmptyBelongsTo.simps [code]

section \<open>Formatters\<close>

text \<open>
  The formatters of a preset are evaluated in the order of a list: a new one is inserted after the
  last one whose alias occurs in its template, at the front when there is none.
\<close>

definition dep_match :: "preset_field \<Rightarrow> preset_field \<Rightarrow> bool" where
  "dep_match f g =
     (FSource f \<noteq> [] \<and> contains (FSource f) (FAlias g) \<or>
      FFormatter f \<noteq> [] \<and> contains (FFormatter f) (FAlias g))"

fun insert_after :: "preset_field \<Rightarrow> preset_field list \<Rightarrow> preset_field list" where
  "insert_after f [] = [f]"
| "insert_after f (g # gs) =
     (if list_ex (dep_match f) gs then g # insert_after f gs else g # f # gs)"

definition insertByDeps :: "preset_field list \<Rightarrow> preset_field \<Rightarrow> preset_field list" where
  "insertByDeps nodes f = (if list_ex (dep_match f) nodes then insert_after f nodes else f # nodes)"

text \<open>A field that has a formatter to evaluate.\<close>

definition formatter_node :: "model \<Rightarrow> preset_field \<Rightarrow> bool" where
  "formatter_node m f =
     (if FType f = ''preset'' then preset_relation m f \<noteq> None \<and> \<not> is_blank (FFormatter f)
      else FType f = ''formatter'' \<or> FType f = ''nested_field'')"

definition set_at :: "string list \<Rightarrow> string \<Rightarrow> gany \<Rightarrow> row \<Rightarrow> row" where
  "set_at segs key v item = modify_at segs (AList.update key v) item"

text \<open>The path of a \<^verbatim>\<open>nested_field\<close>, in braces or not.\<close>

definition nested_path :: "string \<Rightarrow> preset_field \<Rightarrow> string" where
  "nested_path prefx f =
     (let p0 = trim_space (FSource f);
          p1 = (if has_prefix p0 ''{'' \<and> has_suffix p0 ''}'' \<and> length p0 \<ge> 2
                then trim_space (butlast (tl p0)) else p0)
      in if p1 = [] \<or> prefx = [] then p1
         else if has_prefix p1 ''.'' then prefx @ p1 else prefx @ ''.'' @ p1)"

definition run_formatter :: "float_text \<Rightarrow> string \<Rightarrow> preset_field \<Rightarrow> row \<Rightarrow> row" where
  "run_formatter fl prefx f item =
     (let here = path_segs prefx
      in if FType f = ''formatter'' then
           (case map_at item here of
              None \<Rightarrow> item
            | Some ctx \<Rightarrow> set_at here (FAlias f) (GStr (applyFormatter fl (FSource f) ctx)) item)
         else if FType f = ''nested_field'' then
           (let path = nested_path prefx f;
                target = (if is_blank (FAlias f) then path else FAlias f)
            in if path = [] then item
               else case value_at (GMap item) (path_segs path) of
                 None \<Rightarrow> item
               | Some v \<Rightarrow> set_at here target v item)
         else if FType f = ''preset'' \<and> \<not> is_blank (FFormatter f) then
           (case (case map_at item (path_segs (prefixFor prefx (FSource f))) of
                    Some c \<Rightarrow> Some c
                  | None \<Rightarrow> map_at item (path_segs (prefixFor prefx (fieldKey f)))) of
              None \<Rightarrow> item
            | Some child \<Rightarrow> set_at here (FAlias f) (GStr (applyFormatter fl (FFormatter f) child)) item)
         else item)"

text \<open>
  Rows of a relation with \<^verbatim>\<open>through\<close> arrive inside rows of the intermediate model, and are taken
  out of them. The key is that of the first \<^verbatim>\<open>belongs_to\<close> to the final model.
\<close>

definition through_key :: "registry \<Rightarrow> model_relation \<Rightarrow> (model \<times> string) option" where
  "through_key reg rel =
     (if Through rel = [] \<or> deref reg (ModelRef rel) = None then None
      else case deref reg (ThroughRef rel) of
        None \<Rightarrow> None
      | Some through \<Rightarrow> (case find_unwrap_key through (ModelRef rel) of
          None \<Rightarrow> None
        | Some key \<Rightarrow> if key = [] then None else Some (through, key)))"

definition inner_rows :: "string \<Rightarrow> row list \<Rightarrow> row list" where
  "inner_rows key rows = List.map_filter (\<lambda>e. case map_of e key of Some (GMap inner) \<Rightarrow> Some inner | _ \<Rightarrow> None) rows"

definition unwrap_rows :: "string \<Rightarrow> string \<Rightarrow> string \<Rightarrow> row \<Rightarrow> row" where
  "unwrap_rows rty unwrapKey key parent =
     (if rty = ''has_one'' then
        (case map_of parent key of
           Some (GMap sub) \<Rightarrow> (case map_of sub unwrapKey of
               Some (GMap inner) \<Rightarrow> AList.update key (GMap inner) parent
             | _ \<Rightarrow> parent)
         | _ \<Rightarrow> parent)
      else
        (case map_of parent key of
           Some (GMaps vv) \<Rightarrow> AList.update key (GMaps (inner_rows unwrapKey vv)) parent
         | Some (GList vv) \<Rightarrow>
             AList.update key (GMaps (inner_rows unwrapKey
               (List.map_filter (\<lambda>it. case it of GMap e \<Rightarrow> Some e | _ \<Rightarrow> None) vv))) parent
         | _ \<Rightarrow> parent))"

definition unwrap_field :: "registry \<Rightarrow> model \<Rightarrow> string \<Rightarrow> preset_field \<Rightarrow> row \<Rightarrow> row" where
  "unwrap_field reg m prefx f item =
     (case preset_relation m f of
        None \<Rightarrow> item
      | Some rel \<Rightarrow>
          if RType rel = ''has_one'' \<or> RType rel = ''has_many'' then
            (case through_key reg rel of
               None \<Rightarrow> item
             | Some (through, unwrapKey) \<Rightarrow>
                 modify_at (path_segs prefx) (unwrap_rows (RType rel) unwrapKey (fieldKey f)) item)
          else item)"

partial_function (option) applyAllFormatters ::
  "float_text \<Rightarrow> registry \<Rightarrow> model \<Rightarrow> preset_field list \<Rightarrow> string \<Rightarrow> preset_field list \<Rightarrow> row \<Rightarrow> row option" where
  "applyAllFormatters fl reg m flds prefx nodes item =
     (case flds of
        [] \<Rightarrow> Some (fold (run_formatter fl prefx) nodes item)
      | f # rest \<Rightarrow>
          Option.bind
            (case belongs_target reg m f of
               None \<Rightarrow> Some (unwrap_field reg m prefx f item)
             | Some (nm, np) \<Rightarrow>
                 applyAllFormatters fl reg nm (Fields np) (prefixFor prefx (FSource f)) [] item)
            (applyAllFormatters fl reg m rest prefx
               (if formatter_node m f then insertByDeps nodes f else nodes)))"

declare applyAllFormatters.simps [code]

section \<open>Removing internal fields\<close>

text \<open>
  \<^verbatim>\<open>deleteExactPath\<close>: the key at the end of a path, in every object that the rest of the path
  leads to; a list on the way stands for all its elements.
\<close>

fun del_value :: "string list \<Rightarrow> gany \<Rightarrow> gany"
  and del_entries :: "string \<Rightarrow> string list \<Rightarrow> (string \<times> gany) list \<Rightarrow> (string \<times> gany) list"
  and del_list :: "string list \<Rightarrow> gany list \<Rightarrow> gany list"
  and del_rows :: "string \<Rightarrow> string list \<Rightarrow> (string \<times> gany) list list \<Rightarrow> (string \<times> gany) list list" where
  "del_value (s # segs) (GMap m) =
     GMap (if segs = [] then AList.delete s m else del_entries s segs m)"
| "del_value (s # segs) (GList vs) = GList (del_list (s # segs) vs)"
| "del_value (s # segs) (GMaps ms) = GMaps (del_rows s segs ms)"
| "del_value segs v = v"
| "del_entries s segs [] = []"
| "del_entries s segs ((k, v) # m) =
     (if k = s then (k, del_value segs v) # m else (k, v) # del_entries s segs m)"
| "del_list segs [] = []"
| "del_list segs (v # vs) = del_value segs v # del_list segs vs"
| "del_rows s segs [] = []"
| "del_rows s segs (m # ms) =
     (if segs = [] then AList.delete s m else del_entries s segs m) # del_rows s segs ms"

definition on_row :: "(gany \<Rightarrow> gany) \<Rightarrow> row \<Rightarrow> row" where
  "on_row f item = (case f (GMap item) of GMap m \<Rightarrow> m | _ \<Rightarrow> item)"

definition deleteExactPath :: "string \<Rightarrow> row \<Rightarrow> row" where
  "deleteExactPath path item = on_row (del_value (split_char (CHR ''.'') path)) item"

text \<open>
  \<^verbatim>\<open>deletePrefix\<close> walks past the last segment and then deletes the key from the object it came
  from: \<open>None\<close> is that request. The elements of a list have the object around the list for parent.
\<close>

fun pref_value :: "string list \<Rightarrow> gany \<Rightarrow> gany option"
  and pref_entries :: "string \<Rightarrow> string list \<Rightarrow> (string \<times> gany) list \<Rightarrow> (string \<times> gany) list"
  and pref_list :: "string list \<Rightarrow> gany list \<Rightarrow> gany list option"
  and pref_rows :: "string \<Rightarrow> string list \<Rightarrow> (string \<times> gany) list list \<Rightarrow> (string \<times> gany) list list" where
  "pref_value [] v = None"
| "pref_value (s # segs) (GMap m) = Some (GMap (pref_entries s segs m))"
| "pref_value (s # segs) (GList vs) = map_option GList (pref_list (s # segs) vs)"
| "pref_value (s # segs) (GMaps ms) = Some (GMaps (pref_rows s segs ms))"
| "pref_value (s # segs) v = Some v"
| "pref_entries s segs [] = []"
| "pref_entries s segs ((k, v) # m) =
     (if k = s then (case pref_value segs v of None \<Rightarrow> AList.delete s m | Some v' \<Rightarrow> (k, v') # m)
      else (k, v) # pref_entries s segs m)"
| "pref_list segs [] = Some []"
| "pref_list segs (v # vs) =
     (case (pref_value segs v, pref_list segs vs) of
        (Some v', Some vs') \<Rightarrow> Some (v' # vs')
      | _ \<Rightarrow> None)"
| "pref_rows s segs [] = []"
| "pref_rows s segs (m # ms) = pref_entries s segs m # pref_rows s segs ms"

definition deletePrefix :: "string \<Rightarrow> row \<Rightarrow> row" where
  "deletePrefix path item =
     on_row (\<lambda>v. case pref_value (split_char (CHR ''.'') path) v of Some v' \<Rightarrow> v' | None \<Rightarrow> v) item"

text \<open>
  The paths of what is internal: nested objects (prefixes) and fields (exact paths). Under a
  relation with \<^verbatim>\<open>through\<close> stands the intermediate model with one field for the final one.
\<close>

definition makeThroughSyntheticPreset :: "string \<Rightarrow> string \<Rightarrow> data_preset" where
  "makeThroughSyntheticPreset unwrapKey finalPresetName =
     empty_preset\<lparr>Fields := [empty_field\<lparr>FType := ''preset'', FSource := unwrapKey, FAlias := unwrapKey,
       NestedPreset := finalPresetName\<rparr>]\<rparr>"

definition named_target :: "registry \<Rightarrow> model_relation \<Rightarrow> preset_field \<Rightarrow> (model \<times> data_preset) option" where
  "named_target reg rel f =
     (if RType rel \<noteq> ''belongs_to'' then None
      else case deref reg (ModelRef rel) of
        None \<Rightarrow> None
      | Some nm \<Rightarrow>
          if NestedPreset f = [] then None else map_option (Pair nm) (map_of (Presets nm) (NestedPreset f)))"

definition through_target :: "registry \<Rightarrow> model_relation \<Rightarrow> preset_field \<Rightarrow> (model \<times> data_preset) option" where
  "through_target reg rel f =
     (case (through_key reg rel, deref reg (ModelRef rel)) of
        (Some (through, unwrapKey), Some final) \<Rightarrow>
          Some (through, makeThroughSyntheticPreset unwrapKey
            (if NestedPreset f = [] \<and> map_of (Presets final) ''item'' \<noteq> None then ''item'' else NestedPreset f))
      | _ \<Rightarrow> None)"

type_synonym markers = "string list \<times> string list"

partial_function (option) collectInternalMarkers ::
  "registry \<Rightarrow> model \<Rightarrow> preset_field list \<Rightarrow> string \<Rightarrow> markers \<Rightarrow> markers option" where
  "collectInternalMarkers reg m flds prefx acc =
     (case flds of
        [] \<Rightarrow> Some acc
      | f # rest \<Rightarrow>
          (let curPath = prefixFor prefx (FSource f)
           in if FType f = ''preset'' then
                (let acc1 = (if Internal f then (fst acc @ [curPath], snd acc) else acc)
                 in case map_of (Relations m) (FSource f) of
                      None \<Rightarrow> collectInternalMarkers reg m rest prefx acc1
                    | Some rel \<Rightarrow>
                        Option.bind
                          (case named_target reg rel f of
                             None \<Rightarrow> Some acc1
                           | Some (nm, np) \<Rightarrow> collectInternalMarkers reg nm (Fields np) curPath acc1)
                          (\<lambda>acc2. Option.bind
                            (case through_target reg rel f of
                               None \<Rightarrow> Some acc2
                             | Some (tm, tp) \<Rightarrow> collectInternalMarkers reg tm (Fields tp) curPath acc2)
                            (collectInternalMarkers reg m rest prefx)))
              else collectInternalMarkers reg m rest prefx
                (if Internal f then (fst acc, snd acc @ [curPath]) else acc)))"

declare collectInternalMarkers.simps [code]

text \<open>The third pass also removes keys of the item itself that start with a prefix.\<close>

definition under_prefix :: "string \<Rightarrow> string \<Rightarrow> bool" where
  "under_prefix k pref = (k = pref \<or> has_prefix k (pref @ ''.''))"

definition remove_internal :: "markers \<Rightarrow> row \<Rightarrow> row" where
  "remove_internal mk item =
     (case mk of (prefs, exacts) \<Rightarrow>
        filter (\<lambda>(k, v). \<not> list_ex (under_prefix k) prefs)
          (fold deletePrefix prefs (fold deleteExactPath exacts item)))"

section \<open>Aliases of nested objects\<close>

definition alias_container :: "preset_field \<Rightarrow> row \<Rightarrow> row" where
  "alias_container f ctx =
     (let alias = trim_space (FAlias f)
      in case map_of ctx (FSource f) of
           None \<Rightarrow> ctx
         | Some v \<Rightarrow> AList.delete (FSource f)
             (if map_of ctx alias = None then AList.update alias v ctx else ctx))"

partial_function (option) applyPresetAliases ::
  "registry \<Rightarrow> model \<Rightarrow> preset_field list \<Rightarrow> string \<Rightarrow> row \<Rightarrow> row option" where
  "applyPresetAliases reg m flds prefx item =
     (case flds of
        [] \<Rightarrow> Some item
      | f # rest \<Rightarrow>
          if FType f \<noteq> ''preset'' then applyPresetAliases reg m rest prefx item
          else Option.bind
            (case belongs_target reg m f of
               None \<Rightarrow> Some item
             | Some (nm, np) \<Rightarrow> applyPresetAliases reg nm (Fields np) (prefixFor prefx (FSource f)) item)
            (\<lambda>item'. applyPresetAliases reg m rest prefx
               (if is_blank (FAlias f) \<or> trim_space (FAlias f) = FSource f then item'
                else modify_at (path_segs prefx) (alias_container f) item')))"

declare applyPresetAliases.simps [code]

section \<open>All passes\<close>

text \<open>
  What finalisation uses beside the registry: the text of numbers, the formatting of times, and the
  locale if one is loaded (\<^verbatim>\<open>HasLocales\<close>).
\<close>

record final_env =
  Floats :: float_text
  FormatTime :: "string \<Rightarrow> gany \<Rightarrow> string option"
  Locales :: "locale_state option"

definition finalize_item :: "final_env \<Rightarrow> registry \<Rightarrow> string \<Rightarrow> model \<Rightarrow> data_preset \<Rightarrow> row \<Rightarrow> row option" where
  "finalize_item env reg mname m p item =
     Option.bind (collapseEmptyBelongsTo reg m (Fields p) [] (applyFieldAliases p item)) (\<lambda>i1.
     Option.bind (case Locales env of
         None \<Rightarrow> Some i1
       | Some st \<Rightarrow> applyLocalization (FormatTime env) st mname p i1) (\<lambda>i2.
     Option.bind (applyAllFormatters (Floats env) reg m (Fields p) [] [] i2) (\<lambda>i3.
     Option.bind (collectInternalMarkers reg m (Fields p) [] ([], [])) (\<lambda>mk.
     applyPresetAliases reg m (Fields p) [] (remove_internal mk i3)))))"

definition finalizeItems ::
  "final_env \<Rightarrow> registry \<Rightarrow> string \<Rightarrow> model \<Rightarrow> data_preset option \<Rightarrow> row list \<Rightarrow> row list option" where
  "finalizeItems env reg mname m preset items =
     (case preset of None \<Rightarrow> Some items | Some p \<Rightarrow> opt_map (finalize_item env reg mname m p) items)"

section \<open>Deleting by path and by prefix\<close>

lemma pref_value_del:
  "pref_value segs v = (if segs = [] then None else Some (del_value segs v))"
  "pref_entries s segs m = (if segs = [] then AList.delete s m else del_entries s segs m)"
  "segs \<noteq> [] \<Longrightarrow> pref_list segs vs = Some (del_list segs vs)"
  "pref_rows s segs ms = del_rows s segs ms"
  by (induction segs v and s segs m and segs vs and s segs ms
      rule: pref_value_pref_entries_pref_list_pref_rows.induct) auto

lemma deletePrefix_eq: "deletePrefix path item = deleteExactPath path item"
  by (simp add: deletePrefix_def deleteExactPath_def pref_value_del)

text \<open>What a path leads to: the values of its last key in all elements of the lists on the way.\<close>

fun reach :: "string list \<Rightarrow> gany \<Rightarrow> gany list"
  and reach_entries :: "string \<Rightarrow> string list \<Rightarrow> (string \<times> gany) list \<Rightarrow> gany list"
  and reach_list :: "string list \<Rightarrow> gany list \<Rightarrow> gany list"
  and reach_rows :: "string \<Rightarrow> string list \<Rightarrow> (string \<times> gany) list list \<Rightarrow> gany list" where
  "reach [] v = [v]"
| "reach (s # segs) (GMap m) = reach_entries s segs m"
| "reach (s # segs) (GList vs) = reach_list (s # segs) vs"
| "reach (s # segs) (GMaps ms) = reach_rows s segs ms"
| "reach (s # segs) v = []"
| "reach_entries s segs [] = []"
| "reach_entries s segs ((k, v) # m) = (if k = s then reach segs v else reach_entries s segs m)"
| "reach_list segs [] = []"
| "reach_list segs (v # vs) = reach segs v @ reach_list segs vs"
| "reach_rows s segs [] = []"
| "reach_rows s segs (m # ms) = reach_entries s segs m @ reach_rows s segs ms"

lemma reach_entries_map_of:
  "reach_entries s segs m = (case map_of m s of None \<Rightarrow> [] | Some v \<Rightarrow> reach segs v)"
  by (induction m) auto

lemma reach_cases:
  "reach p (GMap m) = (if p = [] then [GMap m] else reach_entries (hd p) (tl p) m)"
  "reach p (GList vs) = (if p = [] then [GList vs] else reach_list p vs)"
  "reach p (GMaps ms) = (if p = [] then [GMaps ms] else reach_rows (hd p) (tl p) ms)"
  "p \<noteq> [] \<Longrightarrow> reach p GNil = []" "p \<noteq> [] \<Longrightarrow> reach p (GBool b) = []" "p \<noteq> [] \<Longrightarrow> reach p (GInt i) = []"
  "p \<noteq> [] \<Longrightarrow> reach p (GFloat w) = []" "p \<noteq> [] \<Longrightarrow> reach p (GStr t) = []"
  "p \<noteq> [] \<Longrightarrow> reach p (GStrs ss) = []" "p \<noteq> [] \<Longrightarrow> reach p (GOpaque t) = []"
  by (cases p; simp)+

lemma reach_deleted:
  "segs \<noteq> [] \<Longrightarrow> reach segs (del_value segs v) = []"
  "segs \<noteq> [] \<Longrightarrow> reach_entries s segs (del_entries s segs m) = []"
  "segs \<noteq> [] \<Longrightarrow> reach_list segs (del_list segs vs) = []"
  "reach_rows s segs (del_rows s segs ms) = []"
  by (induction segs v and s segs m and segs vs and s segs ms rule: del_value_del_entries_del_list_del_rows.induct)
     (auto simp: reach_entries_map_of reach_cases delete_conv)

lemma reach_kept_delete: "reach_entries s p m = [] \<Longrightarrow> reach_entries s p (AList.delete k m) = []"
  by (simp add: reach_entries_map_of delete_conv)

lemma reach_kept:
  "reach p v = [] \<Longrightarrow> reach p (del_value q v) = []"
  "reach_entries s p m = [] \<Longrightarrow> reach_entries s p (del_entries t q m) = []"
  "reach_list p vs = [] \<Longrightarrow> reach_list p (del_list q vs) = []"
  "reach_rows s p ms = [] \<Longrightarrow> reach_rows s p (del_rows t q ms) = []"
  by (induction q v and t q m and q vs and t q ms arbitrary: p and s p and p and s p
      rule: del_value_del_entries_del_list_del_rows.induct)
     (auto simp: reach_cases reach_kept_delete split: if_splits)

section \<open>No internal path is left\<close>

lemma on_row_map: "f (GMap item) = GMap m \<Longrightarrow> on_row f item = m"
  by (simp add: on_row_def)

lemma del_value_row: "\<exists>m. del_value segs (GMap item) = GMap m"
  by (cases segs) auto

lemma deleteExactPath_row: "GMap (deleteExactPath path item) = del_value (split_char (CHR ''.'') path) (GMap item)"
  using del_value_row [of "split_char (CHR ''.'') path" item] by (auto simp: deleteExactPath_def on_row_def)

lemma reach_kept_all:
  "reach p (GMap item) = [] \<Longrightarrow> reach p (GMap (fold deleteExactPath qs item)) = []"
  by (induction qs arbitrary: item) (auto simp: deleteExactPath_row reach_kept)

lemma reach_deleted_all:
  "q \<in> set qs \<Longrightarrow> reach (split_char (CHR ''.'') q) (GMap (fold deleteExactPath qs item)) = []"
proof (induction qs arbitrary: item)
  case (Cons p qs)
  show ?case
  proof (cases "q = p")
    case True
    have "reach (split_char (CHR ''.'') q) (GMap (deleteExactPath p item)) = []"
      by (simp add: True deleteExactPath_row reach_deleted)
    then show ?thesis by (simp add: reach_kept_all)
  qed (use Cons in auto)
qed simp

lemma reach_filter_keys:
  "reach p (GMap m) = [] \<Longrightarrow> reach p (GMap (filter (\<lambda>(k, v). P k) m)) = []"
proof -
  have "reach_entries s q m = [] \<Longrightarrow> reach_entries s q (filter (\<lambda>(k, v). P k) m) = []" for s q
  proof (induction m)
    case (Cons x m)
    have "\<not> P s \<Longrightarrow> reach_entries s q (filter (\<lambda>(k, v). P k) m') = []" for m'
      by (induction m') auto
    then show ?case using Cons by (cases x) (auto split: if_splits)
  qed simp
  then show "reach p (GMap m) = [] \<Longrightarrow> reach p (GMap (filter (\<lambda>(k, v). P k) m)) = []"
    by (cases p) auto
qed

lemma remove_internal_reach:
  assumes "q \<in> set (fst mk) \<union> set (snd mk)"
  shows "reach (split_char (CHR ''.'') q) (GMap (remove_internal mk item)) = []"
proof -
  obtain prefs exacts where mk: "mk = (prefs, exacts)" by (cases mk)
  have same: "deletePrefix = deleteExactPath" by (intro ext) (rule deletePrefix_eq)
  have "fold deletePrefix prefs (fold deleteExactPath exacts item) = fold deleteExactPath (exacts @ prefs) item"
    by (simp add: same)
  moreover have "reach (split_char (CHR ''.'') q) (GMap (fold deleteExactPath (exacts @ prefs) item)) = []"
    by (rule reach_deleted_all) (use assms mk in auto)
  ultimately show ?thesis by (simp add: remove_internal_def mk reach_filter_keys)
qed

text \<open>
  The paths of the internal fields of a preset, those of the nested presets included.
\<close>

inductive internal_path :: "registry \<Rightarrow> model \<Rightarrow> preset_field list \<Rightarrow> string \<Rightarrow> string \<Rightarrow> bool" for reg where
  here: "f \<in> set flds \<Longrightarrow> Internal f \<Longrightarrow> internal_path reg m flds prefx (prefixFor prefx (FSource f))"
| nested: "f \<in> set flds \<Longrightarrow> preset_relation m f = Some rel \<Longrightarrow> named_target reg rel f = Some (nm, np) \<Longrightarrow>
    internal_path reg nm (Fields np) (prefixFor prefx (FSource f)) q \<Longrightarrow> internal_path reg m flds prefx q"
| through: "f \<in> set flds \<Longrightarrow> preset_relation m f = Some rel \<Longrightarrow> through_target reg rel f = Some (tm, tp) \<Longrightarrow>
    internal_path reg tm (Fields tp) (prefixFor prefx (FSource f)) q \<Longrightarrow> internal_path reg m flds prefx q"

text \<open>The work of one field, apart from the fields that follow.\<close>

definition field_markers :: "registry \<Rightarrow> model \<Rightarrow> preset_field \<Rightarrow> string \<Rightarrow> markers \<Rightarrow> markers option" where
  "field_markers reg m f prefx acc =
     (let curPath = prefixFor prefx (FSource f)
      in if FType f = ''preset'' then
           (let acc1 = (if Internal f then (fst acc @ [curPath], snd acc) else acc)
            in case map_of (Relations m) (FSource f) of
                 None \<Rightarrow> Some acc1
               | Some rel \<Rightarrow>
                   Option.bind
                     (case named_target reg rel f of
                        None \<Rightarrow> Some acc1
                      | Some (nm, np) \<Rightarrow> collectInternalMarkers reg nm (Fields np) curPath acc1)
                     (\<lambda>acc2. case through_target reg rel f of
                          None \<Rightarrow> Some acc2
                        | Some (tm, tp) \<Rightarrow> collectInternalMarkers reg tm (Fields tp) curPath acc2))
         else Some (if Internal f then (fst acc, snd acc @ [curPath]) else acc))"

lemma collect_Nil: "collectInternalMarkers reg m [] prefx acc = Some acc"
  by (subst collectInternalMarkers.simps) simp

lemma collect_Cons:
  "collectInternalMarkers reg m (f # rest) prefx acc =
     Option.bind (field_markers reg m f prefx acc) (collectInternalMarkers reg m rest prefx)"
  by (subst collectInternalMarkers.simps)
     (auto simp: field_markers_def Let_def split: option.splits)

text \<open>Markers are only added.\<close>

definition more_markers :: "markers \<Rightarrow> markers \<Rightarrow> bool" where
  "more_markers a b = (set (fst a) \<subseteq> set (fst b) \<and> set (snd a) \<subseteq> set (snd b))"

lemma more_markers_trans: "more_markers a b \<Longrightarrow> more_markers b c \<Longrightarrow> more_markers a c"
  by (auto simp: more_markers_def)

lemma more_markers_mem:
  "more_markers a b \<Longrightarrow> q \<in> set (fst a) \<union> set (snd a) \<Longrightarrow> q \<in> set (fst b) \<union> set (snd b)"
  by (auto simp: more_markers_def)

lemma more_markers_refl [simp]: "more_markers a a"
  by (simp add: more_markers_def)

lemma more_markers_case:
  assumes "(case t of None \<Rightarrow> Some a | Some (x, y) \<Rightarrow> G x y) = Some b"
    and "\<And>x y. G x y = Some b \<Longrightarrow> more_markers a b"
  shows "more_markers a b"
proof (cases t)
  case (Some xy)
  then show ?thesis using assms by (cases xy) simp
qed (use assms in simp)

lemma collect_more: "collectInternalMarkers reg m flds prefx acc = Some mk \<Longrightarrow> more_markers acc mk"
proof (rule collectInternalMarkers.raw_induct [where P = "\<lambda>reg m flds prefx acc mk. more_markers acc mk"], goal_cases)
  case (1 g r m flds prefx acc mk)
  note IH = 1(2) and body = 1(3)
  show ?case
  proof (cases flds)
    case Nil
    then show ?thesis using body by (simp add: more_markers_def)
  next
    case (Cons f rest)
    let ?cur = "prefixFor prefx (FSource f)"
    show ?thesis
    proof (cases "FType f = ''preset''")
      case False
      then have "more_markers (if Internal f then (fst acc, snd acc @ [?cur]) else acc) mk"
        using body IH by (auto simp: Cons Let_def)
      then show ?thesis by (auto simp: more_markers_def split: if_splits)
    next
      case True
      let ?acc1 = "if Internal f then (fst acc @ [?cur], snd acc) else acc"
      have "more_markers ?acc1 mk"
      proof (cases "map_of (Relations m) (FSource f)")
        case None
        then show ?thesis using body IH True by (simp add: Cons Let_def)
      next
        case (Some rel)
        obtain acc2 acc3 where
          a2: "(case named_target r rel f of None \<Rightarrow> Some ?acc1
                | Some (nm, np) \<Rightarrow> g r nm (Fields np) ?cur ?acc1) = Some acc2"
          and a3: "(case through_target r rel f of None \<Rightarrow> Some acc2
                | Some (tm, tp) \<Rightarrow> g r tm (Fields tp) ?cur acc2) = Some acc3"
          and rest: "g r m rest prefx acc3 = Some mk"
          using body True Some by (auto simp: Cons Let_def bind_eq_Some_conv)
        have "more_markers ?acc1 acc2" "more_markers acc2 acc3"
          by (rule more_markers_case [OF a2], erule IH, rule more_markers_case [OF a3], erule IH)
        then show ?thesis using IH [OF rest] more_markers_trans by blast
      qed
      then show ?thesis by (auto simp: more_markers_def split: if_splits)
    qed
  qed
qed assumption

lemma collect_at:
  "collectInternalMarkers reg m (xs @ f # ys) prefx acc = Some mk \<Longrightarrow>
   \<exists>a b. field_markers reg m f prefx a = Some b \<and> more_markers b mk"
proof (induction xs arbitrary: acc)
  case Nil
  then obtain b where "field_markers reg m f prefx acc = Some b" "collectInternalMarkers reg m ys prefx b = Some mk"
    by (auto simp: collect_Cons bind_eq_Some_conv)
  then show ?case using collect_more by blast
next
  case (Cons x xs)
  then obtain b where "collectInternalMarkers reg m (xs @ f # ys) prefx b = Some mk"
    by (auto simp: collect_Cons bind_eq_Some_conv)
  then show ?case by (rule Cons.IH)
qed

lemma field_markers_own:
  assumes "field_markers reg m f prefx a = Some b" "Internal f"
  shows "prefixFor prefx (FSource f) \<in> set (fst b) \<union> set (snd b)"
proof (cases "FType f = ''preset''")
  case False
  then show ?thesis using assms by (auto simp: field_markers_def Let_def)
next
  case True
  let ?acc1 = "(fst a @ [prefixFor prefx (FSource f)], snd a)"
  have "more_markers ?acc1 b"
  proof (cases "map_of (Relations m) (FSource f)")
    case None
    then show ?thesis using assms True by (simp add: field_markers_def Let_def)
  next
    case (Some rel)
    obtain acc2 where
      a2: "(case named_target reg rel f of None \<Rightarrow> Some ?acc1
            | Some (nm, np) \<Rightarrow> collectInternalMarkers reg nm (Fields np) (prefixFor prefx (FSource f)) ?acc1) = Some acc2"
      and a3: "(case through_target reg rel f of None \<Rightarrow> Some acc2
            | Some (tm, tp) \<Rightarrow> collectInternalMarkers reg tm (Fields tp) (prefixFor prefx (FSource f)) acc2) = Some b"
      using assms True Some by (auto simp: field_markers_def Let_def bind_eq_Some_conv)
    have "more_markers ?acc1 acc2" "more_markers acc2 b"
      by (rule more_markers_case [OF a2], erule collect_more, rule more_markers_case [OF a3], erule collect_more)
    then show ?thesis by (rule more_markers_trans)
  qed
  then show ?thesis by (auto simp: more_markers_def)
qed

lemma field_markers_targets:
  assumes "field_markers reg m f prefx a = Some b" "preset_relation m f = Some rel"
    and "named_target reg rel f = Some (t, tp) \<or> through_target reg rel f = Some (t, tp)"
  shows "\<exists>c d. collectInternalMarkers reg t (Fields tp) (prefixFor prefx (FSource f)) c = Some d \<and> more_markers d b"
proof -
  let ?cur = "prefixFor prefx (FSource f)"
  define acc1 where "acc1 = (if Internal f then (fst a @ [?cur], snd a) else a)"
  have ty: "FType f = ''preset''" "map_of (Relations m) (FSource f) = Some rel"
    using assms(2) by (auto simp: preset_relation_def split: if_splits)
  obtain acc2 where
    a2: "(case named_target reg rel f of None \<Rightarrow> Some acc1
          | Some (nm, np) \<Rightarrow> collectInternalMarkers reg nm (Fields np) ?cur acc1) = Some acc2"
    and a3: "(case through_target reg rel f of None \<Rightarrow> Some acc2
          | Some (tm, tp) \<Rightarrow> collectInternalMarkers reg tm (Fields tp) ?cur acc2) = Some b"
    using assms(1) ty unfolding acc1_def by (auto simp: field_markers_def Let_def bind_eq_Some_conv)
  have 1: "more_markers acc2 b" by (rule more_markers_case [OF a3], erule collect_more)
  show ?thesis
  proof (cases "named_target reg rel f = Some (t, tp)")
    case True
    then have "collectInternalMarkers reg t (Fields tp) ?cur acc1 = Some acc2" using a2 by simp
    then show ?thesis using 1 by blast
  next
    case False
    then have "collectInternalMarkers reg t (Fields tp) ?cur acc2 = Some b" using a3 assms(3) by simp
    then show ?thesis using more_markers_refl by blast
  qed
qed

lemma internal_path_marked:
  "internal_path reg m flds prefx q \<Longrightarrow> collectInternalMarkers reg m flds prefx acc = Some mk \<Longrightarrow>
   q \<in> set (fst mk) \<union> set (snd mk)"
proof (induction arbitrary: acc mk rule: internal_path.induct)
  case (here f flds m prefx)
  obtain xs ys where "flds = xs @ f # ys" using here.hyps(1) by (meson split_list)
  then obtain a b where "field_markers reg m f prefx a = Some b" "more_markers b mk"
    using here.prems collect_at by blast
  then show ?case by (intro more_markers_mem [of b mk] field_markers_own [OF _ here.hyps(2)])
next
  case (nested f flds m rel nm np prefx q)
  obtain xs ys where "flds = xs @ f # ys" using nested.hyps(1) by (meson split_list)
  then obtain a b where ab: "field_markers reg m f prefx a = Some b" "more_markers b mk"
    using nested.prems collect_at by blast
  obtain c d where "collectInternalMarkers reg nm (Fields np) (prefixFor prefx (FSource f)) c = Some d" "more_markers d b"
    using field_markers_targets [OF ab(1) nested.hyps(2)] nested.hyps(3) by blast
  then show ?case by (intro more_markers_mem [OF ab(2)] more_markers_mem [of d b] nested.IH)
next
  case (through f flds m rel tm tp prefx q)
  obtain xs ys where "flds = xs @ f # ys" using through.hyps(1) by (meson split_list)
  then obtain a b where ab: "field_markers reg m f prefx a = Some b" "more_markers b mk"
    using through.prems collect_at by blast
  obtain c d where "collectInternalMarkers reg tm (Fields tp) (prefixFor prefx (FSource f)) c = Some d" "more_markers d b"
    using field_markers_targets [OF ab(1) through.hyps(2)] through.hyps(3) by blast
  then show ?case by (intro more_markers_mem [OF ab(2)] more_markers_mem [of d b] through.IH)
qed

section \<open>The order of the formatters\<close>

lemma set_insert_after: "set (insert_after f ns) = insert f (set ns)"
  by (induction ns) auto

lemma insert_after_keeps: "subseq ns (insert_after f ns)"
  by (induction ns) auto

lemma insertByDeps_keeps: "subseq ns (insertByDeps ns f)"
  by (auto simp: insertByDeps_def insert_after_keeps intro: list_emb_Cons)

lemma insert_after_follows: "g \<in> set ns \<Longrightarrow> dep_match f g \<Longrightarrow> subseq [g, f] (insert_after f ns)"
proof (induction ns)
  case (Cons h ns)
  show ?case
  proof (cases "g \<in> set ns")
    case True
    then have "list_ex (dep_match f) ns" using Cons.prems(2) by (auto simp: list_ex_iff)
    then have "insert_after f (h # ns) = h # insert_after f ns" by simp
    moreover have "subseq [g, f] (insert_after f ns)" using Cons.IH True Cons.prems(2) .
    ultimately show ?thesis by (simp only: list_emb_Cons)
  next
    case False
    then have "g = h" using Cons.prems(1) by simp
    then show ?thesis by (simp add: subseq_singleton_left set_insert_after)
  qed
qed simp

lemma insertByDeps_follows: "g \<in> set ns \<Longrightarrow> dep_match f g \<Longrightarrow> subseq [g, f] (insertByDeps ns f)"
  using insert_after_follows by (auto simp: insertByDeps_def list_ex_iff)

lemma insertByDeps_first: "\<not> list_ex (dep_match f) ns \<Longrightarrow> g \<in> set ns \<Longrightarrow> subseq [f, g] (insertByDeps ns f)"
  by (simp add: insertByDeps_def subseq_singleton_left)

definition formatter_order :: "preset_field list \<Rightarrow> preset_field list \<Rightarrow> preset_field list" where
  "formatter_order fs ns = fold (\<lambda>f ns. insertByDeps ns f) fs ns"

lemma formatter_order_keeps: "subseq ns (formatter_order fs ns)"
  unfolding formatter_order_def
  by (induction fs arbitrary: ns) (auto intro: subseq_order.trans insertByDeps_keeps)

lemma formatter_order_append: "formatter_order (xs @ ys) ns = formatter_order ys (formatter_order xs ns)"
  by (simp add: formatter_order_def)

lemma formatter_order_Cons: "formatter_order (x # xs) ns = formatter_order xs (insertByDeps ns x)"
  by (simp add: formatter_order_def)

lemma set_formatter_order: "set (formatter_order fs ns) = set ns \<union> set fs"
  by (induction fs arbitrary: ns)
     (auto simp: formatter_order_def insertByDeps_def set_insert_after)

lemma formatter_order_between:
  assumes "P (formatter_order xs ns)" "\<And>ks. P ks \<Longrightarrow> subseq l (insertByDeps ks f)"
  shows "subseq l (formatter_order (xs @ f # ys) ns)"
  using assms formatter_order_keeps [of "insertByDeps (formatter_order xs ns) f" ys]
  by (auto simp: formatter_order_append formatter_order_Cons intro: subseq_order.trans)

lemma apply_formatters_Nil:
  "applyAllFormatters fl reg m [] prefx nodes item = Some (fold (run_formatter fl prefx) nodes item)"
  by (subst applyAllFormatters.simps) simp

lemma apply_formatters_Cons:
  "applyAllFormatters fl reg m (f # rest) prefx nodes item =
     Option.bind
       (case belongs_target reg m f of
          None \<Rightarrow> Some (unwrap_field reg m prefx f item)
        | Some (nm, np) \<Rightarrow> applyAllFormatters fl reg nm (Fields np) (prefixFor prefx (FSource f)) [] item)
       (applyAllFormatters fl reg m rest prefx (if formatter_node m f then insertByDeps nodes f else nodes))"
  by (subst applyAllFormatters.simps) simp

text \<open>The nested presets are done first; then the formatters of the preset run in their order.\<close>

lemma apply_formatters_order:
  "applyAllFormatters fl reg m flds prefx nodes item = Some out \<Longrightarrow>
   \<exists>item'. out = fold (run_formatter fl prefx) (formatter_order (filter (formatter_node m) flds) nodes) item'"
proof (induction flds arbitrary: nodes item)
  case Nil
  then show ?case by (auto simp: apply_formatters_Nil formatter_order_def)
next
  case (Cons f flds)
  then obtain it where "applyAllFormatters fl reg m flds prefx
      (if formatter_node m f then insertByDeps nodes f else nodes) it = Some out"
    by (auto simp: apply_formatters_Cons bind_eq_Some_conv)
  from Cons.IH [OF this] show ?case by (auto simp: formatter_order_def)
qed

section \<open>When finalisation returns\<close>

text \<open>
  A walk over the fields of a preset and, by recursion, over those of the presets it nests: it
  returns when the nesting is bounded. All passes, and the collections of the resolver, are such
  walks.
\<close>

fun nests_within ::
  "(model \<Rightarrow> preset_field \<Rightarrow> (model \<times> data_preset) list) \<Rightarrow> nat \<Rightarrow> model \<Rightarrow> preset_field list \<Rightarrow> bool" where
  "nests_within tg 0 m flds = False"
| "nests_within tg (Suc n) m flds =
     list_all (\<lambda>f. list_all (\<lambda>(t, tp). nests_within tg n t (Fields tp)) (tg m f)) flds"

locale preset_walk =
  fixes targets :: "model \<Rightarrow> preset_field \<Rightarrow> (model \<times> data_preset) list"
    and returns :: "model \<Rightarrow> preset_field list \<Rightarrow> bool"
  assumes returns_Nil: "returns m []"
    and returns_Cons: "(\<And>t tp. (t, tp) \<in> set (targets m f) \<Longrightarrow> returns t (Fields tp)) \<Longrightarrow>
      returns m rest \<Longrightarrow> returns m (f # rest)"
begin

lemma walk_returns: "nests_within targets n m flds \<Longrightarrow> returns m flds"
proof (induction n arbitrary: m flds)
  case (Suc n)
  have nested: "returns t (Fields tp)" if "f \<in> set flds" "(t, tp) \<in> set (targets m f)" for f t tp
    using Suc.prems that by (intro Suc.IH) (auto simp: list_all_iff)
  then show ?case
  proof (induction flds)
    case Nil
    show ?case by (rule returns_Nil)
  next
    case (Cons f flds)
    show ?case by (rule returns_Cons) (use Cons in auto)
  qed
qed simp

end

definition target_list :: "'a option \<Rightarrow> 'a list" where
  "target_list x = (case x of None \<Rightarrow> [] | Some a \<Rightarrow> [a])"

lemma set_target_list [simp]: "a \<in> set (target_list x) \<longleftrightarrow> x = Some a"
  by (auto simp: target_list_def split: option.splits)

definition final_targets :: "registry \<Rightarrow> model \<Rightarrow> preset_field \<Rightarrow> (model \<times> data_preset) list" where
  "final_targets reg m f =
     (case preset_relation m f of
        None \<Rightarrow> []
      | Some rel \<Rightarrow> target_list (belongs_target reg m f) @ target_list (named_target reg rel f) @
          target_list (through_target reg rel f))"

lemma collapse_Nil: "collapseEmptyBelongsTo reg m [] prefx item = Some item"
  by (subst collapseEmptyBelongsTo.simps) simp

lemma collapse_Cons:
  "collapseEmptyBelongsTo reg m (f # rest) prefx item =
     (case preset_relation m f of
        None \<Rightarrow> collapseEmptyBelongsTo reg m rest prefx item
      | Some rel \<Rightarrow>
          if RType rel \<noteq> ''belongs_to'' then collapseEmptyBelongsTo reg m rest prefx item
          else Option.bind
            (case nested_preset reg rel f of
               None \<Rightarrow> Some item
             | Some (nm, np) \<Rightarrow> collapseEmptyBelongsTo reg nm (Fields np) (prefixFor prefx (FSource f)) item)
            (\<lambda>item'. collapseEmptyBelongsTo reg m rest prefx (collapse_field prefx f item')))"
  by (subst collapseEmptyBelongsTo.simps) simp

lemma aliases_Nil: "applyPresetAliases reg m [] prefx item = Some item"
  by (subst applyPresetAliases.simps) simp

lemma aliases_Cons:
  "applyPresetAliases reg m (f # rest) prefx item =
     (if FType f \<noteq> ''preset'' then applyPresetAliases reg m rest prefx item
      else Option.bind
        (case belongs_target reg m f of
           None \<Rightarrow> Some item
         | Some (nm, np) \<Rightarrow> applyPresetAliases reg nm (Fields np) (prefixFor prefx (FSource f)) item)
        (\<lambda>item'. applyPresetAliases reg m rest prefx
           (if is_blank (FAlias f) \<or> trim_space (FAlias f) = FSource f then item'
            else modify_at (path_segs prefx) (alias_container f) item')))"
  by (subst applyPresetAliases.simps) simp

lemma bind_total: "x \<noteq> None \<Longrightarrow> (\<And>y. f y \<noteq> None) \<Longrightarrow> Option.bind x f \<noteq> None"
  by (cases x) auto

lemma belongs_target_final:
  "belongs_target reg m f = Some t \<Longrightarrow> t \<in> set (final_targets reg m f)"
  by (auto simp: final_targets_def belongs_target_def split: option.splits)

interpretation collapse_walk: preset_walk "final_targets reg"
  "\<lambda>m flds. \<forall>prefx item. collapseEmptyBelongsTo reg m flds prefx item \<noteq> None" for reg
proof (unfold_locales, goal_cases)
  case (2 m f rest)
  have t: "nested_preset reg rel f = Some (t, tp) \<Longrightarrow> preset_relation m f = Some rel \<Longrightarrow> RType rel = ''belongs_to'' \<Longrightarrow>
      collapseEmptyBelongsTo reg t (Fields tp) prefx item \<noteq> None" for rel t tp prefx item
    by (rule 2(1) [rule_format]) (simp add: final_targets_def belongs_target_def)
  have "(case nested_preset reg rel f of None \<Rightarrow> Some item
      | Some (nm, np) \<Rightarrow> collapseEmptyBelongsTo reg nm (Fields np) (prefixFor prefx (FSource f)) item) \<noteq> None"
    if "preset_relation m f = Some rel" "RType rel = ''belongs_to''" for rel prefx item
    using t that by (auto split: option.splits)
  then show ?case using 2(2) by (auto simp: collapse_Cons bind_total simp del: not_None_eq split: option.split)
qed (simp add: collapse_Nil)

interpretation alias_walk: preset_walk "final_targets reg"
  "\<lambda>m flds. \<forall>prefx item. applyPresetAliases reg m flds prefx item \<noteq> None" for reg
proof (unfold_locales, goal_cases)
  case (2 m f rest)
  have t: "belongs_target reg m f = Some (t, tp) \<Longrightarrow>
      applyPresetAliases reg t (Fields tp) prefx item \<noteq> None" for t tp prefx item
    by (rule 2(1) [rule_format]) (rule belongs_target_final)
  have "(case belongs_target reg m f of None \<Rightarrow> Some item
      | Some (nm, np) \<Rightarrow> applyPresetAliases reg nm (Fields np) (prefixFor prefx (FSource f)) item) \<noteq> None"
    for prefx item
    using t by (auto split: option.splits)
  then show ?case using 2(2) by (simp add: aliases_Cons bind_total del: not_None_eq)
qed (simp add: aliases_Nil)

interpretation formatter_walk: preset_walk "final_targets reg"
  "\<lambda>m flds. \<forall>prefx nodes item. applyAllFormatters fl reg m flds prefx nodes item \<noteq> None" for reg fl
proof (unfold_locales, goal_cases)
  case (2 m f rest)
  have t: "belongs_target reg m f = Some (t, tp) \<Longrightarrow>
      applyAllFormatters fl reg t (Fields tp) prefx nodes item \<noteq> None" for t tp prefx nodes item
    by (rule 2(1) [rule_format]) (rule belongs_target_final)
  have "(case belongs_target reg m f of None \<Rightarrow> Some (unwrap_field reg m prefx f item)
      | Some (nm, np) \<Rightarrow> applyAllFormatters fl reg nm (Fields np) (prefixFor prefx (FSource f)) [] item) \<noteq> None"
    for prefx item
    using t by (auto split: option.splits)
  then show ?case using 2(2) by (simp add: apply_formatters_Cons bind_total del: not_None_eq)
qed (simp add: apply_formatters_Nil)

interpretation marker_walk: preset_walk "final_targets reg"
  "\<lambda>m flds. \<forall>prefx acc. collectInternalMarkers reg m flds prefx acc \<noteq> None" for reg
proof (unfold_locales, goal_cases)
  case (2 m f rest)
  have t: "preset_relation m f = Some rel \<Longrightarrow>
      named_target reg rel f = Some (t, tp) \<or> through_target reg rel f = Some (t, tp) \<Longrightarrow>
      collectInternalMarkers reg t (Fields tp) prefx acc \<noteq> None" for rel t tp prefx acc
    by (rule 2(1) [rule_format]) (auto simp: final_targets_def)
  have "field_markers reg m f prefx acc \<noteq> None" for prefx acc
  proof (cases "preset_relation m f")
    case None
    then show ?thesis by (auto simp: field_markers_def preset_relation_def Let_def)
  next
    case (Some rel)
    then have ty: "FType f = ''preset''" "map_of (Relations m) (FSource f) = Some rel"
      by (auto simp: preset_relation_def split: if_splits)
    have "(case named_target reg rel f of None \<Rightarrow> Some a
        | Some (nm, np) \<Rightarrow> collectInternalMarkers reg nm (Fields np) cur a) \<noteq> None"
      "(case through_target reg rel f of None \<Rightarrow> Some a
        | Some (tm, tp) \<Rightarrow> collectInternalMarkers reg tm (Fields tp) cur a) \<noteq> None" for cur a
      using t [OF Some] by (auto simp del: not_None_eq split: option.split)
    then show ?thesis unfolding field_markers_def Let_def by (simp add: ty bind_total del: not_None_eq)
  qed
  then show ?case unfolding collect_Cons by (intro allI bind_total 2(2) [rule_format])
qed (simp add: collect_Nil)

section \<open>Items stay maps\<close>

text \<open>Every object in a value has distinct keys, as a Go map has.\<close>

fun wf_value :: "gany \<Rightarrow> bool" where
  "wf_value (GMap m) = (gowf m \<and> list_all (\<lambda>kv. wf_value (snd kv)) m)"
| "wf_value (GList vs) = list_all wf_value vs"
| "wf_value (GMaps ms) = list_all (\<lambda>m. gowf m \<and> list_all (\<lambda>kv. wf_value (snd kv)) m) ms"
| "wf_value v = True"

definition wf_row :: "row \<Rightarrow> bool" where
  "wf_row m = (gowf m \<and> list_all (\<lambda>kv. wf_value (snd kv)) m)"

named_theorems row_intros

lemma wf_value_row [simp]:
  "wf_value (GMap m) \<longleftrightarrow> wf_row m" "wf_value (GMaps ms) \<longleftrightarrow> list_all wf_row ms"
  by (simp_all add: wf_row_def list_all_iff)

declare wf_value.simps(1,3) [simp del]

lemma wf_row_iff: "wf_row m \<longleftrightarrow> gowf m \<and> (\<forall>k v. map_of m k = Some v \<longrightarrow> wf_value v)"
  unfolding wf_row_def list_all_iff by (fastforce simp: map_of_eq_Some_iff)

lemma wf_row_lookup: "wf_row m \<Longrightarrow> map_of m k = Some v \<Longrightarrow> wf_value v"
  by (simp add: wf_row_iff)

lemma wf_row_lookup_map: "wf_row m \<Longrightarrow> map_of m k = Some (GMap c) \<Longrightarrow> wf_row c"
  using wf_row_lookup by fastforce

lemma wf_row_update [row_intros]: "wf_row m \<Longrightarrow> wf_value v \<Longrightarrow> wf_row (AList.update k v m)"
  by (auto simp: wf_row_iff gomap_simps)

lemma wf_row_delete [row_intros]: "wf_row m \<Longrightarrow> wf_row (AList.delete k m)"
  by (auto simp: wf_row_iff delete_conv distinct_delete)

lemma wf_row_filter: "wf_row m \<Longrightarrow> wf_row (filter P m)"
  by (auto simp: wf_row_def list_all_iff intro: distinct_map_filter)

lemma wf_value_at: "wf_value v \<Longrightarrow> value_at v segs = Some w \<Longrightarrow> wf_value w"
  by (induction v segs rule: value_at.induct) (auto split: gany.splits option.splits dest: wf_row_lookup)

lemma wf_modify_at: "wf_row m \<Longrightarrow> (\<And>c. wf_row c \<Longrightarrow> wf_row (f c)) \<Longrightarrow> wf_row (modify_at segs f m)"
  by (induction segs f m rule: modify_at.induct)
     (auto split: option.splits gany.splits intro!: row_intros dest: wf_row_lookup)

lemma wf_set_at [row_intros]: "wf_row m \<Longrightarrow> wf_value v \<Longrightarrow> wf_row (set_at segs k v m)"
  by (auto simp: set_at_def intro!: wf_modify_at row_intros)

lemma wf_fold: "(\<And>x s. wf_row s \<Longrightarrow> wf_row (f x s)) \<Longrightarrow> wf_row s \<Longrightarrow> wf_row (fold f xs s)"
  by (induction xs arbitrary: s) auto

lemma wf_alias_field: "wf_row item \<Longrightarrow> wf_row (alias_field f item)"
  by (auto simp: alias_field_def intro!: row_intros split: option.splits dest: wf_row_lookup)

lemma wf_collapse_field: "wf_row item \<Longrightarrow> wf_row (collapse_field prefx f item)"
  by (auto simp: collapse_field_def setPathToNil_def Let_def intro!: wf_modify_at row_intros split: option.splits)

lemma wf_localize_field: "localize_field fmt st mn pn f item = Some out \<Longrightarrow> wf_row item \<Longrightarrow> wf_row out"
  by (auto simp: localize_field_def Let_def intro!: row_intros split: if_splits option.splits dest: wf_row_lookup)

lemma wf_localize_fields: "localize_fields fmt st mn pn fs item = Some out \<Longrightarrow> wf_row item \<Longrightarrow> wf_row out"
  by (induction fs arbitrary: item) (auto split: option.splits dest: wf_localize_field)

lemma wf_run_formatter: "wf_row item \<Longrightarrow> wf_row (run_formatter fl prefx f item)"
  by (auto simp: run_formatter_def Let_def intro!: row_intros split: option.splits
      dest: wf_value_at [of "GMap item", simplified])

lemma wf_inner_rows: "list_all wf_row rows \<Longrightarrow> list_all wf_row (inner_rows key rows)"
  by (fastforce simp: inner_rows_def List.map_filter_def list_all_iff split: option.splits gany.splits
      dest: wf_row_lookup)

lemma wf_list_rows:
  "list_all wf_value vs \<Longrightarrow> list_all wf_row (List.map_filter (\<lambda>it. case it of GMap e \<Rightarrow> Some e | _ \<Rightarrow> None) vs)"
  by (fastforce simp: List.map_filter_def list_all_iff split: gany.splits)

lemma wf_unwrap_rows: "wf_row c \<Longrightarrow> wf_row (unwrap_rows ty uk key c)"
  by (auto simp: unwrap_rows_def intro!: row_intros wf_inner_rows wf_list_rows
      split: option.splits gany.splits dest: wf_row_lookup_map wf_row_lookup)

lemma wf_unwrap_field: "wf_row item \<Longrightarrow> wf_row (unwrap_field reg m prefx f item)"
  by (auto simp: unwrap_field_def intro!: wf_modify_at wf_unwrap_rows split: option.splits)

lemma wf_row_Cons: "wf_row ((k, v) # m) \<longleftrightarrow> k \<notin> gokeys m \<and> wf_value v \<and> wf_row m"
  by (auto simp: wf_row_def)

lemma del_entries_keys: "map fst (del_entries s segs m) = map fst m"
  by (induction m) auto

lemma gokeys_del_entries: "gokeys (del_entries s segs m) = gokeys m"
  by (metis del_entries_keys set_map)

lemma wf_deleted:
  "wf_value v \<Longrightarrow> wf_value (del_value segs v)"
  "wf_row m \<Longrightarrow> wf_row (del_entries s segs m)"
  "list_all wf_value vs \<Longrightarrow> list_all wf_value (del_list segs vs)"
  "list_all wf_row ms \<Longrightarrow> list_all wf_row (del_rows s segs ms)"
  by (induction segs v and s segs m and segs vs and s segs ms rule: del_value_del_entries_del_list_del_rows.induct)
     (auto intro!: row_intros simp: wf_row_Cons gokeys_del_entries)

lemma wf_deleteExactPath: "wf_row item \<Longrightarrow> wf_row (deleteExactPath path item)"
  using wf_deleted(1) [of "GMap item" "split_char (CHR ''.'') path"]
  by (simp only: deleteExactPath_row [symmetric] wf_value_row)

lemma wf_remove_internal: "wf_row item \<Longrightarrow> wf_row (remove_internal mk item)"
proof -
  have same: "deletePrefix = deleteExactPath" by (intro ext) (rule deletePrefix_eq)
  show "wf_row item \<Longrightarrow> wf_row (remove_internal mk item)"
    by (auto simp: remove_internal_def same split: prod.split intro!: wf_row_filter wf_fold wf_deleteExactPath)
qed

lemma wf_alias_container: "wf_row c \<Longrightarrow> wf_row (alias_container f c)"
  by (auto simp: alias_container_def Let_def intro!: row_intros split: option.splits dest: wf_row_lookup)

lemma wf_collapse: "collapseEmptyBelongsTo reg m flds prefx item = Some out \<Longrightarrow> wf_row item \<longrightarrow> wf_row out"
proof (rule collapseEmptyBelongsTo.raw_induct [where P = "\<lambda>reg m flds prefx item out. wf_row item \<longrightarrow> wf_row out"],
    goal_cases)
  case (1 g r m flds prefx item out)
  then show ?case
    by (auto simp: bind_eq_Some_conv wf_collapse_field split: list.splits option.splits if_splits)
qed assumption

lemma wf_preset_aliases: "applyPresetAliases reg m flds prefx item = Some out \<Longrightarrow> wf_row item \<longrightarrow> wf_row out"
proof (rule applyPresetAliases.raw_induct [where P = "\<lambda>reg m flds prefx item out. wf_row item \<longrightarrow> wf_row out"],
    goal_cases)
  case (1 g r m flds prefx item out)
  then show ?case
    by (auto simp: bind_eq_Some_conv wf_alias_container wf_modify_at split: list.splits option.splits if_splits)
qed assumption

lemma wf_formatters:
  "applyAllFormatters fl reg m flds prefx nodes item = Some out \<Longrightarrow> wf_row item \<longrightarrow> wf_row out"
proof (rule applyAllFormatters.raw_induct [where P = "\<lambda>fl reg m flds prefx nodes item out. wf_row item \<longrightarrow> wf_row out"],
    goal_cases)
  case (1 g fl' r m flds prefx nodes item out)
  note IH = 1(2) and body = 1(3)
  show ?case
  proof (cases flds)
    case Nil
    then show ?thesis using body by (auto intro!: wf_fold wf_run_formatter)
  next
    case (Cons f rest)
    obtain it nodes' where it: "(case belongs_target r m f of None \<Rightarrow> Some (unwrap_field r m prefx f item)
        | Some (nm, np) \<Rightarrow> g fl' r nm (Fields np) (prefixFor prefx (FSource f)) [] item) = Some it"
      and out: "g fl' r m rest prefx nodes' it = Some out"
      using body by (auto simp: Cons bind_eq_Some_conv)
    have "wf_row item \<longrightarrow> wf_row it"
    proof (cases "belongs_target r m f")
      case None
      then show ?thesis using it by (auto intro: wf_unwrap_field)
    next
      case (Some t)
      then show ?thesis using it IH by (cases t) auto
    qed
    then show ?thesis using IH [OF out] by blast
  qed
qed assumption

section \<open>An example\<close>

definition fin_org :: model where
  "fin_org = empty_model\<lparr>MName := ''Org'', Presets := [(''card'', empty_preset\<lparr>PName := ''card'', Fields :=
     [empty_field\<lparr>FSource := ''title'', FType := ''string''\<rparr>,
      empty_field\<lparr>FSource := ''code'', FType := ''string'', Internal := True\<rparr>]\<rparr>)]\<rparr>"

definition fin_person :: model where
  "fin_person = empty_model\<lparr>MName := ''Person'',
     Relations := [(''org'', empty_relation\<lparr>RType := ''belongs_to'', RModel := ''Org'', ModelRef := Some ''Org''\<rparr>)]\<rparr>"

definition fin_registry :: registry where
  "fin_registry = [(''Org'', fin_org), (''Person'', fin_person)]"

definition fin_preset :: data_preset where
  "fin_preset = empty_preset\<lparr>PName := ''row'', Fields :=
     [empty_field\<lparr>FSource := ''name'', FType := ''string'', Internal := True\<rparr>,
      empty_field\<lparr>FSource := ''org'', FType := ''preset'', NestedPreset := ''card'', FAlias := ''company''\<rparr>,
      empty_field\<lparr>FSource := ''{name}'', FType := ''formatter'', FAlias := ''short''\<rparr>,
      empty_field\<lparr>FSource := ''{short}, {org.title}'', FType := ''formatter'', FAlias := ''label''\<rparr>]\<rparr>"

definition fin_env :: final_env where
  "fin_env = \<lparr>Floats = demo_floats, FormatTime = (\<lambda>l v. None), Locales = None\<rparr>"

definition fin_item :: row where
  "fin_item = [(''name'', GStr ''Ann''), (''org'', GMap [(''title'', GStr ''ACME''), (''code'', GStr ''x'')])]"

definition fin_out :: row where
  "fin_out = [(''short'', GStr ''Ann''), (''label'', GStr ''Ann, ACME''),
     (''company'', GMap [(''title'', GStr ''ACME'')])]"

lemma fin_example: "finalize_item fin_env fin_registry ''Person'' fin_person fin_preset fin_item = Some fin_out"
  by code_simp

section \<open>What goes wrong\<close>

text \<open>
  An object of a \<^verbatim>\<open>belongs_to\<close> relation that holds no scalar becomes null, and what is nested in it
  is lost, though it is not empty.
\<close>

lemma collapse_loses_nested:
  "collapse_field [] (empty_field\<lparr>FSource := ''org'', FType := ''preset''\<rparr>)
     [(''org'', GMap [(''head'', GMap [(''name'', GStr ''Ann'')])])] = [(''org'', GNil)]"
  by code_simp

text \<open>
  An internal field that has an alias stands in the item under its alias, but is removed under its
  source: it stays.
\<close>

lemma internal_alias_stays:
  "finalize_item fin_env [] ''Person'' empty_model
     (empty_preset\<lparr>Fields := [empty_field\<lparr>FSource := ''pin'', FType := ''string'', FAlias := ''code'', Internal := True\<rparr>]\<rparr>)
     [(''code'', GStr ''1234'')] = Some [(''code'', GStr ''1234'')]"
  by code_simp

text \<open>
  Three formatters, each of which uses the one before it; the second is declared first. It is
  evaluated before the first has a value.
\<close>

lemma formatter_before_its_source:
  "applyAllFormatters demo_floats [] empty_model
     [empty_field\<lparr>FSource := ''{name}'', FType := ''formatter'', FAlias := ''one''\<rparr>,
      empty_field\<lparr>FSource := ''<{two}>'', FType := ''formatter'', FAlias := ''last''\<rparr>,
      empty_field\<lparr>FSource := ''{one}!'', FType := ''formatter'', FAlias := ''two''\<rparr>]
     [] [] [(''name'', GStr ''Ann'')] =
   Some [(''name'', GStr ''Ann''), (''last'', GStr ''<>''), (''one'', GStr ''Ann''), (''two'', GStr ''Ann!'')]"
  by code_simp

text \<open>
  Rows that are no longer inside rows of the intermediate model are dropped when they are taken
  out of them: a list that was unwrapped once is emptied by unwrapping it again.
\<close>

lemma inner_rows_empty:
  "(\<And>e inner. e \<in> set rows \<Longrightarrow> map_of e key \<noteq> Some (GMap inner)) \<Longrightarrow> inner_rows key rows = []"
  by (auto simp: inner_rows_def List.map_filter_def filter_empty_conv split: option.splits gany.splits)

lemma unwrapped_rows_are_lost:
  assumes "map_of parent key = Some (GMaps rows)"
    and "\<And>e inner. e \<in> set rows \<Longrightarrow> map_of e unwrapKey \<noteq> Some (GMap inner)"
  shows "map_of (unwrap_rows ''has_many'' unwrapKey key parent) key = Some (GMaps [])"
  using assms inner_rows_empty [of rows unwrapKey] by (simp add: unwrap_rows_def gomap_simps)

section \<open>Properties\<close>

text \<open>
  Deleting a subtree by its prefix and deleting a key by its exact path are the same function on
  every item and path, through lists as well (\<^verbatim>\<open>deletePrefix\<close>, \<^verbatim>\<open>deleteExactPath\<close>).
\<close>
theorem deletePrefix_is_deleteExactPath: "deletePrefix path item = deleteExactPath path item"
  by (rule deletePrefix_eq)



text \<open>
  C37. The formatters of a preset run in an order in which a formatter that uses the alias of one
  declared before it comes after that one, and a formatter that uses none declared before it comes
  before all those (\<^verbatim>\<open>applyAllFormatters\<close>, \<^verbatim>\<open>insertByDeps\<close>).
\<close>
theorem formatters_follow_dependencies:
  assumes "applyAllFormatters fl reg m flds prefx [] item = Some out"
    and "fs = filter (formatter_node m) flds" "i < j" "j < length fs"
  shows "\<exists>order item'. out = fold (run_formatter fl prefx) order item' \<and> set order = set fs \<and>
     (dep_match (fs ! j) (fs ! i) \<longrightarrow> subseq [fs ! i, fs ! j] order) \<and>
     (list_all (\<lambda>g. \<not> dep_match (fs ! j) g) (take j fs) \<longrightarrow> subseq [fs ! j, fs ! i] order)"
proof -
  let ?ks = "formatter_order (take j fs) []"
  have fs: "fs = take j fs @ fs ! j # drop (Suc j) fs" by (rule id_take_nth_drop [OF assms(4)])
  have i: "fs ! i \<in> set (take j fs)" using assms(3,4) by (auto simp: set_conv_nth intro!: exI [of _ i])
  have follows: "subseq [fs ! i, fs ! j] (formatter_order fs [])" if "dep_match (fs ! j) (fs ! i)"
    by (subst fs, rule formatter_order_between [where P = "\<lambda>ks. fs ! i \<in> set ks"])
       (use i that insertByDeps_follows in \<open>auto simp: set_formatter_order\<close>)
  have first: "subseq [fs ! j, fs ! i] (formatter_order fs [])"
    if none: "list_all (\<lambda>g. \<not> dep_match (fs ! j) g) (take j fs)"
    by (subst fs, rule formatter_order_between
          [where P = "\<lambda>ks. fs ! i \<in> set ks \<and> \<not> list_ex (dep_match (fs ! j)) ks"])
       (use i none insertByDeps_first in \<open>auto simp: set_formatter_order list_ex_iff list_all_iff\<close>)
  obtain item' where out: "out = fold (run_formatter fl prefx) (formatter_order fs []) item'"
    using apply_formatters_order [OF assms(1)] assms(2) by blast
  show ?thesis
    by (rule exI [of _ "formatter_order fs []"], rule exI [of _ item'])
       (use out follows first in \<open>simp add: set_formatter_order\<close>)
qed

theorem formatters_follow_dependencies_witness:
  "\<exists>out order item'.
     applyAllFormatters demo_floats fin_registry fin_person (Fields fin_preset) [] [] fin_item = Some out \<and>
     out = fold (run_formatter demo_floats []) order item' \<and>
     subseq [Fields fin_preset ! 2, Fields fin_preset ! 3] order"
proof -
  let ?fs = "filter (formatter_node fin_person) (Fields fin_preset)"
  have ok: "applyAllFormatters demo_floats fin_registry fin_person (Fields fin_preset) [] [] fin_item \<noteq> None"
    by code_simp
  then obtain out where out: "applyAllFormatters demo_floats fin_registry fin_person (Fields fin_preset) [] [] fin_item = Some out"
    by blast
  have fs: "?fs = [Fields fin_preset ! 2, Fields fin_preset ! 3]" "dep_match (?fs ! 1) (?fs ! 0)" by code_simp+
  obtain order item' where "out = fold (run_formatter demo_floats []) order item'"
    "dep_match (?fs ! 1) (?fs ! 0) \<longrightarrow> subseq [?fs ! 0, ?fs ! 1] order"
    using formatters_follow_dependencies [OF out refl, of 0 1] fs(1) by auto
  then show ?thesis using out fs by (metis One_nat_def nth_Cons_0 nth_Cons_Suc)
qed





end
