(* ===== verification/Resolver.thy ===== *)
theory Resolver
  imports Index_Query Scan_Rows Finalize_Items Count_Queries
begin

text \<open>
  The resolver: \<^verbatim>\<open>internal/resolver/resolver.go\<close>. A request becomes a statement, its rows become items,
  and the rows of \<^verbatim>\<open>has_one\<close>, \<^verbatim>\<open>has_many\<close> and polymorphic relations (the tails of the preset) are
  fetched by requests of their own and attached to the items.

  \<open>None\<close> is that the program does not return: it recurses forever or panics. The integers of
  columns that are compared have one type; Go's map keys of different integer types are never equal.
\<close>

section \<open>Tails\<close>

record tail_spec =
  FieldAlias :: string
  RelKey :: string
  Rel :: model_relation
  TNested :: string
  LimitOne :: bool
  TargetPath :: string
  TFormatter :: string

definition tailKey :: "tail_spec \<Rightarrow> string" where
  "tailKey t = prefixFor (trim_space (TargetPath t)) (FieldAlias t)"

record poly_tail =
  PField :: string
  PRel :: model_relation
  PNested :: string
  PPath :: string

text \<open>The tail that a field stands for, if it does.\<close>

definition field_tail :: "model \<Rightarrow> string \<Rightarrow> preset_field \<Rightarrow> tail_spec option" where
  "field_tail m prefx f =
     (case preset_relation m f of
        None \<Rightarrow> None
      | Some rel \<Rightarrow>
          if RType rel = ''has_one'' \<or> RType rel = ''has_many'' then
            Some \<lparr>FieldAlias = fieldKey f, RelKey = FSource f, Rel = rel, TNested = NestedPreset f,
                  LimitOne = (RType rel = ''has_one''), TargetPath = prefx,
                  TFormatter = trim_space (FFormatter f)\<rparr>
          else None)"

definition field_poly_tail :: "model \<Rightarrow> string \<Rightarrow> preset_field \<Rightarrow> poly_tail option" where
  "field_poly_tail m prefx f =
     (case preset_relation m f of
        None \<Rightarrow> None
      | Some rel \<Rightarrow>
          if RType rel = ''belongs_to'' \<and> Polymorphic rel then
            Some \<lparr>PField = fieldKey f, PRel = rel, PNested = NestedPreset f, PPath = prefx\<rparr>
          else None)"

partial_function (option) collectTails ::
  "registry \<Rightarrow> model \<Rightarrow> preset_field list \<Rightarrow> string \<Rightarrow> tail_spec list option" where
  "collectTails reg m flds prefx =
     (case flds of
        [] \<Rightarrow> Some []
      | f # rest \<Rightarrow>
          Option.bind
            (case belongs_target reg m f of
               Some (nm, np) \<Rightarrow> collectTails reg nm (Fields np) (prefixFor prefx (FSource f))
             | None \<Rightarrow> Some (target_list (field_tail m prefx f)))
            (\<lambda>here. Option.bind (collectTails reg m rest prefx) (\<lambda>there. Some (here @ there))))"

declare collectTails.simps [code]

partial_function (option) collectPolyTails ::
  "registry \<Rightarrow> model \<Rightarrow> preset_field list \<Rightarrow> string \<Rightarrow> poly_tail list option" where
  "collectPolyTails reg m flds prefx =
     (case flds of
        [] \<Rightarrow> Some []
      | f # rest \<Rightarrow>
          Option.bind
            (case field_poly_tail m prefx f of
               Some t \<Rightarrow> Some [t]
             | None \<Rightarrow> (case belongs_target reg m f of
                 Some (nm, np) \<Rightarrow> collectPolyTails reg nm (Fields np) (prefixFor prefx (FSource f))
               | None \<Rightarrow> Some []))
            (\<lambda>here. Option.bind (collectPolyTails reg m rest prefx) (\<lambda>there. Some (here @ there))))"

declare collectPolyTails.simps [code]

section \<open>Places in an item\<close>

definition getTargetContext :: "row \<Rightarrow> string \<Rightarrow> row option" where
  "getTargetContext item targetPath = map_at item (path_segs targetPath)"

text \<open>\<open>ensure_at\<close> updates the object that a path leads to, and creates the objects on the way.\<close>

fun ensure_at :: "string list \<Rightarrow> (row \<Rightarrow> row) \<Rightarrow> row \<Rightarrow> row" where
  "ensure_at [] f row = f row"
| "ensure_at (seg # segs) f row =
     AList.update seg (GMap (ensure_at segs f
       (case map_of row seg of Some (GMap mm) \<Rightarrow> mm | _ \<Rightarrow> []))) row"

definition ensureTargetContext :: "row \<Rightarrow> string \<Rightarrow> (row \<Rightarrow> row) \<Rightarrow> row" where
  "ensureTargetContext item targetPath f = ensure_at (path_segs targetPath) f item"

definition lookup_nil :: "row \<Rightarrow> string \<Rightarrow> gany" where
  "lookup_nil row key = (case map_of row key of None \<Rightarrow> GNil | Some v \<Rightarrow> v)"

section \<open>Keys and groups\<close>

text \<open>
  The values of a key of the parents, each once; a value that cannot be a map key is a panic.
\<close>

definition tail_ids :: "tail_spec \<Rightarrow> row list \<Rightarrow> gany list option" where
  "tail_ids t items =
     (let vs = List.map_filter (\<lambda>it. case getTargetContext it (TargetPath t) of
                 None \<Rightarrow> None
               | Some ctx \<Rightarrow> (case map_of ctx (PK (Rel t)) of
                   None \<Rightarrow> None
                 | Some v \<Rightarrow> if v = GNil then None else Some v)) items
      in if list_all (\<lambda>v. value_key v \<noteq> KBad) vs then Some (dedup_from [] vs) else None)"

type_synonym groups = "(gany, row list) gomap"

definition add_row :: "string \<Rightarrow> row \<Rightarrow> groups \<Rightarrow> groups" where
  "add_row fk row g =
     (let pid = lookup_nil row fk
      in AList.update pid ((case map_of g pid of None \<Rightarrow> [] | Some rs \<Rightarrow> rs) @ [row]) g)"

definition group_rows :: "string \<Rightarrow> row list \<Rightarrow> groups option" where
  "group_rows fk rows =
     (if list_all (\<lambda>r. value_key (lookup_nil r fk) \<noteq> KBad) rows then Some (fold (add_row fk) rows []) else None)"

section \<open>Attaching the rows of a tail\<close>

definition tail_value :: "float_text \<Rightarrow> tail_spec \<Rightarrow> row list \<Rightarrow> gany" where
  "tail_value fl t rows =
     (case rows of
        [] \<Rightarrow> if LimitOne t then GNil else GList []
      | r # rs \<Rightarrow>
          if LimitOne t then
            (if is_blank (TFormatter t) then GMap (AList.delete (FK (Rel t)) r)
             else GStr (applyFormatter fl (TFormatter t) r))
          else
            (if is_blank (TFormatter t) then GMaps (map (AList.delete (FK (Rel t))) rows)
             else GStrs (map (applyFormatter fl (TFormatter t)) rows)))"

type_synonym grouped_tails = "(string, groups) gomap"

definition rows_of :: "grouped_tails \<Rightarrow> tail_spec \<Rightarrow> gany \<Rightarrow> row list" where
  "rows_of gt t pid =
     (case map_of gt (tailKey t) of
        None \<Rightarrow> []
      | Some g \<Rightarrow> (case map_of g pid of None \<Rightarrow> [] | Some rs \<Rightarrow> rs))"

definition attach_tail :: "float_text \<Rightarrow> grouped_tails \<Rightarrow> tail_spec \<Rightarrow> row \<Rightarrow> row" where
  "attach_tail fl gt t item =
     (case getTargetContext item (TargetPath t) of
        None \<Rightarrow> item
      | Some ctx \<Rightarrow>
          ensureTargetContext item (TargetPath t)
            (AList.update (FieldAlias t) (tail_value fl t (rows_of gt t (lookup_nil ctx (PK (Rel t)))))))"

definition attach_tails :: "float_text \<Rightarrow> grouped_tails \<Rightarrow> tail_spec list \<Rightarrow> row list \<Rightarrow> row list" where
  "attach_tails fl gt tails items = map (fold (attach_tail fl gt) tails) items"

section \<open>The requests of the tails\<close>

datatype resolve_error =
    ModelNotFound string
  | PresetNotFound string string
  | AliasMapFailed alias_error
  | QueryFailed query_error
  | SqlFailed string
  | DbFailed string
  | ScanFailed scan_error
  | TailNoModel string string
  | TailNoPreset string string string
  | TailThrough string through_error
  | TailFailed string resolve_error
  | PolyFailed string resolve_error

text \<open>
  The request for the rows of a tail. A direct relation with no nested preset dereferences a nil
  preset: a panic.
\<close>

definition tail_request ::
  "registry \<Rightarrow> model \<Rightarrow> tail_spec \<Rightarrow> gany list \<Rightarrow> (resolve_error + index_request) option" where
  "tail_request reg m t ids =
     (let rel = Rel t
      in case deref reg (ModelRef rel) of
           None \<Rightarrow> Some (Inl (TailNoModel (FieldAlias t) (RModel rel)))
         | Some childModel \<Rightarrow>
             (case (if TNested t = [] then Some None
                    else map_option Some (map_of (Presets childModel) (TNested t))) of
                None \<Rightarrow> Some (Inl (TailNoPreset (FieldAlias t) (TNested t) (Table childModel)))
              | Some childPreset \<Rightarrow>
                  if Through rel = [] then
                    map_option (\<lambda>cp. Inr \<lparr>QModel = RModel rel, QPreset = [],
                        QFilters = AList.update (FK rel @ ''__in'') (GList ids)
                          (if RWhere rel = [] then [] else add_condition id (RWhere rel) []),
                        QSorts = buildOrderSorts (ROrder rel) [], QOffset = 0, QLimit = maxLimit,
                        UniqueBy = [], PresetObj = Some (makeSyntheticPreset cp (FK rel)), UnwrapField = []\<rparr>)
                      childPreset
                  else
                    (case MakeThroughChildRequest reg m rel (TNested t) ids of
                       Inl e \<Rightarrow> Some (Inl (TailThrough (FieldAlias t) e))
                     | Inr req \<Rightarrow> Some (Inr req))))"

text \<open>What the goroutine of a tail writes: an error, or the groups of its rows. \<open>rec\<close> is the resolver.\<close>

definition tail_result ::
  "registry \<Rightarrow> model \<Rightarrow> (index_request \<Rightarrow> (resolve_error + row list) option) \<Rightarrow> tail_spec \<times> gany list \<Rightarrow>
   (resolve_error + string \<times> groups) option" where
  "tail_result reg m rec tids =
     (case tids of (t, ids) \<Rightarrow>
        Option.bind (tail_request reg m t ids) (\<lambda>r. case r of
            Inl e \<Rightarrow> Some (Inl e)
          | Inr req \<Rightarrow> Option.bind (rec req) (\<lambda>res. case res of
              Inl e \<Rightarrow> Some (Inl (TailFailed (FieldAlias t) e))
            | Inr childItems \<Rightarrow>
                Option.bind (group_rows (FK (Rel t)) childItems) (\<lambda>g. Some (Inr (tailKey t, g))))))"

text \<open>
  The state that the goroutines share: each writes it once, under the mutex. The last error and the
  last groups of a key stay.
\<close>

type_synonym tail_state = "resolve_error option \<times> grouped_tails"

definition write_result :: "resolve_error + string \<times> groups \<Rightarrow> tail_state \<Rightarrow> tail_state" where
  "write_result r st =
     (case r of
        Inl e \<Rightarrow> (Some e, snd st)
      | Inr (key, g) \<Rightarrow> (fst st, AList.update key g (snd st)))"

section \<open>Polymorphic relations\<close>

definition type_column :: "poly_tail \<Rightarrow> string" where
  "type_column t = (if is_blank (TypeColumn (PRel t)) then PField t @ ''_type'' else TypeColumn (PRel t))"

text \<open>The type and the key to which an item refers; both columns are read at the root of the item.\<close>

definition poly_ref :: "float_text \<Rightarrow> poly_tail \<Rightarrow> row \<Rightarrow> (string \<times> gany) option" where
  "poly_ref fl t it =
     (case map_of it (type_column t) of
        None \<Rightarrow> None
      | Some tv \<Rightarrow>
          if tv = GNil then None
          else (case map_of it (FK (PRel t)) of
            None \<Rightarrow> None
          | Some iv \<Rightarrow> if iv = GNil then None else Some (sprint fl tv, iv)))"

definition poly_ids :: "float_text \<Rightarrow> poly_tail \<Rightarrow> row list \<Rightarrow> (string, gany list) gomap option" where
  "poly_ids fl t items =
     (let refs = List.map_filter (poly_ref fl t) items
      in if list_all (\<lambda>r. value_key (snd r) \<noteq> KBad) refs then
           Some (map (\<lambda>typ. (typ, dedup_from [] (map snd (filter (\<lambda>r. fst r = typ) refs))))
                   (dedup_from [] (map fst refs)))
         else None)"

text \<open>The request for the rows of one type; a type that is no model, or a preset it lacks, is skipped.\<close>

definition poly_request :: "registry \<Rightarrow> poly_tail \<Rightarrow> string \<Rightarrow> gany list \<Rightarrow> index_request option" where
  "poly_request reg t typ ids =
     (case map_of reg typ of
        None \<Rightarrow> None
      | Some childModel \<Rightarrow> (case map_of (Presets childModel) (PNested t) of
          None \<Rightarrow> None
        | Some childPreset \<Rightarrow>
            Some \<lparr>QModel = typ, QPreset = PName childPreset,
                  QFilters = [(PK (PRel t) @ ''__in'', GList ids)], QSorts = [], QOffset = 0,
                  QLimit = of_nat (length ids), UniqueBy = [], PresetObj = None, UnwrapField = []\<rparr>))"

type_synonym poly_rows = "(string, (gany, row) gomap) gomap"

text \<open>The loop over the types, one request after the other; the first error ends it.\<close>

fun poly_fetch ::
  "registry \<Rightarrow> (index_request \<Rightarrow> (resolve_error + row list) option) \<Rightarrow> poly_tail \<Rightarrow> (string \<times> gany list) list \<Rightarrow>
   poly_rows \<Rightarrow> (resolve_error + poly_rows) option" where
  "poly_fetch reg rec t [] acc = Some (Inr acc)"
| "poly_fetch reg rec t ((typ, ids) # rest) acc =
     (case poly_request reg t typ ids of
        None \<Rightarrow> poly_fetch reg rec t rest acc
      | Some req \<Rightarrow> Option.bind (rec req) (\<lambda>res. case res of
          Inl e \<Rightarrow> Some (Inl (PolyFailed (PField t) e))
        | Inr childItems \<Rightarrow>
            if list_all (\<lambda>r. value_key (lookup_nil r (PK (PRel t))) \<noteq> KBad) childItems then
              poly_fetch reg rec t rest
                (AList.update typ (fold (\<lambda>r g. AList.update (lookup_nil r (PK (PRel t))) r g) childItems []) acc)
            else None))"

definition attach_poly :: "float_text \<Rightarrow> poly_tail \<Rightarrow> poly_rows \<Rightarrow> row \<Rightarrow> row" where
  "attach_poly fl t fetched item =
     (case poly_ref fl t item of
        None \<Rightarrow> item
      | Some (typ, iv) \<Rightarrow>
          ensure_at (path_segs (PPath t))
            (AList.update (PField t)
               (case (case map_of fetched typ of None \<Rightarrow> None | Some g \<Rightarrow> map_of g iv) of
                  None \<Rightarrow> GNil
                | Some r \<Rightarrow> GMap (AList.delete (PK (PRel t)) r))) item)"

fun resolve_polys ::
  "float_text \<Rightarrow> registry \<Rightarrow> (index_request \<Rightarrow> (resolve_error + row list) option) \<Rightarrow> poly_tail list \<Rightarrow> row list \<Rightarrow>
   (resolve_error + row list) option" where
  "resolve_polys fl reg rec [] items = Some (Inr items)"
| "resolve_polys fl reg rec (t # ts) items =
     Option.bind (poly_ids fl t items) (\<lambda>byType.
     Option.bind (poly_fetch reg rec t byType []) (\<lambda>r. case r of
         Inl e \<Rightarrow> Some (Inl e)
       | Inr fetched \<Rightarrow> resolve_polys fl reg rec ts (map (attach_poly fl t fetched) items)))"

section \<open>Rows of the final model\<close>

definition unwrapThrough :: "string \<Rightarrow> string \<Rightarrow> row list \<Rightarrow> row list" where
  "unwrapThrough fk unwrap items =
     List.map_filter (\<lambda>it. case map_of it unwrap of
         Some (GMap payload) \<Rightarrow>
           if payload = [] then None
           else Some (fold (\<lambda>(k, v). AList.update k v) payload [(fk, lookup_nil it fk)])
       | _ \<Rightarrow> None) items"

section \<open>The resolver\<close>

text \<open>
  What a request uses beside the registry: the alias map that \<^verbatim>\<open>CreateAliasMap\<close> gives it (in the
  state that its cache has then), the text of a statement, the database, the conversion of values
  and the random draws of a statement. The tables do not change during a request.
\<close>

record resolver_env = final_env +
  AliasMapFor :: "model \<Rightarrow> data_preset option \<Rightarrow> gofilters \<Rightarrow> string list \<Rightarrow> (alias_error + alias_map) option"
  ToSql :: to_sql
  RunQuery :: "string \<times> gany list \<Rightarrow> string + (string + cell list) list \<times> string option"
  Conv :: conversions
  Draws :: "index_request \<Rightarrow> nat list"

text \<open>The rows of the page itself.\<close>

definition page_items ::
  "'a resolver_env_scheme \<Rightarrow> registry \<Rightarrow> model \<Rightarrow> data_preset \<Rightarrow> index_request \<Rightarrow> (resolve_error + row list) option" where
  "page_items env reg m p req =
     Option.bind (NormalizeFiltersWithAliases reg m (QFilters req)) (\<lambda>filters.
     Option.bind (NormalizeSortsWithAliases reg m (QSorts req)) (\<lambda>sorts.
     Option.bind (AliasMapFor env m (Some p) filters sorts) (\<lambda>r. case r of
         Inl e \<Rightarrow> Some (Inl (AliasMapFailed e))
       | Inr am \<Rightarrow>
           Option.bind (BuildIndexQuery (ToSql env) reg m am filters sorts (Some p) (QOffset req) (QLimit req) (Draws env req))
             (\<lambda>r. case r of
                Inl e \<Rightarrow> Some (Inl (QueryFailed e))
              | Inr q \<Rightarrow> (case ToSql env q of
                  Inl e \<Rightarrow> Some (Inl (SqlFailed e))
                | Inr stmt \<Rightarrow> (case RunQuery env stmt of
                    Inl e \<Rightarrow> Some (Inl (DbFailed e))
                  | Inr (rows, final) \<Rightarrow>
                      map_option (\<lambda>r. case r of Inl e \<Rightarrow> Inl (ScanFailed e) | Inr items \<Rightarrow> Inr items)
                        (ScanFlatRows (Conv env) reg m (Some p) am rows final)))))))"

definition request_preset :: "model \<Rightarrow> index_request \<Rightarrow> data_preset option" where
  "request_preset m req = (if QPreset req \<noteq> [] then GetPreset m (QPreset req) else PresetObj req)"

text \<open>
  The tails of the items: the keys of each, and the results of the goroutines of those that have
  keys. After \<^verbatim>\<open>wg.Wait\<close> there is the error or the attached rows. The goroutines run here in the
  order of the tails; that other orders give the same is shown below.
\<close>

definition tail_results ::
  "registry \<Rightarrow> model \<Rightarrow> (index_request \<Rightarrow> (resolve_error + row list) option) \<Rightarrow> tail_spec list \<Rightarrow> row list \<Rightarrow>
   (resolve_error + string \<times> groups) list option" where
  "tail_results reg m rec tails items =
     Option.bind (opt_map (\<lambda>t. map_option (Pair t) (tail_ids t items)) tails) (\<lambda>tids.
       opt_map (tail_result reg m rec) (filter (\<lambda>ti. snd ti \<noteq> []) tids))"

definition finish_tails :: "float_text \<Rightarrow> tail_spec list \<Rightarrow> row list \<Rightarrow> tail_state \<Rightarrow> resolve_error + row list" where
  "finish_tails fl tails items st =
     (case fst st of
        Some e \<Rightarrow> Inl e
      | None \<Rightarrow> Inr (attach_tails fl (snd st) tails items))"

definition resolve_tails ::
  "float_text \<Rightarrow> registry \<Rightarrow> model \<Rightarrow> (index_request \<Rightarrow> (resolve_error + row list) option) \<Rightarrow> tail_spec list \<Rightarrow>
   row list \<Rightarrow> (resolve_error + row list) option" where
  "resolve_tails fl reg m rec tails items =
     Option.bind (tail_results reg m rec tails items) (\<lambda>results.
       Some (finish_tails fl tails items (fold write_result results (None, []))))"

definition unwrap_result :: "index_request \<Rightarrow> row list \<Rightarrow> (resolve_error + row list) option" where
  "unwrap_result req items =
     (case PresetObj req of
        None \<Rightarrow> Some (Inr items)
      | Some p \<Rightarrow>
          if UnwrapField req = [] then Some (Inr items)
          else (case Fields p of
            [] \<Rightarrow> None
          | f # _ \<Rightarrow> Some (Inr (unwrapThrough (FSource f) (UnwrapField req) items))))"

definition resolve_step ::
  "'a resolver_env_scheme \<Rightarrow> registry \<Rightarrow> (index_request \<Rightarrow> (resolve_error + row list) option) \<Rightarrow> index_request \<Rightarrow>
   (resolve_error + row list) option" where
  "resolve_step env reg rec req =
     (case map_of reg (QModel req) of
        None \<Rightarrow> Some (Inl (ModelNotFound (QModel req)))
      | Some m \<Rightarrow> (case request_preset m req of
          None \<Rightarrow> Some (Inl (PresetNotFound (QModel req) (QPreset req)))
        | Some p \<Rightarrow>
            (let final = finalizeItems (final_env.truncate env) reg (QModel req) m (Some p)
             in Option.bind (page_items env reg m p req) (\<lambda>r. case r of
                  Inl e \<Rightarrow> Some (Inl e)
                | Inr items \<Rightarrow>
                    if items = [] then Some (Inr [])
                    else
                      Option.bind (collectPolyTails reg m (Fields p) []) (\<lambda>polys.
                      Option.bind (collectTails reg m (Fields p) []) (\<lambda>tails.
                        if tails = [] \<and> polys = [] then map_option Inr (final items)
                        else
                          Option.bind (resolve_tails (Floats env) reg m rec tails items) (\<lambda>r. case r of
                              Inl e \<Rightarrow> Some (Inl e)
                            | Inr items1 \<Rightarrow>
                                Option.bind (resolve_polys (Floats env) reg rec polys items1) (\<lambda>r. case r of
                                    Inl e \<Rightarrow> Some (Inl e)
                                  | Inr items2 \<Rightarrow> Option.bind (final items2) (unwrap_result req)))))))))"

section \<open>The recursion\<close>

text \<open>The resolver calls itself only through the monotone parts above.\<close>

lemma opt_map_bind:
  "opt_map f (x # xs) = Option.bind (f x) (\<lambda>y. Option.bind (opt_map f xs) (\<lambda>ys. Some (y # ys)))"
  by (auto split: option.splits)

lemma opt_map_mono [partial_function_mono]:
  "(\<And>x. mono_option (\<lambda>g. F g x)) \<Longrightarrow> mono_option (\<lambda>g. opt_map (F g) xs)"
proof (induction xs)
  case Nil
  show ?case by (simp add: monotone_def option.leq_refl)
next
  case (Cons x xs)
  show ?case unfolding opt_map_bind
    by (intro bind_mono Cons option.const_mono)
qed

lemma case_sum_mono:
  "(\<And>e. mono_option (\<lambda>g. A e g)) \<Longrightarrow> (\<And>x. mono_option (\<lambda>g. B x g)) \<Longrightarrow>
   mono_option (\<lambda>g. case s of Inl e \<Rightarrow> A e g | Inr x \<Rightarrow> B x g)"
  by (cases s) simp_all

lemma case_option_mono:
  "mono_option (\<lambda>g. A g) \<Longrightarrow> (\<And>x. mono_option (\<lambda>g. B x g)) \<Longrightarrow>
   mono_option (\<lambda>g. case s of None \<Rightarrow> A g | Some x \<Rightarrow> B x g)"
  by (cases s) simp_all

lemmas resolver_mono = bind_mono option.const_mono case_sum_mono case_option_mono if_mono opt_map_mono

lemma tail_result_mono:
  assumes "\<And>r. mono_option (\<lambda>g. F g r)"
  shows "mono_option (\<lambda>g. tail_result reg m (F g) tids)"
  unfolding tail_result_def by (cases tids) (simp, intro resolver_mono assms)

lemma resolve_tails_mono:
  assumes "\<And>r. mono_option (\<lambda>g. F g r)"
  shows "mono_option (\<lambda>g. resolve_tails fl reg m (F g) tails items)"
  unfolding resolve_tails_def tail_results_def by (intro resolver_mono tail_result_mono assms)

lemma poly_fetch_mono:
  assumes "\<And>r. mono_option (\<lambda>g. F g r)"
  shows "mono_option (\<lambda>g. poly_fetch reg (F g) t byType acc)"
proof (induction byType arbitrary: acc)
  case (Cons x byType)
  show ?case by (cases x) (simp, intro resolver_mono assms Cons)
qed (simp, rule option.const_mono)

lemma resolve_polys_mono:
  assumes "\<And>r. mono_option (\<lambda>g. F g r)"
  shows "mono_option (\<lambda>g. resolve_polys fl reg (F g) ts items)"
proof (induction ts arbitrary: items)
  case (Cons t ts)
  show ?case by (simp, intro resolver_mono poly_fetch_mono assms Cons)
qed (simp, rule option.const_mono)

lemma resolve_step_mono [partial_function_mono]:
  assumes "\<And>r. mono_option (\<lambda>g. F g r)"
  shows "mono_option (\<lambda>g. resolve_step env reg (F g) req)"
  unfolding resolve_step_def Let_def
  by (intro resolver_mono resolve_tails_mono resolve_polys_mono assms)

partial_function (option) Resolver ::
  "'a resolver_env_scheme \<Rightarrow> registry \<Rightarrow> index_request \<Rightarrow> (resolve_error + row list) option" where
  "Resolver env reg req = resolve_step env reg (\<lambda>r. Resolver env reg r) req"

declare Resolver.simps [code]

section \<open>Distinct values\<close>

datatype distinct_failure =
    DModelNotFound string
  | DAliasMap alias_error
  | DQuery "distinct_error + query_error"
  | DSql string
  | DDb string
  | DScan string

definition distinct_value :: "conversions \<Rightarrow> cell \<Rightarrow> gany" where
  "distinct_value cv c =
     (case c of
        CUuid b \<Rightarrow> GStr (UuidText cv b)
      | CArr16 b \<Rightarrow> GStr (UuidText cv b)
      | CBytes b \<Rightarrow> GStr b
      | CVal x \<Rightarrow> x)"

definition scan_value :: "conversions \<Rightarrow> string + cell list \<Rightarrow> distinct_failure + gany" where
  "scan_value cv r =
     (case r of
        Inl e \<Rightarrow> Inl (DScan e)
      | Inr [c] \<Rightarrow> Inr (distinct_value cv c)
      | Inr _ \<Rightarrow> Inl (DScan ''columns''))"

definition ResolveDistinctValues ::
  "'a resolver_env_scheme \<Rightarrow> registry \<Rightarrow> index_request \<Rightarrow> (distinct_failure + gany list) option" where
  "ResolveDistinctValues env reg req =
     (case map_of reg (QModel req) of
        None \<Rightarrow> Some (Inl (DModelNotFound (QModel req)))
      | Some m \<Rightarrow>
          Option.bind (NormalizeFiltersWithAliases reg m (QFilters req)) (\<lambda>filters.
          Option.bind (ExpandAliasPath reg m (UniqueBy req)) (\<lambda>path.
            (let field = trim_space path
             in Option.bind (AliasMapFor env m None filters [field @ '' ASC'']) (\<lambda>r. case r of
                  Inl e \<Rightarrow> Some (Inl (DAliasMap e))
                | Inr am \<Rightarrow>
                    map_option (\<lambda>r. case r of
                        Inl e \<Rightarrow> Inl (DQuery e)
                      | Inr q \<Rightarrow> (case ToSql env q of
                          Inl e \<Rightarrow> Inl (DSql e)
                        | Inr stmt \<Rightarrow> (case RunQuery env stmt of
                            Inl e \<Rightarrow> Inl (DDb e)
                          | Inr (rows, final) \<Rightarrow>
                              (case map_res (scan_value (Conv env)) rows of
                                 Inl e \<Rightarrow> Inl e
                               | Inr vs \<Rightarrow> (case final of None \<Rightarrow> Inr vs | Some e \<Rightarrow> Inl (DDb e))))))
                      (BuildDistinctValuesQuery (ToSql env) reg m am filters field (QOffset req) (QLimit req)
                         (Draws env req)))))))"

section \<open>Grouping is a join\<close>

lemma add_row_lookup:
  "map_of (add_row fk r g) pid =
     (if lookup_nil r fk = pid then Some ((case map_of g pid of None \<Rightarrow> [] | Some rs \<Rightarrow> rs) @ [r]) else map_of g pid)"
  by (auto simp: add_row_def Let_def gomap_simps)

lemma fold_add_row:
  "(case map_of (fold (add_row fk) rows g) pid of None \<Rightarrow> [] | Some rs \<Rightarrow> rs) =
     (case map_of g pid of None \<Rightarrow> [] | Some rs \<Rightarrow> rs) @ filter (\<lambda>r. lookup_nil r fk = pid) rows"
  by (induction rows arbitrary: g) (auto simp: add_row_lookup split: option.split)

lemma group_rows_lookup:
  "group_rows fk rows = Some g \<Longrightarrow>
   (case map_of g pid of None \<Rightarrow> [] | Some rs \<Rightarrow> rs) = filter (\<lambda>r. lookup_nil r fk = pid) rows"
  using fold_add_row [of fk rows "[]" pid] by (auto simp: group_rows_def split: if_splits)

text \<open>The abstract result: the rows of a tail that refer to an item, looked for one by one.\<close>

definition attach_join :: "float_text \<Rightarrow> (tail_spec \<Rightarrow> row list) \<Rightarrow> tail_spec \<Rightarrow> row \<Rightarrow> row" where
  "attach_join fl children t item =
     (case getTargetContext item (TargetPath t) of
        None \<Rightarrow> item
      | Some ctx \<Rightarrow>
          ensureTargetContext item (TargetPath t)
            (AList.update (FieldAlias t)
              (tail_value fl t (filter (\<lambda>r. lookup_nil r (FK (Rel t)) = lookup_nil ctx (PK (Rel t))) (children t)))))"

lemma fold_cong_on: "(\<And>x s. x \<in> set xs \<Longrightarrow> f x s = g x s) \<Longrightarrow> fold f xs s = fold g xs s"
  by (rule fold_cong) auto

lemma attach_is_join:
  assumes "\<And>t pid. t \<in> set tails \<Longrightarrow> rows_of gt t pid = filter (\<lambda>r. lookup_nil r (FK (Rel t)) = pid) (children t)"
  shows "attach_tails fl gt tails items = map (fold (attach_join fl children) tails) items"
  unfolding attach_tails_def
  by (intro map_cong refl fold_cong_on) (simp add: attach_tail_def attach_join_def assms split: option.split)

text \<open>The results of the goroutines, without errors, and what is looked up in them afterwards.\<close>

lemma write_errors:
  "fst (fold write_result rs st) = None \<longleftrightarrow> fst st = None \<and> (\<forall>r \<in> set rs. \<exists>kg. r = Inr kg)"
  by (induction rs arbitrary: st) (auto simp: write_result_def split: sum.split)

lemma write_lookup_other:
  "(\<And>g. Inr (k, g) \<notin> set rs) \<Longrightarrow> map_of (snd (fold write_result rs st)) k = map_of (snd st) k"
proof (induction rs arbitrary: st)
  case (Cons r rs)
  have "map_of (snd (write_result r st)) k = map_of (snd st) k"
    using Cons.prems by (auto simp: write_result_def gomap_simps split: sum.split)
  moreover have "\<And>g. Inr (k, g) \<notin> set rs" using Cons.prems by simp
  ultimately show ?case using Cons.IH by simp
qed simp

text \<open>The keys that results write.\<close>

definition written_keys :: "(resolve_error + string \<times> groups) list \<Rightarrow> string list" where
  "written_keys rs = List.map_filter (\<lambda>r. case r of Inl e \<Rightarrow> None | Inr (k, g) \<Rightarrow> Some k) rs"

lemma written_keys_simps [simp]:
  "written_keys [] = []" "written_keys (Inl e # rs) = written_keys rs"
  "written_keys (Inr (k, g) # rs) = k # written_keys rs"
  by (simp_all add: written_keys_def List.map_filter_simps)

lemma written_keys_mem: "k \<in> set (written_keys rs) \<longleftrightarrow> (\<exists>g. Inr (k, g) \<in> set rs)"
proof (induction rs)
  case (Cons r rs)
  show ?case
  proof (cases r)
    case (Inr kg)
    then show ?thesis using Cons by (cases kg) auto
  qed (use Cons in simp)
qed simp

lemma write_lookup:
  assumes "distinct (written_keys rs)" "Inr (k, g) \<in> set rs"
  shows "map_of (snd (fold write_result rs st)) k = Some g"
  using assms
proof (induction rs arbitrary: st)
  case (Cons r rs)
  show ?case
  proof (cases "Inr (k, g) \<in> set rs")
    case True
    then have "distinct (written_keys rs)"
      using Cons.prems(1) by (cases r) (auto simp: split_paired_all)
    then show ?thesis using Cons.IH True by simp
  next
    case False
    then have r: "r = Inr (k, g)" using Cons.prems(2) by simp
    then have "Inr (k, g') \<notin> set rs" for g' using Cons.prems(1) written_keys_mem [of k rs] by auto
    then have "map_of (snd (fold write_result rs (write_result r st))) k = map_of (snd (write_result r st)) k"
      by (rule write_lookup_other)
    moreover have "map_of (snd (write_result r st)) k = Some g" by (simp add: r write_result_def gomap_simps)
    ultimately show ?thesis by simp
  qed
qed simp

text \<open>What stands for the rows of a tail: the answer to its request, or nothing without keys.\<close>

definition tail_answer ::
  "registry \<Rightarrow> model \<Rightarrow> (index_request \<Rightarrow> (resolve_error + row list) option) \<Rightarrow> row list \<Rightarrow> tail_spec \<Rightarrow>
   row list \<Rightarrow> bool" where
  "tail_answer reg m rec items t rows =
     (\<exists>ids. tail_ids t items = Some ids \<and>
        (if ids = [] then rows = []
         else \<exists>req. tail_request reg m t ids = Some (Inr req) \<and> rec req = Some (Inr rows)))"

lemma tail_result_ok:
  assumes "tail_result reg m rec (t, ids) = Some (Inr kg)"
  shows "\<exists>req rows g. tail_request reg m t ids = Some (Inr req) \<and> rec req = Some (Inr rows) \<and>
     group_rows (FK (Rel t)) rows = Some g \<and> kg = (tailKey t, g)"
proof -
  obtain r where r: "tail_request reg m t ids = Some r" "tail_result reg m rec (t, ids) =
      (case r of Inl e \<Rightarrow> Some (Inl e)
       | Inr req \<Rightarrow> Option.bind (rec req) (\<lambda>res. case res of
           Inl e \<Rightarrow> Some (Inl (TailFailed (FieldAlias t) e))
         | Inr childItems \<Rightarrow>
             Option.bind (group_rows (FK (Rel t)) childItems) (\<lambda>g. Some (Inr (tailKey t, g)))))"
    using assms by (cases "tail_request reg m t ids") (auto simp: tail_result_def)
  then obtain req res where "r = Inr req" "rec req = Some res" using assms [unfolded r(2)]
    by (cases r) (auto simp: bind_eq_Some_conv)
  then show ?thesis using r(1) assms [unfolded r(2)] by (cases res) (auto simp: bind_eq_Some_conv)
qed

lemma results_keys:
  assumes "list_all2 (\<lambda>ti r. tail_result reg m rec ti = Some r) tis rs"
  shows "subseq (written_keys rs) (map (tailKey \<circ> fst) tis)"
  using assms
proof (induction rule: list_all2_induct)
  case (Cons ti tis r rs)
  show ?case
  proof (cases r)
    case (Inr kg)
    then show ?thesis using Cons tail_result_ok [of reg m rec "fst ti" "snd ti"] by auto
  qed (use Cons in auto)
qed simp

lemma tail_ids_fst:
  assumes "opt_map (\<lambda>t. map_option (Pair t) (tail_ids t items)) tails = Some tids"
  shows "map fst tids = tails"
proof -
  have "list_all2 (\<lambda>t ti. \<exists>ids. tail_ids t items = Some ids \<and> ti = (t, ids)) tails tids"
    using assms by (auto simp: opt_map_Some elim!: list_all2_mono)
  then show ?thesis by (induction tails tids rule: list_all2_induct) auto
qed

lemma distinct_subseq: "subseq xs ys \<Longrightarrow> distinct ys \<Longrightarrow> distinct xs"
  by (induction rule: list_emb.induct) (auto elim!: list_emb_set)

lemma results_distinct:
  assumes "tail_results reg m rec tails items = Some rs" "distinct (map tailKey tails)"
  shows "distinct (written_keys rs)"
proof -
  obtain tids where tids: "opt_map (\<lambda>t. map_option (Pair t) (tail_ids t items)) tails = Some tids"
    and rs: "opt_map (tail_result reg m rec) (filter (\<lambda>ti. snd ti \<noteq> []) tids) = Some rs"
    using assms(1) by (auto simp: tail_results_def bind_eq_Some_conv)
  have "distinct (map (tailKey \<circ> fst) tids)" using assms(2) tail_ids_fst [OF tids] by (metis map_map)
  then have "distinct (map (tailKey \<circ> fst) (filter (\<lambda>ti. snd ti \<noteq> []) tids))" by (rule distinct_map_filter)
  then show ?thesis using results_keys rs distinct_subseq by (metis opt_map_Some)
qed

lemma tails_joined_aux:
  assumes "resolve_tails fl reg m rec tails items = Some (Inr out)" "distinct (map tailKey tails)"
  shows "\<exists>children. (\<forall>t \<in> set tails. tail_answer reg m rec items t (children t)) \<and>
     out = map (fold (attach_join fl children) tails) items"
proof -
  obtain tids rs where tids: "opt_map (\<lambda>t. map_option (Pair t) (tail_ids t items)) tails = Some tids"
    and rs: "opt_map (tail_result reg m rec) (filter (\<lambda>ti. snd ti \<noteq> []) tids) = Some rs"
    and fin: "finish_tails fl tails items (fold write_result rs (None, [])) = Inr out"
    using assms(1) by (auto simp: resolve_tails_def tail_results_def bind_eq_Some_conv)
  define gt where "gt = snd (fold write_result rs (None, []))"
  have ok: "fst (fold write_result rs (None, [])) = None" "out = attach_tails fl gt tails items"
    using fin by (auto simp: gt_def finish_tails_def split: option.splits)
  have ids: "list_all2 (\<lambda>t ti. \<exists>ids. tail_ids t items = Some ids \<and> ti = (t, ids)) tails tids"
    using tids by (auto simp: opt_map_Some elim!: list_all2_mono)
  have fsts: "map fst tids = tails" by (rule tail_ids_fst [OF tids])
  have res: "list_all2 (\<lambda>ti r. tail_result reg m rec ti = Some r) (filter (\<lambda>ti. snd ti \<noteq> []) tids) rs"
    using rs by (simp add: opt_map_Some)
  have inr: "\<forall>r \<in> set rs. \<exists>kg. r = Inr kg" using ok(1) by (simp add: write_errors)
  have keys: "written_keys rs = map (tailKey \<circ> fst) (filter (\<lambda>ti. snd ti \<noteq> []) tids)"
    using res inr
  proof (induction rule: list_all2_induct)
    case (Cons ti tis r rs)
    obtain kg where "r = Inr kg" using Cons.prems by auto
    then show ?case using Cons tail_result_ok [of reg m rec "fst ti" "snd ti"] by auto
  qed simp
  have dist: "distinct (map (tailKey \<circ> fst) tids)" using assms(2) fsts by (metis map_map)
  then have dk: "distinct (written_keys rs)" unfolding keys by (rule distinct_map_filter)
  have each: "\<exists>rows. tail_answer reg m rec items t rows \<and>
      (\<forall>pid. rows_of gt t pid = filter (\<lambda>r. lookup_nil r (FK (Rel t)) = pid) rows)" if t: "t \<in> set tails" for t
  proof -
    obtain ids where ti: "(t, ids) \<in> set tids" "tail_ids t items = Some ids"
      using t ids by (auto simp: list_all2_conv_all_nth set_conv_nth) metis
    show ?thesis
    proof (cases "ids = []")
      case True
      have "tailKey t \<notin> set (written_keys rs)"
      proof
        assume "tailKey t \<in> set (written_keys rs)"
        then obtain ti' where "ti' \<in> set tids" "snd ti' \<noteq> []" "tailKey (fst ti') = tailKey t"
          by (auto simp: keys)
        moreover from this have "ti' = (t, ids)"
          using dist ti(1) by (auto simp: distinct_map inj_on_def)
        ultimately show False using True by simp
      qed
      then have "Inr (tailKey t, g) \<notin> set rs" for g by (simp add: written_keys_mem)
      then have "map_of gt (tailKey t) = None" by (simp add: gt_def write_lookup_other)
      then show ?thesis using True ti(2) by (auto simp: tail_answer_def rows_of_def)
    next
      case False
      then have "(t, ids) \<in> set (filter (\<lambda>ti. snd ti \<noteq> []) tids)" using ti(1) by simp
      then obtain r where r: "r \<in> set rs" "tail_result reg m rec (t, ids) = Some r"
        using res by (auto simp: list_all2_conv_all_nth set_conv_nth) metis
      obtain kg where "r = Inr kg" using r(1) inr by blast
      then obtain req rows g where g: "tail_request reg m t ids = Some (Inr req)" "rec req = Some (Inr rows)"
          "group_rows (FK (Rel t)) rows = Some g" "r = Inr (tailKey t, g)"
        using tail_result_ok [of reg m rec t ids kg] r(2) by blast
      have "map_of gt (tailKey t) = Some g" using write_lookup [OF dk] r(1) g(4) by (simp add: gt_def)
      then have "\<forall>pid. rows_of gt t pid = filter (\<lambda>r. lookup_nil r (FK (Rel t)) = pid) rows"
        using group_rows_lookup [OF g(3)] by (simp add: rows_of_def)
      then show ?thesis using False ti(2) g(1,2) by (auto simp: tail_answer_def)
    qed
  qed
  then obtain children where ch: "\<forall>t \<in> set tails. tail_answer reg m rec items t (children t) \<and>
      (\<forall>pid. rows_of gt t pid = filter (\<lambda>r. lookup_nil r (FK (Rel t)) = pid) (children t))" by metis
  then have "attach_tails fl gt tails items = map (fold (attach_join fl children) tails) items"
    by (intro attach_is_join) blast
  then show ?thesis using ch ok(2) by blast
qed

section \<open>The goroutines of the tails\<close>

text \<open>
  The goroutines between their start and \<^verbatim>\<open>wg.Wait\<close>: those that have yet to write their result
  under the mutex, the number of those that wrote and have yet to call \<^verbatim>\<open>wg.Done\<close>, and the shared
  state. Any of them can go on at any time.
\<close>

record gstate =
  Running :: "(resolve_error + string \<times> groups) list"
  Leaving :: nat
  Shared :: tail_state

definition start_tails :: "(resolve_error + string \<times> groups) list \<Rightarrow> gstate" where
  "start_tails rs = \<lparr>Running = rs, Leaving = 0, Shared = (None, [])\<rparr>"

definition wait_count :: "gstate \<Rightarrow> nat" where
  "wait_count s = length (Running s) + Leaving s"

inductive gstep :: "gstate \<Rightarrow> gstate \<Rightarrow> bool" where
  gwrite: "Running s = xs @ r # ys \<Longrightarrow>
     gstep s (s\<lparr>Running := xs @ ys, Leaving := Suc (Leaving s), Shared := write_result r (Shared s)\<rparr>)"
| gdone: "Leaving s = Suc n \<Longrightarrow> gstep s (s\<lparr>Leaving := n\<rparr>)"

inductive_cases gstepE: "gstep s s'"

text \<open>What has been written is a selection of the results, in the order of the writing.\<close>

definition ginv :: "(resolve_error + string \<times> groups) list \<Rightarrow> gstate \<Rightarrow> bool" where
  "ginv rs s = (\<exists>ws. mset ws + mset (Running s) = mset rs \<and> Shared s = fold write_result ws (None, []))"

lemma ginv_start: "ginv rs (start_tails rs)"
  by (auto simp: ginv_def start_tails_def intro!: exI [of _ "[]"])

lemma ginv_step: "gstep s s' \<Longrightarrow> ginv rs s \<Longrightarrow> ginv rs s'"
proof (induction rule: gstep.induct)
  case (gwrite s xs r ys)
  then obtain ws where "mset ws + mset (Running s) = mset rs" "Shared s = fold write_result ws (None, [])"
    by (auto simp: ginv_def)
  then show ?case using gwrite(1) by (auto simp: ginv_def intro!: exI [of _ "ws @ [r]"])
qed (auto simp: ginv_def)

lemma ginv_reachable: "gstep\<^sup>*\<^sup>* (start_tails rs) s \<Longrightarrow> ginv rs s"
  by (induction rule: rtranclp_induct) (auto intro: ginv_start ginv_step)

definition gmeasure :: "gstate \<Rightarrow> nat" where
  "gmeasure s = 2 * length (Running s) + Leaving s"

lemma gmeasure_step: "gstep s s' \<Longrightarrow> gmeasure s = Suc (gmeasure s')"
  by (induction rule: gstep.induct) (auto simp: gmeasure_def)

lemma gmeasure_steps: "(gstep ^^ n) s s' \<Longrightarrow> gmeasure s = n + gmeasure s'"
  by (induction n arbitrary: s') (auto dest: gmeasure_step)

lemma gstep_enabled: "(\<exists>s'. gstep s s') \<longleftrightarrow> wait_count s > 0"
proof
  assume "\<exists>s'. gstep s s'"
  then show "wait_count s > 0" by (auto simp: wait_count_def elim!: gstepE)
next
  assume pos: "wait_count s > 0"
  show "\<exists>s'. gstep s s'"
  proof (cases "Running s")
    case Nil
    then obtain n where "Leaving s = Suc n" using pos by (cases "Leaving s") (auto simp: wait_count_def)
    then show ?thesis by (blast intro: gdone)
  next
    case (Cons r rs)
    then have "Running s = [] @ r # rs" by simp
    then show ?thesis by (blast intro: gwrite)
  qed
qed

lemma gstep_finishes: "\<exists>s'. gstep\<^sup>*\<^sup>* s s' \<and> wait_count s' = 0"
proof (induction "gmeasure s" arbitrary: s rule: less_induct)
  case less
  show ?case
  proof (cases "wait_count s = 0")
    case False
    then obtain s1 where s1: "gstep s s1" using gstep_enabled by blast
    then obtain s' where "gstep\<^sup>*\<^sup>* s1 s'" "wait_count s' = 0"
      using less gmeasure_step [OF s1] by fastforce
    then show ?thesis using s1 by (meson converse_rtranclp_into_rtranclp)
  qed blast
qed

text \<open>In which order the results are written does not matter.\<close>

lemma written_keys_mset: "mset (written_keys rs) = mset (written_keys ws)" if "mset rs = mset ws"
proof -
  have f: "written_keys xs = map the (filter (\<lambda>x. x \<noteq> None) (map (case_sum (\<lambda>e. None) (\<lambda>kg. Some (fst kg))) xs))"
    for xs :: "(resolve_error + string \<times> groups) list"
  proof (induction xs)
    case (Cons x xs)
    then show ?case by (cases x) (auto simp: split_paired_all)
  qed simp
  show ?thesis unfolding f using that by simp
qed

lemma writes_agree:
  assumes "mset ws = mset rs" "distinct (written_keys rs)"
  shows "(fst (fold write_result ws (None, [])) = None) = (fst (fold write_result rs (None, [])) = None)"
    and "map_of (snd (fold write_result ws (None, []))) k = map_of (snd (fold write_result rs (None, []))) k"
proof -
  have set: "set ws = set rs" using assms(1) by (rule mset_eq_setD)
  then show "(fst (fold write_result ws (None, [])) = None) = (fst (fold write_result rs (None, [])) = None)"
    by (simp add: write_errors)
  have d: "distinct (written_keys ws)"
    using assms(2) written_keys_mset [OF assms(1)] by (metis mset_eq_imp_distinct_iff)
  show "map_of (snd (fold write_result ws (None, []))) k = map_of (snd (fold write_result rs (None, []))) k"
  proof (cases "\<exists>g. Inr (k, g) \<in> set rs")
    case True
    then obtain g where g: "Inr (k, g) \<in> set rs" by blast
    then show ?thesis using write_lookup [OF d] write_lookup [OF assms(2)] set by simp
  next
    case False
    then show ?thesis using set by (simp add: write_lookup_other)
  qed
qed

lemma finish_agrees:
  assumes "\<And>k. map_of (snd st) k = map_of (snd st') k" "fst st = None" "fst st' = None"
  shows "finish_tails fl tails items st = finish_tails fl tails items st'"
proof -
  have "rows_of (snd st) = rows_of (snd st')" by (intro ext) (simp add: rows_of_def assms(1))
  then have "attach_tail fl (snd st) = attach_tail fl (snd st')" by (intro ext) (simp add: attach_tail_def split: option.split)
  then show ?thesis using assms(2,3) by (simp add: finish_tails_def attach_tails_def)
qed

section \<open>Rows of the final model keep their parents\<close>

lemma fold_update_lookup:
  "gowf m \<Longrightarrow> map_of (fold (\<lambda>(k, v). AList.update k v) m r) k = (case map_of m k of Some v \<Rightarrow> Some v | None \<Rightarrow> map_of r k)"
proof (induction m arbitrary: r)
  case (Cons x m)
  obtain a b where x: "x = (a, b)" by (cases x)
  then have "map_of m a = None" using Cons.prems by (simp add: map_of_None_gokeys)
  then show ?case using Cons x by (auto simp: gomap_simps split: option.split)
qed simp

lemma set_map_filter: "y \<in> set (List.map_filter f xs) \<longleftrightarrow> (\<exists>x \<in> set xs. f x = Some y)"
  by (force simp: List.map_filter_def)

lemma unwrapped_row:
  assumes "r \<in> set (unwrapThrough fk unwrap items)" "list_all wf_row items"
  shows "\<exists>it \<in> set items. \<exists>payload. map_of it unwrap = Some (GMap payload) \<and>
     (map_of payload fk = None \<longrightarrow> map_of r fk = Some (lookup_nil it fk)) \<and>
     (\<forall>k. k \<noteq> fk \<longrightarrow> map_of r k = map_of payload k) \<and>
     (\<forall>v. map_of payload fk = Some v \<longrightarrow> map_of r fk = Some v)"
proof -
  obtain it where it0: "it \<in> set items" "(case map_of it unwrap of
         Some (GMap payload) \<Rightarrow>
           if payload = [] then None
           else Some (fold (\<lambda>(k, v). AList.update k v) payload [(fk, lookup_nil it fk)])
       | _ \<Rightarrow> None) = Some r"
    using assms(1) by (auto simp: unwrapThrough_def set_map_filter)
  then obtain payload where it: "map_of it unwrap = Some (GMap payload)"
    "r = fold (\<lambda>(k, v). AList.update k v) payload [(fk, lookup_nil it fk)]"
  proof (cases "map_of it unwrap")
    case (Some v)
    show ?thesis
    proof (cases v)
      case (GMap payload)
      then show ?thesis using it0(2) that [of payload] Some by (cases "payload = []") simp_all
    qed (use it0(2) Some in simp_all)
  qed (use it0(2) in simp)
  have "wf_row it" using assms(2) it0(1) by (simp add: list_all_iff)
  then have "wf_row payload" using it(1) by (rule wf_row_lookup_map)
  then have w: "gowf payload" by (simp add: wf_row_def)
  have look: "map_of r k = (case map_of payload k of Some v \<Rightarrow> Some v | None \<Rightarrow> map_of [(fk, lookup_nil it fk)] k)" for k
    unfolding it(2) by (rule fold_update_lookup [OF w])
  show ?thesis
    by (rule bexI [OF _ it0(1)], rule exI [of _ payload]) (simp add: it(1) look split: option.split)
qed

section \<open>An example\<close>

definition res_book :: model where
  "res_book = empty_model\<lparr>MName := ''Book'', Table := ''books'', Presets := [(''item'', empty_preset\<lparr>PName := ''item'',
     Fields := [empty_field\<lparr>FSource := ''title'', FType := ''string''\<rparr>]\<rparr>)]\<rparr>"

definition res_author :: model where
  "res_author = empty_model\<lparr>MName := ''Author'', Table := ''authors'',
     Relations := [(''books'', empty_relation\<lparr>RType := ''has_many'', RModel := ''Book'', FK := ''author_id'',
       PK := ''id'', ModelRef := Some ''Book''\<rparr>)],
     Presets := [(''card'', empty_preset\<lparr>PName := ''card'',
       Fields := [empty_field\<lparr>FSource := ''name'', FType := ''string''\<rparr>,
         empty_field\<lparr>FSource := ''books'', FType := ''preset'', NestedPreset := ''item'', FAlias := ''works''\<rparr>]\<rparr>)]\<rparr>"

definition res_registry :: registry where
  "res_registry = [(''Author'', res_author), (''Book'', res_book)]"

definition res_card :: data_preset where
  "res_card = the (map_of (Presets res_author) ''card'')"

definition res_tail :: tail_spec where
  "res_tail = \<lparr>FieldAlias = ''works'', RelKey = ''books'', Rel = the (map_of (Relations res_author) ''books''),
     TNested = ''item'', LimitOne = False, TargetPath = [], TFormatter = []\<rparr>"

definition res_items :: "row list" where
  "res_items = [[(''name'', GStr ''Ann''), (''id'', GInt 1)], [(''name'', GStr ''Bob''), (''id'', GInt 2)]]"

definition res_books :: "row list" where
  "res_books = [[(''author_id'', GInt 1), (''title'', GStr ''Dust'')], [(''author_id'', GInt 1), (''title'', GStr ''Salt'')]]"

definition res_out :: "row list" where
  "res_out = [[(''name'', GStr ''Ann''), (''id'', GInt 1),
       (''works'', GMaps [[(''title'', GStr ''Dust'')], [(''title'', GStr ''Salt'')]])],
      [(''name'', GStr ''Bob''), (''id'', GInt 2), (''works'', GList [])]]"

definition res_rec :: "index_request \<Rightarrow> (resolve_error + row list) option" where
  "res_rec req = (if QModel req = ''Book'' then Some (Inr res_books) else None)"

section \<open>Properties\<close>

text \<open>
  C4. Fetching the rows of all parents at once and grouping them by their foreign key is a join:
  when the tails are resolved, every item has under the alias of a tail exactly the rows of the
  answer to the request of that tail whose foreign key equals the key of the item, in the order of
  the answer (\<^verbatim>\<open>Resolver\<close>).
\<close>
theorem tails_are_joined:
  assumes "resolve_tails fl reg m rec tails items = Some (Inr out)" "distinct (map tailKey tails)"
  shows "\<exists>children. (\<forall>t \<in> set tails. tail_answer reg m rec items t (children t)) \<and>
     out = map (fold (attach_join fl children) tails) items"
  by (rule tails_joined_aux [OF assms])

theorem tails_are_joined_witness:
  "\<exists>children. tail_answer res_registry res_author res_rec res_items res_tail (children res_tail) \<and>
     res_out = map (attach_join demo_floats children res_tail) res_items"
proof -
  have "resolve_tails demo_floats res_registry res_author res_rec [res_tail] res_items = Some (Inr res_out)"
    by code_simp
  from tails_are_joined [OF this] show ?thesis by auto
qed





text \<open>
  The rows of a relation with \<^verbatim>\<open>through\<close> keep the link to their parents: a row that is taken
  out of a row of the intermediate model has the fields of the final row, and under the foreign
  key the value of the intermediate row, unless the final row has a field of that name, which then
  replaces it (\<^verbatim>\<open>unwrapThrough\<close>).
\<close>
theorem through_rows_keep_parent:
  assumes "r \<in> set (unwrapThrough fk unwrap items)" "list_all wf_row items"
  shows "\<exists>it \<in> set items. \<exists>payload. map_of it unwrap = Some (GMap payload) \<and>
     (map_of payload fk = None \<longrightarrow> map_of r fk = Some (lookup_nil it fk)) \<and>
     (\<forall>k. k \<noteq> fk \<longrightarrow> map_of r k = map_of payload k) \<and>
     (\<forall>v. map_of payload fk = Some v \<longrightarrow> map_of r fk = Some v)"
  by (rule unwrapped_row [OF assms])

theorem through_rows_keep_parent_witness:
  "\<exists>it \<in> set [[(''person_id'', GInt 7), (''contact'', GMap [(''phone'', GStr ''1'')])]].
     map_of it ''contact'' = Some (GMap [(''phone'', GStr ''1'')]) \<and> lookup_nil it ''person_id'' = GInt 7"
proof -
  let ?items = "[[(''person_id'', GInt 7), (''contact'', GMap [(''phone'', GStr ''1'')])]]"
  let ?r = "[(''person_id'', GInt 7), (''phone'', GStr ''1'')]"
  have "?r \<in> set (unwrapThrough ''person_id'' ''contact'' ?items)" "list_all wf_row ?items" by code_simp+
  from through_rows_keep_parent [OF this] show ?thesis by (auto split: if_splits)
qed

section \<open>What goes wrong\<close>

lemma tails_Nil: "collectTails reg m [] prefx = Some []"
  by (subst collectTails.simps) simp

lemma tails_Cons:
  "collectTails reg m (f # rest) prefx =
     Option.bind
       (case belongs_target reg m f of
          Some (nm, np) \<Rightarrow> collectTails reg nm (Fields np) (prefixFor prefx (FSource f))
        | None \<Rightarrow> Some (target_list (field_tail m prefx f)))
       (\<lambda>here. Option.bind (collectTails reg m rest prefx) (\<lambda>there. Some (here @ there)))"
  by (subst collectTails.simps) simp

lemma poly_tails_Nil: "collectPolyTails reg m [] prefx = Some []"
  by (subst collectPolyTails.simps) simp

lemma poly_tails_Cons:
  "collectPolyTails reg m (f # rest) prefx =
     Option.bind
       (case field_poly_tail m prefx f of
          Some t \<Rightarrow> Some [t]
        | None \<Rightarrow> (case belongs_target reg m f of
            Some (nm, np) \<Rightarrow> collectPolyTails reg nm (Fields np) (prefixFor prefx (FSource f))
          | None \<Rightarrow> Some []))
       (\<lambda>here. Option.bind (collectPolyTails reg m rest prefx) (\<lambda>there. Some (here @ there)))"
  by (subst collectPolyTails.simps) simp

text \<open>The tails of a preset are collected when its nesting is bounded.\<close>

interpretation tail_walk: preset_walk "final_targets reg"
  "\<lambda>m flds. \<forall>prefx. collectTails reg m flds prefx \<noteq> None" for reg
proof (unfold_locales, goal_cases)
  case (2 m f rest)
  have "(case belongs_target reg m f of Some (nm, np) \<Rightarrow> collectTails reg nm (Fields np) (prefixFor prefx (FSource f))
      | None \<Rightarrow> Some (target_list (field_tail m prefx f))) \<noteq> None" for prefx
    using 2(1) belongs_target_final [of reg m f] by (auto split: option.splits)
  then show ?case using 2(2) by (simp add: tails_Cons bind_total del: not_None_eq)
qed (simp add: tails_Nil)

interpretation poly_walk: preset_walk "final_targets reg"
  "\<lambda>m flds. \<forall>prefx. collectPolyTails reg m flds prefx \<noteq> None" for reg
proof (unfold_locales, goal_cases)
  case (2 m f rest)
  have "(case field_poly_tail m prefx f of Some t \<Rightarrow> Some [t]
      | None \<Rightarrow> (case belongs_target reg m f of
          Some (nm, np) \<Rightarrow> collectPolyTails reg nm (Fields np) (prefixFor prefx (FSource f))
        | None \<Rightarrow> Some [])) \<noteq> None" for prefx
    using 2(1) belongs_target_final [of reg m f] by (auto split: option.splits)
  then show ?case using 2(2) by (simp add: poly_tails_Cons bind_total del: not_None_eq)
qed (simp add: poly_tails_Nil)

text \<open>
  A polymorphic relation of a nested preset is never resolved: its columns stand in the nested
  object, but are read at the root of the item.
\<close>

definition res_owner :: poly_tail where
  "res_owner = \<lparr>PField = ''owner'', PRel = empty_relation\<lparr>RType := ''belongs_to'', Polymorphic := True,
     FK := ''owner_id'', PK := ''id'', TypeColumn := ''owner_type''\<rparr>, PNested = ''item'', PPath = ''doc''\<rparr>"

lemma nested_polymorphic_is_skipped:
  "attach_poly demo_floats res_owner [(''Person'', [(GInt 1, [(''name'', GStr ''Ann'')])])]
     [(''doc'', GMap [(''owner_type'', GStr ''Person''), (''owner_id'', GInt 1)])] =
   [(''doc'', GMap [(''owner_type'', GStr ''Person''), (''owner_id'', GInt 1)])]"
  by code_simp

text \<open>
  Without \<^verbatim>\<open>type_column\<close> the resolver looks for the type under the alias of the field, while the
  statement selects it under the name of the relation.
\<close>

lemma default_type_columns_differ:
  "type_column \<lparr>PField = ''holder'', PRel = empty_relation\<lparr>FK := ''owner_id''\<rparr>, PNested = [], PPath = []\<rparr> = ''holder_type'' \<and>
   map Key (fst (polymorphic_cols None [] ''owner'' (empty_relation\<lparr>FK := ''owner_id''\<rparr>) ([], []))) = [''owner_id'', ''owner_type'']"
  by code_simp

text \<open>The key of a relation is removed from its rows even when the nested preset asks for it.\<close>

lemma requested_key_is_removed:
  "tail_value fl res_tail [[(''author_id'', GInt 1), (''title'', GStr ''Dust'')]] = GMaps [[(''title'', GStr ''Dust'')]]"
  by (simp add: tail_value_def res_tail_def res_author_def empty_model_def empty_relation_def is_blank_def)

text \<open>
  Requests each of which needs the answer to one of them are never answered.
\<close>

lemma resolver_diverges:
  assumes "\<And>req rec. req \<in> C \<Longrightarrow> (\<And>q. q \<in> C \<Longrightarrow> rec q = None) \<Longrightarrow> resolve_step env reg rec req = None"
    and "req \<in> C"
  shows "Resolver env reg req = None"
proof (rule ccontr)
  assume "Resolver env reg req \<noteq> None"
  then obtain y where y: "Resolver env reg req = Some y" by blast
  have "env = env \<longrightarrow> reg = reg \<longrightarrow> req \<notin> C"
  proof (rule Resolver.raw_induct [OF _ y, where P = "\<lambda>e r q y. e = env \<longrightarrow> r = reg \<longrightarrow> q \<notin> C"], goal_cases)
    case (1 g e r q y)
    show ?case
    proof (intro impI notI)
      assume h: "e = env" "r = reg" "q \<in> C"
      have "g env reg q' = None" if "q' \<in> C" for q'
        using 1(1) [of env reg q'] that by (cases "g env reg q'") auto
      then have "resolve_step env reg (g env reg) q = None" by (intro assms(1) h(3))
      then show False using 1(2) h by simp
    qed
  qed
  then show False using assms(2) by simp
qed

lemma page_items_run:
  assumes "NormalizeFiltersWithAliases reg m (QFilters req) = Some filters"
    and "NormalizeSortsWithAliases reg m (QSorts req) = Some sorts"
    and "AliasMapFor env m (Some p) filters sorts = Some (Inr am)"
    and "BuildIndexQuery (ToSql env) reg m am filters sorts (Some p) (QOffset req) (QLimit req) (Draws env req) = Some (Inr q)"
    and "ToSql env q = Inr stmt" "RunQuery env stmt = Inr (rows, final)"
    and "ScanFlatRows (Conv env) reg m (Some p) am rows final = Some (Inr items)"
  shows "page_items env reg m p req = Some (Inr items)"
  using assms by (simp add: page_items_def)

text \<open>
  A preset nested in itself over a \<^verbatim>\<open>has_many\<close> relation, which validation accepts for a reentrant
  relation, on rows that refer to one another: the resolver asks for the same rows forever. The
  limit \<^verbatim>\<open>max_depth\<close> is not observed.
\<close>

definition res_node :: model where
  "res_node = empty_model\<lparr>MName := ''Node'', Table := ''nodes'',
     Relations := [(''peers'', empty_relation\<lparr>RType := ''has_many'', RModel := ''Node'', FK := ''peer_id'',
       PK := ''id'', Reentrant := True, ModelRef := Some ''Node''\<rparr>)],
     Presets := [(''card'', empty_preset\<lparr>PName := ''card'',
       Fields := [empty_field\<lparr>FSource := ''peers'', FType := ''preset'', NestedPreset := ''card''\<rparr>]\<rparr>)]\<rparr>"

definition res_nodes :: registry where
  "res_nodes = [(''Node'', res_node)]"

definition res_node_map :: alias_map where
  "res_node_map = \<lparr>PathToAlias = [(''peers'', ''t0'')], AliasToPath = [(''t0'', ''peers'')]\<rparr>"

definition res_node_env :: resolver_env where
  "res_node_env = final_env.extend fin_env
     \<lparr>AliasMapFor = (\<lambda>m p f s. Some (Inr res_node_map)),
      ToSql = (\<lambda>q. Inr ([], [])),
      RunQuery = (\<lambda>stmt. Inr ([Inr [CVal (GInt 1), CVal (GInt 1)]], None)),
      Conv = \<lparr>RawBytes = GStr, RawUuid = GStr, UuidText = id, ParseFloat = (\<lambda>s. 0)\<rparr>, Draws = (\<lambda>r. [0])\<rparr>"

definition res_node_tail :: tail_spec where
  "res_node_tail = \<lparr>FieldAlias = ''peers'', RelKey = ''peers'', Rel = the (map_of (Relations res_node) ''peers''),
     TNested = ''card'', LimitOne = False, TargetPath = [], TFormatter = []\<rparr>"

definition res_node_preset :: data_preset where
  "res_node_preset = makeSyntheticPreset (the (map_of (Presets res_node) ''card'')) ''peer_id''"

definition res_node_request :: index_request where
  "res_node_request = \<lparr>QModel = ''Node'', QPreset = [], QFilters = [(''peer_id__in'', GList [GInt 1])],
     QSorts = [''id ASC''], QOffset = 0, QLimit = maxLimit, UniqueBy = [],
     PresetObj = Some res_node_preset, UnwrapField = []\<rparr>"

definition res_node_items :: "row list" where
  "res_node_items = [[(''peer_id'', GInt 1), (''id'', GInt 1)]]"

lemma res_node_page: "page_items res_node_env res_nodes res_node res_node_preset res_node_request = Some (Inr res_node_items)"
proof -
  let ?build = "BuildIndexQuery (ToSql res_node_env) res_nodes res_node res_node_map [(''peer_id__in'', GList [GInt 1])]
     [''id ASC''] (Some res_node_preset) 0 maxLimit [0]"
  have n: "NormalizeFiltersWithAliases res_nodes res_node (QFilters res_node_request) = Some [(''peer_id__in'', GList [GInt 1])]"
    "NormalizeSortsWithAliases res_nodes res_node (QSorts res_node_request) = Some [''id ASC'']"
    by code_simp+
  have "case ?build of Some (Inr q) \<Rightarrow> True | _ \<Rightarrow> False" by code_simp
  then obtain q where q: "?build = Some (Inr q)" by (auto split: option.splits sum.splits)
  let ?cols = "[\<lparr>Expr = ''main.peer_id'', Key = ''peer_id'', ColType = ''int''\<rparr>,
      \<lparr>Expr = ''main.id'', Key = ''id'', ColType = ''int''\<rparr>]"
  have "ScanColumns res_nodes res_node (Some res_node_preset) (Some res_node_map) [] = Some ?cols"
    by code_simp
  moreover have "scan_row (Conv res_node_env) ?cols [CVal (GInt 1), CVal (GInt 1)] = Inr [(''peer_id'', GInt 1), (''id'', GInt 1)]"
  proof -
    let ?flat = "[(''peer_id'', GInt 1), (''id'', GInt 1)]"
    have "bucket_heads ?flat = []" "leaf_part ?flat = ?flat" "\<not> is_blank ''peer_id''" "\<not> is_blank ''id''" by code_simp+
    moreover from this have "FoldFlatRowByPreset ?flat = ?flat" by (subst FoldFlatRowByPreset.simps) simp
    ultimately show ?thesis by (simp add: scan_row_def convert_def raw_value_def)
  qed
  ultimately have s: "ScanFlatRows (Conv res_node_env) res_nodes res_node (Some res_node_preset) res_node_map
      [Inr [CVal (GInt 1), CVal (GInt 1)]] None = Some (Inr res_node_items)"
    by (simp add: ScanFlatRows_def res_node_items_def)
  show ?thesis
    by (rule page_items_run [OF n _ _ _ _ s])
       (use q in \<open>simp_all add: res_node_env_def res_node_request_def final_env.defs\<close>)
qed

lemma res_node_asks_again:
  assumes "rec res_node_request = None"
  shows "resolve_step res_node_env res_nodes rec res_node_request = None"
proof -
  have m: "map_of res_nodes (QModel res_node_request) = Some res_node"
    "request_preset res_node res_node_request = Some res_node_preset"
    "collectPolyTails res_nodes res_node (Fields res_node_preset) [] = Some []"
    "collectTails res_nodes res_node (Fields res_node_preset) [] = Some [res_node_tail]"
    "tail_ids res_node_tail res_node_items = Some [GInt 1]"
    "tail_request res_nodes res_node res_node_tail [GInt 1] = Some (Inr res_node_request)"
    "res_node_items \<noteq> []"
    by code_simp+
  have "resolve_tails fl res_nodes res_node rec [res_node_tail] res_node_items = None" for fl
    by (simp add: resolve_tails_def tail_results_def tail_result_def m assms)
  then show ?thesis by (simp add: resolve_step_def m res_node_page Let_def)
qed

lemma nested_in_itself_never_answers: "Resolver res_node_env res_nodes res_node_request = None"
  by (rule resolver_diverges [where C = "{res_node_request}"]) (auto intro: res_node_asks_again)

end
