(* ===== verification/Auth.thy ===== *)
theory Auth
  imports Formatter
begin

text \<open>
  Tokens: \<^verbatim>\<open>internal/auth/jwt.go\<close>. A bearer token is three segments in base64url; the validator
  checks the algorithm, the signature and the claims. Hashes, signatures, key formats and the JSON
  decoder are parameters, and so is what the processor makes of a \<^verbatim>\<open>float64\<close> that is out of the range
  of \<^verbatim>\<open>int64\<close>. Times are \<^verbatim>\<open>int64\<close> values of 64 bits, whose sums wrap around.
\<close>

section \<open>Keys and settings\<close>

datatype public_key = RsaKey string | EcdsaKey string | OtherKey string

record jwt_config =
  ValidationType :: string
  Issuer :: string
  Audience :: string
  HMACSecret :: string
  PublicKeyPEM :: string
  PublicKeyPath :: string
  ClockSkewSec :: "64 word"

record crypto =
  Sha256 :: "string \<Rightarrow> string"
  HmacSha256 :: "string \<Rightarrow> string \<Rightarrow> string"
  RsaVerify :: "string \<Rightarrow> string \<Rightarrow> string \<Rightarrow> bool"
  EcdsaVerify :: "string \<Rightarrow> string \<Rightarrow> nat \<Rightarrow> nat \<Rightarrow> bool"
  PemDecode :: "string \<Rightarrow> string option"
  ParsePKIX :: "string \<Rightarrow> public_key option"
  ParsePKCS1 :: "string \<Rightarrow> public_key option"
  ParseCertificate :: "string \<Rightarrow> public_key option"
  ReadKeyFile :: "string \<Rightarrow> string + string"
  JsonObject :: "string \<Rightarrow> (string, gany) gomap option"
  FloatOverflow :: "64 word \<Rightarrow> 64 word"

datatype validator_error =
    IssuerRequired
  | AudienceRequired
  | TypeRequired
  | SecretRequired
  | ReadKeyFailed string
  | KeyRequired
  | InvalidPem
  | UnsupportedKeyFormat
  | KeyNotRsa
  | KeyNotEcdsa
  | UnsupportedType string

record jwt_validator =
  VConfig :: jwt_config
  VExpected :: string
  VHmacKey :: string
  VRsaKey :: string
  VEcdsaKey :: string

definition loadPublicKey :: "crypto \<Rightarrow> jwt_config \<Rightarrow> validator_error + public_key" where
  "loadPublicKey cr cfg =
     (let pem0 = trim_space (PublicKeyPEM cfg)
      in bind_res
           (if pem0 = [] \<and> \<not> is_blank (PublicKeyPath cfg) then
              (case ReadKeyFile cr (PublicKeyPath cfg) of Inl e \<Rightarrow> Inl (ReadKeyFailed e) | Inr d \<Rightarrow> Inr d)
            else Inr pem0)
           (\<lambda>pem.
             if pem = [] then Inl KeyRequired
             else (case PemDecode cr pem of
               None \<Rightarrow> Inl InvalidPem
             | Some block \<Rightarrow> (case ParsePKIX cr block of
                 Some pub \<Rightarrow> Inr pub
               | None \<Rightarrow> (case ParsePKCS1 cr block of
                   Some pub \<Rightarrow> Inr pub
                 | None \<Rightarrow> (case ParseCertificate cr block of
                     Some pub \<Rightarrow> Inr pub
                   | None \<Rightarrow> Inl UnsupportedKeyFormat))))))"

definition with_rsa :: "jwt_validator \<Rightarrow> public_key \<Rightarrow> validator_error + jwt_validator" where
  "with_rsa v k = (case k of RsaKey r \<Rightarrow> Inr (v\<lparr>VRsaKey := r\<rparr>) | _ \<Rightarrow> Inl KeyNotRsa)"

definition with_ecdsa :: "jwt_validator \<Rightarrow> public_key \<Rightarrow> validator_error + jwt_validator" where
  "with_ecdsa v k = (case k of EcdsaKey r \<Rightarrow> Inr (v\<lparr>VEcdsaKey := r\<rparr>) | _ \<Rightarrow> Inl KeyNotEcdsa)"

definition NewJWTValidator :: "crypto \<Rightarrow> jwt_config \<Rightarrow> validator_error + jwt_validator" where
  "NewJWTValidator cr cfg =
     (let alg = to_upper (trim_space (ValidationType cfg));
          v = \<lparr>VConfig = cfg, VExpected = alg, VHmacKey = [], VRsaKey = [], VEcdsaKey = []\<rparr>
      in if is_blank (Issuer cfg) then Inl IssuerRequired
         else if is_blank (Audience cfg) then Inl AudienceRequired
         else if alg = [] then Inl TypeRequired
         else if alg = ''HS256'' then
           (if HMACSecret cfg = [] then Inl SecretRequired else Inr (v\<lparr>VHmacKey := HMACSecret cfg\<rparr>))
         else if alg = ''RS256'' then
           bind_res (loadPublicKey cr cfg) (with_rsa v)
         else if alg = ''ES256'' then
           bind_res (loadPublicKey cr cfg) (with_ecdsa v)
         else Inl (UnsupportedType (ValidationType cfg)))"

section \<open>Base64url without padding\<close>

text \<open>
  \<^verbatim>\<open>base64.RawURLEncoding.DecodeString\<close>: line breaks are skipped, the unused bits of the last
  character are not checked.
\<close>

definition b64_alphabet :: string where
  "b64_alphabet = ''ABCDEFGHIJKLMNOPQRSTUVWXYZabcdefghijklmnopqrstuvwxyz0123456789-_''"

definition b64_value :: "char \<Rightarrow> nat option" where
  "b64_value c = (let i = length (takeWhile (\<lambda>d. d \<noteq> c) b64_alphabet) in if i < 64 then Some i else None)"

fun b64_bytes :: "nat list \<Rightarrow> string option" where
  "b64_bytes [] = Some []"
| "b64_bytes [a] = None"
| "b64_bytes [a, b] = Some [char_of (a * 4 + b div 16)]"
| "b64_bytes [a, b, c] = Some [char_of (a * 4 + b div 16), char_of ((b mod 16) * 16 + c div 4)]"
| "b64_bytes (a # b # c # d # rest) =
     map_option (\<lambda>s. char_of (a * 4 + b div 16) # char_of ((b mod 16) * 16 + c div 4) #
                     char_of ((c mod 4) * 64 + d) # s) (b64_bytes rest)"

definition b64_decode :: "string \<Rightarrow> string option" where
  "b64_decode s =
     Option.bind (opt_map b64_value (filter (\<lambda>c. c \<noteq> CHR 0x0A \<and> c \<noteq> CHR 0x0D) s)) b64_bytes"

section \<open>Validation\<close>

datatype jwt_error =
    InvalidFormat
  | InvalidHeader
  | UnexpectedAlg string
  | InvalidSignatureEncoding
  | InvalidSignature
  | InvalidSignatureLength
  | InvalidClaims
  | InvalidIssuer
  | InvalidAudience
  | ClaimRequired string
  | InvalidClaim string
  | Expired
  | NotValidYet
  | IssuedInFuture

definition decodeSegment :: "crypto \<Rightarrow> string \<Rightarrow> (string, gany) gomap option" where
  "decodeSegment cr seg = Option.bind (b64_decode seg) (JsonObject cr)"

definition bytes_nat :: "string \<Rightarrow> nat" where
  "bytes_nat bs = foldl (\<lambda>n c. n * 256 + of_char c) 0 bs"

definition verifySignature :: "crypto \<Rightarrow> jwt_validator \<Rightarrow> string \<Rightarrow> string \<Rightarrow> jwt_error + unit" where
  "verifySignature cr v input sig =
     (if VExpected v = ''HS256'' then
        (if HmacSha256 cr (VHmacKey v) input \<noteq> sig then Inl InvalidSignature else Inr ())
      else if VExpected v = ''RS256'' then
        (if RsaVerify cr (VRsaKey v) (Sha256 cr input) sig then Inr () else Inl InvalidSignature)
      else if VExpected v = ''ES256'' then
        (if length sig \<noteq> 64 then Inl InvalidSignatureLength
         else if EcdsaVerify cr (VEcdsaKey v) (Sha256 cr input) (bytes_nat (take 32 sig)) (bytes_nat (drop 32 sig))
         then Inr () else Inl InvalidSignature)
      else Inr ())"

definition splitCSV :: "string \<Rightarrow> string list" where
  "splitCSV val = filter (\<lambda>p. p \<noteq> []) (map trim_space (split_char (CHR '','') val))"

definition isAudienceValid :: "gany option \<Rightarrow> string \<Rightarrow> bool" where
  "isAudienceValid raw expected =
     (let expectedList = splitCSV expected
      in case raw of
           Some (GStr aud) \<Rightarrow> containsString expectedList aud
         | Some (GList vs) \<Rightarrow> list_ex (\<lambda>it. case it of GStr s \<Rightarrow> containsString expectedList s | _ \<Rightarrow> False) vs
         | Some (GStrs ss) \<Rightarrow> list_ex (containsString expectedList) ss
         | _ \<Rightarrow> False)"

text \<open>\<^verbatim>\<open>int64(v)\<close> of a \<^verbatim>\<open>float64\<close>: the fraction is dropped; a value out of range is up to the processor.\<close>

definition float_magnitude :: "64 word \<Rightarrow> nat" where
  "float_magnitude w =
     (let e = unat (take_bit 11 (drop_bit 52 w)); f = unat (take_bit 52 w)
      in if e = 0 then 0
         else if e \<ge> 1075 then (f + 2 ^ 52) * 2 ^ (e - 1075)
         else (f + 2 ^ 52) div 2 ^ (1075 - e))"

definition float_to_int64 :: "(64 word \<Rightarrow> 64 word) \<Rightarrow> 64 word \<Rightarrow> 64 word" where
  "float_to_int64 overflow w =
     (if unat (take_bit 11 (drop_bit 52 w)) \<ge> 1023 + 63 \<and> w \<noteq> 0xC3E0000000000000 then overflow w
      else if w \<ge> 2 ^ 63 then - of_nat (float_magnitude w) else of_nat (float_magnitude w))"

definition numericClaim :: "crypto \<Rightarrow> (string, gany) gomap \<Rightarrow> string \<Rightarrow> jwt_error + 64 word" where
  "numericClaim cr claims key =
     (case map_of claims key of
        None \<Rightarrow> Inl (ClaimRequired key)
      | Some (GFloat w) \<Rightarrow> Inr (float_to_int64 (FloatOverflow cr) w)
      | Some (GInt i) \<Rightarrow> Inr (word_of_int i)
      | _ \<Rightarrow> Inl (InvalidClaim key))"

definition string_claim :: "(string, gany) gomap \<Rightarrow> string \<Rightarrow> string" where
  "string_claim claims key = (case map_of claims key of Some (GStr s) \<Rightarrow> s | _ \<Rightarrow> [])"

definition validateClaims :: "crypto \<Rightarrow> jwt_config \<Rightarrow> 64 word \<Rightarrow> (string, gany) gomap \<Rightarrow> jwt_error + unit" where
  "validateClaims cr cfg now claims =
     (let skew = (if ClockSkewSec cfg <s 0 then 0 else ClockSkewSec cfg)
      in if string_claim claims ''iss'' \<noteq> Issuer cfg then Inl InvalidIssuer
         else if \<not> isAudienceValid (map_of claims ''aud'') (Audience cfg) then Inl InvalidAudience
         else
           bind_res (numericClaim cr claims ''exp'') (\<lambda>exp.
             if exp + skew <s now then Inl Expired
             else bind_res (numericClaim cr claims ''nbf'') (\<lambda>nbf.
               if now + skew <s nbf then Inl NotValidYet
               else bind_res (numericClaim cr claims ''iat'') (\<lambda>iat.
                 if now + skew <s iat then Inl IssuedInFuture else Inr ()))))"

definition ValidateToken ::
  "crypto \<Rightarrow> jwt_validator \<Rightarrow> 64 word \<Rightarrow> string \<Rightarrow> jwt_error + (string, gany) gomap" where
  "ValidateToken cr v now token =
     (case split_char (CHR ''.'') token of
        [h, p, s] \<Rightarrow>
          (case decodeSegment cr h of
             None \<Rightarrow> Inl InvalidHeader
           | Some header \<Rightarrow>
               if to_upper (string_claim header ''alg'') \<noteq> VExpected v then Inl (UnexpectedAlg (string_claim header ''alg''))
               else (case b64_decode s of
                 None \<Rightarrow> Inl InvalidSignatureEncoding
               | Some sig \<Rightarrow>
                   bind_res (verifySignature cr v (h @ ''.'' @ p) sig) (\<lambda>_.
                     case decodeSegment cr p of
                       None \<Rightarrow> Inl InvalidClaims
                     | Some claims \<Rightarrow> bind_res (validateClaims cr (VConfig v) now claims) (\<lambda>_. Inr claims))))
      | _ \<Rightarrow> Inl InvalidFormat)"

section \<open>Times are read exactly\<close>

lemma float_parts:
  assumes "k < 0x43F0000000000000"
  shows "unat (take_bit 11 (drop_bit 52 (of_nat k :: 64 word))) = k div 2 ^ 52"
    "unat (take_bit 52 (of_nat k :: 64 word)) = k mod 2 ^ 52" "\<not> (of_nat k :: 64 word) \<ge> 2 ^ 63"
    "unat (take_bit 11 (drop_bit 52 (of_nat k + 2 ^ 63 :: 64 word))) = k div 2 ^ 52"
    "unat (take_bit 52 (of_nat k + 2 ^ 63 :: 64 word)) = k mod 2 ^ 52" "(of_nat k + 2 ^ 63 :: 64 word) \<ge> 2 ^ 63"
proof -
  have k: "k < 2 ^ 63" "k < 2 ^ 64" using assms by simp_all
  have u: "unat (of_nat k :: 64 word) = k" using k by (simp add: unat_of_nat take_bit_nat_eq_self)
  have u': "unat (of_nat k + 2 ^ 63 :: 64 word) = k + 2 ^ 63"
    using k u by (simp add: unat_plus_if_size word_size)
  have d: "k div 2 ^ 52 < 2 ^ 11" using assms by (simp add: less_mult_imp_div_less)
  have d': "(k + 2 ^ 63) div 2 ^ 52 = k div 2 ^ 52 + 2 ^ 11" "(k + 2 ^ 63) mod 2 ^ 52 = k mod 2 ^ 52"
    using div_mult_self1 [of "2 ^ 52 :: nat" k "2 ^ 11"] mod_mult_self1 [of k "2 ^ 11" "2 ^ 52 :: nat"]
    by (simp_all add: algebra_simps)
  have parts: "unat (take_bit 11 (drop_bit 52 w)) = take_bit 11 (unat w div 2 ^ 52)"
    "unat (take_bit 52 w) = unat w mod 2 ^ 52" for w :: "64 word"
    by (simp_all only: unsigned_take_bit_eq unat_drop_bit_eq flip: drop_bit_eq_div [of 52 "unat w"] take_bit_eq_mod)
  show "unat (take_bit 11 (drop_bit 52 (of_nat k :: 64 word))) = k div 2 ^ 52"
    "unat (take_bit 52 (of_nat k :: 64 word)) = k mod 2 ^ 52" "\<not> (of_nat k :: 64 word) \<ge> 2 ^ 63"
    unfolding parts u using d k u by (simp_all add: take_bit_eq_mod word_le_nat_alt)
  show "unat (take_bit 11 (drop_bit 52 (of_nat k + 2 ^ 63 :: 64 word))) = k div 2 ^ 52"
    "unat (take_bit 52 (of_nat k + 2 ^ 63 :: 64 word)) = k mod 2 ^ 52" "(of_nat k + 2 ^ 63 :: 64 word) \<ge> 2 ^ 63"
    unfolding parts u' d' using d u' by (simp_all add: take_bit_eq_mod word_le_nat_alt)
qed

lemma float_bits_parts:
  assumes "0 < n" "n < 2 ^ 53"
  shows "\<exists>e \<le> 52. float_bits n div 2 ^ 52 = e + 1023 \<and> float_bits n mod 2 ^ 52 + 2 ^ 52 = n * 2 ^ (52 - e)"
proof -
  obtain e where e: "e \<le> 52" "float_bits n = (e + 1022) * 2 ^ 52 + n * 2 ^ (52 - e)"
    "2 ^ 52 \<le> n * 2 ^ (52 - e)" "n * 2 ^ (52 - e) < 2 ^ 53" by (rule float_bits_small [OF assms])
  define f where "f = n * 2 ^ (52 - e) - 2 ^ 52"
  have f: "f < 2 ^ 52" "n * 2 ^ (52 - e) = f + 2 ^ 52" using e(3,4) by (auto simp: f_def)
  have b: "float_bits n = f + (e + 1023) * 2 ^ 52" using e(2) f(2) by (simp add: algebra_simps)
  have "float_bits n div 2 ^ 52 = e + 1023" "float_bits n mod 2 ^ 52 = f"
    unfolding b using f(1) div_mult_self1 [of "2 ^ 52" f "e + 1023"] mod_mult_self1 [of f "e + 1023" "2 ^ 52"]
    by (simp_all only: div_less mod_less add_0 power_not_zero rel_simps not_False_eq_True)
  then show ?thesis using e(1) f(2) by auto
qed

lemma float_to_int64_int:
  assumes "\<bar>i\<bar> < 2 ^ 53"
  shows "float_to_int64 overflow (float_of_int i) = word_of_int i"
proof -
  define n where "n = nat \<bar>i\<bar>"
  define w where "w = float_of_int i"
  have n: "n < 2 ^ 53" using assms by (simp add: n_def nat_less_iff)
  note bound = float_bits_bound [OF n]
  have w: "w = of_nat (float_bits n) + (if i < 0 then 2 ^ 63 else 0)" by (simp add: w_def float_of_int_def n_def)
  have e: "unat (take_bit 11 (drop_bit 52 w)) = float_bits n div 2 ^ 52" "unat (take_bit 52 w) = float_bits n mod 2 ^ 52"
    "w \<ge> 2 ^ 63 \<longleftrightarrow> i < 0"
    using float_parts [OF bound] by (simp_all add: w)
  have mag: "float_magnitude w = n"
  proof (cases "n = 0")
    case True
    then show ?thesis unfolding float_magnitude_def e Let_def by (simp add: float_bits_def)
  next
    case False
    then obtain x where x: "x \<le> 52" "float_bits n div 2 ^ 52 = x + 1023"
      "float_bits n mod 2 ^ 52 + 2 ^ 52 = n * 2 ^ (52 - x)" using float_bits_parts n by blast
    show ?thesis
      unfolding float_magnitude_def e Let_def x(2,3) using x(1) by (auto simp: le_Suc_eq)
  qed
  have "float_bits n div 2 ^ 52 < 1086"
  proof (cases "n = 0")
    case False
    then show ?thesis using float_bits_parts [of n] n by auto
  qed (simp add: float_bits_def)
  then have "float_to_int64 overflow w = (if i < 0 then - of_nat n else of_nat n)"
    unfolding float_to_int64_def e mag by simp
  also have "\<dots> = word_of_int i" by (simp add: n_def)
  finally show ?thesis by (simp add: w_def)
qed

section \<open>Times without overflow\<close>

definition small_time :: "64 word \<Rightarrow> bool" where
  "small_time w = (\<bar>sint w\<bar> < 2 ^ 62)"

definition clock_skew :: "jwt_config \<Rightarrow> 64 word" where
  "clock_skew cfg = (if ClockSkewSec cfg <s 0 then 0 else ClockSkewSec cfg)"

lemma sint_plus_small:
  assumes "small_time a" "small_time b"
  shows "sint (a + b) = sint a + sint b"
proof -
  have "sint (a + b) = signed_take_bit 63 (sint a + sint b)"
    by (simp add: sint_word_ariths)
  also have "\<dots> = sint a + sint b"
    using assms by (intro signed_take_bit_int_eq_self) (auto simp: small_time_def)
  finally show ?thesis .
qed

lemma small_skew: "small_time (ClockSkewSec cfg) \<Longrightarrow> small_time (clock_skew cfg)"
  by (simp add: small_time_def clock_skew_def)

lemma sint_skew: "sint (clock_skew cfg) = max 0 (sint (ClockSkewSec cfg))"
  by (auto simp: clock_skew_def word_sless_alt)

lemma time_le: "small_time a \<Longrightarrow> small_time b \<Longrightarrow> (a + b <s c) = (sint a + sint b < sint c)"
  by (simp add: word_sless_alt sint_plus_small)

lemma validateClaims_iff:
  "validateClaims cr cfg now claims = Inr () \<longleftrightarrow>
     string_claim claims ''iss'' = Issuer cfg \<and> isAudienceValid (map_of claims ''aud'') (Audience cfg) \<and>
     (\<exists>exp nbf iat. numericClaim cr claims ''exp'' = Inr exp \<and> numericClaim cr claims ''nbf'' = Inr nbf \<and>
        numericClaim cr claims ''iat'' = Inr iat \<and> \<not> exp + clock_skew cfg <s now \<and>
        \<not> now + clock_skew cfg <s nbf \<and> \<not> now + clock_skew cfg <s iat)"
  unfolding validateClaims_def clock_skew_def [symmetric] Let_def by (auto simp: bind_res_Inr split: if_splits)

text \<open>What it means that a signature belongs to a text.\<close>

definition signed :: "crypto \<Rightarrow> jwt_validator \<Rightarrow> string \<Rightarrow> string \<Rightarrow> bool" where
  "signed cr v input sig =
     (VExpected v = ''HS256'' \<and> HmacSha256 cr (VHmacKey v) input = sig \<or>
      VExpected v = ''RS256'' \<and> RsaVerify cr (VRsaKey v) (Sha256 cr input) sig \<or>
      VExpected v = ''ES256'' \<and> length sig = 64 \<and>
        EcdsaVerify cr (VEcdsaKey v) (Sha256 cr input) (bytes_nat (take 32 sig)) (bytes_nat (drop 32 sig)))"

lemma with_key_Inr:
  "with_rsa v k = Inr v' \<longleftrightarrow> (\<exists>r. k = RsaKey r \<and> v' = v\<lparr>VRsaKey := r\<rparr>)"
  "with_ecdsa v k = Inr v' \<longleftrightarrow> (\<exists>r. k = EcdsaKey r \<and> v' = v\<lparr>VEcdsaKey := r\<rparr>)"
  by (cases k; auto simp: with_rsa_def with_ecdsa_def)+

lemma validator_algs:
  assumes "NewJWTValidator cr cfg = Inr v"
  shows "VConfig v = cfg \<and> VExpected v = to_upper (trim_space (ValidationType cfg)) \<and>
    VExpected v \<in> {''HS256'', ''RS256'', ''ES256''} \<and>
    (VExpected v = ''HS256'' \<longrightarrow> VHmacKey v = HMACSecret cfg \<and> HMACSecret cfg \<noteq> [])"
  using assms
  by (auto simp: NewJWTValidator_def Let_def bind_res_Inr with_key_Inr split: if_split_asm)

lemma verify_signed:
  assumes "NewJWTValidator cr cfg = Inr v"
  shows "verifySignature cr v input sig = Inr () \<longleftrightarrow> signed cr v input sig"
  using validator_algs [OF assms] by (auto simp: verifySignature_def signed_def split: if_splits)

text \<open>A decoded segment has no dot, so three of them can be told apart.\<close>

lemma b64_no_dot: "b64_decode s = Some x \<Longrightarrow> CHR ''.'' \<notin> set s"
proof
  assume s: "b64_decode s = Some x" "CHR ''.'' \<in> set s"
  have "b64_value (CHR ''.'') = None" by code_simp
  moreover have "opt_map f xs = None" if "c \<in> set xs" "f c = None" for c f and xs :: "char list"
    using that by (induction xs) (auto split: option.split)
  moreover have "CHR ''.'' \<in> set (filter (\<lambda>c. c \<noteq> CHR 0x0A \<and> c \<noteq> CHR 0x0D) s)" using s(2) by simp
  ultimately have "opt_map b64_value (filter (\<lambda>c. c \<noteq> CHR 0x0A \<and> c \<noteq> CHR 0x0D) s) = None" by blast
  then show False using s(1) by (simp add: b64_decode_def)
qed

lemma split_token:
  assumes "CHR ''.'' \<notin> set h" "CHR ''.'' \<notin> set p" "CHR ''.'' \<notin> set s"
  shows "split_char (CHR ''.'') (h @ ''.'' @ p @ ''.'' @ s) = [h, p, s]"
  using assms by (simp add: split_char_append split_char_id)

lemma ValidateToken_Inr:
  assumes "ValidateToken cr v now token = Inr claims"
  shows "\<exists>h p s header sig. split_char (CHR ''.'') token = [h, p, s] \<and> decodeSegment cr h = Some header \<and>
    to_upper (string_claim header ''alg'') = VExpected v \<and> b64_decode s = Some sig \<and>
    verifySignature cr v (h @ ''.'' @ p) sig = Inr () \<and> decodeSegment cr p = Some claims \<and>
    validateClaims cr (VConfig v) now claims = Inr ()"
proof -
  obtain h p s where hps: "split_char (CHR ''.'') token = [h, p, s]"
    using assms by (auto simp: ValidateToken_def split: list.splits)
  obtain header where header: "decodeSegment cr h = Some header" "to_upper (string_claim header ''alg'') = VExpected v"
    using assms hps by (auto simp: ValidateToken_def split: option.splits if_splits)
  obtain sig where sig: "b64_decode s = Some sig"
    using assms hps header by (auto simp: ValidateToken_def split: option.splits)
  have run: "bind_res (verifySignature cr v (h @ ''.'' @ p) sig) (\<lambda>_.
      case decodeSegment cr p of None \<Rightarrow> Inl InvalidClaims
      | Some claims \<Rightarrow> bind_res (validateClaims cr (VConfig v) now claims) (\<lambda>_. Inr claims)) = Inr claims"
    using assms hps header sig by (simp add: ValidateToken_def)
  then have v: "verifySignature cr v (h @ ''.'' @ p) sig = Inr ()" by (auto simp: bind_res_Inr)
  obtain cl where cl: "decodeSegment cr p = Some cl" "bind_res (validateClaims cr (VConfig v) now cl) (\<lambda>_. Inr cl) = Inr claims"
    using run v by (cases "decodeSegment cr p") auto
  then have "cl = claims" "validateClaims cr (VConfig v) now claims = Inr ()" by (auto simp: bind_res_Inr)
  then show ?thesis using hps header sig v cl(1) by blast
qed

section \<open>Properties\<close>



text \<open>An example of a configuration and of a token that is valid from time 10 to time 50.\<close>

definition demo_crypto :: crypto where
  "demo_crypto = \<lparr>Sha256 = (\<lambda>x. x), HmacSha256 = (\<lambda>k x. k), RsaVerify = (\<lambda>_ _ _. False),
     EcdsaVerify = (\<lambda>_ _ _ _. False), PemDecode = (\<lambda>_. None), ParsePKIX = (\<lambda>_. None), ParsePKCS1 = (\<lambda>_. None),
     ParseCertificate = (\<lambda>_. None), ReadKeyFile = (\<lambda>_. Inl ''''),
     JsonObject = (\<lambda>s. if s = ''h'' then Some [(''alg'', GStr ''HS256'')]
       else if s = ''p'' then Some [(''iss'', GStr ''me''), (''aud'', GList [GStr ''api'']), (''exp'', GFloat (float_of_int 50)),
         (''nbf'', GFloat (float_of_int 10)), (''iat'', GFloat (float_of_int 10))]
       else None),
     FloatOverflow = (\<lambda>w. w)\<rparr>"

definition demo_jwt :: jwt_config where
  "demo_jwt = \<lparr>ValidationType = '' hs256'', Issuer = ''me'', Audience = ''web, api'', HMACSecret = ''m'',
     PublicKeyPEM = '''', PublicKeyPath = '''', ClockSkewSec = 5\<rparr>"

definition demo_validator :: jwt_validator where
  "demo_validator = \<lparr>VConfig = demo_jwt, VExpected = ''HS256'', VHmacKey = ''m'', VRsaKey = [], VEcdsaKey = []\<rparr>"

lemma demo_validator: "NewJWTValidator demo_crypto demo_jwt = Inr demo_validator"
  by code_simp

abbreviation demo_claims :: "(string, gany) gomap" where
  "demo_claims \<equiv> [(''iss'', GStr ''me''), (''aud'', GList [GStr ''api'']), (''exp'', GFloat (float_of_int 50)),
     (''nbf'', GFloat (float_of_int 10)), (''iat'', GFloat (float_of_int 10))]"

lemma demo_decode: "b64_decode ''aA'' = Some ''h''" "b64_decode ''cA'' = Some ''p''" "b64_decode ''bQ'' = Some ''m''"
  by code_simp+

lemma demo_segments:
  "decodeSegment demo_crypto ''aA'' = Some [(''alg'', GStr ''HS256'')]"
  "decodeSegment demo_crypto ''cA'' = Some demo_claims"
  by (simp_all add: decodeSegment_def demo_decode demo_crypto_def)

lemma demo_audience: "isAudienceValid (Some (GList [GStr ''api''])) ''web, api''"
  by code_simp

lemma demo_numeric:
  "numericClaim demo_crypto demo_claims ''exp'' = Inr 50" "numericClaim demo_crypto demo_claims ''nbf'' = Inr 10"
  "numericClaim demo_crypto demo_claims ''iat'' = Inr 10"
  by (simp_all add: numericClaim_def float_to_int64_int)

lemma demo_hmac: "HmacSha256 demo_crypto k x = k"
  by (simp add: demo_crypto_def)

lemma demo_accepted: "ValidateToken demo_crypto demo_validator 20 ''aA.cA.bQ'' = Inr demo_claims"
proof -
  have "split_char (CHR ''.'') ''aA.cA.bQ'' = [''aA'', ''cA'', ''bQ'']" "to_upper ''HS256'' = ''HS256''" by code_simp+
  moreover have "validateClaims demo_crypto demo_jwt 20 demo_claims = Inr ()"
  proof -
    have "\<not> (55 :: 64 word) <s 20" "\<not> (25 :: 64 word) <s 10" "\<not> (5 :: 64 word) <s 0" by code_simp+
    then show ?thesis
      unfolding validateClaims_iff demo_numeric by (simp add: string_claim_def clock_skew_def demo_jwt_def demo_audience)
  qed
  ultimately show ?thesis
    by (simp add: ValidateToken_def demo_segments demo_decode demo_validator_def verifySignature_def string_claim_def demo_hmac)
qed

lemma sint_50: "sint (50 :: 64 word) = 50"
  by code_simp



end
