(* ===== verification/Log_Tail.thy ===== *)
theory Log_Tail
  imports Auth
begin

text \<open>
  The reader of the log file: \<^verbatim>\<open>internal/router/logs.go\<close>. The file is read backwards in chunks of
  4096 bytes until enough entries match the filters. Opening and reading the file, and the JSON
  decoder, are parameters. An entry that decodes from \<^verbatim>\<open>null\<close> is the empty map.
\<close>

section \<open>Filters\<close>

type_synonym log_entry = "(string, gany) gomap"

record log_filters =
  Level :: string
  FKey :: string
  FValue :: string
  FMsg :: string
  FLimit :: nat

definition defaultLogLimit :: nat where "defaultLogLimit = 20"
definition maxLogLimit :: nat where "maxLogLimit = 100"

datatype filter_error = InvalidLevel | InvalidLimit

definition parseLogFilters :: "(string \<Rightarrow> string) \<Rightarrow> filter_error + log_filters" where
  "parseLogFilters q =
     (let filters = \<lparr>Level = to_lower (trim_space (q ''level'')), FKey = trim_space (q ''key''),
            FValue = trim_space (q ''value''), FMsg = trim_space (q ''msg''), FLimit = defaultLogLimit\<rparr>;
          raw = trim_space (q ''limit'')
      in if Level filters \<noteq> [] \<and> Level filters \<notin> {''debug'', ''info'', ''warn'', ''error''} then Inl InvalidLevel
         else if raw = [] then Inr filters
         else (case atoi raw of
           None \<Rightarrow> Inl InvalidLimit
         | Some n \<Rightarrow> if n < 1 \<or> n > int maxLogLimit then Inl InvalidLimit
                     else Inr (filters\<lparr>FLimit := nat n\<rparr>)))"

fun containsValue :: "float_text \<Rightarrow> string \<Rightarrow> gany \<Rightarrow> bool"
  and contains_any :: "float_text \<Rightarrow> string \<Rightarrow> gany list \<Rightarrow> bool"
  and contains_entry :: "float_text \<Rightarrow> string \<Rightarrow> (string \<times> gany) list \<Rightarrow> bool" where
  "containsValue fl needle GNil = False"
| "containsValue fl needle (GStr x) = contains (to_lower x) needle"
| "containsValue fl needle (GList xs) = contains_any fl needle xs"
| "containsValue fl needle (GMap m) = contains_entry fl needle m"
| "containsValue fl needle v = contains (to_lower (sprint fl v)) needle"
| "contains_any fl needle [] = False"
| "contains_any fl needle (x # xs) = (containsValue fl needle x \<or> contains_any fl needle xs)"
| "contains_entry fl needle [] = False"
| "contains_entry fl needle ((k, x) # m) = (containsValue fl needle x \<or> contains_entry fl needle m)"

definition entryHasKey :: "log_entry \<Rightarrow> string \<Rightarrow> bool" where
  "entryHasKey entry key = (map_of entry key \<noteq> None)"

definition entryHasValue :: "float_text \<Rightarrow> log_entry \<Rightarrow> string \<Rightarrow> bool" where
  "entryHasValue fl entry needle0 =
     (let needle = to_lower (trim_space needle0)
      in needle = [] \<or> list_ex (\<lambda>(k, v). containsValue fl needle v) entry)"

definition parseLogLine :: "(string \<Rightarrow> log_entry option) \<Rightarrow> float_text \<Rightarrow> log_filters \<Rightarrow> string \<Rightarrow> log_entry option" where
  "parseLogLine decode fl filters line0 =
     (let line = trim_space line0
      in if line = [] then None
         else (case decode line of
           None \<Rightarrow> None
         | Some entry \<Rightarrow>
             if Level filters \<noteq> [] \<and> to_lower (string_claim entry ''level'') \<noteq> Level filters then None
             else if FMsg filters \<noteq> [] \<and> \<not> contains (to_lower (string_claim entry ''msg'')) (to_lower (FMsg filters)) then None
             else if FKey filters \<noteq> [] \<and> \<not> entryHasKey entry (FKey filters) then None
             else if FValue filters \<noteq> [] \<and> \<not> entryHasValue fl entry (FValue filters) then None
             else Some entry))"

section \<open>Reading backwards\<close>

datatype file_error = NotExist | FileFailed

record log_file =
  FSize :: nat
  FReadAt :: "nat \<Rightarrow> nat \<Rightarrow> string option"

definition bufSize :: nat where "bufSize = 4096"

abbreviation newline :: char where "newline \<equiv> CHR 0x0A"

text \<open>The inner loop, over the lines of a chunk from the last one on.\<close>

fun collect_lines :: "(string \<Rightarrow> 'e option) \<Rightarrow> nat \<Rightarrow> string list \<Rightarrow> 'e list \<Rightarrow> 'e list" where
  "collect_lines parse limit [] entries = entries"
| "collect_lines parse limit (l # ls) entries =
     (if length entries < limit then
        collect_lines parse limit ls (case parse l of None \<Rightarrow> entries | Some e \<Rightarrow> entries @ [e])
      else entries)"

function tail_loop ::
  "(string \<Rightarrow> 'e option) \<Rightarrow> nat \<Rightarrow> (nat \<Rightarrow> nat \<Rightarrow> string option) \<Rightarrow> nat \<Rightarrow> string \<Rightarrow> 'e list \<Rightarrow> (string \<times> 'e list) option" where
  "tail_loop parse limit readAt offset remainder entries =
     (if 0 < offset \<and> length entries < limit then
        (let chunk = min bufSize offset; offset' = offset - chunk
         in case readAt offset' chunk of
              None \<Rightarrow> None
            | Some buf \<Rightarrow>
                (let lines = split_char newline (buf @ remainder)
                 in tail_loop parse limit readAt offset' (hd lines) (collect_lines parse limit (rev (tl lines)) entries)))
      else Some (remainder, entries))"
  by pat_completeness auto
termination by (relation "measure (\<lambda>(_, _, _, offset, _, _). offset)") (auto simp: bufSize_def)

declare tail_loop.simps [simp del]

definition swap_at :: "nat \<Rightarrow> nat \<Rightarrow> 'a list \<Rightarrow> 'a list" where
  "swap_at i j xs = xs[i := xs ! j, j := xs ! i]"

function reverse_from :: "nat \<Rightarrow> nat \<Rightarrow> 'a list \<Rightarrow> 'a list" where
  "reverse_from i j xs = (if i < j then reverse_from (i + 1) (j - 1) (swap_at i j xs) else xs)"
  by pat_completeness auto
termination by (relation "measure (\<lambda>(i, j, _). j - i)") auto

declare reverse_from.simps [simp del]

definition reverseEntries :: "'a list \<Rightarrow> 'a list" where
  "reverseEntries xs = reverse_from 0 (length xs - 1) xs"

definition readLogTail ::
  "(string \<Rightarrow> log_entry option) \<Rightarrow> float_text \<Rightarrow> file_error + log_file \<Rightarrow> log_filters \<Rightarrow> file_error + log_entry list" where
  "readLogTail decode fl opened filters =
     bind_res opened (\<lambda>f.
       case tail_loop (parseLogLine decode fl filters) (FLimit filters) (FReadAt f) (FSize f) [] [] of
         None \<Rightarrow> Inl FileFailed
       | Some (remainder, entries) \<Rightarrow>
           Inr (reverseEntries
             (if remainder \<noteq> [] \<and> length entries < FLimit filters then
                (case parseLogLine decode fl filters remainder of None \<Rightarrow> entries | Some e \<Rightarrow> entries @ [e])
              else entries)))"

section \<open>The loops\<close>

lemma length_swap_at [simp]: "length (swap_at i j xs) = length xs"
  by (simp add: swap_at_def)

lemma reverse_from_nth:
  "j < length xs \<Longrightarrow>
     length (reverse_from i j xs) = length xs \<and>
     (\<forall>k < length xs. reverse_from i j xs ! k = (if i \<le> k \<and> k \<le> j then xs ! (i + j - k) else xs ! k))"
proof (induction i j xs rule: reverse_from.induct)
  case (1 i j xs)
  show ?case
  proof (cases "i < j")
    case True
    with 1 have "length (reverse_from (i + 1) (j - 1) (swap_at i j xs)) = length xs"
      "\<And>k. k < length xs \<Longrightarrow> reverse_from (i + 1) (j - 1) (swap_at i j xs) ! k =
         (if i + 1 \<le> k \<and> k \<le> j - 1 then swap_at i j xs ! (i + 1 + (j - 1) - k) else swap_at i j xs ! k)"
      by auto
    with True 1(2) show ?thesis
      unfolding reverse_from.simps [of i j xs] by (auto simp: swap_at_def nth_list_update)
  next
    case False
    then have "\<And>k. i \<le> k \<Longrightarrow> k \<le> j \<Longrightarrow> i + j - k = k" by simp
    with False show ?thesis by (auto simp: reverse_from.simps [of i j xs])
  qed
qed

lemma reverseEntries_rev: "reverseEntries xs = rev xs"
proof (cases "xs = []")
  case False
  then have "length xs - 1 < length xs" by simp
  from reverse_from_nth [OF this, of 0] show ?thesis
    by (intro nth_equalityI) (auto simp: reverseEntries_def rev_nth)
qed (simp add: reverseEntries_def reverse_from.simps)

lemma collect_lines_take:
  assumes "entries = take limit xs"
  shows "collect_lines parse limit ls entries = take limit (xs @ List.map_filter parse ls)"
  using assms
proof (induction ls arbitrary: entries xs)
  case Nil
  then show ?case by (simp add: map_filter_def)
next
  case (Cons l ls)
  have filtered: "xs @ List.map_filter parse (l # ls) =
      (xs @ (case parse l of None \<Rightarrow> [] | Some e \<Rightarrow> [e])) @ List.map_filter parse ls"
    by (simp add: map_filter_def split: option.split)
  show ?case
  proof (cases "length entries < limit")
    case True
    with Cons.prems have "entries = xs" by simp
    with True have "(case parse l of None \<Rightarrow> entries | Some e \<Rightarrow> entries @ [e]) =
        take limit (xs @ (case parse l of None \<Rightarrow> [] | Some e \<Rightarrow> [e]))"
      by (auto split: option.split)
    with True show ?thesis unfolding filtered by (simp only: collect_lines.simps if_True Cons.IH)
  next
    case False
    with Cons.prems show ?thesis by auto
  qed
qed

lemma split_char_back:
  "split_char c s = r # rest \<Longrightarrow> split_char c (b @ s) = split_char c (b @ r) @ rest"
proof (induction b)
  case Nil
  then have "c \<notin> set r" using split_char_no_sep by (metis list.set_intros(1))
  with Nil show ?case by (simp add: split_char_id)
next
  case (Cons x b)
  then show ?case by (cases "split_char c (b @ r)") auto
qed

text \<open>A file that reads what it holds.\<close>

definition holds_text :: "log_file \<Rightarrow> string \<Rightarrow> bool" where
  "holds_text f text =
     (FSize f = length text \<and> (\<forall>offset n. offset + n \<le> length text \<longrightarrow> FReadAt f offset n = Some (take n (drop offset text))))"

abbreviation matches :: "(string \<Rightarrow> 'e option) \<Rightarrow> string list \<Rightarrow> 'e list" where
  "matches parse ls \<equiv> List.map_filter parse (rev ls)"

lemma matches_append: "matches parse (xs @ ys) = matches parse ys @ matches parse xs"
  by (simp add: map_filter_def)

lemma tail_loop_run:
  assumes "holds_text f text" "offset \<le> length text"
    and "split_char newline (drop offset text) = remainder # rest"
    and "entries = take limit (matches parse rest)"
  shows "\<exists>remainder' rest' pre. tail_loop parse limit (FReadAt f) offset remainder entries =
      Some (remainder', take limit (matches parse rest')) \<and>
      (split_char newline text = remainder' # rest' \<or>
       split_char newline text = pre @ rest' \<and> limit \<le> length (matches parse rest'))"
  using assms
proof (induction offset arbitrary: remainder rest entries rule: less_induct)
  case (less offset)
  show ?case
  proof (cases "0 < offset \<and> length entries < limit")
    case True
    define chunk where "chunk = min bufSize offset"
    have chunk: "0 < chunk" "chunk \<le> offset" using True by (auto simp: chunk_def bufSize_def)
    define buf where "buf = take chunk (drop (offset - chunk) text)"
    have read: "FReadAt f (offset - chunk) chunk = Some buf"
      using less.prems(1,2) chunk by (simp add: holds_text_def buf_def)
    have before: "drop (offset - chunk) text = buf @ drop offset text"
      using append_take_drop_id [of chunk "drop (offset - chunk) text"] chunk by (simp add: buf_def add.commute)
    obtain r ls where lines: "split_char newline (buf @ remainder) = r # ls"
      by (cases "split_char newline (buf @ remainder)") auto
    have split: "split_char newline (drop (offset - chunk) text) = r # ls @ rest"
      unfolding before split_char_back [OF less.prems(3)] lines by simp
    have "collect_lines parse limit (rev ls) entries = take limit (matches parse (ls @ rest))"
      unfolding matches_append by (rule collect_lines_take [OF less.prems(4)])
    with less.IH [OF _ less.prems(1) _ split] less.prems(2) chunk show ?thesis
      by (subst tail_loop.simps) (simp add: True chunk_def [symmetric] read lines Let_def)
  next
    case False
    have run: "tail_loop parse limit (FReadAt f) offset remainder entries = Some (remainder, take limit (matches parse rest))"
      using False less.prems(4) by (subst tail_loop.simps) auto
    have "split_char newline (take offset text @ drop offset text) = split_char newline (take offset text @ remainder) @ rest"
      by (rule split_char_back [OF less.prems(3)])
    then have whole: "split_char newline text = split_char newline (take offset text @ remainder) @ rest" by simp
    show ?thesis
    proof (cases "offset = 0")
      case True
      then show ?thesis using run less.prems(3) by auto
    next
      case False2: False
      then have "limit \<le> length (matches parse rest)" using False less.prems(4) by auto
      then show ?thesis using run whole by blast
    qed
  qed
qed

lemma parse_empty: "parseLogLine decode fl filters [] = None"
  by (simp add: parseLogLine_def)

text \<open>
  C39. What the reader of the log returns is the last entries of the file that match the filters, as
  many as the limit allows, in the order of the file: reading backwards in chunks is reading all
  lines (\<^verbatim>\<open>readLogTail\<close>).
\<close>
theorem log_tail_is_last_matches:
  assumes "holds_text f text"
  shows "readLogTail decode fl (Inr f) filters =
     (let found = List.map_filter (parseLogLine decode fl filters) (split_char newline text)
      in Inr (drop (length found - FLimit filters) found))"
proof -
  define parse where "parse = parseLogLine decode fl filters"
  define found where "found = List.map_filter parse (split_char newline text)"
  have found: "matches parse (split_char newline text) = rev found"
    unfolding found_def by (induction "split_char newline text") (simp_all add: map_filter_def rev_map rev_filter)
  obtain r rest pre where run: "tail_loop parse (FLimit filters) (FReadAt f) (FSize f) [] [] =
      Some (r, take (FLimit filters) (matches parse rest))"
    and r: "split_char newline text = r # rest \<or>
      split_char newline text = pre @ rest \<and> FLimit filters \<le> length (matches parse rest)"
    using tail_loop_run [OF assms, of "length text" "[]" "[]" "[]" "FLimit filters" parse] assms
    by (auto simp: holds_text_def map_filter_def)
  have last: "(if r \<noteq> [] \<and> length (take (FLimit filters) (matches parse rest)) < FLimit filters then
        (case parse r of None \<Rightarrow> take (FLimit filters) (matches parse rest)
         | Some e \<Rightarrow> take (FLimit filters) (matches parse rest) @ [e])
      else take (FLimit filters) (matches parse rest)) = take (FLimit filters) (rev found)"
    using r
  proof
    assume "split_char newline text = r # rest"
    then have "rev found = matches parse rest @ (case parse r of None \<Rightarrow> [] | Some e \<Rightarrow> [e])"
      unfolding found [symmetric] by (simp add: map_filter_def split: option.split)
    then show ?thesis
      using parse_empty [of decode fl filters] by (auto simp: parse_def [symmetric] split: option.split)
  next
    assume "split_char newline text = pre @ rest \<and> FLimit filters \<le> length (matches parse rest)"
    then show ?thesis by (simp add: found [symmetric] map_filter_def)
  qed
  have "rev (take (FLimit filters) (rev found)) = drop (length found - FLimit filters) found"
    by (simp add: rev_take)
  then show ?thesis
    unfolding readLogTail_def parse_def [symmetric] found_def [symmetric] bind_res.simps run
      option.case prod.case reverseEntries_rev last Let_def by simp
qed

definition demo_log :: string where
  "demo_log = ''a'' @ newline # ''b'' @ newline # ''c''"

definition demo_log_file :: log_file where
  "demo_log_file = \<lparr>FSize = length demo_log,
     FReadAt = (\<lambda>offset n. if offset + n \<le> length demo_log then Some (take n (drop offset demo_log)) else None)\<rparr>"

definition demo_log_filters :: log_filters where
  "demo_log_filters = \<lparr>Level = '''', FKey = '''', FValue = '''', FMsg = '''', FLimit = 2\<rparr>"

theorem log_tail_is_last_matches_witness:
  "readLogTail (\<lambda>l. Some [(''msg'', GStr l)]) demo_floats (Inr demo_log_file) demo_log_filters =
     Inr [[(''msg'', GStr ''b'')], [(''msg'', GStr ''c'')]]"
proof -
  have "holds_text demo_log_file demo_log" by (simp add: holds_text_def demo_log_file_def)
  note run = log_tail_is_last_matches [OF this, of "\<lambda>l. Some [(''msg'', GStr l)]" demo_floats demo_log_filters]
  have "List.map_filter (parseLogLine (\<lambda>l. Some [(''msg'', GStr l)]) demo_floats demo_log_filters) (split_char newline demo_log) =
      [[(''msg'', GStr ''a'')], [(''msg'', GStr ''b'')], [(''msg'', GStr ''c'')]]" by code_simp
  then show ?thesis unfolding run by (simp add: demo_log_filters_def)
qed

text \<open>No request returns more entries than \<open>maxLogLimit\<close>.\<close>

lemma parsed_limit: "parseLogFilters q = Inr filters \<Longrightarrow> 1 \<le> FLimit filters \<and> FLimit filters \<le> maxLogLimit"
  by (auto simp: parseLogFilters_def Let_def defaultLogLimit_def maxLogLimit_def split: if_split_asm option.split_asm)

end
