(* ===== verification/Http_Front.thy ===== *)
theory Http_Front
  imports Log_Tail Config_Env
begin

text \<open>
  The front of the server: \<^verbatim>\<open>internal/router/\<close> (\<^verbatim>\<open>router.go\<close>, \<^verbatim>\<open>cors.go\<close>, \<^verbatim>\<open>health.go\<close> and the
  handlers of \<^verbatim>\<open>logs.go\<close>). A handler is a function from the request and the state to the state:
  what was written so far (\<open>writer\<close>), the application's log, and the world the program works on.
  As in \<^verbatim>\<open>net/http\<close>, the first status that is written is the one that is sent, with the headers of
  that moment, and writing a body sends 200 when no status was sent.
\<close>

section \<open>Requests and responses\<close>

record http_request =
  Method :: string
  Path :: string
  HeaderGet :: "string \<Rightarrow> string"
  QueryGet :: "string \<Rightarrow> string"
  ReqBody :: "string + string"
  Claims :: "gofilters option"
  ReqTime :: "64 word"

record writer =
  Headers :: "(string, string) gomap"
  Wire :: "(nat \<times> (string, string) gomap) option"
  Body :: string
  Recorded :: "nat option"

record 's hstate =
  Out :: writer
  Logged :: "(string \<times> string) list"
  World :: 's

text \<open>\<open>None\<close> is a handler that does not return.\<close>

type_synonym 's handler = "http_request \<Rightarrow> 's hstate \<Rightarrow> 's hstate option"

type_synonym 's answer = "http_request \<Rightarrow> 's hstate \<Rightarrow> 's hstate"

definition on_out :: "(writer \<Rightarrow> writer) \<Rightarrow> 's hstate \<Rightarrow> 's hstate" where
  "on_out f st = st\<lparr>Out := f (Out st)\<rparr>"

definition log_event :: "string \<Rightarrow> string \<Rightarrow> 's hstate \<Rightarrow> 's hstate" where
  "log_event level event st = st\<lparr>Logged := Logged st @ [(level, event)]\<rparr>"

definition set_header :: "string \<Rightarrow> string \<Rightarrow> writer \<Rightarrow> writer" where
  "set_header key val w = w\<lparr>Headers := AList.update key val (Headers w)\<rparr>"

definition WriteHeader :: "nat \<Rightarrow> writer \<Rightarrow> writer" where
  "WriteHeader code w =
     w\<lparr>Recorded := map_option (\<lambda>_. code) (Recorded w),
       Wire := (case Wire w of None \<Rightarrow> Some (code, Headers w) | sent \<Rightarrow> sent)\<rparr>"

definition write_body :: "string \<Rightarrow> writer \<Rightarrow> writer" where
  "write_body s w =
     w\<lparr>Wire := (case Wire w of None \<Rightarrow> Some (200, Headers w) | sent \<Rightarrow> sent), Body := Body w @ s\<rparr>"

definition http_error :: "string \<Rightarrow> nat \<Rightarrow> 's hstate \<Rightarrow> 's hstate" where
  "http_error msg code =
     on_out (write_body (msg @ [newline]) \<circ> WriteHeader code \<circ>
       set_header ''X-Content-Type-Options'' ''nosniff'' \<circ> set_header ''Content-Type'' ''text/plain; charset=utf-8'' \<circ>
       (\<lambda>w. w\<lparr>Headers := AList.delete ''Content-Length'' (Headers w)\<rparr>))"

section \<open>Cross-origin rules\<close>

definition parseOrigins :: "string \<Rightarrow> string list" where
  "parseOrigins allowOrigin = filter (\<lambda>p. p \<noteq> []) (map trim_space (split_char (CHR '','') allowOrigin))"

definition resolveAllowOrigin :: "string \<Rightarrow> bool \<Rightarrow> string \<Rightarrow> string \<times> bool" where
  "resolveAllowOrigin allowOrigin allowCredentials requestOrigin =
     (let origins = parseOrigins allowOrigin
      in if origins = [] then (''*'', False)
         else if list_ex (\<lambda>o'. o' = ''*'') origins then
           (if allowCredentials \<and> requestOrigin \<noteq> [] then (requestOrigin, True) else (''*'', False))
         else if requestOrigin = [] then ([], True)
         else if list_ex (\<lambda>o'. o' = requestOrigin) origins then (requestOrigin, True)
         else ([], True))"

definition cors_headers :: "string \<Rightarrow> bool \<Rightarrow> string \<Rightarrow> writer \<Rightarrow> writer" where
  "cors_headers allowOrigin allowCredentials requestOrigin w0 =
     (let (originValue, varyOrigin) = resolveAllowOrigin allowOrigin allowCredentials requestOrigin;
          w1 = (if originValue \<noteq> [] then set_header ''Access-Control-Allow-Origin'' originValue w0 else w0);
          w2 = (if varyOrigin then set_header ''Vary'' ''Origin'' w1 else w1);
          w3 = (if allowCredentials then set_header ''Access-Control-Allow-Credentials'' ''true'' w2 else w2)
      in set_header ''Access-Control-Max-Age'' ''86400''
           (set_header ''Access-Control-Allow-Headers'' ''Content-Type, Authorization''
             (set_header ''Access-Control-Allow-Methods'' ''GET, POST, OPTIONS'' w3)))"

definition withCORS :: "string \<Rightarrow> bool \<Rightarrow> 's handler \<Rightarrow> 's handler" where
  "withCORS allowOrigin allowCredentials h r st =
     (let st' = on_out (cors_headers allowOrigin allowCredentials (HeaderGet r ''Origin'')) st
      in if Method r = ''OPTIONS'' then Some (on_out (WriteHeader 204) st') else h r st')"

section \<open>Logging and the two gates\<close>

definition log_response :: "'s hstate \<Rightarrow> 's hstate" where
  "log_response st =
     (let status = (case Recorded (Out st) of None \<Rightarrow> 200 | Some s \<Rightarrow> s);
          level = (if status \<ge> 500 then ''error'' else if status \<ge> 400 then ''warn'' else ''info'')
      in log_event level ''response'' (on_out (\<lambda>w. w\<lparr>Recorded := None\<rparr>) st))"

definition withLogging :: "'s handler \<Rightarrow> 's handler" where
  "withLogging h r st = map_option log_response (h r (on_out (\<lambda>w. w\<lparr>Recorded := Some 200\<rparr>) st))"

definition withAuth :: "crypto \<Rightarrow> jwt_validator option \<Rightarrow> 's handler \<Rightarrow> 's handler" where
  "withAuth cr validator h r st =
     (case validator of
        None \<Rightarrow> h r st
      | Some v \<Rightarrow>
          (let authHeader = trim_space (HeaderGet r ''Authorization'')
           in if authHeader = [] then Some (http_error ''Authorization header is required'' 401 st)
              else if \<not> has_prefix (to_lower authHeader) ''bearer '' then
                Some (http_error ''Authorization header must be Bearer token'' 401 st)
              else (case ValidateToken cr v (ReqTime r) (trim_space (drop 7 authHeader)) of
                  Inl e \<Rightarrow> Some (http_error ''Invalid token'' 401 (log_event ''warn'' ''auth_failed'' st))
                | Inr claims \<Rightarrow> h (r\<lparr>Claims := Some claims\<rparr>) st)))"

definition withDebugToken :: "string \<Rightarrow> 's handler \<Rightarrow> 's handler" where
  "withDebugToken token h r st =
     (let expected = trim_space token; got = trim_space (HeaderGet r ''X-Debug-Token'')
      in if expected = [] then Some (http_error ''debug logs token is not configured'' 503 st)
         else if got = [] then Some (http_error ''missing X-Debug-Token header'' 401 st)
         else if got \<noteq> expected then Some (http_error ''invalid debug token'' 403 st)
         else h r st)"

section \<open>Health and logs\<close>

definition text_ok :: "string \<Rightarrow> 's answer" where
  "text_ok msg r =
     on_out ((if Method r \<noteq> ''HEAD'' then write_body msg else id) \<circ> WriteHeader 200 \<circ>
       set_header ''Content-Type'' ''text/plain; charset=utf-8'')"

definition healthzHandler :: "'s answer" where
  "healthzHandler r st =
     (if Method r \<noteq> ''GET'' \<and> Method r \<noteq> ''HEAD'' then http_error ''method not allowed'' 405 st
      else text_ok ''ok'' r st)"

definition registryReadyFunc :: "('k, 'v) gomap \<Rightarrow> bool" where
  "registryReadyFunc registry = (registry \<noteq> [])"

text \<open>No pool, or what the pool answers to a ping.\<close>

definition dbReadyFunc :: "bool option \<Rightarrow> bool" where
  "dbReadyFunc pool = (case pool of None \<Rightarrow> False | Some answered \<Rightarrow> answered)"

definition readyzHandler :: "bool \<Rightarrow> bool \<Rightarrow> 's answer" where
  "readyzHandler registryReady dbReady r st =
     (if Method r \<noteq> ''GET'' \<and> Method r \<noteq> ''HEAD'' then http_error ''method not allowed'' 405 st
      else if \<not> registryReady then http_error ''not ready'' 503 st
      else if \<not> dbReady then http_error ''not ready'' 503 st
      else text_ok ''ready'' r st)"

definition writeJSON :: "nat \<Rightarrow> string \<Rightarrow> 's answer" where
  "writeJSON status encoded r =
     on_out ((if Method r = ''HEAD'' then id else write_body encoded) \<circ> WriteHeader status \<circ>
       set_header ''Content-Type'' ''application/json; charset=utf-8'')"

record log_env =
  LogDecode :: "string \<Rightarrow> log_entry option"
  LogFloats :: float_text
  LogOpen :: "file_error + log_file"
  LogEncode :: "log_filters \<Rightarrow> log_entry list \<Rightarrow> string"

definition logsHandler :: "log_env \<Rightarrow> 's answer" where
  "logsHandler le r st =
     (if Method r \<noteq> ''GET'' \<and> Method r \<noteq> ''HEAD'' then http_error ''method not allowed'' 405 st
      else (case parseLogFilters (QueryGet r) of
          Inl InvalidLevel \<Rightarrow> http_error ''invalid level'' 400 st
        | Inl InvalidLimit \<Rightarrow> http_error ''invalid limit'' 400 st
        | Inr filters \<Rightarrow>
            (case readLogTail (LogDecode le) (LogFloats le) (LogOpen le) filters of
               Inl NotExist \<Rightarrow> http_error ''log file not found'' 404 st
             | Inl FileFailed \<Rightarrow> http_error ''failed to read logs'' 500 st
             | Inr entries \<Rightarrow> writeJSON 200 (LogEncode le filters entries) r st)))"

section \<open>Routes\<close>

text \<open>The handlers of the API are parameters here; \<^verbatim>\<open>Api_Handlers\<close> holds those of the program.\<close>

record 's api =
  IndexApi :: "'s handler"
  StatsApi :: "'s handler"
  CountApi :: "'s handler"
  RegistryReady :: bool
  DbReady :: bool
  LogEnv :: log_env

definition answers :: "'s answer \<Rightarrow> 's handler" where
  "answers f r st = Some (f r st)"

definition InitRoutes :: "crypto \<Rightarrow> 's api \<Rightarrow> app_config \<Rightarrow> validator_error + (string, 's handler) gomap" where
  "InitRoutes cr api cfg =
     bind_res (if AuthEnabled cfg then map_sum id Some (NewJWTValidator cr (JwtConf cfg)) else Inr None) (\<lambda>validator.
       let guarded = (\<lambda>h. withCORS (AllowOrigin cfg) (AllowCredentials cfg) (withLogging (withAuth cr validator h)))
       in Inr [(''/api/index'', guarded (IndexApi api)), (''/api/stats'', guarded (StatsApi api)),
               (''/api/count'', guarded (CountApi api)), (''/healthz'', withLogging (answers healthzHandler)),
               (''/readyz'', withLogging (answers (readyzHandler (RegistryReady api) (DbReady api)))),
               (''/debug/logs'', withLogging (withDebugToken (LogsToken cfg) (answers (logsHandler (LogEnv api)))))])"

text \<open>The mux of \<^verbatim>\<open>net/http\<close>, for paths that are clean, and the start of a response.\<close>

definition serve :: "(string, 's handler) gomap \<Rightarrow> 's handler" where
  "serve routes r st = (case map_of routes (Path r) of Some h \<Rightarrow> h r st | None \<Rightarrow> Some (http_error ''404 page not found'' 404 st))"

definition fresh_writer :: writer where
  "fresh_writer = \<lparr>Headers = [], Wire = None, Body = [], Recorded = None\<rparr>"

section \<open>What is written\<close>

lemma WriteHeader_simps [simp]:
  "Headers (WriteHeader code w) = Headers w"
  "Wire w = None \<Longrightarrow> Wire (WriteHeader code w) = Some (code, Headers w)"
  by (simp_all add: WriteHeader_def)

lemma on_out_simps [simp]: "World (on_out f st) = World st" "Out (on_out f st) = f (Out st)" "Logged (on_out f st) = Logged st"
  by (simp_all add: on_out_def)

lemma log_event_simps [simp]: "World (log_event l e st) = World st" "Out (log_event l e st) = Out st"
  by (simp_all add: log_event_def)

lemma set_header_simps [simp]:
  "Wire (set_header k v w) = Wire w" "Recorded (set_header k v w) = Recorded w"
  "map_of (Headers (set_header k v w)) x = (if x = k then Some v else map_of (Headers w) x)"
  by (simp_all add: set_header_def gomap_simps)

lemma http_error_sends:
  "World (http_error msg code st) = World st"
  "Wire (Out st) = None \<Longrightarrow> \<exists>hs. Wire (Out (http_error msg code st)) = Some (code, hs)"
  by (simp_all add: http_error_def set_header_def WriteHeader_def write_body_def)

lemma cors_headers_Wire [simp]: "Wire (cors_headers a c o' w) = Wire w"
  by (simp add: cors_headers_def Let_def split: prod.split)

lemma log_response_sends [simp]: "World (log_response st) = World st" "Wire (Out (log_response st)) = Wire (Out st)"
  by (simp_all add: log_response_def Let_def)

declare http_error_sends(1) [simp]

section \<open>The gates\<close>

definition api_handler :: "'s api \<Rightarrow> string \<Rightarrow> 's handler" where
  "api_handler api p = (if p = ''/api/index'' then IndexApi api else if p = ''/api/stats'' then StatsApi api else CountApi api)"

definition bearer :: "http_request \<Rightarrow> string option" where
  "bearer r =
     (let authHeader = trim_space (HeaderGet r ''Authorization'')
      in if has_prefix (to_lower authHeader) ''bearer '' then Some (trim_space (drop 7 authHeader)) else None)"

text \<open>A request that is turned away: the world is as before and one status is sent.\<close>

definition refused :: "nat \<Rightarrow> 's hstate \<Rightarrow> 's hstate option \<Rightarrow> bool" where
  "refused code st r =
     (case r of None \<Rightarrow> False
      | Some st' \<Rightarrow> World st' = World st \<and> (case Wire (Out st') of None \<Rightarrow> False | Some (c, hs) \<Rightarrow> c = code))"

lemma refused_error [simp]: "Wire (Out st) = None \<Longrightarrow> refused code st (Some (http_error msg code st))"
  using http_error_sends(2) [of st msg code] by (auto simp: refused_def)

lemma refused_logged [simp]: "refused code st (map_option log_response r) = refused code st r"
  by (cases r) (simp_all add: refused_def)

lemma refused_same_world: "World st = World st' \<Longrightarrow> refused code st r = refused code st' r"
  by (cases r) (simp_all add: refused_def)

lemma withAuth_gate:
  assumes "Wire (Out st) = None"
  shows "refused 401 st (withAuth cr (Some v) h r st) \<or>
    (\<exists>token claims. bearer r = Some token \<and> ValidateToken cr v (ReqTime r) token = Inr claims \<and>
       withAuth cr (Some v) h r st = h (r\<lparr>Claims := Some claims\<rparr>) st)"
proof -
  define ah where "ah = trim_space (HeaderGet r ''Authorization'')"
  have logged: "refused 401 st (Some (http_error msg 401 (log_event l e st)))" for msg l e
    using refused_error [of "log_event l e st" 401 msg] assms
    by (simp add: refused_same_world [of st "log_event l e st"])
  show ?thesis
  proof (cases "ah \<noteq> [] \<and> has_prefix (to_lower ah) ''bearer ''")
    case True
    then have b: "bearer r = Some (trim_space (drop 7 ah))" by (simp add: bearer_def ah_def)
    with True logged show ?thesis
      by (cases "ValidateToken cr v (ReqTime r) (trim_space (drop 7 ah))")
         (simp_all add: withAuth_def ah_def [symmetric] Let_def)
  qed (use assms in \<open>auto simp: withAuth_def ah_def [symmetric] Let_def\<close>)
qed

lemma InitRoutes_auth:
  assumes "InitRoutes cr api cfg = Inr routes" "AuthEnabled cfg"
  shows "\<exists>v. NewJWTValidator cr (JwtConf cfg) = Inr v \<and>
    (\<forall>p \<in> {''/api/index'', ''/api/stats'', ''/api/count''}. map_of routes p =
       Some (withCORS (AllowOrigin cfg) (AllowCredentials cfg) (withLogging (withAuth cr (Some v) (api_handler api p)))))"
  using assms by (cases "NewJWTValidator cr (JwtConf cfg)") (auto simp: InitRoutes_def Let_def api_handler_def)

section \<open>Properties\<close>

text \<open>
  C1. With the check of tokens on, the handlers of the API see only requests with a valid token: any
  other request leaves the world as it is and is answered by 401, or by 204 when it is a preflight
  request; a request that does run the handler carries the claims of a token that the validator of
  the settings accepts at that time (\<^verbatim>\<open>InitRoutes\<close>, \<^verbatim>\<open>withCORS\<close>, \<^verbatim>\<open>withLogging\<close>, \<^verbatim>\<open>withAuth\<close>).
\<close>
theorem api_needs_token:
  assumes "InitRoutes cr api cfg = Inr routes" "AuthEnabled cfg"
    and "Path r \<in> {''/api/index'', ''/api/stats'', ''/api/count''}" "Wire (Out st) = None"
  shows "refused (if Method r = ''OPTIONS'' then 204 else 401) st (serve routes r st) \<or>
    (\<exists>v token claims st0. NewJWTValidator cr (JwtConf cfg) = Inr v \<and> bearer r = Some token \<and>
       ValidateToken cr v (ReqTime r) token = Inr claims \<and> World st0 = World st \<and>
       serve routes r st = map_option log_response (api_handler api (Path r) (r\<lparr>Claims := Some claims\<rparr>) st0))"
proof -
  obtain v where v: "NewJWTValidator cr (JwtConf cfg) = Inr v"
    "map_of routes (Path r) = Some (withCORS (AllowOrigin cfg) (AllowCredentials cfg)
       (withLogging (withAuth cr (Some v) (api_handler api (Path r)))))"
    using InitRoutes_auth [OF assms(1,2)] assms(3) by blast
  define st1 where "st1 = on_out (cors_headers (AllowOrigin cfg) (AllowCredentials cfg) (HeaderGet r ''Origin'')) st"
  define st2 where "st2 = on_out (\<lambda>w. w\<lparr>Recorded := Some 200\<rparr>) st1"
  have st: "World st1 = World st" "World st2 = World st" "Wire (Out st1) = None" "Wire (Out st2) = None"
    using assms(4) by (simp_all add: st1_def st2_def)
  show ?thesis
  proof (cases "Method r = ''OPTIONS''")
    case True
    then have "serve routes r st = Some (on_out (WriteHeader 204) st1)" using v(2) by (simp add: serve_def withCORS_def st1_def)
    with True st show ?thesis by (simp add: refused_def)
  next
    case False
    then have run: "serve routes r st = map_option log_response (withAuth cr (Some v) (api_handler api (Path r)) r st2)"
      using v(2) by (simp add: serve_def withCORS_def withLogging_def st1_def st2_def)
    from withAuth_gate [OF st(4), of cr v "api_handler api (Path r)" r] show ?thesis
    proof
      assume "refused 401 st2 (withAuth cr (Some v) (api_handler api (Path r)) r st2)"
      then show ?thesis unfolding run using False st(2) refused_same_world [of st2 st] by simp
    next
      assume "\<exists>token claims. bearer r = Some token \<and> ValidateToken cr v (ReqTime r) token = Inr claims \<and>
        withAuth cr (Some v) (api_handler api (Path r)) r st2 = api_handler api (Path r) (r\<lparr>Claims := Some claims\<rparr>) st2"
      then show ?thesis unfolding run using v(1) st(2) by auto
    qed
  qed
qed


text \<open>A server with the check of tokens on, and a request without a token.\<close>

definition demo_config :: app_config where
  "demo_config = \<lparr>Port = ''8080'', PostgresDSN = '''', ModelsDir = '''', Locale = ''en'', AliasCacheMaxBytes = 0,
     AllowOrigin = ''http://a, http://b'', AllowCredentials = True, AuthEnabled = True, JwtConf = demo_jwt, LogsToken = ''''\<rparr>"

definition demo_answer :: "nat \<Rightarrow> nat handler" where
  "demo_answer n r st = Some (st\<lparr>World := n\<rparr>)"

definition demo_api :: "nat api" where
  "demo_api = \<lparr>IndexApi = demo_answer 1, StatsApi = demo_answer 2, CountApi = demo_answer 3,
     RegistryReady = True, DbReady = True,
     LogEnv = \<lparr>LogDecode = (\<lambda>_. None), LogFloats = demo_floats, LogOpen = Inl NotExist, LogEncode = (\<lambda>_ _. [])\<rparr>\<rparr>"

definition demo_http :: "string \<Rightarrow> http_request" where
  "demo_http m = \<lparr>Method = m, Path = ''/api/index'', HeaderGet = (\<lambda>k. if k = ''Origin'' then ''http://b'' else ''''),
     QueryGet = (\<lambda>_. ''''), ReqBody = Inr '''', Claims = None, ReqTime = 20\<rparr>"

definition demo_start :: "nat hstate" where
  "demo_start = \<lparr>Out = fresh_writer, Logged = [], World = 0\<rparr>"

lemma demo_blank: "trim_space [] = []" "to_lower [] = []"
  by code_simp+

theorem api_needs_token_witness:
  "\<exists>routes. InitRoutes demo_crypto demo_api demo_config = Inr routes \<and>
     refused 401 demo_start (serve routes (demo_http ''POST'') demo_start)"
proof -
  obtain routes where routes: "InitRoutes demo_crypto demo_api demo_config = Inr routes"
    by (simp add: InitRoutes_def demo_config_def demo_validator Let_def)
  have "AuthEnabled demo_config" "Path (demo_http ''POST'') \<in> {''/api/index'', ''/api/stats'', ''/api/count''}"
    "Wire (Out demo_start) = None"
    by (simp_all add: demo_config_def demo_http_def demo_start_def fresh_writer_def)
  from api_needs_token [OF routes this] show ?thesis
    using routes by (auto simp: demo_http_def bearer_def demo_blank has_prefix_def)
qed


text \<open>
  The gate of the log: without the configured token nothing is read, and a token that is not
  configured closes it.
\<close>

lemma logs_need_token:
  assumes "trim_space (HeaderGet r ''X-Debug-Token'') \<noteq> trim_space token \<or> trim_space token = []" "Wire (Out st) = None"
  shows "\<exists>code \<in> {401, 403, 503}. refused code st (withDebugToken token h r st)"
  using assms by (auto simp: withDebugToken_def Let_def)

text \<open>
  An origin is not checked when the list holds \<open>*\<close> and credentials are allowed: the answer names
  whatever origin asks.
\<close>

lemma wildcard_with_credentials_names_everyone:
  "''*'' \<in> set (parseOrigins allowOrigin) \<Longrightarrow> origin \<noteq> [] \<Longrightarrow> resolveAllowOrigin allowOrigin True origin = (origin, True)"
  by (auto simp: resolveAllowOrigin_def Let_def list_ex_iff)

end
