(* ===== verification/Api_Handlers.thy ===== *)
theory Api_Handlers
  imports Http_Front Resolver Count_Queries
begin

text \<open>
  The handlers of the API: \<^verbatim>\<open>internal/handler/index.go\<close> and \<^verbatim>\<open>internal/handler/stats.go\<close>. Reading
  JSON, writing JSON, the texts of errors and the database are parameters. Each statement that goes
  to the database is announced in the log by the event \<^verbatim>\<open>sql\<close>, as the code does.
\<close>

section \<open>What the handlers use\<close>

record stats_aggregate =
  AggFn :: string
  AggField :: string

record stats_request =
  SModel :: string
  SPreset :: string
  SFilters :: gofilters
  SUniqueBy :: string
  SAggregates :: "(string, stats_aggregate) gomap"

text \<open>A value of a result row: a time, bytes, or another value.\<close>

datatype db_value = DbTime string | DbBytes string | DbVal gany

text \<open>
  \<open>QueryRow\<close> is a statement with one number; \<open>QueryValues\<close> is a statement with one row: an error of
  \<^verbatim>\<open>Query\<close>, no row, an error of \<^verbatim>\<open>Values\<close>, or the values with the error that \<^verbatim>\<open>rows.Err\<close> tells.
\<close>

record api_env = resolver_env +
  DecodeIndex :: "string \<Rightarrow> string + index_request"
  DecodeStats :: "string \<Rightarrow> string + stats_request"
  EncodeItems :: "row list \<Rightarrow> string + string"
  EncodeValues :: "gany list \<Rightarrow> string + string"
  EncodeCount :: "int \<Rightarrow> string"
  EncodeStats :: "db_value \<Rightarrow> (string, db_value) gomap \<Rightarrow> string + string"
  QueryRow :: "string \<times> gany list \<Rightarrow> string + int"
  QueryValues :: "string \<times> gany list \<Rightarrow> string + (string + db_value list \<times> string option) option"
  DateText :: "string \<Rightarrow> string"
  Rfc3339 :: "string \<Rightarrow> string"
  Quoted :: "string \<Rightarrow> string"
  ResolveText :: "resolve_error \<Rightarrow> string"
  DistinctText :: "distinct_failure \<Rightarrow> string"
  AliasText :: "alias_error \<Rightarrow> string"
  QueryText :: "query_error \<Rightarrow> string"
  StatsDraws :: "stats_request \<Rightarrow> nat list"

section \<open>The index\<close>

definition write_json :: "string + string \<Rightarrow> 's hstate \<Rightarrow> 's hstate" where
  "write_json encoded st =
     (let st' = on_out (set_header ''Content-Type'' ''application/json'') st
      in case encoded of
           Inl e \<Rightarrow> log_event ''error'' ''write_response_failed'' st'
         | Inr s \<Rightarrow> on_out (write_body s) st')"

text \<open>
  An error of the alias map is wrapped as a validation error by \<^verbatim>\<open>ResolveDistinctValues\<close>.
\<close>

definition distinct_status :: "distinct_failure \<Rightarrow> nat" where
  "distinct_status e = (case e of DAliasMap _ \<Rightarrow> 400 | DQuery (Inl _) \<Rightarrow> 400 | _ \<Rightarrow> 500)"

definition IndexHandler :: "'a api_env_scheme \<Rightarrow> registry \<Rightarrow> 's handler" where
  "IndexHandler env reg r st =
     (if Method r \<noteq> ''POST'' then
        Some (http_error ''Only POST allowed'' 405 (log_event ''warn'' ''method_not_allowed'' st))
      else (case ReqBody r of
        Inl e \<Rightarrow> Some (http_error (''Failed to read body: '' @ e) 400 (log_event ''warn'' ''read_body_failed'' st))
      | Inr body \<Rightarrow> (case DecodeIndex env body of
          Inl e \<Rightarrow> Some (http_error (''Invalid JSON body: '' @ e) 400 (log_event ''warn'' ''invalid_json'' st))
        | Inr req \<Rightarrow>
            (let st1 = log_event ''info'' ''request'' st
             in if UniqueBy req \<noteq> [] then
                  map_option (\<lambda>res. case res of
                      Inl e \<Rightarrow> http_error (''Failed to resolve distinct values: '' @ DistinctText env e) (distinct_status e)
                                 (log_event ''error'' ''distinct_resolver_error'' st1)
                    | Inr vs \<Rightarrow> write_json (EncodeValues env vs) st1)
                    (ResolveDistinctValues (resolver_env.truncate env) reg req)
                else
                  map_option (\<lambda>res. case res of
                      Inl e \<Rightarrow> http_error (''Failed to resolve data: '' @ ResolveText env e) 500
                                 (log_event ''error'' ''resolver_error'' st1)
                    | Inr items \<Rightarrow> (case EncodeItems env items of
                        Inl e \<Rightarrow> http_error (''Failed to write response: '' @ e) 500 (write_json (Inl e) st1)
                      | Inr s \<Rightarrow> write_json (Inr s) st1))
                    (Resolver (resolver_env.truncate env) reg req)))))"

section \<open>Values of statistics\<close>

definition normalizeNumericValue :: "db_value \<Rightarrow> db_value" where
  "normalizeNumericValue v = (case v of DbBytes b \<Rightarrow> DbVal (GStr b) | _ \<Rightarrow> v)"

definition normalizeAggregateValue :: "'a api_env_scheme \<Rightarrow> db_value \<Rightarrow> string \<Rightarrow> db_value" where
  "normalizeAggregateValue env v fieldType =
     (let kind = to_lower (trim_space fieldType)
      in case v of
           DbTime t \<Rightarrow> DbVal (GStr (if kind = ''date'' then DateText env t else Rfc3339 env t))
         | DbBytes b \<Rightarrow> DbVal (GStr b)
         | DbVal GNil \<Rightarrow> DbVal GNil
         | DbVal (GStr s) \<Rightarrow> DbVal (GStr s)
         | DbVal x \<Rightarrow> normalizeNumericValue (DbVal x))"

fun aggregate_values ::
  "'a api_env_scheme \<Rightarrow> resolved_aggregate list \<Rightarrow> db_value list \<Rightarrow> (string, db_value) gomap \<Rightarrow> (string, db_value) gomap" where
  "aggregate_values env (a # as) (v # vs) aggs =
     aggregate_values env as vs (AList.update (RName a) (normalizeAggregateValue env v (RAggType a)) aggs)"
| "aggregate_values env _ _ aggs = aggs"

section \<open>Texts of errors\<close>

definition distinct_error_text :: "'a api_env_scheme \<Rightarrow> distinct_error \<Rightarrow> string" where
  "distinct_error_text env e =
     (case e of
        FieldRequired \<Rightarrow> ''unique_by field is required''
      | InvalidField f \<Rightarrow> ''invalid unique_by field '' @ Quoted env f
      | DistinctRelationNotFound p \<Rightarrow> ''relation '' @ Quoted env p @ '' not found for unique_by''
      | TraversesHasMany f p \<Rightarrow> ''unique_by field '' @ Quoted env f @ '' traverses has_many relation '' @ Quoted env p
      | CouldNotResolve f \<Rightarrow> ''could not resolve unique_by field '' @ Quoted env f)"

text \<open>The texts of \<^verbatim>\<open>validateAggregateFieldPath\<close>, which has two of these errors.\<close>

definition path_error_text :: "'a api_env_scheme \<Rightarrow> distinct_error \<Rightarrow> string" where
  "path_error_text env e =
     (case e of
        DistinctRelationNotFound p \<Rightarrow> ''relation '' @ Quoted env p @ '' not found''
      | TraversesHasMany f p \<Rightarrow> ''field '' @ Quoted env f @ '' traverses has_many relation '' @ Quoted env p
      | _ \<Rightarrow> [])"

definition aggregate_error_text :: "'a api_env_scheme \<Rightarrow> aggregate_error \<Rightarrow> string" where
  "aggregate_error_text env e =
     (case e of
        NameRequired \<Rightarrow> ''aggregate name is required''
      | DuplicateName n \<Rightarrow> ''duplicate aggregate name '' @ Quoted env n
      | AggregateFieldRequired n \<Rightarrow> ''aggregate '' @ Quoted env n @ '': field is required''
      | UnsupportedFunction n f \<Rightarrow> ''aggregate '' @ Quoted env n @ '': unsupported function '' @ Quoted env f
      | NotAggregatable n f \<Rightarrow> ''aggregate '' @ Quoted env n @ '': field '' @ Quoted env f @ '' is not aggregatable''
      | BadFieldPath n d \<Rightarrow> ''aggregate '' @ Quoted env n @ '': '' @ path_error_text env d
      | FunctionNotAllowed n fn f \<Rightarrow>
          ''aggregate '' @ Quoted env n @ '': function '' @ Quoted env fn @ '' is not allowed for field '' @ Quoted env f
      | Unresolved n f \<Rightarrow> ''aggregate '' @ Quoted env n @ '': could not resolve field '' @ Quoted env f)"

definition aggregate_markers :: "string list" where
  "aggregate_markers =
     [''aggregate name is required'', ''duplicate aggregate name'', ''unsupported function'', ''is not aggregatable'',
      ''is not allowed'', ''field is required'', ''traverses has_many relation'', ''relation'', ''could not resolve field'']"

definition isAggregateValidationError :: "string \<Rightarrow> bool" where
  "isAggregateValidationError msg = list_ex (contains msg) aggregate_markers"

section \<open>The statistics\<close>

text \<open>The two writers return a text for their error; \<open>None\<close> is a run that does not return.\<close>

definition writeStatsOnlyResponse ::
  "'a api_env_scheme \<Rightarrow> registry \<Rightarrow> model \<Rightarrow> alias_map \<Rightarrow> data_preset option \<Rightarrow> gofilters \<Rightarrow> nat list \<Rightarrow>
   's hstate \<Rightarrow> (string option \<times> 's hstate) option" where
  "writeStatsOnlyResponse env reg m am preset filters draws st =
     map_option (\<lambda>res. case res of
         Inl e \<Rightarrow> (Some (''Query error: '' @ QueryText env e), st)
       | Inr q \<Rightarrow> (case ToSql env q of
           Inl e \<Rightarrow> (Some (''SQL error: '' @ e), st)
         | Inr stmt \<Rightarrow>
             (let st1 = log_event ''debug'' ''sql'' st
              in case QueryRow env stmt of
                   Inl e \<Rightarrow> (Some (''DB error: '' @ e), st1)
                 | Inr n \<Rightarrow> (None, on_out (write_body (EncodeCount env n)) st1))))
       (BuildCountQuery (ToSql env) reg m am preset filters draws)"

definition aggregate_response ::
  "'a api_env_scheme \<Rightarrow> resolved_aggregate list \<Rightarrow> string \<times> gany list \<Rightarrow> 's hstate \<Rightarrow> string option \<times> 's hstate" where
  "aggregate_response env resolved stmt st =
     (let st1 = log_event ''debug'' ''sql'' st
      in case QueryValues env stmt of
           Inl e \<Rightarrow> (Some (''DB error: '' @ e), st1)
         | Inr None \<Rightarrow> (Some ''DB error: empty aggregate result'', st1)
         | Inr (Some (Inl e)) \<Rightarrow> (Some (''DB error: '' @ e), st1)
         | Inr (Some (Inr (values, Some e))) \<Rightarrow> (Some (''DB error: '' @ e), st1)
         | Inr (Some (Inr (values, None))) \<Rightarrow>
             (case values of
                [] \<Rightarrow> (Some ''DB error: empty aggregate row'', st1)
              | v # vs \<Rightarrow>
                  (case EncodeStats env (normalizeNumericValue v) (aggregate_values env resolved vs []) of
                     Inl e \<Rightarrow> (Some e, st1)
                   | Inr s \<Rightarrow> (None, on_out (write_body s) st1))))"

definition writeStatsAggregateResponse ::
  "'a api_env_scheme \<Rightarrow> registry \<Rightarrow> model \<Rightarrow> alias_map \<Rightarrow> data_preset option \<Rightarrow> gofilters \<Rightarrow> aggregate_spec list \<Rightarrow>
   nat list \<Rightarrow> 's hstate \<Rightarrow> (string option \<times> 's hstate) option" where
  "writeStatsAggregateResponse env reg m am preset filters specs draws st =
     Option.bind (ValidateAndResolveAggregates reg m am specs) (\<lambda>res. case res of
         Inl e \<Rightarrow> Some (Some (aggregate_error_text env e), st)
       | Inr resolved \<Rightarrow>
           map_option (\<lambda>res. case res of
               Inl e \<Rightarrow> (Some (''Query error: '' @ QueryText env e), st)
             | Inr q \<Rightarrow> (case ToSql env q of
                 Inl e \<Rightarrow> (Some (''SQL error: '' @ e), st)
               | Inr stmt \<Rightarrow> aggregate_response env resolved stmt st))
             (BuildCountAggregateQuery (ToSql env) reg m am preset filters resolved draws))"

text \<open>The branch of \<^verbatim>\<open>unique_by\<close>.\<close>

definition stats_distinct :: "'a api_env_scheme \<Rightarrow> registry \<Rightarrow> model \<Rightarrow> stats_request \<Rightarrow> 's hstate \<Rightarrow> 's hstate option" where
  "stats_distinct env reg m req st =
     (if SAggregates req \<noteq> [] then Some (http_error ''aggregates cannot be combined with unique_by'' 400 st)
      else
        Option.bind (NormalizeFiltersWithAliases reg m (SFilters req)) (\<lambda>filters.
        Option.bind (ExpandAliasPath reg m (SUniqueBy req)) (\<lambda>path.
          let field = trim_space path
          in Option.bind (AliasMapFor env m None filters [field @ '' ASC'']) (\<lambda>res. case res of
               Inl e \<Rightarrow> Some (http_error (''alias map error: '' @ AliasText env e) 400 st)
             | Inr am \<Rightarrow>
                 map_option (\<lambda>res. case res of
                     Inl (Inl e) \<Rightarrow> http_error (''Query error: '' @ distinct_error_text env e) 400 st
                   | Inl (Inr e) \<Rightarrow> http_error (''Query error: '' @ QueryText env e) 500 st
                   | Inr q \<Rightarrow> (case ToSql env q of
                       Inl e \<Rightarrow> http_error (''SQL error: '' @ e) 500 st
                     | Inr stmt \<Rightarrow>
                         (let st1 = log_event ''debug'' ''sql'' st
                          in case QueryRow env stmt of
                               Inl e \<Rightarrow> http_error (''DB error: '' @ e) 500 st1
                             | Inr n \<Rightarrow> on_out (write_body (EncodeCount env n) \<circ>
                                 set_header ''Content-Type'' ''application/json; charset=utf-8'') st1)))
                   (BuildDistinctCountQuery (ToSql env) reg m am filters field (StatsDraws env req))))))"

text \<open>The map that \<^verbatim>\<open>CreateAliasMapForAggregates\<close> returns.\<close>

definition CreateAliasMapForAggregates ::
  "'a api_env_scheme \<Rightarrow> registry \<Rightarrow> model \<Rightarrow> data_preset option \<Rightarrow> gofilters \<Rightarrow> aggregate_spec list \<Rightarrow>
   (alias_error + alias_map) option" where
  "CreateAliasMapForAggregates env reg m preset filters specs =
     Option.bind (AliasMapFor env m preset filters []) (\<lambda>res. case res of
         Inl e \<Rightarrow> Some (Inl e)
       | Inr am \<Rightarrow> alias_map_for_aggregates reg m am specs)"

definition stats_specs :: "stats_request \<Rightarrow> aggregate_spec list" where
  "stats_specs req = map (\<lambda>(n, s). \<lparr>GName = n, GFn = AggFn s, GField = AggField s\<rparr>) (SAggregates req)"

definition stats_plain ::
  "'a api_env_scheme \<Rightarrow> registry \<Rightarrow> model \<Rightarrow> data_preset option \<Rightarrow> stats_request \<Rightarrow> 's hstate \<Rightarrow> 's hstate option" where
  "stats_plain env reg m preset req st =
     Option.bind (NormalizeFiltersWithAliases reg m (SFilters req)) (\<lambda>filters.
     Option.bind (CreateAliasMapForAggregates env reg m preset filters (stats_specs req)) (\<lambda>res. case res of
         Inl e \<Rightarrow> Some (http_error (''alias map error: '' @ AliasText env e) 500 (log_event ''error'' ''alias_map_error'' st))
       | Inr am \<Rightarrow>
           (let st1 = on_out (set_header ''Content-Type'' ''application/json; charset=utf-8'') st
            in if stats_specs req = [] then
                 map_option (\<lambda>(failed, st2). case failed of
                     None \<Rightarrow> st2
                   | Some msg \<Rightarrow> http_error msg 500 (log_event ''error'' ''stats_error'' st2))
                   (writeStatsOnlyResponse env reg m am preset filters (StatsDraws env req) st1)
               else
                 map_option (\<lambda>(failed, st2). case failed of
                     None \<Rightarrow> st2
                   | Some msg \<Rightarrow> http_error msg (if isAggregateValidationError msg then 400 else 500)
                                  (log_event ''error'' ''stats_aggregate_error'' st2))
                   (writeStatsAggregateResponse env reg m am preset filters (stats_specs req) (StatsDraws env req) st1))))"

definition StatsHandler :: "'a api_env_scheme \<Rightarrow> registry \<Rightarrow> 's handler" where
  "StatsHandler env reg r st =
     (case ReqBody r of
        Inl e \<Rightarrow> Some (http_error (''Failed to read body: '' @ e) 400 (log_event ''warn'' ''read_body_failed'' st))
      | Inr body \<Rightarrow> (case DecodeStats env body of
          Inl e \<Rightarrow> Some (http_error ''Invalid JSON'' 400 (log_event ''warn'' ''invalid_json'' st))
        | Inr req \<Rightarrow>
            (let st1 = log_event ''info'' ''request'' st
             in case map_of reg (SModel req) of
                  None \<Rightarrow> Some (http_error (''Model '' @ SModel req @ '' not found'') 404
                                 (log_event ''warn'' ''model_not_found'' st1))
                | Some m \<Rightarrow>
                    if \<not> is_blank (SUniqueBy req) then stats_distinct env reg m req st1
                    else if is_blank (SPreset req) then stats_plain env reg m None req st1
                    else (case map_of (Presets m) (SPreset req) of
                        None \<Rightarrow> Some (http_error (''Preset '' @ SPreset req @ '' not found'') 400
                                   (log_event ''warn'' ''preset_not_found'' st1))
                      | Some p \<Rightarrow> stats_plain env reg m (Some p) req st1))))"

definition CountHandler :: "'a api_env_scheme \<Rightarrow> registry \<Rightarrow> 's handler" where
  "CountHandler env reg r st = StatsHandler env reg r st"

section \<open>Errors of a request and errors of the server\<close>

lemma contains_mid: "contains (a @ w @ b) w"
proof -
  have "str_index w (a @ w @ b) \<noteq> None"
  proof (induction a)
    case Nil
    have "prefix w (w @ b)" by simp
    then show ?case by (cases "w @ b") simp_all
  next
    case (Cons x a)
    then show ?case by auto
  qed
  then show ?thesis by (simp add: contains_def)
qed

lemma contains_end: "contains (a @ w) w"
  using contains_mid [of a w "[]"] by simp

lemma contains_start: "contains (w @ b) w"
  using contains_mid [of "[]" w b] by simp

lemma contains_before: "contains s w \<Longrightarrow> contains (a @ s) w"
  unfolding contains_def by (induction a) auto

lemma marked: "w \<in> set aggregate_markers \<Longrightarrow> contains msg w \<Longrightarrow> isAggregateValidationError msg"
  by (auto simp: isAggregateValidationError_def list_ex_iff)

lemma aggregate_walk_error:
  "aggregate_walk reg cur field pre segs = Inl e \<Longrightarrow> (\<exists>p. e = DistinctRelationNotFound p) \<or> (\<exists>f p. e = TraversesHasMany f p)"
  by (induction reg cur field pre segs rule: aggregate_walk.induct) (auto split: if_split_asm option.split_asm)

lemma resolve_aggregate_error:
  assumes "resolve_aggregate reg m am i seen spec = Some (Inl e)"
  shows "\<forall>n d. e = BadFieldPath n d \<longrightarrow> (\<exists>p. d = DistinctRelationNotFound p) \<or> (\<exists>f p. d = TraversesHasMany f p)"
  using assms unfolding resolve_aggregate_def validateAggregateFieldPath_def Let_def
  by (auto dest!: aggregate_walk_error split: if_split_asm option.split_asm sum.split_asm prod.split_asm)

lemma resolve_aggregates_error:
  assumes "resolve_aggregates reg m am i seen specs = Some (Inl e)"
  shows "\<forall>n d. e = BadFieldPath n d \<longrightarrow> (\<exists>p. d = DistinctRelationNotFound p) \<or> (\<exists>f p. d = TraversesHasMany f p)"
  using assms
proof (induction reg m am i seen specs rule: resolve_aggregates.induct)
  case (2 reg m am i seen spec specs)
  show ?case
  proof (cases "resolve_aggregate reg m am i seen spec")
    case None
    then show ?thesis using 2(2) by simp
  next
    case (Some res)
    show ?thesis
    proof (cases res)
      case (Inl d)
      then show ?thesis using Some 2(2) resolve_aggregate_error by simp
    next
      case (Inr a)
      then have "resolve_aggregates reg m am (Suc i) (RName a # seen) specs = Some (Inl e)"
        using Some 2(2) by (cases "resolve_aggregates reg m am (Suc i) (RName a # seen) specs") (auto split: sum.split_asm)
      then show ?thesis using 2(1) Some Inr by blast
    qed
  qed
qed simp

text \<open>Every text that the validation of aggregates makes has one of the markers.\<close>

lemma aggregate_errors_are_marked:
  assumes "ValidateAndResolveAggregates reg m am specs = Some (Inl e)"
  shows "isAggregateValidationError (aggregate_error_text env e)"
proof (cases e)
  case NameRequired
  then show ?thesis
    by (intro marked [of "''aggregate name is required''"]) (simp_all add: aggregate_markers_def aggregate_error_text_def contains_start [of _ "[]", simplified])
next
  case (DuplicateName n)
  then show ?thesis
    using contains_start [of "''duplicate aggregate name''" "'' '' @ Quoted env n"]
    by (intro marked [of "''duplicate aggregate name''"]) (simp_all add: aggregate_markers_def aggregate_error_text_def)
next
  case (AggregateFieldRequired n)
  then show ?thesis
    using contains_end [of "''aggregate '' @ Quoted env n @ '': ''" "''field is required''"]
    by (intro marked [of "''field is required''"]) (simp_all add: aggregate_markers_def aggregate_error_text_def)
next
  case (UnsupportedFunction n f)
  then show ?thesis
    using contains_mid [of "''aggregate '' @ Quoted env n @ '': ''" "''unsupported function''" "'' '' @ Quoted env f"]
    by (intro marked [of "''unsupported function''"]) (simp_all add: aggregate_markers_def aggregate_error_text_def)
next
  case (NotAggregatable n f)
  then show ?thesis
    using contains_end [of "''aggregate '' @ Quoted env n @ '': field '' @ Quoted env f @ '' ''" "''is not aggregatable''"]
    by (intro marked [of "''is not aggregatable''"]) (simp_all add: aggregate_markers_def aggregate_error_text_def)
next
  case (BadFieldPath n d)
  then have d: "(\<exists>p. d = DistinctRelationNotFound p) \<or> (\<exists>f p. d = TraversesHasMany f p)"
    using resolve_aggregates_error assms by (auto simp: ValidateAndResolveAggregates_def)
  have "contains (path_error_text env d) ''relation''"
    using d contains_start [of "''relation''"] contains_before [OF contains_start [of "''relation''"]]
      contains_mid [of "''field '' @ Quoted env f @ '' traverses has_many ''" "''relation''" for f]
    by (auto simp: path_error_text_def)
  then have "contains ((''aggregate '' @ Quoted env n @ '': '') @ path_error_text env d) ''relation''" by (rule contains_before)
  then show ?thesis
    using BadFieldPath by (intro marked [of "''relation''"]) (simp_all add: aggregate_markers_def aggregate_error_text_def)
next
  case (FunctionNotAllowed n fn f)
  then show ?thesis
    using contains_mid [of "''aggregate '' @ Quoted env n @ '': function '' @ Quoted env fn @ '' ''" "''is not allowed''" "'' for field '' @ Quoted env f"]
    by (intro marked [of "''is not allowed''"]) (simp_all add: aggregate_markers_def aggregate_error_text_def)
next
  case (Unresolved n f)
  then show ?thesis
    using contains_mid [of "''aggregate '' @ Quoted env n @ '': ''" "''could not resolve field''" "'' '' @ Quoted env f"]
    by (intro marked [of "''could not resolve field''"]) (simp_all add: aggregate_markers_def aggregate_error_text_def)
qed

text \<open>The request that the handler works on, and its preset.\<close>

definition stats_for :: "'a api_env_scheme \<Rightarrow> registry \<Rightarrow> http_request \<Rightarrow> stats_request \<Rightarrow> model \<Rightarrow> data_preset option \<Rightarrow> bool" where
  "stats_for env reg r req m preset =
     ((\<exists>body. ReqBody r = Inr body \<and> DecodeStats env body = Inr req) \<and> map_of reg (SModel req) = Some m \<and>
      is_blank (SUniqueBy req) \<and>
      (if is_blank (SPreset req) then preset = None
       else preset \<noteq> None \<and> map_of (Presets m) (SPreset req) = preset))"

lemma stats_for_run:
  "stats_for env reg r req m preset \<Longrightarrow>
   StatsHandler env reg r st = stats_plain env reg m preset req (log_event ''info'' ''request'' st)"
  by (auto simp: stats_for_def StatsHandler_def Let_def split: if_split_asm)

definition sql_events :: "'s hstate \<Rightarrow> (string \<times> string) list" where
  "sql_events st = filter (\<lambda>e. e = (''debug'', ''sql'')) (Logged st)"

lemma http_error_Logged [simp]: "Logged (http_error msg code st) = Logged st"
  by (simp add: http_error_def)

lemma log_event_Logged [simp]: "Logged (log_event l e st) = Logged st @ [(l, e)]"
  by (simp add: log_event_def)

text \<open>
  A request for statistics whose aggregates do not pass the validation (a missing name or field,
  a name given twice, an unknown function, a field that is not declared, a path over has_many, a
  function that is not allowed) is answered by 400, and no statement reaches the database: the
  texts of these errors are all told from those of the database by the markers that
  \<^verbatim>\<open>isAggregateValidationError\<close> looks for (\<^verbatim>\<open>StatsHandler\<close>, \<^verbatim>\<open>writeStatsAggregateResponse\<close>).
\<close>
theorem bad_aggregates_are_client_errors:
  assumes "stats_for env reg r req m preset"
    and "NormalizeFiltersWithAliases reg m (SFilters req) = Some filters"
    and "CreateAliasMapForAggregates env reg m preset filters (stats_specs req) = Some (Inr am)"
    and "ValidateAndResolveAggregates reg m am (stats_specs req) = Some (Inl e)"
    and "Wire (Out st) = None"
  shows "refused 400 st (StatsHandler env reg r st) \<and>
    map_option sql_events (StatsHandler env reg r st) = Some (sql_events st)"
proof -
  have some: "stats_specs req \<noteq> []" using assms(4) by (auto simp: ValidateAndResolveAggregates_def)
  define st1 where "st1 = on_out (set_header ''Content-Type'' ''application/json; charset=utf-8'') (log_event ''info'' ''request'' st)"
  define st2 where "st2 = log_event ''error'' ''stats_aggregate_error'' st1"
  have st: "World st2 = World st" "Wire (Out st2) = None" "sql_events st2 = sql_events st"
    using assms(5) by (simp_all add: st1_def st2_def sql_events_def)
  have run: "StatsHandler env reg r st = Some (http_error (aggregate_error_text env e) 400 st2)"
    using aggregate_errors_are_marked [OF assms(4), of env] assms(2-4) some
    by (simp add: stats_for_run [OF assms(1)] stats_plain_def writeStatsAggregateResponse_def st1_def [symmetric]
        st2_def [symmetric] Let_def)
  show ?thesis
    unfolding run using refused_error [OF st(2)] refused_same_world [OF st(1)] st(3) by (simp add: sql_events_def)
qed

text \<open>A server with one model whose amount may be summed.\<close>

definition demo_stats_env :: api_env where
  "demo_stats_env = resolver_env.extend res_node_env
     \<lparr>DecodeIndex = (\<lambda>_. Inl []),
      DecodeStats = (\<lambda>field. Inr \<lparr>SModel = ''Pay'', SPreset = [], SFilters = [], SUniqueBy = [],
         SAggregates = [(''total'', \<lparr>AggFn = ''sum'', AggField = field\<rparr>)]\<rparr>),
      EncodeItems = (\<lambda>_. Inr []), EncodeValues = (\<lambda>_. Inr []), EncodeCount = (\<lambda>_. []), EncodeStats = (\<lambda>_ _. Inr []),
      QueryRow = (\<lambda>_. Inr 0), QueryValues = (\<lambda>_. Inr None), DateText = (\<lambda>_. []), Rfc3339 = (\<lambda>_. []),
      Quoted = (\<lambda>s. s), ResolveText = (\<lambda>_. []), DistinctText = (\<lambda>_. []), AliasText = (\<lambda>_. []), QueryText = (\<lambda>_. []),
      StatsDraws = (\<lambda>_. [])\<rparr>"

definition demo_stats_http :: "string \<Rightarrow> http_request" where
  "demo_stats_http body = (demo_http ''POST'')\<lparr>Path := ''/api/stats'', ReqBody := Inr body\<rparr>"

definition demo_stats_reg :: registry where
  "demo_stats_reg = [(''Pay'', demo_agg_model)]"

definition demo_stats_request :: "string \<Rightarrow> stats_request" where
  "demo_stats_request field = \<lparr>SModel = ''Pay'', SPreset = [], SFilters = [], SUniqueBy = [],
     SAggregates = [(''total'', \<lparr>AggFn = ''sum'', AggField = field\<rparr>)]\<rparr>"

lemma demo_stats_for:
  "stats_for demo_stats_env demo_stats_reg (demo_stats_http field) (demo_stats_request field) demo_agg_model None"
proof -
  have "is_blank []" by code_simp
  then show ?thesis
    by (simp add: stats_for_def demo_stats_env_def resolver_env.extend_def demo_stats_http_def demo_stats_request_def demo_stats_reg_def)
qed

lemma demo_stats_specs: "stats_specs (demo_stats_request field) = [\<lparr>GName = ''total'', GFn = ''sum'', GField = field\<rparr>]"
  by (simp add: stats_specs_def demo_stats_request_def)

lemma demo_stats_filters: "NormalizeFiltersWithAliases demo_stats_reg demo_agg_model [] = Some []"
  by code_simp

lemma demo_stats_map: "AliasMapFor demo_stats_env m p f s = Some (Inr res_node_map)"
  by (simp add: demo_stats_env_def resolver_env.extend_def res_node_env_def final_env.extend_def)

theorem bad_aggregates_are_client_errors_witness:
  "refused 400 demo_start (StatsHandler demo_stats_env demo_stats_reg (demo_stats_http ''price'') demo_start)"
proof -
  have "alias_map_for_aggregates demo_stats_reg demo_agg_model res_node_map [\<lparr>GName = ''total'', GFn = ''sum'', GField = ''price''\<rparr>] =
      Some (Inr res_node_map)" by code_simp
  then have am: "CreateAliasMapForAggregates demo_stats_env demo_stats_reg demo_agg_model None [] (stats_specs (demo_stats_request ''price'')) =
      Some (Inr res_node_map)"
    by (simp add: CreateAliasMapForAggregates_def demo_stats_specs demo_stats_map)
  have bad: "ValidateAndResolveAggregates demo_stats_reg demo_agg_model res_node_map (stats_specs (demo_stats_request ''price'')) =
      Some (Inl (NotAggregatable ''total'' ''price''))" unfolding demo_stats_specs by code_simp
  have f: "NormalizeFiltersWithAliases demo_stats_reg demo_agg_model (SFilters (demo_stats_request ''price'')) = Some []"
    using demo_stats_filters by (simp add: demo_stats_request_def)
  show ?thesis
    using bad_aggregates_are_client_errors [OF demo_stats_for f am bad, of demo_start]
    by (simp add: demo_start_def fresh_writer_def)
qed

text \<open>
  The markers cannot tell the other way round: an error of the database whose text speaks of a
  relation, as those of PostgreSQL on tables do, is answered by 400, as an error of the request.
\<close>

lemma database_error_is_client_error:
  "fst (aggregate_response (env\<lparr>QueryValues := \<lambda>_. Inl (''relation '' @ t @ '' does not exist'')\<rparr>) resolved stmt st) =
     Some (''DB error: '' @ ''relation '' @ t @ '' does not exist'') \<and>
   isAggregateValidationError (''DB error: '' @ ''relation '' @ t @ '' does not exist'')"
proof
  have "contains (''DB error: '' @ ''relation'' @ ('' '' @ t @ '' does not exist'')) ''relation''" by (rule contains_mid)
  then show "isAggregateValidationError (''DB error: '' @ ''relation '' @ t @ '' does not exist'')"
    by (intro marked [of "''relation''"]) (simp_all add: aggregate_markers_def)
qed (simp add: aggregate_response_def Let_def)

text \<open>
  The alias map is built before the validation, so that an aggregate over a path that does not
  exist, which the validation would refuse, is answered by 500.
\<close>

lemma unknown_aggregate_path_is_server_error:
  "ValidateAndResolveAggregates demo_stats_reg demo_agg_model res_node_map
       [\<lparr>GName = ''total'', GFn = ''sum'', GField = ''ghost.price''\<rparr>] = Some (Inl (NotAggregatable ''total'' ''ghost.price'')) \<and>
   refused 500 demo_start (StatsHandler demo_stats_env demo_stats_reg (demo_stats_http ''ghost.price'') demo_start)"
proof
  show "ValidateAndResolveAggregates demo_stats_reg demo_agg_model res_node_map
       [\<lparr>GName = ''total'', GFn = ''sum'', GField = ''ghost.price''\<rparr>] = Some (Inl (NotAggregatable ''total'' ''ghost.price''))"
    by code_simp
  have "alias_map_for_aggregates demo_stats_reg demo_agg_model res_node_map [\<lparr>GName = ''total'', GFn = ''sum'', GField = ''ghost.price''\<rparr>] =
      Some (Inl (RelationNotFound ''ghost'' ''Pay''))" by code_simp
  then have "CreateAliasMapForAggregates demo_stats_env demo_stats_reg demo_agg_model None [] (stats_specs (demo_stats_request ''ghost.price'')) =
      Some (Inl (RelationNotFound ''ghost'' ''Pay''))"
    by (simp add: CreateAliasMapForAggregates_def demo_stats_specs demo_stats_map)
  moreover have "NormalizeFiltersWithAliases demo_stats_reg demo_agg_model (SFilters (demo_stats_request ''ghost.price'')) = Some []"
    using demo_stats_filters by (simp add: demo_stats_request_def)
  moreover define st2 where "st2 = log_event ''error'' ''alias_map_error'' (log_event ''info'' ''request'' demo_start)"
  ultimately have "StatsHandler demo_stats_env demo_stats_reg (demo_stats_http ''ghost.price'') demo_start =
      Some (http_error (''alias map error: '' @ AliasText demo_stats_env (RelationNotFound ''ghost'' ''Pay'')) 500 st2)"
    by (simp add: stats_for_run [OF demo_stats_for] stats_plain_def st2_def [symmetric])
  moreover have "Wire (Out st2) = None" "World st2 = World demo_start" by (simp_all add: st2_def demo_start_def fresh_writer_def)
  ultimately show "refused 500 demo_start (StatsHandler demo_stats_env demo_stats_reg (demo_stats_http ''ghost.price'') demo_start)"
    by (simp only: refused_same_world [of demo_start st2] refused_error)
qed

end
