(* ===== verification/Start_Up.thy ===== *)
theory Start_Up
  imports Http_Front Linker Alias_Cache Localization
begin

text \<open>
  The start of the server (\<^verbatim>\<open>cmd/main.go\<close>), the search for the root of the repository
  (\<^verbatim>\<open>internal/FindRoot.go\<close>), what is logged of the memory (\<^verbatim>\<open>internal/model/memory_stats.go\<close>) and
  the templates of \<^verbatim>\<open>internal/model/FormatTemplate.go\<close>, which nothing calls.
\<close>

section \<open>The root of the repository\<close>

text \<open>A clean absolute path is the list of its elements, the last one first; the root is empty.\<close>

fun find_root :: "(string list \<Rightarrow> bool) \<Rightarrow> string list \<Rightarrow> string list option" where
  "find_root has_mod [] = (if has_mod [] then Some [] else None)"
| "find_root has_mod (d # parent) = (if has_mod (d # parent) then Some (d # parent) else find_root has_mod parent)"

definition FindRepoRoot :: "string list option \<Rightarrow> (string list \<Rightarrow> bool) \<Rightarrow> string list option" where
  "FindRepoRoot cwd has_mod = Option.bind cwd (find_root has_mod)"

lemma find_root_nearest:
  "find_root has_mod dir = Some root \<longleftrightarrow> suffix root dir \<and> has_mod root \<and> (\<forall>d. suffix d dir \<and> has_mod d \<longrightarrow> suffix d root)"
proof (induction dir)
  case Nil
  then show ?case by auto
next
  case (Cons d dir)
  show ?case
  proof (cases "has_mod (d # dir)")
    case True
    then show ?thesis by (auto simp: suffix_order.antisym)
  next
    case False
    have "suffix x (d # dir) \<and> has_mod x \<longleftrightarrow> suffix x dir \<and> has_mod x" for x using False by (auto simp: suffix_Cons)
    then show ?thesis using Cons False by auto
  qed
qed

section \<open>The directory of the models\<close>

record file_world =
  CleanPath :: "string \<Rightarrow> string"
  IsDirectory :: "string \<Rightarrow> bool"
  YmlFiles :: "string \<Rightarrow> string list option"

definition hasModelYAML :: "file_world \<Rightarrow> string \<Rightarrow> bool" where
  "hasModelYAML w dir =
     (IsDirectory w dir \<and> (case YmlFiles w dir of None \<Rightarrow> False | Some found \<Rightarrow> length found > 0))"

text \<open>The directory, and whether the fallback is logged; \<open>explicit\<close> tells that \<^verbatim>\<open>MODELS_DIR\<close> is set.\<close>

definition resolveModelsDir :: "file_world \<Rightarrow> bool \<Rightarrow> string \<Rightarrow> string \<times> bool" where
  "resolveModelsDir w explicit configured0 =
     (let configured = CleanPath w configured0; fallback = CleanPath w ''./test_db''
      in if explicit then (configured, False)
         else if hasModelYAML w configured then (configured, False)
         else if hasModelYAML w fallback then (fallback, True)
         else (configured, False))"

section \<open>The start\<close>

record start_world =
  StartEnv :: environment
  ModelsDirSet :: bool
  FilesOf :: file_world
  LogInit :: "string option"
  PgInit :: "string \<Rightarrow> string option"
  LoadModels :: "string \<Rightarrow> load_error + registry"
  LocaleFile :: "string \<Rightarrow> locale_error + (lkey \<times> raw_locale) list"

datatype start_error =
    LogInitFailed string
  | PostgresInitFailed string
  | LoadFailed load_error
  | RegistryInitFailed init_error
  | RouterInitFailed validator_error

text \<open>What the handlers of the started server see.\<close>

record 's server =
  ServerConfig :: app_config
  ServerRegistry :: registry
  ServerCache :: alias_cache
  ServerLocales :: locale_state
  HasLocales :: bool
  ServerRoutes :: "(string, 's handler) gomap"

definition start_locales :: "start_world \<Rightarrow> app_config \<Rightarrow> locale_state \<Rightarrow> bool \<times> locale_state" where
  "start_locales w cfg st =
     (case LoadLocales (Locale cfg) (LocaleFile w (Locale cfg)) st of (err, st') \<Rightarrow> (err = None, st'))"

text \<open>
  \<^verbatim>\<open>main\<close> up to \<^verbatim>\<open>http.ListenAndServe\<close>; \<open>api\<close> are the handlers, over the registry, the cache and the
  locales that they find.
\<close>

definition start ::
  "start_world \<Rightarrow> crypto \<Rightarrow> (registry \<Rightarrow> alias_cache \<Rightarrow> bool \<times> locale_state \<Rightarrow> 's api) \<Rightarrow> locale_state \<Rightarrow> start_error + 's server" where
  "start w cr api st0 =
     (let cfg0 = LoadConfig (StartEnv w)
      in case LogInit w of
           Some e \<Rightarrow> Inl (LogInitFailed e)
         | None \<Rightarrow>
             (let cfg = cfg0\<lparr>ModelsDir := fst (resolveModelsDir (FilesOf w) (ModelsDirSet w) (ModelsDir cfg0))\<rparr>
              in case PgInit w (PostgresDSN cfg) of
                   Some e \<Rightarrow> Inl (PostgresInitFailed e)
                 | None \<Rightarrow>
                     (case LoadModels w (ModelsDir cfg) of
                        Inl e \<Rightarrow> Inl (LoadFailed e)
                      | Inr loaded \<Rightarrow>
                          (case InitRegistry loaded of
                             Inl e \<Rightarrow> Inl (RegistryInitFailed e)
                           | Inr reg \<Rightarrow>
                               (let cache = SetAliasCacheMaxBytes (AliasCacheMaxBytes cfg) empty_cache;
                                    locales = start_locales w cfg st0
                                in case InitRoutes cr (api reg cache locales) cfg of
                                     Inl e \<Rightarrow> Inl (RouterInitFailed e)
                                   | Inr routes \<Rightarrow>
                                       Inr \<lparr>ServerConfig = cfg, ServerRegistry = reg, ServerCache = cache,
                                            ServerLocales = snd locales, HasLocales = fst locales, ServerRoutes = routes\<rparr>)))))"

section \<open>What runs was initialised\<close>


definition demo_world :: start_world where
  "demo_world = \<lparr>StartEnv = \<lambda>k. if k = ''ALIAS_CACHE_MAX_BYTES'' then ''64'' else [], ModelsDirSet = False,
     FilesOf = \<lparr>CleanPath = \<lambda>p. p, IsDirectory = \<lambda>d. d = ''./test_db'', YmlFiles = \<lambda>d. Some [''User.yml'']\<rparr>,
     LogInit = None, PgInit = \<lambda>dsn. None, LoadModels = \<lambda>dir. if dir = ''./test_db'' then Inr demo_loaded else Inl (EmptyYaml dir),
     LocaleFile = \<lambda>l. Inr []\<rparr>"


section \<open>Memory\<close>

text \<open>\<^verbatim>\<open>strconv.ParseUint(s, 10, 64)\<close>\<close>

definition parse_uint64 :: "string \<Rightarrow> 64 word option" where
  "parse_uint64 s =
     (if s = [] \<or> \<not> list_all is_digit s \<or> read_digits s \<ge> 2 ^ 64 then None else Some (of_nat (read_digits s)))"

definition parseLimitValue :: "string \<Rightarrow> 64 word option" where
  "parseLimitValue raw = (let s = trim_space raw in if s = [] \<or> s = ''max'' then None else parse_uint64 s)"

definition mem_total :: "string \<Rightarrow> 64 word option" where
  "mem_total ln =
     (if has_prefix ln ''MemTotal:'' then
        (case str_fields ln of _ # kb # _ \<Rightarrow> map_option (\<lambda>v. v * 1024) (parse_uint64 kb) | _ \<Rightarrow> None)
      else None)"

fun first_some :: "('a \<Rightarrow> 'b option) \<Rightarrow> 'a list \<Rightarrow> 'b option" where
  "first_some f [] = None"
| "first_some f (x # xs) = (case f x of Some y \<Rightarrow> Some y | None \<Rightarrow> first_some f xs)"

definition detectMemoryLimit :: "(string \<Rightarrow> string option) \<Rightarrow> 64 word \<times> string" where
  "detectMemoryLimit read =
     (case Option.bind (read ''/sys/fs/cgroup/memory.max'') parseLimitValue of
        Some v \<Rightarrow> (v, ''cgroup v2 memory.max'')
      | None \<Rightarrow>
          (case Option.bind (read ''/sys/fs/cgroup/memory/memory.limit_in_bytes'') parseLimitValue of
             Some v \<Rightarrow> (v, ''cgroup v1 memory.limit_in_bytes'')
           | None \<Rightarrow>
               (case Option.bind (read ''/proc/meminfo'') (\<lambda>raw. first_some mem_total (split_char (CHR 0x0A) raw)) of
                  Some v \<Rightarrow> (v, ''proc meminfo MemTotal'')
                | None \<Rightarrow> (0, ''unknown''))))"

definition countPresetsAndComputable :: "registry \<Rightarrow> nat \<times> nat" where
  "countPresetsAndComputable reg =
     fold (\<lambda>(n, m) (p, c). (p + length (Presets m), c + length (Computable m))) reg (0, 0)"

text \<open>\<open>ratio v d\<close> stands for \<^verbatim>\<open>FormatFloat(float64(v)/float64(d), 'f', 2, 64)\<close>.\<close>

definition formatBytes :: "(64 word \<Rightarrow> 64 word \<Rightarrow> string) \<Rightarrow> 64 word \<Rightarrow> string" where
  "formatBytes ratio v =
     (if v \<ge> 1073741824 then ratio v 1073741824 @ '' GB''
      else if v \<ge> 1048576 then ratio v 1048576 @ '' MB''
      else if v \<ge> 1024 then ratio v 1024 @ '' KB''
      else show_nat (unat v) @ '' B'')"

definition max64 :: "64 word \<Rightarrow> 64 word \<Rightarrow> 64 word" where
  "max64 a b = (if sint a > sint b then a else b)"

section \<open>Templates\<close>

text \<open>\<^verbatim>\<open>\{([\w\.]+)(\[(\d+)(\.\.(\d+))?\])?\}\<close> at the start of a text: the key, the indices, and the rest.\<close>

definition template_word :: "char \<Rightarrow> bool" where
  "template_word c = (let n = of_char c :: nat in 65 \<le> n \<and> n \<le> 90 \<or> 97 \<le> n \<and> n \<le> 122 \<or> 48 \<le> n \<and> n \<le> 57 \<or> n = 95 \<or> n = 46)"

definition template_index :: "string \<Rightarrow> ((string \<times> string) \<times> string) option" where
  "template_index r =
     (let d1 = takeWhile is_digit r; r1 = dropWhile is_digit r
      in if d1 = [] then None
         else if has_prefix r1 '']}'' then Some ((d1, []), drop 2 r1)
         else if has_prefix r1 ''..'' then
           (let d2 = takeWhile is_digit (drop 2 r1); r2 = dropWhile is_digit (drop 2 r1)
            in if d2 \<noteq> [] \<and> has_prefix r2 '']}'' then Some ((d1, d2), drop 2 r2) else None)
         else None)"

definition template_match :: "string \<Rightarrow> (string \<times> (string \<times> string) \<times> string) option" where
  "template_match s =
     (let key = takeWhile template_word s; r = dropWhile template_word s
      in if key = [] then None
         else if has_prefix r ''}'' then Some (key, ([], []), drop 1 r)
         else if has_prefix r ''['' then map_option (Pair key) (template_index (drop 1 r))
         else None)"

text \<open>The value of one match; \<open>None\<close> is the panic of a slice whose end is before its start.\<close>

definition template_value :: "float_text \<Rightarrow> gofilters \<Rightarrow> string \<Rightarrow> string \<times> string \<Rightarrow> string option" where
  "template_value fl row key ix =
     (case map_of row key of
        None \<Rightarrow> Some []
      | Some valRaw \<Rightarrow>
          (let val = sprint fl valRaw; start = read_digits (fst ix);
               stop = min (if snd ix \<noteq> [] then read_digits (snd ix) else start + 1) (length val)
           in if valRaw = GNil then Some []
              else if fst ix = [] then Some val
              else if start \<ge> length val then Some []
              else if stop < start then None
              else Some (drop start (take stop val))))"

lemma template_match_shrinks: "template_match s = Some (key, ix, r) \<Longrightarrow> length r \<le> length s"
proof -
  have idx: "template_index t = Some (i, r) \<Longrightarrow> length r \<le> length t" for t i
    using length_dropWhile_le [of is_digit t] length_dropWhile_le [of is_digit "drop 2 (dropWhile is_digit t)"]
    by (auto simp: template_index_def Let_def split: if_split_asm)
  assume "template_match s = Some (key, ix, r)"
  then show ?thesis
    using length_dropWhile_le [of template_word s] idx [of "drop 1 (dropWhile template_word s)" ix]
    by (auto simp: template_match_def Let_def split: if_split_asm)
qed

function FormatTemplate :: "float_text \<Rightarrow> string \<Rightarrow> gofilters \<Rightarrow> string option" where
  "FormatTemplate fl [] row = Some []"
| "FormatTemplate fl (c # s) row =
     (case (if c = CHR ''{'' then template_match s else None) of
        None \<Rightarrow> map_option (Cons c) (FormatTemplate fl s row)
      | Some (key, ix, r) \<Rightarrow>
          (case template_value fl row key ix of
             None \<Rightarrow> None
           | Some v \<Rightarrow> map_option ((@) v) (FormatTemplate fl r row)))"
  by pat_completeness auto
termination
  by (relation "measure (\<lambda>(fl, s, row). length s)")
    (auto dest!: template_match_shrinks split: if_split_asm)

text \<open>A range whose end is before its start stops the program.\<close>

lemma reversed_range_panics: "FormatTemplate demo_floats ''{name[3..1]}'' [(''name'', GStr ''Rainis'')] = None"
  by code_simp

lemma template_range: "FormatTemplate demo_floats ''{name[0]}. {sur.name}'' [(''name'', GStr ''Rainis''), (''sur.name'', GInt 3)] = Some ''R. 3''"
  by code_simp

end
