(* ===== verification/Import_Common.thy ===== *)
theory Import_Common
  imports Linker
begin

text \<open>
  What the importers of schemas share (\<^verbatim>\<open>internal/importer\<close>): the records that are written as YAML,
  the names that are made unique, and what the server makes of the written files. The packages
  \<^verbatim>\<open>sqlimport\<close> and \<^verbatim>\<open>prismaimport\<close> declare these types and functions twice with the same text.
\<close>

section \<open>The records that are written\<close>

record yaml_field =
  YSource :: string
  YType :: string
  YAlias :: string
  YPreset :: string
  YLocalize :: bool

record yaml_relation =
  YRType :: string
  YRModel :: string
  YFk :: string
  YPk :: string

type_synonym yaml_preset = "yaml_field list"

record yaml_model =
  YTable :: string
  YRelations :: "(string, yaml_relation) gomap"
  YPresets :: "(string, yaml_preset) gomap"

definition yfield :: "string \<Rightarrow> string \<Rightarrow> yaml_field" where
  "yfield source typ = \<lparr>YSource = source, YType = typ, YAlias = [], YPreset = [], YLocalize = False\<rparr>"

definition item_field :: "string \<Rightarrow> yaml_field" where
  "item_field relName = (yfield relName ''preset'')\<lparr>YPreset := ''item''\<rparr>"

section \<open>Names that are not taken\<close>

text \<open>The loop tries \<^verbatim>\<open>base_2\<close>, \<^verbatim>\<open>base_3\<close> and so on; one of them is free, since a map is finite.\<close>

definition numbered_name :: "string \<Rightarrow> nat \<Rightarrow> string" where
  "numbered_name base i = base @ ''_'' @ show_nat i"

lemma numbered_name_inject [simp]: "numbered_name base i = numbered_name base j \<longleftrightarrow> i = j"
  by (simp add: numbered_name_def)

function unique_from :: "string list \<Rightarrow> string \<Rightarrow> nat \<Rightarrow> string" where
  "unique_from used base i = (if numbered_name base i \<in> set used then unique_from used base (Suc i) else numbered_name base i)"
  by pat_completeness auto
termination
proof (relation "measure (\<lambda>(used, base, i). card {j. i \<le> j \<and> numbered_name base j \<in> set used})")
  fix used base i
  assume taken: "numbered_name base i \<in> set used"
  have "finite (numbered_name base ` {j. i \<le> j \<and> numbered_name base j \<in> set used})" by (rule finite_subset [of _ "set used"]) auto
  then have "finite {j. i \<le> j \<and> numbered_name base j \<in> set used}" by (rule finite_imageD) (simp add: inj_on_def)
  moreover have "{j. Suc i \<le> j \<and> numbered_name base j \<in> set used} \<subset> {j. i \<le> j \<and> numbered_name base j \<in> set used}"
    using taken by (auto simp: psubset_eq set_eq_iff intro!: exI [of _ i])
  ultimately have "card {j. Suc i \<le> j \<and> numbered_name base j \<in> set used} < card {j. i \<le> j \<and> numbered_name base j \<in> set used}"
    by (rule psubset_card_mono)
  then show "((used, base, Suc i), (used, base, i)) \<in> measure (\<lambda>(used, base, i). card {j. i \<le> j \<and> numbered_name base j \<in> set used})"
    by simp
qed simp

declare unique_from.simps [simp del]

definition unique_name :: "string list \<Rightarrow> string \<Rightarrow> string" where
  "unique_name used base = (if base \<notin> set used then base else unique_from used base 2)"

lemma unique_from_new: "unique_from used base i \<notin> set used"
proof (induction used base i rule: unique_from.induct)
  case (1 used base i)
  then show ?case by (subst unique_from.simps) simp
qed

lemma unique_name_new: "unique_name used base \<notin> set used"
  by (simp add: unique_name_def unique_from_new)

definition uniqueRelationName :: "(string, yaml_relation) gomap \<Rightarrow> string \<Rightarrow> string" where
  "uniqueRelationName relations base = unique_name (map fst relations) base"

definition uniquePresetName :: "(string, yaml_preset) gomap \<Rightarrow> string \<Rightarrow> string" where
  "uniquePresetName presets base = unique_name (map fst presets) base"

definition add_relation_preset :: "string \<times> yaml_relation \<Rightarrow> (string, yaml_preset) gomap \<Rightarrow> (string, yaml_preset) gomap" where
  "add_relation_preset e presets =
     (case e of (relName, rel) \<Rightarrow>
        if YRType rel \<noteq> ''has_many'' then presets
        else AList.update (uniquePresetName presets (''with_'' @ relName)) [item_field relName] presets)"

text \<open>
  The loop visits the relations in the order of the list. Their names differ, and no other preset
  begins with \<^verbatim>\<open>with_\<close>, so the names of the presets do not depend on it.
\<close>

definition addHasManyRelationPresets ::
  "(string, yaml_preset) gomap \<Rightarrow> (string, yaml_relation) gomap \<Rightarrow> (string, yaml_preset) gomap" where
  "addHasManyRelationPresets presets relations = fold add_relation_preset relations presets"

section \<open>Columns that look like a name\<close>

text \<open>
  \<open>scoreNameColumn\<close> and the choice of the best; the columns come as pairs of a name and a score, in
  the order of the loop. The first of the highest score wins.
\<close>

definition score_name :: "string \<Rightarrow> bool \<Rightarrow> int" where
  "score_name name0 textual =
     (let name = to_lower name0
      in (if name = ''name'' then 100 else if name = ''full_name'' then 95 else if name = ''short_name'' then 92
          else if name = ''title'' then 90 else if name = ''label'' then 88 else if name = ''display_name'' then 87 else 0) +
         (if contains name ''name'' then 70 else 0) +
         (if contains name ''title'' \<or> contains name ''label'' then 50 else 0) +
         (if contains name ''code'' \<or> contains name ''number'' then 30 else 0) +
         (if textual then 25 else 5))"

definition name_step :: "string \<Rightarrow> string \<times> int \<Rightarrow> string \<times> int \<Rightarrow> string \<times> int" where
  "name_step idSource c best = (if fst c = idSource then best else if snd c > snd best then c else best)"

definition choose_name :: "(string \<times> int) list \<Rightarrow> string \<Rightarrow> string" where
  "choose_name cols idSource =
     (case fold (name_step idSource) cols ([], - 1) of (best, bestScore) \<Rightarrow> if bestScore < 0 then [] else best)"

lemma score_pos: "0 \<le> score_name n t"
  by (simp add: score_name_def Let_def)

lemma fold_name_step:
  assumes "b = ([], - 1) \<or> (b \<in> set done \<and> fst b \<noteq> idSource)"
    and "\<forall>c \<in> set done. fst c \<noteq> idSource \<longrightarrow> snd c \<le> snd b"
  shows "(fold (name_step idSource) cols b = ([], - 1) \<or>
      fold (name_step idSource) cols b \<in> set (done @ cols) \<and> fst (fold (name_step idSource) cols b) \<noteq> idSource) \<and>
    (\<forall>c \<in> set (done @ cols). fst c \<noteq> idSource \<longrightarrow> snd c \<le> snd (fold (name_step idSource) cols b))"
  using assms
proof (induction cols arbitrary: "done" b)
  case (Cons c cols)
  have "name_step idSource c b = ([], - 1) \<or> (name_step idSource c b \<in> set (done @ [c]) \<and> fst (name_step idSource c b) \<noteq> idSource)"
    using Cons.prems(1) by (auto simp: name_step_def)
  moreover have "\<forall>d \<in> set (done @ [c]). fst d \<noteq> idSource \<longrightarrow> snd d \<le> snd (name_step idSource c b)"
    using Cons.prems(2) by (auto simp: name_step_def)
  ultimately show ?case using Cons.IH [of "name_step idSource c b" "done @ [c]"] by simp
qed simp

text \<open>The choice is a column of the highest score, and there is none only when there is no other column.\<close>

lemma choose_name_best:
  assumes "\<forall>c \<in> set cols. 0 \<le> snd c"
  shows "(choose_name cols idSource = [] \<and> (\<forall>c \<in> set cols. fst c = idSource)) \<or>
    (\<exists>c \<in> set cols. choose_name cols idSource = fst c \<and> fst c \<noteq> idSource \<and>
       (\<forall>d \<in> set cols. fst d \<noteq> idSource \<longrightarrow> snd d \<le> snd c))"
proof -
  obtain best s where r: "fold (name_step idSource) cols ([], - 1) = (best, s)" by fastforce
  have f: "((best, s) = ([], - 1) \<or> ((best, s) \<in> set cols \<and> best \<noteq> idSource)) \<and>
      (\<forall>c \<in> set cols. fst c \<noteq> idSource \<longrightarrow> snd c \<le> s)"
    using fold_name_step [of "([], - 1)" "[]" idSource cols] r by simp
  show ?thesis
  proof (cases "(best, s) = ([], - 1)")
    case True
    then have "fst c = idSource" if "c \<in> set cols" for c using f assms that by fastforce
    then show ?thesis using True r by (simp add: choose_name_def)
  next
    case False
    then have "(best, s) \<in> set cols" "best \<noteq> idSource" "0 \<le> s" using f assms by auto
    then show ?thesis using f r by (intro disjI2 bexI [of _ "(best, s)"]) (auto simp: choose_name_def)
  qed
qed

lemma choose_name_mem: "choose_name cols idSource \<noteq> [] \<Longrightarrow> choose_name cols idSource \<in> fst ` set cols"
  using fold_name_step [of "([], - 1)" "[]" idSource cols]
  by (cases "fold (name_step idSource) cols ([], - 1)") (force simp: choose_name_def split: if_splits)

section \<open>What the server reads\<close>

text \<open>The fields of a written file, as the loader of the server decodes them, under the name of the file.\<close>

definition decode_field :: "yaml_field \<Rightarrow> preset_field" where
  "decode_field f = empty_field\<lparr>FSource := YSource f, FType := YType f, FAlias := YAlias f, NestedPreset := YPreset f,
     Localize := YLocalize f\<rparr>"

definition decode_relation :: "yaml_relation \<Rightarrow> model_relation" where
  "decode_relation r = empty_relation\<lparr>RType := YRType r, RModel := YRModel r, FK := YFk r, PK := YPk r\<rparr>"

definition decode_preset :: "yaml_preset \<Rightarrow> data_preset" where
  "decode_preset p = empty_preset\<lparr>Fields := map decode_field p\<rparr>"

definition decode_model :: "string \<Rightarrow> yaml_model \<Rightarrow> model" where
  "decode_model name y = empty_model\<lparr>MName := name, Table := YTable y,
     Relations := map (\<lambda>(n, r). (n, decode_relation r)) (YRelations y),
     Presets := map (\<lambda>(n, p). (n, decode_preset p)) (YPresets y)\<rparr>"

text \<open>
  What makes linking succeed for models without through relations, computable fields and templates:
  relations lead to models that exist, and nested presets exist there.
\<close>

definition field_links :: "registry \<Rightarrow> model \<Rightarrow> preset_field \<Rightarrow> bool" where
  "field_links reg m f =
     (\<not> is_template_source (FSource f) \<and> FType f \<noteq> ''computable'' \<and>
      (FType f = ''preset'' \<longrightarrow> NestedPreset f \<noteq> [] \<and>
        (\<exists>r tm. map_of (Relations m) (FSource f) = Some r \<and> map_of reg (RModel r) = Some tm \<and>
           map_of (Presets tm) (NestedPreset f) \<noteq> None)))"

definition relation_links :: "registry \<Rightarrow> model_relation \<Rightarrow> bool" where
  "relation_links reg r =
     (\<not> Polymorphic r \<and> Through r = [] \<and> RType r \<in> {''has_many'', ''has_one'', ''belongs_to''} \<and> map_of reg (RModel r) \<noteq> None)"

definition model_links :: "registry \<Rightarrow> model \<Rightarrow> bool" where
  "model_links reg m =
     ((\<forall>r \<in> snd ` set (Relations m). relation_links reg r) \<and>
      (\<forall>p \<in> snd ` set (Presets m). \<forall>f \<in> set (Fields p). field_links reg m f))"

lemma entries_res_ok:
  "(\<And>k v. (k, v) \<in> set xs \<Longrightarrow> \<exists>w. f k v = Inr w) \<Longrightarrow> \<exists>ys. entries_res f xs = Inr ys"
proof (induction xs)
  case (Cons x xs)
  obtain k v where x: "x = (k, v)" by (cases x)
  obtain w where "f k v = Inr w" using Cons.prems x by auto
  moreover obtain ys where "entries_res f xs = Inr ys" using Cons by auto
  ultimately show ?case by (simp add: x)
qed simp

lemma map_res_ok: "(\<And>x. x \<in> set xs \<Longrightarrow> \<exists>w. f x = Inr w) \<Longrightarrow> \<exists>ys. map_res f xs = Inr ys"
proof (induction xs)
  case (Cons x xs)
  obtain w where "f x = Inr w" using Cons.prems by auto
  moreover obtain ys where "map_res f xs = Inr ys" using Cons by auto
  ultimately show ?case by simp
qed simp

lemma relation_links_ok:
  assumes "relation_links reg r"
  shows "\<exists>r'. link_relation reg n rn r = Inr r' \<and> ModelRef r' = Some (RModel r) \<and> \<not> Polymorphic r'"
proof -
  define r1 where "r1 = link_keys n rn (r\<lparr>ModelRef := Some (RModel r)\<rparr>)"
  have 1: "link_target reg n rn r = Inr (r\<lparr>ModelRef := Some (RModel r)\<rparr>)"
    using assms by (auto simp: relation_links_def link_target_def)
  have 2: "link_through reg n rn r1 = Inr r1"
    using assms by (simp add: relation_links_def link_through_def r1_def link_keys_def)
  have "RType r1 \<in> {''has_many'', ''has_one'', ''belongs_to''}" "ModelRef r1 = Some (RModel r)" "\<not> Polymorphic r1"
    using assms by (auto simp: relation_links_def r1_def link_keys_def)
  then show ?thesis by (simp add: link_relation_def 1 2 r1_def [symmetric])
qed

lemma field_links_ok:
  assumes "field_links reg m f"
    and "\<And>r. map_of (Relations m) (FSource f) = Some r \<Longrightarrow>
      \<exists>r'. map_of (Relations m') (FSource f) = Some r' \<and> ModelRef r' = Some (RModel r) \<and> \<not> Polymorphic r'"
  shows "\<exists>f'. link_field reg n m' pn f = Inr f'"
proof (cases "FType f = ''preset''")
  case True
  then obtain r tm where r: "map_of (Relations m) (FSource f) = Some r" "map_of reg (RModel r) = Some tm"
    "map_of (Presets tm) (NestedPreset f) \<noteq> None" "NestedPreset f \<noteq> []" "\<not> is_template_source (FSource f)"
    using assms(1) by (auto simp: field_links_def)
  from assms(2) [OF r(1)] obtain r' where "map_of (Relations m') (FSource f) = Some r'" "ModelRef r' = Some (RModel r)" "\<not> Polymorphic r'"
    by blast
  then show ?thesis using r True by (auto simp: link_field_def Let_def deref_def)
next
  case False
  then show ?thesis using assms(1) by (auto simp: link_field_def field_links_def Let_def)
qed

lemma model_links_ok:
  assumes "model_links reg m"
  shows "\<exists>m'. link_model reg n m = Inr m'"
proof -
  have each: "\<exists>r'. link_relation reg n rn r = Inr r'" if "(rn, r) \<in> set (Relations m)" for rn r
    using assms that relation_links_ok [of reg r n rn] by (force simp: model_links_def)
  then obtain rels where rels: "entries_res (link_relation reg n) (Relations m) = Inr rels"
    using entries_res_ok [of "Relations m" "link_relation reg n"] by blast
  have look: "\<exists>r'. map_of rels k = Some r' \<and> ModelRef r' = Some (RModel r) \<and> \<not> Polymorphic r'"
    if k: "map_of (Relations m) k = Some r" for k r
  proof -
    have "relation_links reg r" using assms map_of_SomeD [OF k] by (force simp: model_links_def)
    then show ?thesis
      using relation_links_ok [of reg r n k] entries_res_map_of [OF rels, of k] k by auto
  qed
  have "\<exists>p'. link_preset reg n (m\<lparr>Relations := rels\<rparr>) pn p = Inr p'" if p: "(pn, p) \<in> set (Presets m)" for pn p
  proof -
    have "\<exists>f'. link_field reg n (m\<lparr>Relations := rels\<rparr>) pn f = Inr f'" if f: "f \<in> set (Fields p)" for f
    proof (rule field_links_ok)
      show "field_links reg m f" using assms p f by (force simp: model_links_def)
      show "\<exists>r'. map_of (Relations (m\<lparr>Relations := rels\<rparr>)) (FSource f) = Some r' \<and> ModelRef r' = Some (RModel r) \<and> \<not> Polymorphic r'"
        if "map_of (Relations m) (FSource f) = Some r" for r
        using look [OF that] by simp
    qed
    then obtain fs where "map_res (link_field reg n (m\<lparr>Relations := rels\<rparr>) pn) (Fields p) = Inr fs"
      using map_res_ok [of "Fields p"] by blast
    then show ?thesis by (simp add: link_preset_def)
  qed
  then obtain ps where "entries_res (link_preset reg n (m\<lparr>Relations := rels\<rparr>)) (Presets m) = Inr ps"
    using entries_res_ok [of "Presets m" "link_preset reg n (m\<lparr>Relations := rels\<rparr>)"] by blast
  then show ?thesis by (simp add: link_model_def rels)
qed

lemma registry_links_ok:
  "(\<And>n m. (n, m) \<in> set reg \<Longrightarrow> model_links reg m) \<Longrightarrow> \<exists>reg'. LinkModelRelations reg = Inr reg'"
  unfolding LinkModelRelations_def by (rule entries_res_ok) (blast dest: model_links_ok)

section \<open>Written models link\<close>

definition no_brace :: "string \<Rightarrow> bool" where
  "no_brace s = (CHR ''{'' \<notin> set s)"

lemma no_brace_template: "no_brace s \<Longrightarrow> \<not> is_template_source s"
  unfolding no_brace_def by (induction s) auto

lemma no_brace_append [simp]: "no_brace (a @ b) \<longleftrightarrow> no_brace a \<and> no_brace b"
  by (simp add: no_brace_def)

lemma no_brace_subset: "set t \<subseteq> set s \<Longrightarrow> no_brace s \<Longrightarrow> no_brace t"
  by (auto simp: no_brace_def)

lemma no_brace_take: "no_brace s \<Longrightarrow> no_brace (take n s)"
  by (rule no_brace_subset [OF set_take_subset])

lemma no_brace_trim: "no_brace s \<Longrightarrow> no_brace (trim_space s)"
proof (rule no_brace_subset)
  have "set (trim_left t) \<subseteq> set t" "set (trim_left_rev t) \<subseteq> set t" for t
    using set_mono_suffix trim_left_suffix trim_left_rev_suffix by blast+
  then show "set (trim_space s) \<subseteq> set s" unfolding trim_space_def by (metis set_rev subset_trans)
qed

lemma no_brace_lower: "no_brace s \<Longrightarrow> no_brace (to_lower s)"
proof -
  have "lower_char c = CHR ''{'' \<Longrightarrow> c = CHR ''{''" for c
    by (simp add: lower_char_def Let_def split: if_split_asm) (auto dest!: arg_cong [of _ _ "of_char :: char \<Rightarrow> nat"])
  then have "CHR ''{'' \<notin> set (map lower_char s)" if "CHR ''{'' \<notin> set s" using that by (metis imageE list.set_map)
  then show "no_brace s \<Longrightarrow> no_brace (to_lower s)" by (simp add: no_brace_def to_lower_def)
qed

lemma no_brace_unique: "no_brace base \<Longrightarrow> no_brace (unique_name used base)"
proof -
  have digits: "no_brace (show_nat i)" for i
    using show_nat_digits [of i] by (auto simp: no_brace_def list_all_iff is_digit_def)
  have "no_brace base \<Longrightarrow> no_brace (unique_from used base i)" for i
  proof (induction used base i rule: unique_from.induct)
    case (1 used base i)
    have "no_brace (numbered_name base i)" using 1(2) digits [of i] by (simp add: numbered_name_def no_brace_def)
    with 1 show ?case by (subst unique_from.simps) simp
  qed
  then show "no_brace base \<Longrightarrow> no_brace (unique_name used base)" by (simp add: unique_name_def)
qed

lemma update_members: "x \<in> set (AList.update k v m) \<Longrightarrow> x = (k, v) \<or> x \<in> set m"
  by (induction m) (auto split: if_split_asm)

definition yaml_field_ok :: "(string, yaml_relation) gomap \<Rightarrow> yaml_field \<Rightarrow> bool" where
  "yaml_field_ok relations f =
     (no_brace (YSource f) \<and> YType f \<noteq> ''computable'' \<and>
      (YType f = ''preset'' \<longrightarrow> YPreset f = ''item'' \<and> YSource f \<in> fst ` set relations))"

definition yaml_presets_ok :: "(string, yaml_relation) gomap \<Rightarrow> (string, yaml_preset) gomap \<Rightarrow> bool" where
  "yaml_presets_ok relations presets =
     (map_of presets ''item'' \<noteq> None \<and> (\<forall>p \<in> snd ` set presets. \<forall>f \<in> set p. yaml_field_ok relations f))"

definition yaml_ok :: "yaml_model \<Rightarrow> bool" where
  "yaml_ok y = (yaml_presets_ok (YRelations y) (YPresets y) \<and>
     (\<forall>r \<in> snd ` set (YRelations y). YRType r \<in> {''belongs_to'', ''has_many''}))"

lemma yaml_presets_ok_update:
  assumes "yaml_presets_ok relations presets" "\<forall>f \<in> set p. yaml_field_ok relations f"
  shows "yaml_presets_ok relations (AList.update k p presets)"
  using assms unfolding yaml_presets_ok_def
  by (auto simp: gomap_simps dest!: update_members)

lemma item_field_ok: "no_brace n \<Longrightarrow> n \<in> fst ` set relations \<Longrightarrow> yaml_field_ok relations (item_field n)"
  by (simp add: yaml_field_ok_def item_field_def yfield_def)

lemma add_relation_presets_ok:
  assumes "yaml_presets_ok relations presets" "\<forall>n \<in> fst ` set relations. no_brace n"
  shows "yaml_presets_ok relations (addHasManyRelationPresets presets relations)"
proof -
  have "yaml_presets_ok relations (fold add_relation_preset rels presets)" if "set rels \<subseteq> set relations" for rels
    using that assms(1)
  proof (induction rels arbitrary: presets)
    case (Cons e rels)
    obtain n r where e: "e = (n, r)" by (cases e)
    have "n \<in> fst ` set relations" using Cons.prems(1) e by force
    then have "yaml_field_ok relations (item_field n)" using assms(2) item_field_ok by blast
    then have "yaml_presets_ok relations (add_relation_preset e presets)"
      using Cons.prems(2) by (auto simp: add_relation_preset_def e intro!: yaml_presets_ok_update)
    then show ?case using Cons by simp
  qed simp
  then show ?thesis by (simp add: addHasManyRelationPresets_def)
qed

lemma decode_simps [simp]:
  "Relations (decode_model n y) = map (\<lambda>(n, r). (n, decode_relation r)) (YRelations y)"
  "Presets (decode_model n y) = map (\<lambda>(n, p). (n, decode_preset p)) (YPresets y)"
  "Fields (decode_preset p) = map decode_field p"
  "FSource (decode_field f) = YSource f" "FType (decode_field f) = YType f" "NestedPreset (decode_field f) = YPreset f"
  "RType (decode_relation r) = YRType r" "RModel (decode_relation r) = YRModel r"
  "Polymorphic (decode_relation r) = False" "Through (decode_relation r) = []"
  by (simp_all add: decode_model_def decode_preset_def decode_field_def decode_relation_def empty_relation_def)

lemma map_of_decoded: "map_of (map (\<lambda>(n, x). (n, g x)) xs) k = map_option g (map_of xs k)"
  by (induction xs) auto

lemma decoded_item: "yaml_ok y \<Longrightarrow> map_of (Presets (decode_model n y)) ''item'' \<noteq> None"
  by (auto simp: map_of_decoded yaml_ok_def yaml_presets_ok_def)

lemma yaml_links:
  assumes "yaml_ok y"
    and "\<And>r. r \<in> snd ` set (YRelations y) \<Longrightarrow> \<exists>tm. map_of reg (YRModel r) = Some tm \<and> map_of (Presets tm) ''item'' \<noteq> None"
  shows "model_links reg (decode_model n y)"
proof -
  have "relation_links reg (decode_relation r)" if "r \<in> snd ` set (YRelations y)" for r
    using assms(1) assms(2) [OF that] that by (auto simp: relation_links_def yaml_ok_def)
  moreover have fields: "field_links reg (decode_model n y) (decode_field f)"
    if f: "p \<in> snd ` set (YPresets y)" "f \<in> set p" for p f
  proof -
    have ok: "yaml_field_ok (YRelations y) f" using assms(1) f by (auto simp: yaml_ok_def yaml_presets_ok_def)
    have "\<exists>r tm. map_of (Relations (decode_model n y)) (YSource f) = Some r \<and> map_of reg (RModel r) = Some tm \<and>
        map_of (Presets tm) ''item'' \<noteq> None" if preset: "YType f = ''preset''"
    proof -
      obtain r where r: "map_of (YRelations y) (YSource f) = Some r"
        using ok preset gokeys_lookup [of "YSource f" "YRelations y"] unfolding yaml_field_ok_def by blast
      then have "r \<in> snd ` set (YRelations y)" using map_of_SomeD [OF r] by force
      then obtain tm where "map_of reg (YRModel r) = Some tm" "map_of (Presets tm) ''item'' \<noteq> None"
        using assms(2) by blast
      with r show ?thesis by (intro exI [of _ "decode_relation r"] exI [of _ tm]) (simp add: map_of_decoded)
    qed
    then show ?thesis
      using ok unfolding field_links_def yaml_field_ok_def decode_simps(4-6) by (simp add: no_brace_template)
  qed
  moreover have "snd ` set (Relations (decode_model n y)) = decode_relation ` snd ` set (YRelations y)"
    "snd ` set (Presets (decode_model n y)) = decode_preset ` snd ` set (YPresets y)"
    by (auto simp: image_comp case_prod_beta)
  ultimately show ?thesis unfolding model_links_def by (simp only: ball_simps(9) decode_simps(3) list.set_map) blast
qed

text \<open>One file is written; \<open>fails\<close> tells which of the writes fail.\<close>

definition write_file :: "(string \<Rightarrow> string option) \<Rightarrow> string \<times> string \<Rightarrow> (string, string) gomap \<Rightarrow> string \<times> string + (string, string) gomap" where
  "write_file fails f dir = (case fails (fst f) of Some e \<Rightarrow> Inl (fst f, e) | None \<Rightarrow> Inr (AList.update (fst f) (snd f) dir))"

text \<open>
  The directory as the server reads it: one model for each file, under the name of the file without
  \<^verbatim>\<open>.yml\<close>; \<open>read\<close> stands for the YAML decoder. The file that is written last stays.
\<close>

definition model_of_file :: "string \<Rightarrow> string" where
  "model_of_file f = take (length f - 4) f"

definition read_file :: "(string \<Rightarrow> model) \<Rightarrow> string \<times> string \<Rightarrow> registry \<Rightarrow> registry" where
  "read_file read f = AList.update (model_of_file (fst f)) ((read (snd f))\<lparr>MName := model_of_file (fst f)\<rparr>)"

definition read_registry :: "(string \<Rightarrow> model) \<Rightarrow> (string \<times> string) list \<Rightarrow> registry" where
  "read_registry read files = fold (read_file read) files []"

lemma model_of_yml [simp]: "model_of_file (name @ ''.yml'') = name"
  by (simp add: model_of_file_def)

lemma read_registry_fold:
  shows "(n, m) \<in> set (fold (read_file read) files reg) \<Longrightarrow>
      (n, m) \<in> set reg \<or> (\<exists>f raw. (f, raw) \<in> set files \<and> n = model_of_file f \<and> m = (read raw)\<lparr>MName := model_of_file f\<rparr>)"
    and "n \<in> gokeys reg \<union> model_of_file ` fst ` set files \<Longrightarrow> n \<in> gokeys (fold (read_file read) files reg)"
proof (induction files arbitrary: reg)
  case (Cons x files)
  obtain f raw where x: "x = (f, raw)" by (cases x)
  {
    case 1
    then show ?case
      using Cons.IH(1) [of "read_file read (f, raw) reg"] by (auto simp: x read_file_def dest: update_members)
  next
    case 2
    then show ?case
      using Cons.IH(2) [of "read_file read (f, raw) reg"] by (auto simp: x read_file_def gomap_simps)
  }
qed auto

lemma read_registry_entry:
  "(n, m) \<in> set (read_registry read files) \<Longrightarrow>
   \<exists>f raw. (f, raw) \<in> set files \<and> n = model_of_file f \<and> m = (read raw)\<lparr>MName := model_of_file f\<rparr>"
  using read_registry_fold(1) [of n m read files "[]"] by (auto simp: read_registry_def)

lemma read_registry_has: "(f, raw) \<in> set files \<Longrightarrow> \<exists>m. map_of (read_registry read files) (model_of_file f) = Some m"
  using read_registry_fold(2) [of "model_of_file f" "[]" files read]
  by (intro gokeys_lookup) (force simp: read_registry_def)

text \<open>
  When the server reads what was written, and each relation leads to a model that was written too,
  it can link the models.
\<close>

lemma written_models_link:
  assumes "\<And>f raw. (f, raw) \<in> set files \<Longrightarrow> \<exists>name y. f = name @ ''.yml'' \<and> yaml_ok y \<and>
      (read raw)\<lparr>MName := name\<rparr> = decode_model name y \<and>
      (\<forall>r \<in> snd ` set (YRelations y). YRModel r @ ''.yml'' \<in> fst ` set files)"
  shows "\<exists>reg. LinkModelRelations (read_registry read files) = Inr reg"
proof (rule registry_links_ok)
  let ?reg = "read_registry read files"
  have item: "\<exists>tm. map_of ?reg t = Some tm \<and> map_of (Presets tm) ''item'' \<noteq> None" if written: "t @ ''.yml'' \<in> fst ` set files" for t
  proof -
    obtain raw where "(t @ ''.yml'', raw) \<in> set files" using written by force
    from read_registry_has [OF this] obtain tm where tm: "map_of ?reg t = Some tm" by auto
    from read_registry_entry [OF map_of_SomeD [OF tm]] obtain f raw'
      where f: "(f, raw') \<in> set files" "t = model_of_file f" "tm = (read raw')\<lparr>MName := model_of_file f\<rparr>" by blast
    from assms [OF f(1)] obtain y where "yaml_ok y" "tm = decode_model t y" using f(2,3) by auto
    then show ?thesis using tm decoded_item by blast
  qed
  fix n m
  assume "(n, m) \<in> set ?reg"
  from read_registry_entry [OF this] obtain f raw where f: "(f, raw) \<in> set files" "n = model_of_file f"
    "m = (read raw)\<lparr>MName := model_of_file f\<rparr>" by blast
  from assms [OF f(1)] obtain y where y: "yaml_ok y" "m = decode_model n y"
    "\<forall>r \<in> snd ` set (YRelations y). YRModel r @ ''.yml'' \<in> fst ` set files" using f(2,3) by auto
  show "model_links ?reg m" unfolding y(2) using y(1,3) item by (intro yaml_links) blast+
qed

end
