(* ===== verification/Sql_Import.thy ===== *)
theory Sql_Import
  imports Import_Common
begin

text \<open>
  The importer of a database: \<^verbatim>\<open>internal/importer/sqlimport/sqlimport.go\<close>. The answers of the catalogue
  of the database and the YAML encoder are parameters; a slice \<^verbatim>\<open>p[:1]\<close> of an empty text panics, which is
  \<open>None\<close> in \<open>tableToModelName\<close> and an error of its own in \<open>Generate\<close>.
\<close>

section \<open>Reading the catalogue\<close>

record column =
  ColName :: string
  DataType :: string
  UDTName :: string
  OrdinalPos :: int

record foreign_key =
  ColumnName :: string
  RefTable :: string
  RefColumnName :: string

record incoming_fk =
  InTable :: string
  InColumn :: string
  InRefColumn :: string

record table_meta =
  MetaColumns :: "column list"
  FKs :: "foreign_key list"
  PKCols :: "string list"

record generate_options =
  Schema :: string
  OnlySimple :: bool

datatype sql_cell = SText string | SInt int

text \<open>
  A query is answered by an error, or by rows (each read, or an error of \<^verbatim>\<open>Scan\<close>) and the error that
  \<^verbatim>\<open>rows.Err\<close> tells in the end.
\<close>

type_synonym catalogue = "string \<Rightarrow> string list \<Rightarrow> string + (string + sql_cell list) list \<times> string option"

fun scan_all :: "(sql_cell list \<Rightarrow> 'a option) \<Rightarrow> (string + sql_cell list) list \<Rightarrow> string + 'a list" where
  "scan_all scan [] = Inr []"
| "scan_all scan (row # rows) =
     (case row of
        Inl e \<Rightarrow> Inl e
      | Inr cells \<Rightarrow> (case scan cells of
          None \<Rightarrow> Inl ''scan''
        | Some x \<Rightarrow> bind_res (scan_all scan rows) (\<lambda>xs. Inr (x # xs))))"

definition query_all :: "catalogue \<Rightarrow> (sql_cell list \<Rightarrow> 'a option) \<Rightarrow> string \<Rightarrow> string list \<Rightarrow> string + 'a list" where
  "query_all db scan q args =
     bind_res (db q args) (\<lambda>(rows, final).
     bind_res (scan_all scan rows) (\<lambda>xs. case final of None \<Rightarrow> Inr xs | Some e \<Rightarrow> Inl e))"

text \<open>The texts of the queries; each line ends with a line break, as the first line starts with one.\<close>

definition sql_lines :: "string list \<Rightarrow> string" where
  "sql_lines ls = CHR 0x0A # concat (map (\<lambda>l. l @ [CHR 0x0A]) ls)"

definition sql_quoted :: "string \<Rightarrow> string" where
  "sql_quoted s = CHR 0x27 # s @ [CHR 0x27]"

definition buildListTablesQuery :: "bool \<Rightarrow> string" where
  "buildListTablesQuery onlySimple =
     sql_lines [''SELECT t.table_name'',
      ''FROM information_schema.tables t'',
      ''WHERE t.table_schema = $1'',
      ''  AND t.table_type = '' @ sql_quoted ''BASE TABLE'',
      ''  AND t.table_name NOT IN ('' @ sql_quoted ''schema_migrations'' @ '', '' @ sql_quoted ''ar_internal_metadata'' @ '')''] @
     (if onlySimple then
        sql_lines [''  AND NOT EXISTS ('',
          ''    SELECT 1'',
          ''    FROM information_schema.table_constraints tc'',
          ''    WHERE tc.table_schema = t.table_schema'',
          ''      AND tc.table_name = t.table_name'',
          ''      AND tc.constraint_type = '' @ sql_quoted ''FOREIGN KEY'',
          ''  )'']
      else []) @
     ''ORDER BY t.table_name;''"

definition foreignKeysQuery :: string where
  "foreignKeysQuery = sql_lines [''SELECT'',
      ''  kcu.column_name,'',
      ''  ccu.table_name AS foreign_table_name,'',
      ''  ccu.column_name AS foreign_column_name'',
      ''FROM information_schema.table_constraints tc'',
      ''JOIN information_schema.key_column_usage kcu'',
      ''  ON tc.constraint_name = kcu.constraint_name'',
      '' AND tc.table_schema = kcu.table_schema'',
      ''JOIN information_schema.constraint_column_usage ccu'',
      ''  ON ccu.constraint_name = tc.constraint_name'',
      '' AND ccu.constraint_schema = tc.table_schema'',
      ''WHERE tc.constraint_type = '' @ sql_quoted ''FOREIGN KEY'',
      ''  AND tc.table_schema = $1'',
      ''  AND tc.table_name = $2'',
      ''ORDER BY kcu.ordinal_position;'']"

definition columnsQuery :: string where
  "columnsQuery = sql_lines [''SELECT column_name, data_type, udt_name, ordinal_position'',
      ''FROM information_schema.columns'',
      ''WHERE table_schema = $1'',
      ''  AND table_name = $2'',
      ''ORDER BY ordinal_position;'']"

definition primaryKeyQuery :: string where
  "primaryKeyQuery = sql_lines [''SELECT kcu.column_name'',
      ''FROM information_schema.table_constraints tc'',
      ''JOIN information_schema.key_column_usage kcu'',
      ''  ON tc.constraint_name = kcu.constraint_name'',
      '' AND tc.table_schema = kcu.table_schema'',
      ''WHERE tc.table_schema = $1'',
      ''  AND tc.table_name = $2'',
      ''  AND tc.constraint_type = '' @ sql_quoted ''PRIMARY KEY'',
      ''ORDER BY kcu.ordinal_position;'']"

fun scan_text :: "sql_cell list \<Rightarrow> string option" where
  "scan_text [SText s] = Some s"
| "scan_text _ = None"

fun scan_column :: "sql_cell list \<Rightarrow> column option" where
  "scan_column [SText n, SText d, SText u, SInt p] = Some \<lparr>ColName = n, DataType = d, UDTName = u, OrdinalPos = p\<rparr>"
| "scan_column _ = None"

fun scan_foreign_key :: "sql_cell list \<Rightarrow> foreign_key option" where
  "scan_foreign_key [SText c, SText t, SText r] = Some \<lparr>ColumnName = c, RefTable = t, RefColumnName = r\<rparr>"
| "scan_foreign_key _ = None"

definition listTables :: "catalogue \<Rightarrow> string \<Rightarrow> bool \<Rightarrow> string + string list" where
  "listTables db schema onlySimple = query_all db scan_text (buildListTablesQuery onlySimple) [schema]"

definition listForeignKeys :: "catalogue \<Rightarrow> string \<Rightarrow> string \<Rightarrow> string + foreign_key list" where
  "listForeignKeys db schema table = query_all db scan_foreign_key foreignKeysQuery [schema, table]"

definition listColumns :: "catalogue \<Rightarrow> string \<Rightarrow> string \<Rightarrow> string + column list" where
  "listColumns db schema table = query_all db scan_column columnsQuery [schema, table]"

definition listPrimaryKeyColumns :: "catalogue \<Rightarrow> string \<Rightarrow> string \<Rightarrow> string + string list" where
  "listPrimaryKeyColumns db schema table = query_all db scan_text primaryKeyQuery [schema, table]"

section \<open>Names and types\<close>

definition isTextual :: "column \<Rightarrow> bool" where
  "isTextual c = (to_lower (DataType c) \<in> {''character varying'', ''character'', ''text''})"

definition empty_column :: column where
  "empty_column = \<lparr>ColName = [], DataType = [], UDTName = [], OrdinalPos = 0\<rparr>"

definition findColumn :: "column list \<Rightarrow> string \<Rightarrow> column" where
  "findColumn cols name = (case List.find (\<lambda>c. ColName c = name) cols of None \<Rightarrow> empty_column | Some c \<Rightarrow> c)"

definition mapColumnType :: "column \<Rightarrow> string" where
  "mapColumnType c =
     (let dt = to_lower (DataType c); udt = to_lower (UDTName c)
      in if dt \<in> {''smallint'', ''integer'', ''bigint''} then ''int''
         else if dt \<in> {''numeric'', ''decimal'', ''real'', ''double precision''} then ''float''
         else if dt = ''boolean'' then ''bool''
         else if dt = ''date'' then ''date''
         else if dt \<in> {''time without time zone'', ''time with time zone''} then ''time''
         else if dt \<in> {''timestamp without time zone'', ''timestamp with time zone''} then ''datetime''
         else if dt = ''uuid'' \<or> udt = ''uuid'' then ''UUID''
         else ''string'')"

definition chooseIDColumn :: "column list \<Rightarrow> string list \<Rightarrow> (string \<times> string) option" where
  "chooseIDColumn cols pkCols =
     (if ColName (findColumn cols ''id'') \<noteq> [] then Some (''id'', mapColumnType (findColumn cols ''id''))
      else (case pkCols of
          [p] \<Rightarrow> (let c = findColumn cols p in if ColName c \<noteq> [] then Some (ColName c, mapColumnType c) else None)
        | _ \<Rightarrow> None))"

definition scoreNameColumn :: "column \<Rightarrow> int" where
  "scoreNameColumn c = score_name (ColName c) (isTextual c)"

definition chooseNameLikeColumn :: "column list \<Rightarrow> string \<Rightarrow> string" where
  "chooseNameLikeColumn cols idSource = choose_name (map (\<lambda>c. (ColName c, scoreNameColumn c)) cols) idSource"

definition singularize :: "string \<Rightarrow> string" where
  "singularize s =
     (if s = ''people'' then ''person''
      else if s = ''statuses'' then ''status''
      else if has_suffix s ''ies'' \<and> length s > 3 then take (length s - 3) s @ ''y''
      else if has_suffix s ''sses'' \<or> has_suffix s ''shes'' \<or> has_suffix s ''ches'' \<or> has_suffix s ''xes'' \<or> has_suffix s ''zes''
        then take (length s - 2) s
      else if has_suffix s ''s'' \<and> \<not> has_suffix s ''ss'' then take (length s - 1) s
      else s)"

definition model_part :: "string \<Rightarrow> string option" where
  "model_part p =
     (if p = [] then Some []
      else (case singularize p of [] \<Rightarrow> None | c # cs \<Rightarrow> Some (to_upper [c] @ cs)))"

definition tableToModelName :: "string \<Rightarrow> string option" where
  "tableToModelName table =
     map_option concat (opt_map model_part (split_char (CHR ''_'') (to_lower (trim_space table))))"

definition relationNameFromFK :: "string \<Rightarrow> string \<Rightarrow> string" where
  "relationNameFromFK columnName refTable =
     (let lowered = trim_space (to_lower columnName);
          name = trim_space (if has_suffix lowered ''_id'' \<and> length lowered > 3 then take (length lowered - 3) lowered else lowered)
      in if name \<noteq> [] then name
         else join_str ''_'' (map singularize (split_char (CHR ''_'') (to_lower (trim_space refTable)))))"

definition relationNameFromTable :: "string \<Rightarrow> string" where
  "relationNameFromTable table = trim_space (to_lower table)"

section \<open>One table\<close>

definition fk_relation :: "foreign_key \<Rightarrow> (string \<times> yaml_relation) option" where
  "fk_relation fk =
     map_option (\<lambda>m. (relationNameFromFK (ColumnName fk) (RefTable fk),
         \<lparr>YRType = ''belongs_to'', YRModel = m, YFk = ColumnName fk, YPk = RefColumnName fk\<rparr>))
       (tableToModelName (RefTable fk))"

fun add_incoming :: "incoming_fk list \<Rightarrow> (string, yaml_relation) gomap \<Rightarrow> (string, yaml_relation) gomap option" where
  "add_incoming [] relations = Some relations"
| "add_incoming (fk # fks) relations =
     (case tableToModelName (InTable fk) of
        None \<Rightarrow> None
      | Some m \<Rightarrow>
          add_incoming fks (AList.update (uniqueRelationName relations (relationNameFromTable (InTable fk)))
            \<lparr>YRType = ''has_many'', YRModel = m, YFk = InColumn fk, YPk = InRefColumn fk\<rparr> relations))"

definition item_fields :: "column list \<Rightarrow> string \<Rightarrow> string \<Rightarrow> yaml_preset" where
  "item_fields cols idSource idType =
     (let nameCol = chooseNameLikeColumn cols idSource
      in (yfield idSource idType)\<lparr>YAlias := (if idSource \<noteq> ''id'' then ''id'' else [])\<rparr> #
         (if nameCol \<noteq> [] then [yfield nameCol (mapColumnType (findColumn cols nameCol))] else []))"

text \<open>\<open>None\<close> is a panic, \<open>Some None\<close> a table that is left out.\<close>

definition table_model :: "table_meta \<Rightarrow> incoming_fk list \<Rightarrow> string \<Rightarrow> yaml_model option option" where
  "table_model meta incoming table =
     (let cols = MetaColumns meta
      in case chooseIDColumn cols (PKCols meta) of
           None \<Rightarrow> Some None
         | Some (idSource, idType) \<Rightarrow>
             Option.bind (opt_map fk_relation (FKs meta)) (\<lambda>rels.
             let relations0 = fold (\<lambda>(n, r). AList.update n r) rels [];
                 item = (''item'', item_fields cols idSource idType);
                 presets = (if length cols > 2
                   then [item, (''full_info'', map (\<lambda>c. yfield (ColName c) (mapColumnType c)) cols @ map (item_field \<circ> fst) rels)]
                   else [item])
             in map_option (\<lambda>relations. Some \<lparr>YTable = table, YRelations = relations,
                    YPresets = addHasManyRelationPresets presets relations\<rparr>)
                  (add_incoming incoming relations0)))"

section \<open>All tables\<close>

datatype import_error =
    TablesFailed string
  | ColumnsFailed string string
  | ForeignKeysFailed string string
  | PrimaryKeyFailed string string
  | TableMarshalFailed string string
  | EmptyNamePanic string

type_synonym gathered = "(string, table_meta) gomap \<times> (string, incoming_fk list) gomap"

definition incoming_of :: "(string, incoming_fk list) gomap \<Rightarrow> string \<Rightarrow> incoming_fk list" where
  "incoming_of incoming table = (case map_of incoming table of None \<Rightarrow> [] | Some l \<Rightarrow> l)"

definition add_reference :: "string \<Rightarrow> foreign_key \<Rightarrow> (string, incoming_fk list) gomap \<Rightarrow> (string, incoming_fk list) gomap" where
  "add_reference table fk incoming =
     AList.update (RefTable fk) (incoming_of incoming (RefTable fk) @
       [\<lparr>InTable = table, InColumn = ColumnName fk, InRefColumn = RefColumnName fk\<rparr>]) incoming"

definition tag_error :: "('e \<Rightarrow> 'f) \<Rightarrow> 'e + 'a \<Rightarrow> 'f + 'a" where
  "tag_error f r = map_sum f id r"

definition gather_table :: "catalogue \<Rightarrow> string \<Rightarrow> string \<Rightarrow> gathered \<Rightarrow> import_error + gathered" where
  "gather_table db schema table g =
     bind_res (tag_error (ColumnsFailed table) (listColumns db schema table)) (\<lambda>cols.
       if cols = [] then Inr g
       else
         bind_res (tag_error (ForeignKeysFailed table) (listForeignKeys db schema table)) (\<lambda>fks.
         bind_res (tag_error (PrimaryKeyFailed table) (listPrimaryKeyColumns db schema table)) (\<lambda>pkCols.
           Inr (AList.update table \<lparr>MetaColumns = cols, FKs = fks, PKCols = pkCols\<rparr> (fst g),
                fold (add_reference table) fks (snd g)))))"

text \<open>The model of a table; \<open>None\<close> when the table is left out.\<close>

definition table_entry :: "gathered \<Rightarrow> string \<Rightarrow> import_error + yaml_model option" where
  "table_entry g table =
     (case map_of (fst g) table of
        None \<Rightarrow> Inr None
      | Some meta \<Rightarrow>
          (case table_model meta (incoming_of (snd g) table) table of
             None \<Rightarrow> Inl (EmptyNamePanic table)
           | Some y \<Rightarrow> Inr y))"

definition table_file ::
  "(yaml_model \<Rightarrow> string + string) \<Rightarrow> gathered \<Rightarrow> string \<Rightarrow> (string \<times> string) list \<Rightarrow> import_error + (string \<times> string) list" where
  "table_file marshal g table out =
     bind_res (table_entry g table) (\<lambda>entry. case entry of
         None \<Rightarrow> Inr out
       | Some y \<Rightarrow>
           bind_res (tag_error (TableMarshalFailed table) (marshal y)) (\<lambda>raw.
             case tableToModelName table of
               None \<Rightarrow> Inl (EmptyNamePanic table)
             | Some name \<Rightarrow> Inr (out @ [(name @ ''.yml'', raw)])))"

definition gather :: "catalogue \<Rightarrow> string \<Rightarrow> string list \<Rightarrow> import_error + gathered" where
  "gather db schema tables = fold_res (gather_table db schema) tables ([], [])"

definition Generate ::
  "catalogue \<Rightarrow> (yaml_model \<Rightarrow> string + string) \<Rightarrow> generate_options \<Rightarrow> import_error + (string \<times> string) list" where
  "Generate db marshal opts =
     (let schema = (if is_blank (Schema opts) then ''public'' else trim_space (Schema opts))
      in bind_res (tag_error TablesFailed (listTables db schema (OnlySimple opts))) (\<lambda>tables.
         bind_res (gather db schema tables) (\<lambda>g.
         bind_res (fold_res (table_file marshal g) tables []) (\<lambda>files. Inr (sort_key fst files)))))"

text \<open>
  \<^verbatim>\<open>WriteFiles\<close>: the directory after the writes, or the first error; \<open>mkdir\<close> and \<open>fails\<close> tell which of
  the calls of the system fail.
\<close>

definition WriteFiles ::
  "string option \<Rightarrow> (string \<Rightarrow> string option) \<Rightarrow> (string \<times> string) list \<Rightarrow> (string, string) gomap \<Rightarrow>
   string \<times> string + (string, string) gomap" where
  "WriteFiles mkdir fails files dir =
     (case mkdir of Some e \<Rightarrow> Inl ([], e) | None \<Rightarrow> fold_res (write_file fails) files dir)"

section \<open>What is generated for a table\<close>

lemma no_brace_singularize: "no_brace s \<Longrightarrow> no_brace (singularize s)"
  by (simp add: singularize_def no_brace_take) (simp add: no_brace_def)

lemma no_brace_join: "(\<And>p. p \<in> set ps \<Longrightarrow> no_brace p) \<Longrightarrow> no_brace (join_str ''_'' ps)"
  by (induction "''_''" ps rule: join_str.induct) (simp_all add: no_brace_def)

lemma no_brace_split: "no_brace s \<Longrightarrow> p \<in> set (split_char c s) \<Longrightarrow> no_brace p"
  by (induction s arbitrary: p) (auto simp: no_brace_def split: if_split_asm list.split_asm)

lemma no_brace_relationNameFromFK:
  assumes "no_brace c" "no_brace t"
  shows "no_brace (relationNameFromFK c t)"
proof -
  have "no_brace p" if "p \<in> set (split_char (CHR ''_'') (to_lower (trim_space t)))" for p
    using no_brace_split that no_brace_lower no_brace_trim assms(2) by blast
  then have "no_brace (join_str ''_'' (map singularize (split_char (CHR ''_'') (to_lower (trim_space t)))))"
    by (intro no_brace_join) (auto simp: no_brace_singularize)
  then show ?thesis
    unfolding relationNameFromFK_def Let_def by (simp add: no_brace_trim no_brace_take no_brace_lower assms(1))
qed

lemma mapColumnType_plain: "mapColumnType c \<noteq> ''preset'' \<and> mapColumnType c \<noteq> ''computable''"
  by (simp add: mapColumnType_def Let_def)

lemma find_column_mem: "ColName (findColumn cols n) \<noteq> [] \<Longrightarrow> ColName (findColumn cols n) \<in> ColName ` set cols"
proof (cases "List.find (\<lambda>c. ColName c = n) cols")
  case (Some c)
  then have "c \<in> set cols" by (auto simp: find_Some_iff)
  with Some show ?thesis by (simp add: findColumn_def)
qed (simp add: findColumn_def empty_column_def)

lemma chooseID_source:
  assumes "chooseIDColumn cols pk = Some (s, t)" "\<forall>c \<in> set cols. no_brace (ColName c)"
  shows "no_brace s \<and> t \<noteq> ''preset'' \<and> t \<noteq> ''computable''"
proof -
  have "no_brace (ColName (findColumn cols n))" if "ColName (findColumn cols n) \<noteq> []" for n
    using find_column_mem [OF that] assms(2) by auto
  moreover have "no_brace ''id''" by code_simp
  ultimately show ?thesis
    using assms(1) mapColumnType_plain by (auto simp: chooseIDColumn_def Let_def split: if_split_asm list.split_asm)
qed

lemma item_fields_ok:
  assumes "chooseIDColumn cols pk = Some (s, t)" "\<forall>c \<in> set cols. no_brace (ColName c)" "f \<in> set (item_fields cols s t)"
  shows "yaml_field_ok relations f"
proof -
  have "no_brace (chooseNameLikeColumn cols s)" if "chooseNameLikeColumn cols s \<noteq> []"
    using choose_name_mem [of _ s] that assms(2) unfolding chooseNameLikeColumn_def by fastforce
  then show ?thesis
    using assms(3) chooseID_source [OF assms(1,2)] mapColumnType_plain
    by (auto simp: item_fields_def Let_def yaml_field_ok_def yfield_def split: if_split_asm)
qed

text \<open>The models that the relations of a table lead to, and their names.\<close>

definition relation_from :: "(string \<Rightarrow> bool) \<Rightarrow> string \<times> yaml_relation \<Rightarrow> bool" where
  "relation_from leads e =
     (no_brace (fst e) \<and> YRType (snd e) \<in> {''belongs_to'', ''has_many''} \<and>
      (\<exists>t. leads t \<and> tableToModelName t = Some (YRModel (snd e))))"

lemma fk_relations_from:
  assumes "opt_map fk_relation fks = Some rels"
    and "\<And>fk. fk \<in> set fks \<Longrightarrow> leads (RefTable fk) \<and> no_brace (ColumnName fk) \<and> no_brace (RefTable fk)"
  shows "\<forall>e \<in> set rels. relation_from leads e"
  using assms
proof (induction fks arbitrary: rels)
  case (Cons fk fks)
  obtain e rels' where e: "fk_relation fk = Some e" "opt_map fk_relation fks = Some rels'" "rels = e # rels'"
    using Cons.prems(1) by (auto split: option.split_asm)
  then obtain m where m: "tableToModelName (RefTable fk) = Some m"
    "e = (relationNameFromFK (ColumnName fk) (RefTable fk),
       \<lparr>YRType = ''belongs_to'', YRModel = m, YFk = ColumnName fk, YPk = RefColumnName fk\<rparr>)"
    by (auto simp: fk_relation_def)
  have "leads (RefTable fk)" "no_brace (relationNameFromFK (ColumnName fk) (RefTable fk))"
    using Cons.prems(2) [of fk] no_brace_relationNameFromFK by simp_all
  then show ?case using Cons.IH [OF e(2)] Cons.prems(2) m e(3) by (auto simp: relation_from_def)
qed simp

lemma fold_update_members: "e \<in> set (fold (\<lambda>(n, r). AList.update n r) rels m) \<Longrightarrow> e \<in> set rels \<or> e \<in> set m"
  by (induction rels arbitrary: m) (auto dest: update_members)

lemma add_incoming_from:
  assumes "add_incoming fks m = Some relations" "\<forall>e \<in> set m. relation_from leads e"
    and "\<And>fk. fk \<in> set fks \<Longrightarrow> leads (InTable fk) \<and> no_brace (InTable fk)"
  shows "\<forall>e \<in> set relations. relation_from leads e"
  using assms
proof (induction fks arbitrary: m)
  case (Cons fk fks)
  obtain t where t: "tableToModelName (InTable fk) = Some t" using Cons.prems(1) by (auto split: option.split_asm)
  define m' where "m' = AList.update (uniqueRelationName m (relationNameFromTable (InTable fk)))
      \<lparr>YRType = ''has_many'', YRModel = t, YFk = InColumn fk, YPk = InRefColumn fk\<rparr> m"
  have "no_brace (uniqueRelationName m (relationNameFromTable (InTable fk)))"
    using Cons.prems(3) [of fk]
    by (simp add: uniqueRelationName_def relationNameFromTable_def no_brace_unique no_brace_trim no_brace_lower)
  then have "\<forall>e \<in> set m'. relation_from leads e"
    using Cons.prems(2) Cons.prems(3) [of fk] t
    by (auto simp: m'_def relation_from_def dest!: update_members)
  then show ?case using Cons.IH [of m'] Cons.prems(1,3) t by (simp add: m'_def)
qed simp

lemma add_incoming_keys: "add_incoming fks m = Some relations \<Longrightarrow> gokeys m \<subseteq> gokeys relations"
proof (induction fks arbitrary: m)
  case (Cons fk fks)
  then obtain t where t: "tableToModelName (InTable fk) = Some t" by (auto split: option.split_asm)
  let ?m = "AList.update (uniqueRelationName m (relationNameFromTable (InTable fk)))
      \<lparr>YRType = ''has_many'', YRModel = t, YFk = InColumn fk, YPk = InRefColumn fk\<rparr> m"
  have "gokeys ?m \<subseteq> gokeys relations" using Cons.IH [of ?m] Cons.prems t by simp
  then show ?case by (auto simp: gomap_simps)
qed simp

lemma fold_update_keys: "gokeys (fold (\<lambda>(n, r). AList.update n r) rels m) = gokeys m \<union> fst ` set rels"
proof (induction rels arbitrary: m)
  case (Cons x rels)
  then show ?case by (cases x) (simp add: gokeys_update)
qed simp

lemma table_model_ok:
  assumes "table_model meta incoming table = Some (Some y)"
    and "\<forall>c \<in> set (MetaColumns meta). no_brace (ColName c)"
    and "\<And>fk. fk \<in> set (FKs meta) \<Longrightarrow> leads (RefTable fk) \<and> no_brace (ColumnName fk) \<and> no_brace (RefTable fk)"
    and "\<And>fk. fk \<in> set incoming \<Longrightarrow> leads (InTable fk) \<and> no_brace (InTable fk)"
  shows "yaml_ok y \<and> (\<forall>e \<in> set (YRelations y). relation_from leads e)"
proof -
  obtain s t where id: "chooseIDColumn (MetaColumns meta) (PKCols meta) = Some (s, t)"
    using assms(1) by (auto simp: table_model_def Let_def split: option.split_asm)
  obtain rels where rels: "opt_map fk_relation (FKs meta) = Some rels"
    using assms(1) id by (cases "opt_map fk_relation (FKs meta)") (auto simp: table_model_def Let_def)
  define item where "item = (''item'', item_fields (MetaColumns meta) s t)"
  define presets where "presets = (if length (MetaColumns meta) > 2
     then [item, (''full_info'', map (\<lambda>c. yfield (ColName c) (mapColumnType c)) (MetaColumns meta) @ map (item_field \<circ> fst) rels)] else [item])"
  define relations0 where "relations0 = fold (\<lambda>(n, r). AList.update n r) rels []"
  have "table_model meta incoming table =
      map_option (\<lambda>relations. Some \<lparr>YTable = table, YRelations = relations,
        YPresets = addHasManyRelationPresets presets relations\<rparr>) (add_incoming incoming relations0)"
    by (simp add: table_model_def id rels Let_def relations0_def item_def presets_def)
  then obtain relations where relations: "add_incoming incoming relations0 = Some relations"
    "y = \<lparr>YTable = table, YRelations = relations, YPresets = addHasManyRelationPresets presets relations\<rparr>"
    using assms(1) by (cases "add_incoming incoming relations0") auto
  have "\<forall>e \<in> set rels. relation_from leads e" by (rule fk_relations_from [OF rels assms(3)])
  then have from0: "\<forall>e \<in> set relations0. relation_from leads e"
    unfolding relations0_def using fold_update_members by fastforce
  have leading: "\<forall>e \<in> set relations. relation_from leads e"
    by (rule add_incoming_from [OF relations(1) from0 assms(4)])
  have keys: "fst ` set rels \<subseteq> gokeys relations"
    using add_incoming_keys [OF relations(1)] fold_update_keys [of rels "[]"] by (simp add: relations0_def)
  have plain: "\<forall>n \<in> gokeys relations. no_brace n" using leading by (auto simp: relation_from_def)
  have "yaml_field_ok relations f" if field: "f \<in> set (map (item_field \<circ> fst) rels)" for f
  proof -
    obtain e where e: "e \<in> set rels" "f = item_field (fst e)" using field by auto
    then have "fst e \<in> gokeys relations" using keys by blast
    then show ?thesis using e(2) plain item_field_ok by blast
  qed
  moreover have "yaml_field_ok relations (yfield (ColName c) (mapColumnType c))" if "c \<in> set (MetaColumns meta)" for c
    using that assms(2) mapColumnType_plain by (simp add: yaml_field_ok_def yfield_def)
  ultimately have "yaml_presets_ok relations presets"
    using item_fields_ok [OF id assms(2)] by (auto simp: yaml_presets_ok_def presets_def item_def)
  then have "yaml_presets_ok relations (addHasManyRelationPresets presets relations)"
    by (rule add_relation_presets_ok) (rule plain)
  then show ?thesis using leading relations(2) by (auto simp: yaml_ok_def relation_from_def)
qed

section \<open>What is generated for a database\<close>

text \<open>
  Whoever refers to a table is a table that was read, and the tables that were read are tables of
  the list.
\<close>

definition gathered_ok :: "string list \<Rightarrow> gathered \<Rightarrow> bool" where
  "gathered_ok tables g =
     (gokeys (fst g) \<subseteq> set tables \<and> (\<forall>t. \<forall>fk \<in> set (incoming_of (snd g) t). InTable fk \<in> gokeys (fst g)))"

lemma incoming_of_add_reference:
  "fk' \<in> set (incoming_of (add_reference table fk incoming) t) \<Longrightarrow> fk' \<in> set (incoming_of incoming t) \<or> InTable fk' = table"
  by (auto simp: incoming_of_def add_reference_def gomap_simps split: if_split_asm option.split_asm)

lemma incoming_of_references:
  "fk' \<in> set (incoming_of (fold (add_reference table) fks incoming) t) \<Longrightarrow>
   fk' \<in> set (incoming_of incoming t) \<or> InTable fk' = table"
  by (induction fks arbitrary: incoming) (auto dest: incoming_of_add_reference)

lemma gather_table_ok:
  assumes "gathered_ok tables g" "gather_table db schema table g = Inr g'" "table \<in> set tables"
  shows "gathered_ok tables g'"
proof -
  consider "g' = g" | cols fks pks where "g' = (AList.update table \<lparr>MetaColumns = cols, FKs = fks, PKCols = pks\<rparr> (fst g),
      fold (add_reference table) fks (snd g))"
    using assms(2) by (auto simp: gather_table_def res_simps split: if_split_asm)
  then show ?thesis
  proof cases
    case 2
    then show ?thesis
      using assms(1,3) by (auto simp: gathered_ok_def gokeys_update dest!: incoming_of_references)
  qed (use assms(1) in simp)
qed

lemma gather_ok:
  assumes "gather db schema tables = Inr g"
  shows "gathered_ok tables g"
proof -
  have "gathered_ok tables g'" if "fold_res (gather_table db schema) ts g0 = Inr g'" "gathered_ok tables g0" "set ts \<subseteq> set tables"
    for ts g0 g'
    using that
  proof (induction ts arbitrary: g0)
    case (Cons t ts)
    obtain g1 where g1: "gather_table db schema t g0 = Inr g1" "fold_res (gather_table db schema) ts g1 = Inr g'"
      using Cons.prems(1) by (auto split: sum.split_asm)
    then show ?case using Cons.IH [OF g1(2)] gather_table_ok [OF Cons.prems(2) g1(1)] Cons.prems(3) by simp
  qed simp
  from this [OF assms [unfolded gather_def]] show ?thesis by (simp add: gathered_ok_def incoming_of_def)
qed

lemma table_file_result:
  assumes "table_file marshal g table out = Inr out'"
  shows "table_entry g table = Inr None \<and> out' = out \<or>
    (\<exists>y raw name. table_entry g table = Inr (Some y) \<and> marshal y = Inr raw \<and> tableToModelName table = Some name \<and>
       out' = out @ [(name @ ''.yml'', raw)])"
proof (cases "table_entry g table")
  case (Inr entry)
  show ?thesis
  proof (cases entry)
    case (Some y)
    obtain raw where raw: "marshal y = Inr raw"
      using assms Inr Some by (cases "marshal y") (auto simp: table_file_def tag_error_def)
    then obtain name where "tableToModelName table = Some name"
      using assms Inr Some by (cases "tableToModelName table") (auto simp: table_file_def tag_error_def)
    with raw show ?thesis using assms Inr Some by (auto simp: table_file_def tag_error_def)
  qed (use assms Inr in \<open>simp add: table_file_def\<close>)
qed (use assms in \<open>simp add: table_file_def\<close>)

lemma table_files_keep: "fold_res (table_file marshal g) tables out = Inr files \<Longrightarrow> set out \<subseteq> set files"
proof (induction tables arbitrary: out)
  case (Cons t tables)
  obtain out1 where o: "table_file marshal g t out = Inr out1" "fold_res (table_file marshal g) tables out1 = Inr files"
    using Cons.prems by (auto split: sum.split_asm)
  have "set out \<subseteq> set out1" using table_file_result [OF o(1)] by auto
  then show ?case using Cons.IH [OF o(2)] by blast
qed simp

lemma table_files_result:
  assumes "fold_res (table_file marshal g) tables out = Inr files"
  shows "(f, raw) \<in> set files \<Longrightarrow> (f, raw) \<in> set out \<or>
      (\<exists>table y name. table \<in> set tables \<and> table_entry g table = Inr (Some y) \<and> marshal y = Inr raw \<and>
         tableToModelName table = Some name \<and> f = name @ ''.yml'')"
    and "table \<in> set tables \<Longrightarrow> table_entry g table = Inr (Some y) \<Longrightarrow>
      \<exists>name. tableToModelName table = Some name \<and> name @ ''.yml'' \<in> fst ` set files"
  using assms
proof (induction tables arbitrary: out)
  case (Cons t tables)
  {
    case 1
    obtain out1 where o: "table_file marshal g t out = Inr out1" "fold_res (table_file marshal g) tables out1 = Inr files"
      using 1(2) by (auto split: sum.split_asm)
    from Cons.IH(1) [OF 1(1) o(2)] table_file_result [OF o(1)] show ?case by auto
  next
    case 2
    obtain out1 where o: "table_file marshal g t out = Inr out1" "fold_res (table_file marshal g) tables out1 = Inr files"
      using 2(3) by (auto split: sum.split_asm)
    show ?case
    proof (cases "table \<in> set tables")
      case True
      then show ?thesis using Cons.IH(2) [OF _ 2(2) o(2)] by blast
    next
      case False
      then have "table = t" using 2(1) by simp
      then obtain raw name where n: "tableToModelName table = Some name" "out1 = out @ [(name @ ''.yml'', raw)]"
        using table_file_result [OF o(1)] 2(2) by auto
      then have "name @ ''.yml'' \<in> fst ` set files" using table_files_keep [OF o(2)] by force
      with n(1) show ?thesis by blast
    qed
  }
qed auto

text \<open>
  A database whose tables can all be imported: each has a column that identifies its rows, and
  refers only to tables that were read. No name has a brace, which would make it a template.
\<close>

definition importable :: "gathered \<Rightarrow> bool" where
  "importable g =
     (\<forall>(t, meta) \<in> set (fst g). no_brace t \<and> chooseIDColumn (MetaColumns meta) (PKCols meta) \<noteq> None \<and>
        (\<forall>c \<in> set (MetaColumns meta). no_brace (ColName c)) \<and>
        (\<forall>fk \<in> set (FKs meta). no_brace (ColumnName fk) \<and> RefTable fk \<in> gokeys (fst g)))"

lemma importable_entry:
  assumes "importable g" "gathered_ok tables g" "table_entry g table = Inr (Some y)"
  shows "yaml_ok y \<and> (\<forall>e \<in> set (YRelations y). relation_from (\<lambda>t. t \<in> gokeys (fst g)) e)"
proof -
  obtain meta where meta: "map_of (fst g) table = Some meta"
    "table_model meta (incoming_of (snd g) table) table = Some (Some y)"
    using assms(3) by (auto simp: table_entry_def split: option.split_asm)
  have tables: "no_brace t" if "t \<in> gokeys (fst g)" for t using assms(1) that by (auto simp: importable_def)
  have m: "\<forall>c \<in> set (MetaColumns meta). no_brace (ColName c)"
    "\<forall>fk \<in> set (FKs meta). no_brace (ColumnName fk) \<and> RefTable fk \<in> gokeys (fst g)"
    using assms(1) map_of_SomeD [OF meta(1)] by (auto simp: importable_def)
  show ?thesis
    by (rule table_model_ok [OF meta(2) m(1)]) (use m(2) tables assms(2) in \<open>auto simp: gathered_ok_def\<close>)
qed

lemma importable_all:
  assumes "importable g" "fold_res (table_file marshal g) tables [] = Inr files" "t \<in> gokeys (fst g)" "t \<in> set tables"
  shows "\<exists>name. tableToModelName t = Some name \<and> name @ ''.yml'' \<in> fst ` set files"
proof -
  obtain meta where meta: "map_of (fst g) t = Some meta" using gokeys_lookup [OF assms(3)] by blast
  have "chooseIDColumn (MetaColumns meta) (PKCols meta) \<noteq> None"
    using assms(1) map_of_SomeD [OF meta] by (auto simp: importable_def)
  then have entry: "\<exists>y. table_entry g t = Inr (Some y)" if "table_entry g t = Inr e" for e
    using that meta by (auto simp: table_entry_def table_model_def Let_def bind_eq_Some_conv split: option.split_asm)
  have "\<exists>e. table_entry g t = Inr e"
  proof -
    have "\<exists>out out'. table_file marshal g t out = Inr out'" by (rule fold_res_each [OF assms(2,4)])
    then show ?thesis by (cases "table_entry g t") (auto simp: table_file_def)
  qed
  with entry obtain y where "table_entry g t = Inr (Some y)" by blast
  from table_files_result(2) [OF assms(2,4) this] show ?thesis .
qed

text \<open>
  C11. What is imported from a database can be served: when every table has a column that identifies
  its rows and refers to tables that were read, the server links the models of the written files,
  whose relations, in both directions, lead to written models and whose presets nest presets that
  exist (\<^verbatim>\<open>Generate\<close>, then \<^verbatim>\<open>LinkModelRelations\<close>). The YAML decoder is assumed to read back what the
  encoder wrote.
\<close>
theorem imported_database_links:
  assumes "Generate db marshal opts = Inr files"
    and "listTables db (if is_blank (Schema opts) then ''public'' else trim_space (Schema opts)) (OnlySimple opts) = Inr tables"
    and "gather db (if is_blank (Schema opts) then ''public'' else trim_space (Schema opts)) tables = Inr g" "importable g"
    and "\<And>table y raw name. table_entry g table = Inr (Some y) \<Longrightarrow> marshal y = Inr raw \<Longrightarrow>
      (read raw)\<lparr>MName := name\<rparr> = decode_model name y"
  shows "\<exists>reg. LinkModelRelations (read_registry read files) = Inr reg"
proof -
  obtain raws where raws: "fold_res (table_file marshal g) tables [] = Inr raws" "files = sort_key fst raws"
    using assms(1-3) by (auto simp: Generate_def Let_def tag_error_def res_simps)
  note ok = gather_ok [OF assms(3)]
  show ?thesis
  proof (rule written_models_link)
    fix f raw
    assume "(f, raw) \<in> set files"
    then have "(f, raw) \<in> set raws" using raws(2) by simp
    from table_files_result(1) [OF raws(1) this] obtain table y name where y: "table_entry g table = Inr (Some y)"
      "marshal y = Inr raw" "f = name @ ''.yml''" by auto
    note entry = importable_entry [OF assms(4) ok y(1)]
    have "YRModel r @ ''.yml'' \<in> fst ` set files" if r: "r \<in> snd ` set (YRelations y)" for r
    proof -
      obtain t where t: "t \<in> gokeys (fst g)" "tableToModelName t = Some (YRModel r)"
      proof -
        obtain e where "e \<in> set (YRelations y)" "r = snd e" using r by blast
        then show thesis using entry that unfolding relation_from_def by blast
      qed
      then have "t \<in> set tables" using ok by (auto simp: gathered_ok_def)
      from importable_all [OF assms(4) raws(1) t(1) this] t(2) show ?thesis using raws(2) by auto
    qed
    then show "\<exists>name y. f = name @ ''.yml'' \<and> yaml_ok y \<and> (read raw)\<lparr>MName := name\<rparr> = decode_model name y \<and>
        (\<forall>r \<in> snd ` set (YRelations y). YRModel r @ ''.yml'' \<in> fst ` set files)"
      using y assms(5) [OF y(1,2)] entry by blast
  qed
qed

text \<open>
  A database with two tables: orders refer to people. The encoder is instantiated by the name of the
  table, from which the decoder tells the two models apart.
\<close>

definition demo_columns :: "string \<Rightarrow> column list" where
  "demo_columns t =
     map (\<lambda>n. \<lparr>ColName = n, DataType = (if n = ''title'' \<or> n = ''name'' then ''text'' else ''bigint''), UDTName = [], OrdinalPos = 0\<rparr>)
       (if t = ''orders'' then [''id'', ''title'', ''person_id''] else [''person_no'', ''name''])"

definition demo_db :: catalogue where
  "demo_db q args =
     (if q = buildListTablesQuery False then Inr ([Inr [SText ''orders''], Inr [SText ''people'']], None)
      else if q = columnsQuery then
        Inr (map (\<lambda>c. Inr [SText (ColName c), SText (DataType c), SText [], SInt 0]) (demo_columns (last args)), None)
      else if q = foreignKeysQuery then
        Inr (if last args = ''orders'' then [Inr [SText ''person_id'', SText ''people'', SText ''person_no'']] else [], None)
      else Inr (if last args = ''people'' then [Inr [SText ''person_no'']] else [Inr [SText ''id'']], None))"

definition demo_gathered :: gathered where
  "demo_gathered =
     ([(''orders'', \<lparr>MetaColumns = demo_columns ''orders'',
          FKs = [\<lparr>ColumnName = ''person_id'', RefTable = ''people'', RefColumnName = ''person_no''\<rparr>], PKCols = [''id'']\<rparr>),
       (''people'', \<lparr>MetaColumns = demo_columns ''people'', FKs = [], PKCols = [''person_no'']\<rparr>)],
      [(''people'', [\<lparr>InTable = ''orders'', InColumn = ''person_id'', InRefColumn = ''person_no''\<rparr>])])"

definition demo_order :: yaml_model where
  "demo_order = \<lparr>YTable = ''orders'',
     YRelations = [(''person'', \<lparr>YRType = ''belongs_to'', YRModel = ''Person'', YFk = ''person_id'', YPk = ''person_no''\<rparr>)],
     YPresets = [(''item'', [yfield ''id'' ''int'', yfield ''title'' ''string'']),
       (''full_info'', [yfield ''id'' ''int'', yfield ''title'' ''string'', yfield ''person_id'' ''int'', item_field ''person''])]\<rparr>"

definition demo_person_table :: yaml_model where
  "demo_person_table = \<lparr>YTable = ''people'',
     YRelations = [(''orders'', \<lparr>YRType = ''has_many'', YRModel = ''Order'', YFk = ''person_id'', YPk = ''person_no''\<rparr>)],
     YPresets = [(''item'', [(yfield ''person_no'' ''int'')\<lparr>YAlias := ''id''\<rparr>, yfield ''name'' ''string'']),
       (''with_orders'', [item_field ''orders''])]\<rparr>"

definition demo_marshal :: "yaml_model \<Rightarrow> string + string" where
  "demo_marshal y = Inr (YTable y)"

definition demo_read :: "string \<Rightarrow> model" where
  "demo_read raw = decode_model [] (if raw = ''orders'' then demo_order else demo_person_table)"

definition demo_options :: generate_options where
  "demo_options = \<lparr>Schema = '' '', OnlySimple = False\<rparr>"

lemma demo_entries:
  "table_entry demo_gathered ''orders'' = Inr (Some demo_order)"
  "table_entry demo_gathered ''people'' = Inr (Some demo_person_table)"
  by code_simp+

lemma demo_generate:
  "Generate demo_db demo_marshal demo_options = Inr [(''Order.yml'', ''orders''), (''Person.yml'', ''people'')]"
  by code_simp

theorem imported_database_links_witness:
  "\<exists>reg. LinkModelRelations (read_registry demo_read [(''Order.yml'', ''orders''), (''Person.yml'', ''people'')]) = Inr reg"
proof (rule imported_database_links [OF demo_generate, where tables = "[''orders'', ''people'']" and g = demo_gathered])
  let ?schema = "if is_blank (Schema demo_options) then ''public'' else trim_space (Schema demo_options)"
  show "listTables demo_db ?schema (OnlySimple demo_options) = Inr [''orders'', ''people'']" by code_simp
  show "gather demo_db ?schema [''orders'', ''people''] = Inr demo_gathered" by code_simp
  show "importable demo_gathered" by code_simp
  fix table y raw name
  assume entry: "table_entry demo_gathered table = Inr (Some y)" "demo_marshal y = Inr raw"
  have "table = ''orders'' \<or> table = ''people''"
    using entry(1) by (auto simp: table_entry_def demo_gathered_def split: if_split_asm)
  then have "y = demo_order \<or> y = demo_person_table" using entry(1) demo_entries by auto
  then show "(demo_read raw)\<lparr>MName := name\<rparr> = decode_model name y"
    using entry(2) by (auto simp: demo_marshal_def demo_read_def decode_model_def demo_order_def demo_person_table_def)
qed

text \<open>
  A table whose key has two columns, as join tables have, is left out, but the relation of the table
  it refers to still leads to it: the server does not start with the files.
\<close>

definition demo_join_db :: catalogue where
  "demo_join_db q args =
     (if q = buildListTablesQuery False then Inr ([Inr [SText ''labels''], Inr [SText ''orders_labels'']], None)
      else if q = columnsQuery then
        Inr (map (\<lambda>n. Inr [SText n, SText ''bigint'', SText [], SInt 0])
          (if last args = ''labels'' then [''id''] else [''order_id'', ''label_id'']), None)
      else if q = foreignKeysQuery then
        Inr (if last args = ''labels'' then [] else [Inr [SText ''label_id'', SText ''labels'', SText ''id'']], None)
      else Inr (if last args = ''labels'' then [Inr [SText ''id'']] else [Inr [SText ''order_id''], Inr [SText ''label_id'']], None))"

definition demo_label :: yaml_model where
  "demo_label = \<lparr>YTable = ''labels'',
     YRelations = [(''orders_labels'', \<lparr>YRType = ''has_many'', YRModel = ''OrderLabel'', YFk = ''label_id'', YPk = ''id''\<rparr>)],
     YPresets = [(''item'', [yfield ''id'' ''int'']), (''with_orders_labels'', [item_field ''orders_labels''])]\<rparr>"

lemma join_table_breaks_linking:
  "Generate demo_join_db (\<lambda>y. if y = demo_label then Inr ''L'' else Inl ''?'') demo_options = Inr [(''Label.yml'', ''L'')] \<and>
   LinkModelRelations (read_registry (\<lambda>raw. decode_model [] demo_label) [(''Label.yml'', ''L'')]) =
     Inl (RelationModelNotFound ''OrderLabel'' ''Label'' ''orders_labels'')"
  by (rule conjI; code_simp)

text \<open>Two tables can have one model name, and then one file; a part \<^verbatim>\<open>s\<close> of a name makes the importer panic.\<close>

lemma model_names_collide: "tableToModelName ''user'' = tableToModelName ''users''"
  by code_simp

lemma name_part_panics: "tableToModelName ''size_s'' = None"
  by code_simp

text \<open>
  Two foreign keys whose names differ by the suffix have one relation: that of the first is replaced,
  while the preset nests it twice.
\<close>

lemma foreign_keys_collide:
  "relationNameFromFK ''author'' ''people'' = relationNameFromFK ''author_id'' ''people''"
  by code_simp

end
