(* ===== verification/Graphql_Parser.thy ===== *)
theory Graphql_Parser
  imports Formatter
begin

text \<open>
  The lexer and the parser of queries: \<^verbatim>\<open>internal/importer/graphqlimport/graphqlimport.go\<close>. Which runes
  beyond ASCII are letters or digits is a parameter. The parser recurses with fuel that the length
  of the text bounds; that it never runs out is shown below.
\<close>

section \<open>Tokens\<close>

datatype token =
    TEOF string
  | TName string
  | TLBrace
  | TRBrace
  | TColon
  | TLParen
  | TRParen

fun token_val :: "token \<Rightarrow> string" where
  "token_val (TEOF v) = v"
| "token_val (TName v) = v"
| "token_val TLBrace = ''{''"
| "token_val TRBrace = ''}''"
| "token_val TColon = '':''"
| "token_val TLParen = ''(''"
| "token_val TRParen = '')''"

fun is_eof :: "token \<Rightarrow> bool" where
  "is_eof (TEOF v) = True"
| "is_eof _ = False"

record unicode =
  WideLetter :: "string \<Rightarrow> bool"
  WideDigit :: "string \<Rightarrow> bool"

definition ascii_letter :: "char \<Rightarrow> bool" where
  "ascii_letter c = (let n = of_char c :: nat in 65 \<le> n \<and> n \<le> 90 \<or> 97 \<le> n \<and> n \<le> 122)"

definition isNameStart :: "unicode \<Rightarrow> string \<Rightarrow> bool" where
  "isNameStart u r = (case r of [c] \<Rightarrow> ascii_letter c \<or> c = CHR ''_'' | _ \<Rightarrow> WideLetter u r)"

definition isNamePart :: "unicode \<Rightarrow> string \<Rightarrow> bool" where
  "isNamePart u r = (case r of [c] \<Rightarrow> ascii_letter c \<or> is_digit c \<or> c = CHR ''_'' | _ \<Rightarrow> WideLetter u r \<or> WideDigit u r)"

definition rune_space :: "string \<Rightarrow> bool" where
  "rune_space r = (case r of [a] \<Rightarrow> is_ascii_space a | [a, b] \<Rightarrow> is_space2 a b | [a, b, c] \<Rightarrow> is_space3 a b c | _ \<Rightarrow> False)"

text \<open>The rest of the runes stands for the position of the lexer.\<close>

function nextToken :: "unicode \<Rightarrow> string list \<Rightarrow> token \<times> string list" where
  "nextToken u [] = (TEOF [], [])"
| "nextToken u (r # rs) =
     (if rune_space r \<or> r = '','' then nextToken u rs
      else if r = ''#'' then nextToken u (dropWhile (\<lambda>x. x \<noteq> [CHR 0x0A]) rs)
      else if take 3 (r # rs) = [''.'', ''.'', ''.''] then (TEOF ''...'', r # rs)
      else if r = ''{'' then (TLBrace, rs)
      else if r = ''}'' then (TRBrace, rs)
      else if r = '':'' then (TColon, rs)
      else if r = ''('' then (TLParen, rs)
      else if r = '')'' then (TRParen, rs)
      else if isNameStart u r then (TName (concat (r # takeWhile (isNamePart u) rs)), dropWhile (isNamePart u) rs)
      else nextToken u rs)"
  by pat_completeness auto
termination
  by (relation "measure (\<lambda>(_, rs). length rs)") (auto simp: le_imp_less_Suc length_dropWhile_le)

declare nextToken.simps(2) [simp del]

section \<open>The parser\<close>

datatype selection = Sel (SelAlias: string) (SelName: string) (Selections: "selection list")

record operation =
  OpType :: string
  OpName :: string
  OpSelections :: "selection list"

datatype parse_error =
    UnexpectedToken string
  | FragmentsNotSupported
  | ExpectedOpen string
  | ExpectedClose string
  | ExpectedName string
  | ExpectedNameAfterAlias string
  | NoFuel

text \<open>The current token and the rest of the lexer.\<close>

type_synonym pstate = "token \<times> string list"

definition adv :: "unicode \<Rightarrow> pstate \<Rightarrow> pstate" where
  "adv u p = nextToken u (snd p)"

definition psize :: "pstate \<Rightarrow> nat" where
  "psize p = (if is_eof (fst p) then 0 else Suc (length (snd p)))"

lemma nextToken_size: "psize (nextToken u rs) \<le> length rs"
proof (induction u rs rule: nextToken.induct)
  case (1 u)
  then show ?case by (simp add: psize_def)
next
  case (2 u r rs)
  have drop: "length (dropWhile P rs) \<le> length rs" for P by (rule length_dropWhile_le)
  have tokens: "psize (TLBrace, rs) \<le> Suc (length rs)" "psize (TRBrace, rs) \<le> Suc (length rs)" "psize (TColon, rs) \<le> Suc (length rs)"
    "psize (TLParen, rs) \<le> Suc (length rs)" "psize (TRParen, rs) \<le> Suc (length rs)" "psize (TEOF v, r # rs) \<le> Suc (length rs)"
    "psize (TName w, dropWhile (isNamePart u) rs) \<le> Suc (length rs)" for v w
    using drop by (simp_all add: psize_def)
  have skips: "rune_space r \<or> r = '','' \<Longrightarrow> psize (nextToken u rs) \<le> Suc (length rs)"
    using 2(1) by simp
  have comment: "psize (nextToken u (dropWhile (\<lambda>x. x \<noteq> [CHR 0x0A]) rs)) \<le> Suc (length rs)"
    if "\<not> (rune_space r \<or> r = '','')" "r = ''#''"
    using 2(2) [OF that] drop [of "\<lambda>x. x \<noteq> [CHR 0x0A]"] by linarith
  have rest: "psize (nextToken u rs) \<le> Suc (length rs)"
    if "\<not> (rune_space r \<or> r = '','')" "r \<noteq> ''#''" "take 3 (r # rs) \<noteq> [''.'', ''.'', ''.'']" "r \<noteq> ''{''"
      "r \<noteq> ''}''" "r \<noteq> '':''" "r \<noteq> ''(''" "r \<noteq> '')''" "\<not> isNameStart u r"
    using 2(3) [OF that] by simp
  show ?case
    unfolding nextToken.simps(2) list.size add_0_right add_Suc_right
    by (intro if_split [where P = "\<lambda>z. psize z \<le> Suc (length rs)", THEN iffD2] conjI impI)
      (assumption | rule tokens skips comment rest)+
qed

lemma adv_size: "\<not> is_eof (fst p) \<Longrightarrow> psize (adv u p) < psize p"
  using nextToken_size [of u "snd p"] by (simp add: adv_def psize_def less_Suc_eq_le)

function skip_parens :: "unicode \<Rightarrow> int \<Rightarrow> pstate \<Rightarrow> pstate" where
  "skip_parens u depth p =
     (case fst p of
        TLParen \<Rightarrow> skip_parens u (depth + 1) (adv u p)
      | TRParen \<Rightarrow> if depth - 1 = 0 then adv u p else skip_parens u (depth - 1) (adv u p)
      | TEOF v \<Rightarrow> p
      | _ \<Rightarrow> skip_parens u depth (adv u p))"
  by pat_completeness auto
termination
  by (relation "measure (\<lambda>(u, d, p). psize p)") (auto intro!: adv_size)

declare skip_parens.simps [simp del]

definition skipParens :: "unicode \<Rightarrow> pstate \<Rightarrow> pstate" where
  "skipParens u p = (if fst p = TLParen then skip_parens u 0 p else p)"

text \<open>
  One selection without its children: the alias, the name, and the state after the arguments.
\<close>

definition parse_head :: "unicode \<Rightarrow> pstate \<Rightarrow> parse_error + string \<times> string \<times> pstate" where
  "parse_head u p =
     (case fst p of
        TName name \<Rightarrow>
          (let p1 = adv u p
           in if fst p1 = TColon then
                (let p2 = adv u p1
                 in case fst p2 of
                      TName name2 \<Rightarrow> Inr (name, name2, skipParens u (adv u p2))
                    | t \<Rightarrow> Inl (ExpectedNameAfterAlias (token_val t)))
              else Inr ([], name, skipParens u p1))
      | t \<Rightarrow> Inl (ExpectedName (token_val t)))"

fun parseSelectionSet :: "unicode \<Rightarrow> nat \<Rightarrow> pstate \<Rightarrow> parse_error + selection list \<times> pstate"
  and parse_items :: "unicode \<Rightarrow> nat \<Rightarrow> pstate \<Rightarrow> parse_error + selection list \<times> pstate"
  and parseSelection :: "unicode \<Rightarrow> nat \<Rightarrow> pstate \<Rightarrow> parse_error + selection \<times> pstate" where
  "parseSelectionSet u 0 p = Inl NoFuel"
| "parseSelectionSet u (Suc n) p =
     (if fst p \<noteq> TLBrace then Inl (ExpectedOpen (token_val (fst p)))
      else bind_res (parse_items u n (adv u p)) (\<lambda>(sels, p').
        if fst p' \<noteq> TRBrace then Inl (ExpectedClose (token_val (fst p'))) else Inr (sels, adv u p')))"
| "parse_items u 0 p = Inl NoFuel"
| "parse_items u (Suc n) p =
     (if fst p = TRBrace \<or> is_eof (fst p) then Inr ([], p)
      else bind_res (parseSelection u n p) (\<lambda>(sel, p').
           bind_res (parse_items u n p') (\<lambda>(sels, p''). Inr (sel # sels, p''))))"
| "parseSelection u 0 p = Inl NoFuel"
| "parseSelection u (Suc n) p =
     bind_res (parse_head u p) (\<lambda>(alias, name, p').
       if fst p' = TLBrace then
         bind_res (parseSelectionSet u n p') (\<lambda>(sels, p''). Inr (Sel alias name sels, p''))
       else Inr (Sel alias name [], p'))"

text \<open>The fuel that is enough in every state.\<close>

definition enough :: "pstate \<Rightarrow> nat" where
  "enough p = 3 * psize p + 3"

definition parse_set :: "unicode \<Rightarrow> pstate \<Rightarrow> parse_error + selection list \<times> pstate" where
  "parse_set u p = parseSelectionSet u (enough p) p"

definition parseOperation :: "unicode \<Rightarrow> pstate \<Rightarrow> parse_error + operation \<times> pstate" where
  "parseOperation u p =
     (if fst p = TLBrace then
        bind_res (parse_set u p) (\<lambda>(sels, p').
          Inr (\<lparr>OpType = ''query'', OpName = [], OpSelections = sels\<rparr>, p'))
      else (case fst p of
          TName typ \<Rightarrow>
            if typ = ''fragment'' then Inl FragmentsNotSupported
            else
              (let p1 = adv u p;
                   (name, p2) = (case fst p1 of TName n \<Rightarrow> (n, adv u p1) | _ \<Rightarrow> ([], p1))
               in bind_res (parse_set u (skipParens u p2)) (\<lambda>(sels, p').
                    Inr (\<lparr>OpType = typ, OpName = name, OpSelections = sels\<rparr>, p')))
        | t \<Rightarrow> Inl (UnexpectedToken (token_val t))))"

section \<open>The parser returns\<close>

lemma skip_parens_size: "psize (skip_parens u d p) \<le> psize p"
proof (induction u d p rule: skip_parens.induct)
  case (1 u d p)
  have "\<not> is_eof (fst p) \<Longrightarrow> psize (adv u p) \<le> psize p" using adv_size [of p u] by simp
  with 1 show ?case by (subst skip_parens.simps) (auto split: token.split intro: order_trans)
qed

lemma skipParens_size: "psize (skipParens u p) \<le> psize p"
  by (simp add: skipParens_def skip_parens_size)

lemma parse_head_size:
  assumes "parse_head u p = Inr (al, name, p')"
  shows "psize p' < psize p"
proof -
  obtain n where n: "fst p = TName n" using assms by (auto simp: parse_head_def split: token.split_asm)
  have a: "psize (adv u p) < psize p" by (rule adv_size) (simp add: n)
  show ?thesis
  proof (cases "fst (adv u p) = TColon")
    case True
    obtain n2 where n2: "fst (adv u (adv u p)) = TName n2" "p' = skipParens u (adv u (adv u (adv u p)))"
      using assms n True by (auto simp: parse_head_def Let_def split: token.split_asm)
    have "psize (adv u (adv u p)) < psize (adv u p)" by (rule adv_size) (simp add: True)
    moreover have "psize (adv u (adv u (adv u p))) < psize (adv u (adv u p))" by (rule adv_size) (simp add: n2)
    ultimately show ?thesis using skipParens_size [of u "adv u (adv u (adv u p))"] a n2(2) by simp
  next
    case False
    then have "p' = skipParens u (adv u p)" using assms n by (simp add: parse_head_def Let_def)
    then show ?thesis using skipParens_size [of u "adv u p"] a by simp
  qed
qed

lemma parse_head_fuel: "parse_head u p \<noteq> Inl NoFuel"
  by (auto simp: parse_head_def Let_def split: token.split)

text \<open>A result that is no lack of fuel, and whose state is not larger.\<close>

definition settled :: "nat \<Rightarrow> parse_error + 'a \<times> pstate \<Rightarrow> bool" where
  "settled k r = (case r of Inl e \<Rightarrow> e \<noteq> NoFuel | Inr (x, p) \<Rightarrow> psize p \<le> k)"

lemma settled_bind:
  "settled k r \<Longrightarrow> (\<And>x p. r = Inr (x, p) \<Longrightarrow> psize p \<le> k \<Longrightarrow> settled k' (f (x, p))) \<Longrightarrow> settled k' (bind_res r f)"
  by (cases r) (auto simp: settled_def)

lemma parser_settled:
  "3 * psize p + 3 \<le> n \<Longrightarrow> settled (psize p - 1) (parseSelectionSet u n p)"
  "3 * psize p + 2 \<le> n \<Longrightarrow> settled (psize p) (parse_items u n p)"
  "3 * psize p + 1 \<le> n \<Longrightarrow> settled (psize p - 1) (parseSelection u n p)"
proof (induction u n p and u n p and u n p rule: parseSelectionSet_parse_items_parseSelection.induct)
  case (2 u n p)
  show ?case
  proof (cases "fst p = TLBrace")
    case True
    then have a: "psize (adv u p) < psize p" by (intro adv_size) simp
    then have items: "settled (psize (adv u p)) (parse_items u n (adv u p))" using 2 True by simp
    have close: "settled (psize p - 1) (Inr (sels, adv u (TRBrace, b)))" if small: "psize (TRBrace, b) \<le> psize (adv u p)" for sels :: "selection list" and b
      using adv_size [of "(TRBrace, b)" u] small a by (simp add: settled_def)
    have step: "settled (psize p - 1) (case (sels, p') of (sels, p') \<Rightarrow>
        if fst p' \<noteq> TRBrace then Inl (ExpectedClose (token_val (fst p'))) else Inr (sels, adv u p'))"
      if small: "psize p' \<le> psize (adv u p)" for sels :: "selection list" and p'
      using close [of "snd p'" sels] small by (cases p') (auto simp: settled_def)
    show ?thesis
      unfolding parseSelectionSet.simps using True by (simp del: One_nat_def, intro settled_bind [OF items] step) simp_all
  qed (simp add: settled_def)
next
  case (4 u n p)
  show ?case
  proof (cases "fst p = TRBrace \<or> is_eof (fst p)")
    case False
    then have pos: "0 < psize p" by (simp add: psize_def)
    have first: "settled (psize p - 1) (parseSelection u n p)" using 4(1) [OF False] 4(3) by simp
    have more: "settled (psize p) (bind_res (parse_items u n p') (\<lambda>(sels, p''). Inr (sel # sels, p'')))"
      if r: "parseSelection u n p = Inr (sel, p')" "psize p' \<le> psize p - 1" for sel p'
    proof (rule settled_bind)
      show "settled (psize p') (parse_items u n p')" using 4(2) [OF False] r(2) 4(3) pos by simp
    qed (use r(2) in \<open>simp add: settled_def\<close>)
    then show ?thesis using first False by (simp, intro settled_bind) auto
  qed (simp add: settled_def)
next
  case (6 u n p)
  show ?case
  proof (cases "parse_head u p")
    case (Inl e)
    then show ?thesis using parse_head_fuel [of u p] by (simp add: settled_def)
  next
    case (Inr r)
    then obtain al name p' where r: "parse_head u p = Inr (al, name, p')" by (cases r) auto
    note small = parse_head_size [OF r]
    show ?thesis
    proof (cases "fst p' = TLBrace")
      case True
      have "settled (psize p' - 1) (parseSelectionSet u n p')"
      proof -
        have "3 * psize p' + 3 \<le> n" using 6(2) small by linarith
        then show ?thesis using 6(1) True by simp
      qed
      then show ?thesis
        using r True small by (cases "parseSelectionSet u n p'") (auto simp: settled_def)
    qed (use r small in \<open>simp add: settled_def\<close>)
  qed
qed simp_all

lemma parse_set_settled: "settled (psize p - 1) (parse_set u p)"
  unfolding parse_set_def enough_def by (rule parser_settled(1)) simp

lemma parseOperation_settled:
  assumes "\<not> is_eof (fst p)"
  shows "settled (psize p - 1) (parseOperation u p)"
proof (cases "fst p")
  case TLBrace
  then show ?thesis
    using parse_set_settled [of p u] by (cases "parse_set u p") (auto simp: parseOperation_def settled_def)
next
  case (TName w)
  define p2 where "p2 = (case fst (adv u p) of TName n \<Rightarrow> (n, adv u (adv u p)) | _ \<Rightarrow> ([], adv u p))"
  have small: "psize (adv u p) < psize p" by (rule adv_size) (fact assms)
  moreover have "psize (snd p2) \<le> psize (adv u p)"
    using adv_size [of "adv u p" u] by (auto simp: p2_def split: token.split)
  ultimately have "psize (skipParens u (snd p2)) \<le> psize p - 1"
    using skipParens_size [of u "snd p2"] by linarith
  then show ?thesis
    using parse_set_settled [of "skipParens u (snd p2)" u] TName
    by (cases "parse_set u (skipParens u (snd p2))")
      (auto simp: parseOperation_def settled_def Let_def p2_def [symmetric] split: prod.splits)
qed (simp_all add: parseOperation_def settled_def)

function parse_operations :: "unicode \<Rightarrow> pstate \<Rightarrow> parse_error + operation list" where
  "parse_operations u p =
     (if is_eof (fst p) then Inr []
      else (case parseOperation u p of
          Inl e \<Rightarrow> Inl e
        | Inr (opn, p') \<Rightarrow> map_sum id (Cons opn) (parse_operations u p')))"
  by pat_completeness auto
termination
proof (relation "measure (psize \<circ> snd)")
  fix u p r opn p'
  assume *: "\<not> is_eof (fst p)" "parseOperation u p = Inr r" "(opn, p') = r"
  then have "psize p' \<le> psize p - 1" using parseOperation_settled [of p u] by (auto simp: settled_def)
  moreover have "0 < psize p" using *(1) by (simp add: psize_def)
  ultimately show "((u, p'), (u, p)) \<in> measure (psize \<circ> snd)" by simp
qed simp

declare parse_operations.simps [simp del]

definition parseDocument :: "unicode \<Rightarrow> string \<Rightarrow> parse_error + operation list" where
  "parseDocument u src = parse_operations u (nextToken u (runes src))"

lemma parse_operations_fuel: "parse_operations u p \<noteq> Inl NoFuel"
proof (induction u p rule: parse_operations.induct)
  case (1 u p)
  show ?case
  proof (cases "is_eof (fst p)")
    case True
    then show ?thesis by (simp add: parse_operations.simps)
  next
    case False
    show ?thesis
    proof (cases "parseOperation u p")
      case (Inl e)
      then show ?thesis
        using parseOperation_settled [OF False, of u] by (simp add: parse_operations.simps [of u p] False settled_def)
    next
      case (Inr r)
      obtain opn p' where r: "r = (opn, p')" by (cases r)
      then have "parse_operations u p' \<noteq> Inl NoFuel" using 1 [OF False Inr] by simp
      then show ?thesis
        using Inr r False by (cases "parse_operations u p'") (simp_all add: parse_operations.simps [of u p])
    qed
  qed
qed

section \<open>Printing\<close>

fun show_selection :: "selection \<Rightarrow> string" where
  "show_selection (Sel al nm sels) =
     (if al = [] then [] else al @ '':'') @ nm @
     (if sels = [] then '' '' else ''{'' @ concat (map show_selection sels) @ ''}'')"

definition show_operation :: "operation \<Rightarrow> string" where
  "show_operation opn =
     OpType opn @ '' '' @ OpName opn @ ''{'' @ concat (map show_selection (OpSelections opn)) @ ''}''"

definition show_document :: "operation list \<Rightarrow> string" where
  "show_document doc = concat (map show_operation doc)"

text \<open>Names of letters, digits and underscores.\<close>

definition name_char :: "char \<Rightarrow> bool" where
  "name_char c = (ascii_letter c \<or> is_digit c \<or> c = CHR ''_'')"

definition plain_name :: "string \<Rightarrow> bool" where
  "plain_name w = (case w of [] \<Rightarrow> False | c # cs \<Rightarrow> (ascii_letter c \<or> c = CHR ''_'') \<and> list_all name_char cs)"

fun plain_selection :: "selection \<Rightarrow> bool" where
  "plain_selection (Sel al nm sels) = ((al = [] \<or> plain_name al) \<and> plain_name nm \<and> list_all plain_selection sels)"

definition plain_operation :: "operation \<Rightarrow> bool" where
  "plain_operation opn =
     (plain_name (OpType opn) \<and> OpType opn \<noteq> ''fragment'' \<and> (OpName opn = [] \<or> plain_name (OpName opn)) \<and>
      list_all plain_selection (OpSelections opn))"

section \<open>Reading what was printed\<close>

definition bytes :: "string \<Rightarrow> string list" where
  "bytes s = map (\<lambda>c. [c]) s"

definition ascii :: "string \<Rightarrow> bool" where
  "ascii s = list_all (\<lambda>c. (of_char c :: nat) < 128) s"

lemma runes_ascii: "ascii s \<Longrightarrow> runes s = bytes s"
  by (induction s) (simp_all add: ascii_def bytes_def rune_length_def byte_in_def)

lemma bytes_simps [simp]: "bytes [] = []" "bytes (c # s) = [c] # bytes s" "bytes (s @ t) = bytes s @ bytes t" "length (bytes s) = length s"
  by (simp_all add: bytes_def)

lemma name_char_ascii: "name_char c \<Longrightarrow> (of_char c :: nat) < 128"
  by (auto simp: name_char_def ascii_letter_def is_digit_def Let_def)

lemma plain_name_ascii: "plain_name w \<Longrightarrow> ascii w"
  by (cases w) (auto simp: plain_name_def ascii_def name_char_def list_all_iff intro: name_char_ascii)

definition lex :: "unicode \<Rightarrow> string \<Rightarrow> pstate" where
  "lex u s = nextToken u (bytes s)"

lemma adv_bytes [simp]: "adv u (t, bytes s) = lex u s"
  by (simp add: adv_def lex_def)

lemma lex_marks [simp]:
  "lex u (CHR '' '' # s) = lex u s"
  "lex u (CHR ''{'' # s) = (TLBrace, bytes s)"
  "lex u (CHR ''}'' # s) = (TRBrace, bytes s)"
  "lex u (CHR '':'' # s) = (TColon, bytes s)"
  "lex u [] = (TEOF [], [])"
  by (simp_all add: lex_def nextToken.simps(2) rune_space_def is_ascii_space_def)

lemma name_start_free:
  assumes "ascii_letter c \<or> c = CHR ''_''"
  shows "\<not> is_ascii_space c" "c \<notin> set '',#.{}:()''" "isNameStart u [c]"
  using assms by (auto simp: ascii_letter_def is_ascii_space_def isNameStart_def)

lemma take_name: "list_all name_char w \<Longrightarrow> s = [] \<or> \<not> name_char (hd s) \<Longrightarrow>
    takeWhile (isNamePart u) (bytes w @ bytes s) = bytes w \<and> dropWhile (isNamePart u) (bytes w @ bytes s) = bytes s"
  by (induction w) (cases s, auto simp: isNamePart_def name_char_def)

lemma lex_name:
  assumes "plain_name w" and s: "s = [] \<or> \<not> name_char (hd s)"
  shows "lex u (w @ s) = (TName w, bytes s)"
proof -
  obtain c cs where w: "w = c # cs" and c: "ascii_letter c \<or> c = CHR ''_''" and cs: "list_all name_char cs"
    using assms by (cases w) (auto simp: plain_name_def)
  note free = name_start_free(1,2) [OF c] name_start_free(3) [OF c, of u]
  have joined: "concat (bytes x) = x" for x by (induction x) simp_all
  show ?thesis
    using free take_name [OF cs s, of u] joined [of cs]
    by (simp add: w lex_def nextToken.simps(2) rune_space_def)
qed

text \<open>What may follow a selection.\<close>

definition next_item :: "token \<Rightarrow> bool" where
  "next_item t = (t = TRBrace \<or> (\<exists>w. t = TName w))"

lemma next_item_simps: "next_item t \<Longrightarrow> t \<noteq> TColon \<and> t \<noteq> TLParen \<and> t \<noteq> TLBrace \<and> \<not> is_eof t"
  by (auto simp: next_item_def)

definition show_head :: "string \<Rightarrow> string \<Rightarrow> string" where
  "show_head al nm = (if al = [] then [] else al @ '':'') @ nm"

lemma hd_marks [simp]: "\<not> name_char (CHR '' '')" "\<not> name_char (CHR ''{'')" "\<not> name_char (CHR '':'')" "\<not> name_char (CHR ''}'')"
  by (simp_all add: name_char_def ascii_letter_def is_digit_def)

lemma parse_head_back:
  assumes names: "al = [] \<or> plain_name al" "plain_name nm"
    and s: "c = CHR '' '' \<or> c = CHR ''{''"
    and after: "fst (lex u (c # s)) \<noteq> TColon" "fst (lex u (c # s)) \<noteq> TLParen"
  shows "parse_head u (lex u (show_head al nm @ c # s)) = Inr (al, nm, lex u (c # s))"
    and "Suc (Suc (length s)) \<le> psize (lex u (show_head al nm @ c # s))"
proof -
  have c: "\<not> name_char c" using s by auto
  have nm: "lex u (nm @ c # s) = (TName nm, bytes (c # s))" using lex_name [OF names(2)] c by simp
  have al: "lex u (al @ CHR '':'' # nm @ c # s) = (TName al, bytes (CHR '':'' # nm @ c # s))" if "al \<noteq> []"
    using lex_name [of al] names(1) that by simp
  have tail: "adv u (TName nm, bytes (c # s)) = lex u (c # s)" by (rule adv_bytes)
  show "parse_head u (lex u (show_head al nm @ c # s)) = Inr (al, nm, lex u (c # s))"
  proof (cases "al = []")
    case True
    then show ?thesis unfolding show_head_def using after
      by (simp add: nm parse_head_def tail Let_def skipParens_def del: bytes_simps lex_marks)
  next
    case False
    have "adv u (TName al, bytes (CHR '':'' # nm @ c # s)) = (TColon, bytes (nm @ c # s))" unfolding adv_bytes by simp
    then show ?thesis unfolding show_head_def using after al [OF False] False
      by (simp add: nm parse_head_def tail Let_def skipParens_def del: bytes_simps lex_marks)
  qed
  show "Suc (Suc (length s)) \<le> psize (lex u (show_head al nm @ c # s))"
    unfolding show_head_def using nm al by (cases "al = []") (simp_all add: psize_def)
qed

definition reads :: "unicode \<Rightarrow> selection \<Rightarrow> bool" where
  "reads u x \<longleftrightarrow> (\<forall>n t. next_item (fst (lex u t)) \<longrightarrow> 3 * psize (lex u (show_selection x @ t)) + 1 \<le> n \<longrightarrow>
     parseSelection u n (lex u (show_selection x @ t)) = Inr (x, lex u t))"

lemma show_selection_head:
  assumes "plain_selection x"
  obtains w cs where "plain_name w" "show_selection x = w @ cs" "cs \<noteq> []" "\<not> name_char (hd cs)"
proof (cases x)
  case (Sel al nm sels)
  show ?thesis
  proof (cases "al = []")
    case True
    then show ?thesis using that [of nm "if sels = [] then '' '' else ''{'' @ concat (map show_selection sels) @ ''}''"] assms Sel
      by (simp split: if_splits)
  next
    case False
    then show ?thesis
      using that [of al "CHR '':'' # nm @ (if sels = [] then '' '' else ''{'' @ concat (map show_selection sels) @ ''}'')"] assms Sel
      by (simp split: if_splits)
  qed
qed

lemma lex_selection:
  assumes "plain_selection x"
  shows "\<exists>w. fst (lex u (show_selection x @ t)) = TName w"
    and "Suc (Suc (length t)) \<le> psize (lex u (show_selection x @ t))"
proof -
  obtain w cs where w: "plain_name w" "show_selection x = w @ cs" "cs \<noteq> []" "\<not> name_char (hd cs)"
    by (rule show_selection_head [OF assms])
  then have "lex u (show_selection x @ t) = (TName w, bytes (cs @ t))" using lex_name [OF w(1), of "cs @ t"] by simp
  then show "\<exists>w. fst (lex u (show_selection x @ t)) = TName w" "Suc (Suc (length t)) \<le> psize (lex u (show_selection x @ t))"
    using w(3) by (simp_all add: psize_def Suc_le_eq)
qed

lemma items_next:
  "list_all plain_selection xs \<Longrightarrow> next_item (fst (lex u (concat (map show_selection xs) @ CHR ''}'' # t)))"
  by (cases xs) (use lex_selection(1) in \<open>auto simp: next_item_def\<close>)

lemma items_back:
  "list_all plain_selection xs \<Longrightarrow> (\<And>x. x \<in> set xs \<Longrightarrow> reads u x) \<Longrightarrow>
   3 * psize (lex u (concat (map show_selection xs) @ CHR ''}'' # t)) + 2 \<le> n \<Longrightarrow>
   parse_items u n (lex u (concat (map show_selection xs) @ CHR ''}'' # t)) = Inr (xs, (TRBrace, bytes t))"
proof (induction xs arbitrary: n)
  case Nil
  then show ?case by (cases n) simp_all
next
  case (Cons x xs)
  define rest where "rest = concat (map show_selection xs) @ CHR ''}'' # t"
  obtain m where n: "n = Suc m" using Cons.prems(3) by (cases n) simp_all
  have x: "plain_selection x" "list_all plain_selection xs" using Cons.prems(1) by simp_all
  have all: "concat (map show_selection (x # xs)) @ CHR ''}'' # t = show_selection x @ rest" by (simp add: rest_def)
  have bound: "3 * psize (lex u (show_selection x @ rest)) + 2 \<le> Suc m" using Cons.prems(3) unfolding all n .
  obtain w where w: "fst (lex u (show_selection x @ rest)) = TName w" using lex_selection(1) [OF x(1)] by blast
  have one: "parseSelection u m (lex u (show_selection x @ rest)) = Inr (x, lex u rest)"
    using Cons.prems(2) [of x] items_next [OF x(2), of u t] bound unfolding reads_def rest_def by simp
  have "psize (lex u rest) \<le> length rest" unfolding lex_def using nextToken_size [of u "bytes rest"] by simp
  then have "3 * psize (lex u rest) + 2 \<le> m"
    using lex_selection(2) [OF x(1), of rest u] bound by linarith
  then have "parse_items u m (lex u rest) = Inr (xs, (TRBrace, bytes t))"
    using Cons.IH [OF x(2)] Cons.prems(2) unfolding rest_def by simp
  then show ?case unfolding all n using w one by simp
qed

lemma set_back:
  assumes "list_all plain_selection xs" "\<And>x. x \<in> set xs \<Longrightarrow> reads u x"
    and "3 * Suc (length (concat (map show_selection xs) @ CHR ''}'' # t)) + 3 \<le> n"
  shows "parseSelectionSet u n (TLBrace, bytes (concat (map show_selection xs) @ CHR ''}'' # t)) = Inr (xs, lex u t)"
proof -
  define rest where "rest = concat (map show_selection xs) @ CHR ''}'' # t"
  obtain m where n: "n = Suc m" using assms(3) by (cases n) simp_all
  have "psize (lex u rest) \<le> length rest" unfolding lex_def using nextToken_size [of u "bytes rest"] by simp
  then have "parse_items u m (lex u rest) = Inr (xs, (TRBrace, bytes t))"
    using items_back [OF assms(1,2)] assms(3) unfolding rest_def n by simp
  then show ?thesis unfolding n rest_def [symmetric] by simp
qed

lemma selection_back: "plain_selection x \<Longrightarrow> reads u x"
proof (induction x)
  case (Sel al nm sels)
  then have names: "al = [] \<or> plain_name al" "plain_name nm" and sels: "list_all plain_selection sels" by simp_all
  show ?case unfolding reads_def
  proof (intro allI impI)
    fix n t
    assume next_t: "next_item (fst (lex u t))"
      and n: "3 * psize (lex u (show_selection (Sel al nm sels) @ t)) + 1 \<le> n"
    obtain m where m: "n = Suc m" using n by (cases n) simp_all
    show "parseSelection u n (lex u (show_selection (Sel al nm sels) @ t)) = Inr (Sel al nm sels, lex u t)"
    proof (cases "sels = []")
      case True
      have shown: "show_selection (Sel al nm sels) @ t = show_head al nm @ CHR '' '' # t" by (simp add: True show_head_def)
      have "parse_head u (lex u (show_head al nm @ CHR '' '' # t)) = Inr (al, nm, lex u (CHR '' '' # t))"
        using parse_head_back(1) [OF names, of "CHR '' ''"] next_item_simps [OF next_t] by simp
      then show ?thesis unfolding shown m using next_item_simps [OF next_t] True by simp
    next
      case False
      define body where "body = concat (map show_selection sels) @ CHR ''}'' # t"
      have shown: "show_selection (Sel al nm sels) @ t = show_head al nm @ CHR ''{'' # body" by (simp add: False show_head_def body_def)
      have hd_back: "parse_head u (lex u (show_head al nm @ CHR ''{'' # body)) = Inr (al, nm, (TLBrace, bytes body))"
        and long: "Suc (Suc (length body)) \<le> psize (lex u (show_head al nm @ CHR ''{'' # body))"
        using parse_head_back [OF names, of "CHR ''{''" u body] by simp_all
      have "parseSelectionSet u m (TLBrace, bytes body) = Inr (sels, lex u t)"
        unfolding body_def
      proof (rule set_back [OF sels])
        show "3 * Suc (length (concat (map show_selection sels) @ CHR ''}'' # t)) + 3 \<le> m"
          using n long unfolding shown m body_def [symmetric] mult_Suc_right by arith
      qed (use Sel.IH sels in \<open>auto simp: list_all_iff\<close>)
      then show ?thesis unfolding shown m using hd_back by simp
    qed
  qed
qed

lemma parse_set_back:
  "list_all plain_selection xs \<Longrightarrow>
   parse_set u (TLBrace, bytes (concat (map show_selection xs) @ CHR ''}'' # t)) = Inr (xs, lex u t)"
  unfolding parse_set_def enough_def
  by (rule set_back) (auto simp: list_all_iff selection_back psize_def)


lemma operation_back:
  assumes "plain_operation opn"
  shows "parseOperation u (lex u (show_operation opn @ t)) = Inr (opn, lex u t)"
    and "\<not> is_eof (fst (lex u (show_operation opn @ t)))"
proof -
  define tail where "tail = concat (map show_selection (OpSelections opn)) @ CHR ''}'' # t"
  have ty: "plain_name (OpType opn)" "OpType opn \<noteq> ''fragment''" and nm: "OpName opn = [] \<or> plain_name (OpName opn)"
    and sels: "list_all plain_selection (OpSelections opn)"
    using assms by (simp_all add: plain_operation_def)
  have shown: "show_operation opn @ t = OpType opn @ CHR '' '' # OpName opn @ CHR ''{'' # tail"
    by (simp add: show_operation_def tail_def)
  have start: "lex u (show_operation opn @ t) = (TName (OpType opn), bytes (CHR '' '' # OpName opn @ CHR ''{'' # tail))"
    unfolding shown by (rule lex_name [OF ty(1)]) simp
  have first: "adv u (TName (OpType opn), bytes (CHR '' '' # OpName opn @ CHR ''{'' # tail)) = lex u (OpName opn @ CHR ''{'' # tail)"
    unfolding adv_bytes by simp
  have name_at: "lex u (OpName opn @ CHR ''{'' # tail) = (TName (OpName opn), bytes (CHR ''{'' # tail))" if "OpName opn \<noteq> []"
    using nm that by (intro lex_name) auto
  have second: "adv u (TName (OpName opn), bytes (CHR ''{'' # tail)) = (TLBrace, bytes tail)" unfolding adv_bytes by simp
  have body: "parse_set u (TLBrace, bytes tail) = Inr (OpSelections opn, lex u t)"
    unfolding tail_def by (rule parse_set_back [OF sels])
  show "parseOperation u (lex u (show_operation opn @ t)) = Inr (opn, lex u t)"
  proof (cases "OpName opn = []")
    case True
    then show ?thesis unfolding parseOperation_def start
      using ty body first by (simp add: Let_def skipParens_def del: bytes_simps)
  next
    case False
    then show ?thesis unfolding parseOperation_def start
      using ty body first name_at second by (simp add: Let_def skipParens_def del: bytes_simps)
  qed
  show "\<not> is_eof (fst (lex u (show_operation opn @ t)))" unfolding start by simp
qed

lemma document_back: "list_all plain_operation doc \<Longrightarrow> parse_operations u (lex u (show_document doc)) = Inr doc"
proof (induction doc)
  case Nil
  then show ?case by (simp add: show_document_def parse_operations.simps)
next
  case (Cons opn doc)
  have "show_document (opn # doc) = show_operation opn @ show_document doc" by (simp add: show_document_def)
  then show ?case
    using Cons operation_back [of opn u "show_document doc"] by (simp add: parse_operations.simps [of u "lex u (show_operation opn @ show_document doc)"])
qed

lemma show_selection_ascii: "plain_selection x \<Longrightarrow> ascii (show_selection x)"
proof (induction x)
  case (Sel al nm sels)
  then show ?case
    using plain_name_ascii [of al] plain_name_ascii [of nm] by (auto simp: ascii_def list_all_iff)
qed

lemma show_document_ascii: "list_all plain_operation doc \<Longrightarrow> ascii (show_document doc)"
proof (induction doc)
  case (Cons opn doc)
  then have "ascii (show_operation opn)"
    using plain_name_ascii [of "OpType opn"] plain_name_ascii [of "OpName opn"] show_selection_ascii
    by (auto simp: plain_operation_def show_operation_def ascii_def list_all_iff)
  then show ?case using Cons by (simp add: show_document_def ascii_def)
qed (simp add: show_document_def ascii_def)

section \<open>The properties of the parser\<close>

definition ascii_only :: unicode where
  "ascii_only = \<lparr>WideLetter = \<lambda>_. False, WideDigit = \<lambda>_. False\<rparr>"

text \<open>
  C12. A document printed from any operations whose names are words of letters, digits and underscores
  parses to exactly these operations: types, names, aliases and nested selections, in their order.
\<close>

theorem printed_documents_parse:
  "list_all plain_operation doc \<Longrightarrow> parseDocument u (show_document doc) = Inr doc"
  unfolding parseDocument_def by (simp add: runes_ascii [OF show_document_ascii] lex_def [symmetric] document_back)

theorem printed_documents_parse_witness:
  "parseDocument ascii_only ''query Cards{person{id full:name naming{short }}}''
     = Inr [\<lparr>OpType = ''query'', OpName = ''Cards'', OpSelections = [Sel [] ''person'' [Sel [] ''id'' [], Sel ''full'' ''name'' [], Sel [] ''naming'' [Sel [] ''short'' []]]]\<rparr>]"
proof -
  let ?doc = "[\<lparr>OpType = ''query'', OpName = ''Cards'', OpSelections = [Sel [] ''person'' [Sel [] ''id'' [], Sel ''full'' ''name'' [], Sel [] ''naming'' [Sel [] ''short'' []]]]\<rparr>]"
  have shown: "show_document ?doc = ''query Cards{person{id full:name naming{short }}}''"
    by (simp add: show_document_def show_operation_def)
  have "list_all plain_operation ?doc"
    by (simp add: plain_operation_def plain_name_def name_char_def ascii_letter_def)
  from printed_documents_parse [OF this, of ascii_only] show ?thesis unfolding shown by simp
qed

text \<open>
  C13. The parser always returns a document or one of the program's errors: whatever the text, the
  fuel of its recursion does not run out.
\<close>

theorem parseDocument_returns: "parseDocument u src \<noteq> Inl NoFuel"
  unfolding parseDocument_def by (rule parse_operations_fuel)

section \<open>What the parser misreads\<close>

text \<open>Where a spread stands between operations, the rest of the text is dropped without an error.\<close>

lemma spread_drops_the_rest:
  "parseDocument ascii_only ''{a}... {b}'' = Inr [\<lparr>OpType = ''query'', OpName = [], OpSelections = [Sel [] ''a'' []]\<rparr>]"
  by code_simp

text \<open>A closing parenthesis inside a quoted argument ends the arguments: what follows is read as fields.\<close>

lemma quoted_parenthesis_ends_arguments:
  "parseDocument ascii_only ''{a(x: \") y\") b}'' = Inl (ExpectedName '')'')"
  by code_simp

text \<open>Directives are read as fields of their own.\<close>

lemma directive_read_as_fields:
  "parseDocument ascii_only ''{a @skip b}''
     = Inr [\<lparr>OpType = ''query'', OpName = [], OpSelections = [Sel [] ''a'' [], Sel [] ''skip'' [], Sel [] ''b'' []]\<rparr>]"
  by code_simp

end
