(* ===== verification/Graphql_Import.thy ===== *)
theory Graphql_Import
  imports Graphql_Parser Import_Common
begin

text \<open>
  The importer of GraphQL queries (\<^verbatim>\<open>internal/importer/graphqlimport/graphqlimport.go\<close>): each
  selection of a query becomes a preset of the model it reads. A model is held twice, as the YAML
  node that is written back and as the decoded \<^verbatim>\<open>model.Model\<close>; both are changed. The YAML library,
  the digest, the file system and the order of map iteration are parameters.
\<close>

section \<open>YAML nodes\<close>

datatype node_kind = GMapping | GScalar | GOther

datatype gnode = GNode (NKind: node_kind) (NTag: string) (NValue: string) (NContent: "gnode list")

fun mapValueIndex :: "gnode list \<Rightarrow> string \<Rightarrow> nat option" where
  "mapValueIndex (k # v # rest) key =
     (if NValue k = key then Some 1 else map_option (\<lambda>i. i + 2) (mapValueIndex rest key))"
| "mapValueIndex _ key = None"

definition scalarNode :: "string \<Rightarrow> gnode" where
  "scalarNode v = GNode GScalar ''!!str'' v []"

definition empty_mapping :: gnode where
  "empty_mapping = GNode GMapping ''!!map'' [] []"

text \<open>The node after the call, and the index of the value the call returns a pointer to.\<close>

definition ensureMapValue :: "gnode \<Rightarrow> string \<Rightarrow> gnode \<times> nat" where
  "ensureMapValue root key =
     (case mapValueIndex (NContent root) key of
        Some i \<Rightarrow> (GNode GMapping (NTag root) (NValue root) (NContent root), i)
      | None \<Rightarrow> (GNode GMapping (NTag root) (NValue root) (NContent root @ [scalarNode key, empty_mapping]),
                 Suc (length (NContent root))))"

section \<open>State and parameters\<close>

record parsed_model =
  PMName :: string
  PMPath :: string
  PMNode :: gnode
  PMData :: model

datatype import_warning =
    SkipOperation string
  | SkipRootField string string
  | DefaultedType string string
  | FieldRelationNotFound string string
  | TargetNotFound string string string

datatype graphql_error =
    SyntaxError parse_error
  | SourceFailed string
  | ModelParseFailed string
  | ModelDecodeFailed string
  | PresetsNotMapping string
  | EncodeFailed string string
  | ModelFileMarshalFailed string

record import_state =
  GModels :: "(string, parsed_model) gomap"
  GCache :: "(string, string) gomap"
  GWarnings :: "import_warning list"

record yaml_preset_field =
  PYSource :: string
  PYType :: string
  PYAlias :: string
  PYPreset :: string
  PYLocalize :: bool

record genv =
  Digest :: "string \<Rightarrow> string"
  Encode :: "yaml_preset_field list \<Rightarrow> gnode option"
  Visit :: "(string, data_preset) gomap \<Rightarrow> (string, data_preset) gomap"
  IsDir :: "string \<Rightarrow> bool option"
  Glob :: "string \<Rightarrow> string \<Rightarrow> string list option"
  ReadFile :: "string \<Rightarrow> string option"
  ParseYAML :: "string \<Rightarrow> gnode option"
  DecodeNode :: "gnode \<Rightarrow> model option"
  MarshalNode :: "gnode \<Rightarrow> string option"

definition warn :: "import_warning \<Rightarrow> import_state \<Rightarrow> import_state" where
  "warn w st = st\<lparr>GWarnings := GWarnings st @ [w]\<rparr>"

section \<open>Names\<close>

function selectionSignature :: "selection \<Rightarrow> string" where
  "selectionSignature (Sel al nm sels) =
     join_str '','' (map (\<lambda>c.
       (if SelAlias c \<noteq> [] \<and> SelAlias c \<noteq> SelName c then SelAlias c @ '':'' @ SelName c else SelName c) @
       (if Selections c \<noteq> [] then ''{'' @ selectionSignature c @ ''}'' else [])) sels)"
  by pat_completeness auto
termination
  by (relation "measure size") (auto simp: size_list_estimation' less_Suc_eq_le)

definition shapeHash :: "genv \<Rightarrow> string \<Rightarrow> string" where
  "shapeHash env sig = take 8 (Digest env sig)"

definition presetNameForSelection :: "genv \<Rightarrow> operation \<Rightarrow> selection \<Rightarrow> string list \<Rightarrow> string" where
  "presetNameForSelection env opn sel path =
     (let root = (case path of [] \<Rightarrow> SelName sel | p # _ \<Rightarrow> p)
      in root @ (if OpName opn \<noteq> [] then ''__'' @ OpName opn else []) @
         ''__'' @ shapeHash env (selectionSignature sel) @
         (if path \<noteq> [] then ''__'' @ join_str ''__'' path else []))"

definition capital :: "string \<Rightarrow> string" where
  "capital p = (case p of [] \<Rightarrow> [] | c # cs \<Rightarrow> to_upper [c] @ cs)"

definition rootFieldToModelName :: "string \<Rightarrow> string" where
  "rootFieldToModelName root = concat (map capital (split_char (CHR ''_'') (trim_space root)))"

definition cacheKeyFor :: "string \<Rightarrow> string \<Rightarrow> string" where
  "cacheKeyFor modelName presetName = modelName @ ''::'' @ presetName"

section \<open>The types the presets already give\<close>

definition known_type :: "preset_field \<Rightarrow> (string, string) gomap \<Rightarrow> (string, string) gomap" where
  "known_type f out =
     (if FType f = [] \<or> FType f = ''preset'' \<or> FSource f = [] then out
      else if FSource f \<in> gokeys out then out
      else AList.update (FSource f) (FType f) out)"

definition collectKnownFieldTypes :: "genv \<Rightarrow> model \<Rightarrow> (string, string) gomap" where
  "collectKnownFieldTypes env m = fold known_type (concat (map (Fields \<circ> snd) (Visit env (Presets m)))) []"

section \<open>Presets of a model\<close>

definition toPresetYAML :: "preset_field list \<Rightarrow> yaml_preset_field list" where
  "toPresetYAML fs = map (\<lambda>f. \<lparr>PYSource = FSource f, PYType = FType f, PYAlias = FAlias f,
     PYPreset = NestedPreset f, PYLocalize = Localize f\<rparr>) fs"

text \<open>\<^verbatim>\<open>pm.Node.Content[0]\<close>; a node without content is not loaded.\<close>

definition node_root :: "parsed_model \<Rightarrow> gnode" where
  "node_root pm = hd (NContent (PMNode pm))"

definition set_root :: "gnode \<Rightarrow> parsed_model \<Rightarrow> parsed_model" where
  "set_root root pm = pm\<lparr>PMNode := (case PMNode pm of GNode k t v c \<Rightarrow> GNode k t v (c[0 := root]))\<rparr>"

definition put_preset :: "gnode \<Rightarrow> string \<Rightarrow> gnode \<Rightarrow> gnode" where
  "put_preset presets name fieldNode =
     (case mapValueIndex (NContent presets) name of
        Some i \<Rightarrow> GNode (NKind presets) (NTag presets) (NValue presets) ((NContent presets)[i := fieldNode])
      | None \<Rightarrow> GNode (NKind presets) (NTag presets) (NValue presets) (NContent presets @ [scalarNode name, fieldNode]))"

definition ensurePresetNode ::
  "genv \<Rightarrow> bool \<Rightarrow> string \<Rightarrow> string \<Rightarrow> preset_field list \<Rightarrow> import_state \<Rightarrow> graphql_error + import_state" where
  "ensurePresetNode env replace mn presetName fs st =
     (case map_of (GModels st) mn of
        None \<Rightarrow> Inr st
      | Some pm \<Rightarrow>
          (let (root, i) = ensureMapValue (node_root pm) ''presets'';
               presets = NContent root ! i;
               put = (\<lambda>pm'. st\<lparr>GModels := AList.update mn pm' (GModels st)\<rparr>)
           in if NKind presets \<noteq> GMapping then Inl (PresetsNotMapping (PMName pm))
              else if mapValueIndex (NContent presets) presetName \<noteq> None \<and> \<not> replace then Inr (put (set_root root pm))
              else (case Encode env (toPresetYAML fs) of
                  None \<Rightarrow> Inl (EncodeFailed (PMName pm) presetName)
                | Some fieldNode \<Rightarrow>
                    Inr (put (set_root (GNode (NKind root) (NTag root) (NValue root)
                                         ((NContent root)[i := put_preset presets presetName fieldNode]))
                                (pm\<lparr>PMData := (PMData pm)\<lparr>Presets := AList.update presetName (empty_preset\<lparr>Fields := fs\<rparr>) (Presets (PMData pm))\<rparr>\<rparr>))))))"

section \<open>Presets of a selection\<close>

definition model_data :: "import_state \<Rightarrow> string \<Rightarrow> model" where
  "model_data st mn = (case map_of (GModels st) mn of Some pm \<Rightarrow> PMData pm | None \<Rightarrow> empty_model)"

definition field_alias :: "string \<Rightarrow> string \<Rightarrow> preset_field \<Rightarrow> preset_field" where
  "field_alias al nm f = (if al \<noteq> [] \<and> al \<noteq> nm then f\<lparr>FAlias := al\<rparr> else f)"

definition leaf_type :: "(string, string) gomap \<Rightarrow> string \<Rightarrow> string" where
  "leaf_type types nm = (case map_of types nm of Some t \<Rightarrow> t | None \<Rightarrow> [])"

definition leaf_field :: "(string, string) gomap \<Rightarrow> string \<Rightarrow> string \<Rightarrow> preset_field" where
  "leaf_field types al nm =
     field_alias al nm (empty_field\<lparr>FSource := nm,
       FType := (if leaf_type types nm = [] then ''string'' else leaf_type types nm)\<rparr>)"

definition nested_field :: "string \<Rightarrow> string \<Rightarrow> string \<Rightarrow> preset_field" where
  "nested_field al nm preset = field_alias al nm (empty_field\<lparr>FSource := nm, FType := ''preset'', NestedPreset := preset\<rparr>)"

text \<open>
  The two functions that call each other; the loop of \<^verbatim>\<open>buildPresetFields\<close> is \<open>build_fields\<close>, with the
  types that were collected before it. A pointer to a parsed model is the name of its entry.
\<close>

function ensurePresetForSelection ::
    "genv \<Rightarrow> bool \<Rightarrow> operation \<Rightarrow> string \<Rightarrow> selection \<Rightarrow> string list \<Rightarrow> import_state \<Rightarrow> graphql_error + import_state"
  and build_fields ::
    "genv \<Rightarrow> bool \<Rightarrow> operation \<Rightarrow> string \<Rightarrow> (string, string) gomap \<Rightarrow> selection list \<Rightarrow> string list \<Rightarrow> import_state \<Rightarrow>
     graphql_error + preset_field list \<times> import_state" where
  "ensurePresetForSelection env replace opn mn (Sel al nm sels) path st =
     (let presetName = presetNameForSelection env opn (Sel al nm sels) path;
          cacheKey = cacheKeyFor mn presetName
      in case build_fields env replace opn mn (collectKnownFieldTypes env (model_data st mn)) sels path st of
           Inl e \<Rightarrow> Inl e
         | Inr (fs, st1) \<Rightarrow>
             (case map_of (GCache st) cacheKey of
                Some existing \<Rightarrow> ensurePresetNode env replace mn existing fs st1
              | None \<Rightarrow>
                  bind_res (ensurePresetNode env replace mn presetName fs st1) (\<lambda>st2.
                    Inr (st2\<lparr>GCache := AList.update cacheKey presetName (GCache st2)\<rparr>))))"
| "build_fields env replace opn mn types [] path st = Inr ([], st)"
| "build_fields env replace opn mn types (Sel al nm kids # rest) path st =
     (if kids = [] then
        bind_res (build_fields env replace opn mn types rest path
                    (if leaf_type types nm = [] then warn (DefaultedType mn nm) st else st)) (\<lambda>(fs, st').
          Inr (leaf_field types al nm # fs, st'))
      else (case map_of (Relations (model_data st mn)) nm of
          None \<Rightarrow> build_fields env replace opn mn types rest path (warn (FieldRelationNotFound mn nm) st)
        | Some rel \<Rightarrow>
            if map_of (GModels st) (RModel rel) = None then
              build_fields env replace opn mn types rest path (warn (TargetNotFound mn nm (RModel rel)) st)
            else (case ensurePresetForSelection env replace opn (RModel rel) (Sel al nm kids) (path @ [nm]) st of
                Inl e \<Rightarrow> Inl e
              | Inr st1 \<Rightarrow>
                  bind_res (build_fields env replace opn mn types rest path st1) (\<lambda>(fs, st').
                    Inr (nested_field al nm (presetNameForSelection env opn (Sel al nm kids) (path @ [nm])) # fs, st')))))"
  by pat_completeness auto
termination
  by (relation "measure (\<lambda>x. case x of Inl (_, _, _, _, s, _, _) \<Rightarrow> size s | Inr (_, _, _, _, _, ss, _, _) \<Rightarrow> size_list size ss)") auto

declare ensurePresetForSelection.simps [simp del] build_fields.simps(2) [simp del]

definition buildPresetFields ::
  "genv \<Rightarrow> bool \<Rightarrow> operation \<Rightarrow> string \<Rightarrow> selection \<Rightarrow> string list \<Rightarrow> import_state \<Rightarrow> graphql_error + preset_field list \<times> import_state" where
  "buildPresetFields env replace opn mn sel path st =
     build_fields env replace opn mn (collectKnownFieldTypes env (model_data st mn)) (Selections sel) path st"

section \<open>The documents and the models\<close>

definition apply_root :: "genv \<Rightarrow> bool \<Rightarrow> operation \<Rightarrow> selection \<Rightarrow> import_state \<Rightarrow> graphql_error + import_state" where
  "apply_root env replace opn root st =
     (let modelName = rootFieldToModelName (SelName root)
      in if map_of (GModels st) modelName = None then Inr (warn (SkipRootField (SelName root) modelName) st)
         else ensurePresetForSelection env replace opn modelName root [] st)"

definition apply_operation :: "genv \<Rightarrow> bool \<Rightarrow> operation \<Rightarrow> import_state \<Rightarrow> graphql_error + import_state" where
  "apply_operation env replace opn st =
     (if OpType opn \<noteq> [] \<and> OpType opn \<noteq> ''query'' then Inr (warn (SkipOperation (OpName opn)) st)
      else fold_res (apply_root env replace opn) (OpSelections opn) st)"

definition apply_operations :: "genv \<Rightarrow> bool \<Rightarrow> operation list \<Rightarrow> import_state \<Rightarrow> graphql_error + import_state" where
  "apply_operations env replace doc st = fold_res (apply_operation env replace) doc st"

text \<open>\<^verbatim>\<open>filepath.Base\<close> and \<^verbatim>\<open>filepath.Ext\<close> of the path of a file.\<close>

definition path_base :: "string \<Rightarrow> string" where
  "path_base p = (case last_split (CHR ''/'') p of None \<Rightarrow> p | Some (_, b) \<Rightarrow> b)"

definition path_ext :: "string \<Rightarrow> string" where
  "path_ext p = (case last_split (CHR ''.'') (path_base p) of None \<Rightarrow> [] | Some (_, e) \<Rightarrow> CHR ''.'' # e)"

definition model_name_of :: "string \<Rightarrow> string" where
  "model_name_of path =
     (let b = path_base path; e = path_ext path
      in if has_suffix b e then take (length b - length e) b else b)"

definition findParsedModelByPath :: "(string, parsed_model) gomap \<Rightarrow> string \<Rightarrow> parsed_model option" where
  "findParsedModelByPath models path = List.find (\<lambda>pm. PMPath pm = path) (map snd models)"

definition model_file :: "genv \<Rightarrow> (string, parsed_model) gomap \<Rightarrow> string \<Rightarrow> graphql_error + (string \<times> string) list" where
  "model_file env models path =
     (case findParsedModelByPath models path of
        None \<Rightarrow> Inr []
      | Some pm \<Rightarrow>
          (case MarshalNode env (PMNode pm) of
             None \<Rightarrow> Inl (ModelFileMarshalFailed (PMName pm))
           | Some raw \<Rightarrow> Inr [(path_base path, raw)]))"

definition load_model :: "genv \<Rightarrow> string \<Rightarrow> (string, parsed_model) gomap \<Rightarrow> graphql_error + (string, parsed_model) gomap" where
  "load_model env path out =
     (case ReadFile env path of
        None \<Rightarrow> Inl (SourceFailed path)
      | Some raw \<Rightarrow>
          (case ParseYAML env raw of
             None \<Rightarrow> Inl (ModelParseFailed path)
           | Some root \<Rightarrow>
               if NContent root = [] then Inr out
               else (case DecodeNode env root of
                   None \<Rightarrow> Inl (ModelDecodeFailed path)
                 | Some m \<Rightarrow>
                     (let name = model_name_of path
                      in Inr (AList.update name \<lparr>PMName = name, PMPath = path, PMNode = root, PMData = m\<lparr>MName := name\<rparr>\<rparr> out)))))"

definition loadModels :: "genv \<Rightarrow> string \<Rightarrow> graphql_error + (string, parsed_model) gomap" where
  "loadModels env dir =
     (case Glob env dir ''*.yml'' of None \<Rightarrow> Inl (SourceFailed dir) | Some files \<Rightarrow> fold_res (load_model env) files [])"

record graphql_options =
  GqlModelsDir :: string
  ReplacePresets :: bool

definition ApplyDocument ::
  "genv \<Rightarrow> operation list \<Rightarrow> graphql_options \<Rightarrow> graphql_error + (string \<times> string) list \<times> import_warning list" where
  "ApplyDocument env doc opts =
     (let modelsDir = (if is_blank (GqlModelsDir opts) then ''./db'' else trim_space (GqlModelsDir opts))
      in bind_res (loadModels env modelsDir) (\<lambda>models.
         bind_res (apply_operations env (ReplacePresets opts) doc \<lparr>GModels = models, GCache = [], GWarnings = []\<rparr>) (\<lambda>st.
         bind_res (map_res (model_file env (GModels st)) (sort (map (PMPath \<circ> snd) (GModels st)))) (\<lambda>files.
           Inr (concat files, GWarnings st)))))"

definition read_source :: "genv \<Rightarrow> string \<Rightarrow> graphql_error + string" where
  "read_source env path = (case ReadFile env path of None \<Rightarrow> Inl (SourceFailed path) | Some raw \<Rightarrow> Inr raw)"

definition readGraphQLSources :: "genv \<Rightarrow> string \<Rightarrow> graphql_error + string" where
  "readGraphQLSources env path =
     (case IsDir env path of
        None \<Rightarrow> Inl (SourceFailed path)
      | Some False \<Rightarrow> read_source env path
      | Some True \<Rightarrow>
          (case (Glob env path ''*.graphql'', Glob env path ''*.gql'') of
             (Some files, Some gqlFiles) \<Rightarrow>
               bind_res (map_res (read_source env) (sort (files @ gqlFiles))) (\<lambda>parts. Inr (join_str [CHR 0x0A] parts))
           | _ \<Rightarrow> Inl (SourceFailed path)))"

definition ImportFromPath ::
  "genv \<Rightarrow> unicode \<Rightarrow> string \<Rightarrow> graphql_options \<Rightarrow> graphql_error + (string \<times> string) list \<times> import_warning list" where
  "ImportFromPath env u path opts =
     bind_res (readGraphQLSources env path) (\<lambda>raw.
       case parseDocument u raw of Inl e \<Rightarrow> Inl (SyntaxError e) | Inr doc \<Rightarrow> ApplyDocument env doc opts)"

definition graphql_WriteFiles ::
  "(string \<Rightarrow> string option) \<Rightarrow> (string \<times> string) list \<Rightarrow> (string, string) gomap \<Rightarrow> string \<times> string + (string, string) gomap" where
  "graphql_WriteFiles fails files dir = fold_res (write_file fails) files dir"

section \<open>Keys of a mapping node\<close>

fun node_keys :: "gnode list \<Rightarrow> string list" where
  "node_keys (k # v # rest) = NValue k # node_keys rest"
| "node_keys _ = []"

lemma mapValueIndex_keys: "mapValueIndex c key = None \<longleftrightarrow> key \<notin> set (node_keys c)"
  by (induction c key rule: mapValueIndex.induct) auto

lemma mapValueIndex_odd: "mapValueIndex c key = Some i \<Longrightarrow> odd i \<and> i < length c"
  by (induction c key arbitrary: i rule: mapValueIndex.induct) (auto split: if_splits)

lemma node_keys_update: "odd i \<Longrightarrow> node_keys (c[i := x]) = node_keys c"
proof (induction c arbitrary: i rule: node_keys.induct)
  case (1 k v rest)
  obtain j where i: "i = Suc j" "even j" using 1(2) by (cases i) auto
  then show ?case using 1(1) [of "j - 1"] by (cases j) auto
qed (simp_all add: list_update_code(2) split: nat.split)

lemma mapValueIndex_update: "odd i \<Longrightarrow> mapValueIndex (c[i := x]) key = mapValueIndex c key"
proof (induction c key arbitrary: i rule: mapValueIndex.induct)
  case (1 k v rest key)
  obtain j where i: "i = Suc j" "even j" using 1(2) by (cases i) auto
  then show ?case using 1(1) [of "j - 1"] by (cases j) auto
qed (simp_all add: list_update_code(2) split: nat.split)

lemma node_keys_append: "even (length c) \<Longrightarrow> node_keys (c @ [scalarNode k, v]) = node_keys c @ [k]"
  by (induction c rule: node_keys.induct) (simp_all add: scalarNode_def)

lemma mapValueIndex_append:
  "even (length c) \<Longrightarrow> mapValueIndex c k = None \<Longrightarrow> mapValueIndex (c @ [scalarNode k, v]) k = Some (Suc (length c))"
  by (induction c k rule: mapValueIndex.induct) (auto simp: scalarNode_def split: if_splits)

text \<open>The presets that the YAML of a model names.\<close>

definition presets_node :: "gnode \<Rightarrow> gnode" where
  "presets_node root = (case mapValueIndex (NContent root) ''presets'' of None \<Rightarrow> empty_mapping | Some i \<Rightarrow> NContent root ! i)"

definition node_presets :: "parsed_model \<Rightarrow> string list" where
  "node_presets pm = node_keys (NContent (presets_node (node_root pm)))"

text \<open>A mapping holds keys and values in turn.\<close>

definition paired :: "parsed_model \<Rightarrow> bool" where
  "paired pm = (NContent (PMNode pm) \<noteq> [] \<and> even (length (NContent (node_root pm))) \<and>
     even (length (NContent (presets_node (node_root pm)))))"

lemma node_root_set_root: "NContent (PMNode pm) \<noteq> [] \<Longrightarrow> node_root (set_root root pm) = root \<and> NContent (PMNode (set_root root pm)) \<noteq> []"
  by (cases "PMNode pm"; cases "NContent (PMNode pm)") (auto simp: node_root_def set_root_def)

lemma ensureMapValue_presets:
  assumes "ensureMapValue root ''presets'' = (root', i)" "even (length (NContent root))"
  shows "NContent root' ! i = presets_node root \<and> mapValueIndex (NContent root') ''presets'' = Some i \<and> odd i \<and>
      i < length (NContent root') \<and> presets_node root' = presets_node root \<and> even (length (NContent root'))"
proof (cases "mapValueIndex (NContent root) ''presets''")
  case None
  then show ?thesis
    using assms mapValueIndex_append [of "NContent root" "''presets''" empty_mapping]
    by (auto simp: ensureMapValue_def presets_node_def nth_append)
next
  case (Some j)
  then show ?thesis
    using assms mapValueIndex_odd [OF Some] by (auto simp: ensureMapValue_def presets_node_def)
qed

lemma put_preset_keys:
  assumes "even (length (NContent p))"
  shows "set (node_keys (NContent (put_preset p name f))) = insert name (set (node_keys (NContent p)))"
    and "even (length (NContent (put_preset p name f)))"
proof -
  have "set (node_keys (NContent (put_preset p name f))) = insert name (set (node_keys (NContent p))) \<and>
      even (length (NContent (put_preset p name f)))"
  proof (cases "mapValueIndex (NContent p) name")
    case None
    then show ?thesis using assms by (auto simp: put_preset_def node_keys_append)
  next
    case (Some j)
    moreover have "name \<in> set (node_keys (NContent p))" using mapValueIndex_keys [of "NContent p" name] Some by auto
    ultimately show ?thesis using assms mapValueIndex_odd [OF Some] by (auto simp: put_preset_def node_keys_update)
  qed
  then show "set (node_keys (NContent (put_preset p name f))) = insert name (set (node_keys (NContent p)))"
    "even (length (NContent (put_preset p name f)))" by auto
qed

section \<open>What an import keeps\<close>

text \<open>A preset that the decoded model and the YAML of a model both hold.\<close>

definition has_preset :: "import_state \<Rightarrow> string \<Rightarrow> string \<Rightarrow> bool" where
  "has_preset st mn p = (\<exists>pm. map_of (GModels st) mn = Some pm \<and> p \<in> gokeys (Presets (PMData pm)))"

text \<open>A field that is a nested preset leads, through a relation of its model, to a preset that exists.\<close>

definition field_resolves :: "import_state \<Rightarrow> string \<Rightarrow> preset_field \<Rightarrow> bool" where
  "field_resolves st mn f =
     (FType f = ''preset'' \<longrightarrow>
        (\<exists>r. map_of (Relations (model_data st mn)) (FSource f) = Some r \<and> has_preset st (RModel r) (NestedPreset f)))"

definition model_ok :: "import_state \<Rightarrow> string \<Rightarrow> parsed_model \<Rightarrow> bool" where
  "model_ok st mn pm =
     (CHR '':'' \<notin> set mn \<and> paired pm \<and> set (node_presets pm) = gokeys (Presets (PMData pm)) \<and>
      (\<forall>p \<in> snd ` set (Presets (PMData pm)). \<forall>f \<in> set (Fields p). field_resolves st mn f))"

definition cache_ok :: "(string, string) gomap \<Rightarrow> bool" where
  "cache_ok cache = (\<forall>e \<in> set cache. \<exists>mn. CHR '':'' \<notin> set mn \<and> fst e = cacheKeyFor mn (snd e))"

definition gstate_ok :: "import_state \<Rightarrow> bool" where
  "gstate_ok st = ((\<forall>mn pm. map_of (GModels st) mn = Some pm \<longrightarrow> model_ok st mn pm) \<and> cache_ok (GCache st))"

text \<open>Models and their relations stay, and no preset goes.\<close>

definition state_grows :: "import_state \<Rightarrow> import_state \<Rightarrow> bool" where
  "state_grows st st' =
     ((\<forall>mn. map_option (Relations \<circ> PMData) (map_of (GModels st') mn) = map_option (Relations \<circ> PMData) (map_of (GModels st) mn)) \<and>
      (\<forall>mn p. has_preset st mn p \<longrightarrow> has_preset st' mn p))"

lemma state_grows_refl [simp]: "state_grows st st"
  by (simp add: state_grows_def)

lemma state_grows_trans: "state_grows a b \<Longrightarrow> state_grows b c \<Longrightarrow> state_grows a c"
  by (simp add: state_grows_def)

lemma state_grows_lookup: "state_grows st st' \<Longrightarrow> map_of (GModels st) mn \<noteq> None \<longleftrightarrow> map_of (GModels st') mn \<noteq> None"
  unfolding state_grows_def by (metis option.map_disc_iff)

lemma state_grows_relations: "state_grows st st' \<Longrightarrow> Relations (model_data st' mn) = Relations (model_data st mn)"
proof -
  assume "state_grows st st'"
  then have "map_option (Relations \<circ> PMData) (map_of (GModels st') mn) = map_option (Relations \<circ> PMData) (map_of (GModels st) mn)"
    by (simp add: state_grows_def)
  then show ?thesis by (auto simp: model_data_def split: option.splits)
qed

lemma field_resolves_grows: "field_resolves st mn f \<Longrightarrow> state_grows st st' \<Longrightarrow> field_resolves st' mn f"
  using state_grows_relations [of st st' mn] by (auto simp: field_resolves_def state_grows_def)

lemma same_models:
  assumes "GModels st' = GModels st"
  shows "state_grows st st'" "has_preset st' mn p = has_preset st mn p" "field_resolves st' mn f = field_resolves st mn f"
    "model_ok st' mn pm = model_ok st mn pm" "model_data st' mn = model_data st mn"
proof -
  have has: "has_preset st' = has_preset st" using assms by (auto simp: has_preset_def fun_eq_iff)
  have data: "model_data st' mn = model_data st mn" for mn using assms by (simp add: model_data_def)
  have resolves: "field_resolves st' mn f = field_resolves st mn f" for mn f by (simp add: field_resolves_def has data)
  show "state_grows st st'" using assms by (simp add: state_grows_def has)
  show "has_preset st' mn p = has_preset st mn p" "field_resolves st' mn f = field_resolves st mn f"
    "model_ok st' mn pm = model_ok st mn pm" "model_data st' mn = model_data st mn"
    by (simp_all add: has resolves data model_ok_def)
qed

lemma same_models_ok: "GModels st' = GModels st \<Longrightarrow> cache_ok (GCache st') \<Longrightarrow> gstate_ok st \<Longrightarrow> gstate_ok st'"
  using same_models(4) [of st' st] unfolding gstate_ok_def by simp

lemma warn_ok [simp]: "gstate_ok (warn w st) = gstate_ok st" "state_grows st (warn w st)" "GModels (warn w st) = GModels st" "GCache (warn w st) = GCache st"
proof -
  show same: "GModels (warn w st) = GModels st" "GCache (warn w st) = GCache st" by (simp_all add: warn_def)
  show "state_grows st (warn w st)" by (rule same_models(1) [OF same(1)])
  show "gstate_ok (warn w st) = gstate_ok st" unfolding gstate_ok_def using same_models(4) [OF same(1)] same by simp
qed

lemma replaced_model_grows:
  assumes "map_of (GModels st) mn = Some pm" "Relations (PMData pm') = Relations (PMData pm)"
    "gokeys (Presets (PMData pm)) \<subseteq> gokeys (Presets (PMData pm'))"
  shows "state_grows st (st\<lparr>GModels := AList.update mn pm' (GModels st)\<rparr>)"
  using assms unfolding state_grows_def has_preset_def by (auto simp: gomap_simps)

lemma replaced_model_ok:
  assumes st: "gstate_ok st" "map_of (GModels st) mn = Some pm"
    and pm': "Relations (PMData pm') = Relations (PMData pm)" "gokeys (Presets (PMData pm)) \<subseteq> gokeys (Presets (PMData pm'))"
      "paired pm'" "set (node_presets pm') = gokeys (Presets (PMData pm'))"
    and fs: "\<And>p f. p \<in> snd ` set (Presets (PMData pm')) \<Longrightarrow> f \<in> set (Fields p) \<Longrightarrow> field_resolves st mn f"
  shows "gstate_ok (st\<lparr>GModels := AList.update mn pm' (GModels st)\<rparr>)"
proof -
  let ?st' = "st\<lparr>GModels := AList.update mn pm' (GModels st)\<rparr>"
  have g: "state_grows st ?st'" by (rule replaced_model_grows [OF st(2) pm'(1,2)])
  have old: "model_ok st n q" if "map_of (GModels st) n = Some q" for n q using st(1) that by (simp add: gstate_ok_def)
  have kept: "model_ok ?st' n q" if "map_of (GModels st) n = Some q" for n q
  proof -
    have "field_resolves ?st' n f" if "p \<in> snd ` set (Presets (PMData q))" "f \<in> set (Fields p)" for p f
    proof (rule field_resolves_grows [OF _ g])
      show "field_resolves st n f" using old [OF \<open>map_of (GModels st) n = Some q\<close>] that unfolding model_ok_def by blast
    qed
    then show ?thesis using old [OF that] unfolding model_ok_def by simp
  qed
  have "model_ok ?st' mn pm'"
  proof -
    have "field_resolves ?st' mn f" if "p \<in> snd ` set (Presets (PMData pm'))" "f \<in> set (Fields p)" for p f
      using fs [OF that] g by (rule field_resolves_grows)
    moreover have "CHR '':'' \<notin> set mn" using old [OF st(2)] by (simp add: model_ok_def)
    ultimately show ?thesis using pm'(3,4) unfolding model_ok_def by simp
  qed
  then have "model_ok ?st' n q" if "map_of (GModels ?st') n = Some q" for n q
    using that kept [of n q] by (cases "n = mn") (simp_all add: gomap_simps)
  moreover have "cache_ok (GCache ?st')" using st(1) by (simp add: gstate_ok_def)
  ultimately show ?thesis unfolding gstate_ok_def by blast
qed

lemma empty_preset_fields [simp]: "Fields (empty_preset\<lparr>Fields := fs\<rparr>) = fs"
  by simp

lemma set_root_data [simp]: "PMData (set_root root pm) = PMData pm" "PMName (set_root root pm) = PMName pm"
  by (simp_all add: set_root_def)

lemma node_root_data [simp]: "node_root (pm\<lparr>PMData := d\<rparr>) = node_root pm" "PMNode (pm\<lparr>PMData := d\<rparr>) = PMNode pm"
  by (simp_all add: node_root_def)

lemma ensurePresetNode_ok:
  assumes ok: "gstate_ok st" and pm: "map_of (GModels st) mn = Some pm"
    and fs: "\<And>f. f \<in> set fs \<Longrightarrow> field_resolves st mn f"
    and run: "ensurePresetNode env replace mn name fs st = Inr st'"
  shows "gstate_ok st' \<and> state_grows st st' \<and> has_preset st' mn name \<and> GCache st' = GCache st"
proof -
  have m: "model_ok st mn pm" using ok pm by (simp add: gstate_ok_def)
  then have content: "NContent (PMNode pm) \<noteq> []" and even_root: "even (length (NContent (node_root pm)))"
    and even_presets: "even (length (NContent (presets_node (node_root pm))))"
    and synced: "set (node_presets pm) = gokeys (Presets (PMData pm))"
    by (simp_all add: model_ok_def paired_def)
  obtain root i where e: "ensureMapValue (node_root pm) ''presets'' = (root, i)" by (cases "ensureMapValue (node_root pm) ''presets''")
  note at = ensureMapValue_presets [OF e even_root]
  define presets where "presets = presets_node (node_root pm)"
  have value_i: "NContent root ! i = presets" using at by (simp add: presets_def)
  have mapping: "NKind presets = GMapping"
    using run pm e value_i by (auto simp: ensurePresetNode_def Let_def split: if_splits)
  show ?thesis
  proof (cases "mapValueIndex (NContent presets) name \<noteq> None \<and> \<not> replace")
    case True
    define pm' where "pm' = set_root root pm"
    have st': "st' = st\<lparr>GModels := AList.update mn pm' (GModels st)\<rparr>"
      using run pm e value_i mapping True by (simp add: ensurePresetNode_def pm'_def Let_def)
    have root': "node_root pm' = root" "NContent (PMNode pm') \<noteq> []" using node_root_set_root [OF content] by (simp_all add: pm'_def)
    have same: "node_presets pm' = node_presets pm" using at root' by (simp add: node_presets_def)
    have "gstate_ok st'" unfolding st'
    proof (rule replaced_model_ok [OF ok pm])
      show "paired pm'" using root' at even_presets by (simp add: paired_def)
    qed (use m synced same in \<open>auto simp: pm'_def model_ok_def\<close>)
    moreover have "state_grows st st'" unfolding st' by (rule replaced_model_grows [OF pm]) (simp_all add: pm'_def)
    moreover have "name \<in> set (node_presets pm)"
      using True unfolding mapValueIndex_keys node_presets_def presets_def by simp
    ultimately show ?thesis using synced pm by (auto simp: has_preset_def state_grows_def st' pm'_def gomap_simps)
  next
    case False
    obtain fieldNode where enc: "Encode env (toPresetYAML fs) = Some fieldNode"
      using run pm e value_i mapping False by (auto simp: ensurePresetNode_def Let_def split: option.splits)
    define root2 where "root2 = GNode (NKind root) (NTag root) (NValue root) ((NContent root)[i := put_preset presets name fieldNode])"
    define pm1 where "pm1 = pm\<lparr>PMData := (PMData pm)\<lparr>Presets := AList.update name (empty_preset\<lparr>Fields := fs\<rparr>) (Presets (PMData pm))\<rparr>\<rparr>"
    define pm' where "pm' = set_root root2 pm1"
    have st': "st' = st\<lparr>GModels := AList.update mn pm' (GModels st)\<rparr>"
      using run pm e value_i mapping False enc unfolding pm'_def pm1_def root2_def
      by (simp only: ensurePresetNode_def Let_def option.case prod.case if_False if_not_P value_i HOL.simp_thms) simp
    have root': "node_root pm' = root2" "NContent (PMNode pm') \<noteq> []"
      using node_root_set_root [of pm1 root2] content by (simp_all add: pm'_def pm1_def)
    have node2: "presets_node root2 = put_preset presets name fieldNode"
      unfolding presets_node_def [of root2] unfolding root2_def using at by (simp add: mapValueIndex_update)
    have keys: "set (node_presets pm') = insert name (set (node_presets pm))"
      using put_preset_keys(1) [of presets name fieldNode] even_presets root'(1) node2 by (simp add: node_presets_def presets_def)
    have data: "PMData pm' = (PMData pm)\<lparr>Presets := AList.update name (empty_preset\<lparr>Fields := fs\<rparr>) (Presets (PMData pm))\<rparr>"
      by (simp add: pm'_def pm1_def)
    have has: "gokeys (Presets (PMData pm')) = insert name (gokeys (Presets (PMData pm)))" by (simp add: data gomap_simps)
    have g: "state_grows st st'" unfolding st' by (rule replaced_model_grows [OF pm]) (use has data in auto)
    have "gstate_ok st'" unfolding st'
    proof (rule replaced_model_ok [OF ok pm])
      show "paired pm'" using root' at even_presets put_preset_keys(2) [of presets name fieldNode] node2
        by (simp add: paired_def root2_def [symmetric]) (simp add: root2_def presets_def)
      show "field_resolves st mn f" if "p \<in> snd ` set (Presets (PMData pm'))" "f \<in> set (Fields p)" for p f
      proof -
        have "p = empty_preset\<lparr>Fields := fs\<rparr> \<or> p \<in> snd ` set (Presets (PMData pm))"
          using that(1) by (auto simp: data dest!: update_members)
        then show ?thesis using that(2) fs m by (auto simp: model_ok_def)
      qed
    qed (use has keys synced data in auto)
    then show ?thesis using g has by (auto simp: has_preset_def st' gomap_simps)
  qed
qed

lemma cacheKeyFor_inject: "CHR '':'' \<notin> set m \<Longrightarrow> CHR '':'' \<notin> set n \<Longrightarrow> cacheKeyFor m p = cacheKeyFor n q \<longleftrightarrow> m = n \<and> p = q"
proof -
  assume free: "CHR '':'' \<notin> set m" "CHR '':'' \<notin> set n"
  have cut: "takeWhile (\<lambda>c. c \<noteq> CHR '':'') (cacheKeyFor x y) = x" if "CHR '':'' \<notin> set x" for x y
    using that by (induction x) (auto simp: cacheKeyFor_def)
  show ?thesis using cut [OF free(1), of p] cut [OF free(2), of q] by (auto simp: cacheKeyFor_def)
qed

lemma cached_name:
  assumes "cache_ok cache" "map_of cache (cacheKeyFor mn p) = Some existing" "CHR '':'' \<notin> set mn"
  shows "existing = p"
proof -
  have "(cacheKeyFor mn p, existing) \<in> set cache" using assms(2) by (rule map_of_SomeD)
  then have "\<exists>mn'. CHR '':'' \<notin> set mn' \<and> cacheKeyFor mn p = cacheKeyFor mn' existing"
    using assms(1) unfolding cache_ok_def by fastforce
  then obtain mn' where other: "CHR '':'' \<notin> set mn'" "cacheKeyFor mn p = cacheKeyFor mn' existing" by (elim exE conjE)
  show ?thesis using other(2) cacheKeyFor_inject [OF assms(3) other(1), of p existing] by simp
qed

lemma cache_ok_update: "cache_ok cache \<Longrightarrow> CHR '':'' \<notin> set mn \<Longrightarrow> cache_ok (AList.update (cacheKeyFor mn p) p cache)"
proof -
  assume ok: "cache_ok cache" and colon: "CHR '':'' \<notin> set mn"
  have "\<exists>n. CHR '':'' \<notin> set n \<and> fst e = cacheKeyFor n (snd e)" if e: "e \<in> set (AList.update (cacheKeyFor mn p) p cache)" for e
    using update_members [OF e]
  proof
    assume "e \<in> set cache"
    then show ?thesis using ok unfolding cache_ok_def by blast
  qed (use colon in auto)
  then show ?thesis unfolding cache_ok_def by blast
qed

lemma known_types_not_preset: "''preset'' \<notin> snd ` set (collectKnownFieldTypes env m)"
proof -
  have "''preset'' \<notin> snd ` set (fold known_type fs out)" if "''preset'' \<notin> snd ` set out" for fs and out :: "(string, string) gomap"
    using that
  proof (induction fs arbitrary: out)
    case (Cons f fs)
    have "''preset'' \<notin> snd ` set (known_type f out)"
      using Cons.prems by (auto simp: known_type_def dest!: update_members)
    then show ?case using Cons.IH by simp
  qed simp
  then show ?thesis by (simp add: collectKnownFieldTypes_def)
qed

lemma field_alias_simps [simp]:
  "FType (field_alias al nm f) = FType f" "FSource (field_alias al nm f) = FSource f" "NestedPreset (field_alias al nm f) = NestedPreset f"
  by (simp_all add: field_alias_def)

lemma leaf_resolves:
  assumes "''preset'' \<notin> snd ` set types"
  shows "field_resolves st mn (leaf_field types al nm)"
proof -
  have "leaf_type types nm \<noteq> ''preset''"
    using assms by (auto simp: leaf_type_def split: option.splits dest!: map_of_SomeD) force
  then show ?thesis by (auto simp: field_resolves_def leaf_field_def)
qed

text \<open>What a run of the two functions leaves.\<close>

definition run_ok :: "import_state \<Rightarrow> import_state \<Rightarrow> bool" where
  "run_ok st st' = (gstate_ok st' \<and> state_grows st st')"

lemma run_ok_trans: "run_ok a b \<Longrightarrow> run_ok b c \<Longrightarrow> run_ok a c"
  using state_grows_trans [of a b c] by (simp add: run_ok_def)

lemma ensure_step:
  assumes st: "gstate_ok st" "map_of (GModels st) mn \<noteq> None"
    and built: "run_ok st st1" "\<And>f. f \<in> set fs \<Longrightarrow> field_resolves st1 mn f"
    and run: "(case map_of (GCache st) (cacheKeyFor mn name) of
        Some existing \<Rightarrow> ensurePresetNode env replace mn existing fs st1
      | None \<Rightarrow> bind_res (ensurePresetNode env replace mn name fs st1) (\<lambda>st2.
          Inr (st2\<lparr>GCache := AList.update (cacheKeyFor mn name) name (GCache st2)\<rparr>))) = Inr st'"
  shows "run_ok st st' \<and> has_preset st' mn name"
proof -
  have colon: "CHR '':'' \<notin> set mn" using st unfolding gstate_ok_def model_ok_def by blast
  have st1: "gstate_ok st1" "state_grows st st1" using built(1) by (simp_all add: run_ok_def)
  obtain pm where pm: "map_of (GModels st1) mn = Some pm" using state_grows_lookup [OF st1(2), of mn] st(2) by auto
  note node = ensurePresetNode_ok [OF st1(1) pm built(2)]
  show ?thesis
  proof (cases "map_of (GCache st) (cacheKeyFor mn name)")
    case (Some existing)
    have "existing = name" using cached_name [OF _ Some colon] st(1) by (simp add: gstate_ok_def)
    then have "ensurePresetNode env replace mn name fs st1 = Inr st'" using run Some by simp
    from node [OF _ this] show ?thesis using state_grows_trans [OF st1(2)] by (simp add: run_ok_def)
  next
    case None
    obtain st2 where st2: "ensurePresetNode env replace mn name fs st1 = Inr st2"
      and st': "st' = st2\<lparr>GCache := AList.update (cacheKeyFor mn name) name (GCache st2)\<rparr>"
      using run None by (cases "ensurePresetNode env replace mn name fs st1") simp_all
    have done2: "gstate_ok st2" "state_grows st1 st2" "has_preset st2 mn name" using node [OF _ st2] by simp_all
    have same: "GModels st' = GModels st2" by (simp add: st')
    have "cache_ok (GCache st')" using cache_ok_update [OF _ colon] done2(1) by (simp add: st' gstate_ok_def)
    then have "gstate_ok st'" by (rule same_models_ok [OF same]) (fact done2(1))
    moreover have "state_grows st st'" by (rule state_grows_trans [OF st1(2) state_grows_trans [OF done2(2) same_models(1) [OF same]]])
    ultimately show ?thesis using done2(3) same_models(2) [OF same] by (simp add: run_ok_def)
  qed
qed

lemma import_ok:
  "gstate_ok st \<Longrightarrow> map_of (GModels st) mn \<noteq> None \<Longrightarrow> ensurePresetForSelection env replace opn mn sel path st = Inr st' \<Longrightarrow>
     run_ok st st' \<and> has_preset st' mn (presetNameForSelection env opn sel path)"
  "gstate_ok st \<Longrightarrow> map_of (GModels st) mn \<noteq> None \<Longrightarrow> ''preset'' \<notin> snd ` set types \<Longrightarrow>
     build_fields env replace opn mn types sels path st = Inr (fs, st') \<Longrightarrow>
     run_ok st st' \<and> (\<forall>f \<in> set fs. field_resolves st' mn f)"
proof (induction env replace opn mn sel path st and env replace opn mn types sels path st
    arbitrary: st' and fs st' rule: ensurePresetForSelection_build_fields.induct)
  case (1 env replace opn mn al nm sels path st)
  let ?types = "collectKnownFieldTypes env (model_data st mn)"
  let ?name = "presetNameForSelection env opn (Sel al nm sels) path"
  obtain fs st1 where built: "build_fields env replace opn mn ?types sels path st = Inr (fs, st1)"
    using 1(4) by (cases "build_fields env replace opn mn ?types sels path st") (auto simp: ensurePresetForSelection.simps Let_def)
  have "run_ok st st1 \<and> (\<forall>f \<in> set fs. field_resolves st1 mn f)"
    by (rule 1(1) [OF refl refl 1(2,3) known_types_not_preset built])
  then show ?case
    using ensure_step [OF 1(2,3), where ?st1.0 = st1 and fs = fs and name = ?name and st' = st'] 1(4) built by (simp add: ensurePresetForSelection.simps Let_def)
next
  case (2 env replace opn mn types path st)
  then show ?case by (simp add: run_ok_def)
next
  case (3 env replace opn mn types al nm kids rest path st)
  note st = \<open>gstate_ok st\<close> \<open>map_of (GModels st) mn \<noteq> None\<close> \<open>''preset'' \<notin> snd ` set types\<close>
  note run = \<open>build_fields env replace opn mn types (Sel al nm kids # rest) path st = Inr (fs, st')\<close>
  show ?case
  proof (cases "kids = []")
    case True
    define st0 where "st0 = (if leaf_type types nm = [] then warn (DefaultedType mn nm) st else st)"
    have st0: "gstate_ok st0" "map_of (GModels st0) mn \<noteq> None" "run_ok st st0" using st by (simp_all add: st0_def run_ok_def)
    obtain gs where rest: "build_fields env replace opn mn types rest path st0 = Inr (gs, st')" and fs: "fs = leaf_field types al nm # gs"
      using run True by (auto simp: build_fields.simps(2) st0_def [symmetric] res_simps)
    have "run_ok st0 st' \<and> (\<forall>f \<in> set gs. field_resolves st' mn f)"
      using 3(1) [OF True] st0 st(3) rest unfolding st0_def by blast
    then show ?thesis using run_ok_trans [OF st0(3)] leaf_resolves [OF st(3)] fs by simp
  next
    case False
    note step = run [unfolded build_fields.simps(2) if_not_P [OF False]]
    show ?thesis
    proof (cases "map_of (Relations (model_data st mn)) nm")
      case None
      have "run_ok (warn (FieldRelationNotFound mn nm) st) st' \<and> (\<forall>f \<in> set fs. field_resolves st' mn f)"
        by (rule 3(2) [OF False None _ _ st(3)]) (use st step None in simp_all)
      then show ?thesis using run_ok_trans [of st "warn (FieldRelationNotFound mn nm) st" st'] st by (simp add: run_ok_def [of st "warn _ _"])
    next
      case (Some rel)
      show ?thesis
      proof (cases "map_of (GModels st) (RModel rel) = None")
        case True
        have "run_ok (warn (TargetNotFound mn nm (RModel rel)) st) st' \<and> (\<forall>f \<in> set fs. field_resolves st' mn f)"
          by (rule 3(3) [OF False Some True _ _ st(3)]) (use st step Some True in simp_all)
        then show ?thesis
          using run_ok_trans [of st "warn (TargetNotFound mn nm (RModel rel)) st" st'] st by (simp add: run_ok_def [of st "warn _ _"])
      next
        case target: False
        define name where "name = presetNameForSelection env opn (Sel al nm kids) (path @ [nm])"
        obtain st1 where child: "ensurePresetForSelection env replace opn (RModel rel) (Sel al nm kids) (path @ [nm]) st = Inr st1"
          using step Some target by (cases "ensurePresetForSelection env replace opn (RModel rel) (Sel al nm kids) (path @ [nm]) st") simp_all
        obtain gs where rest: "build_fields env replace opn mn types rest path st1 = Inr (gs, st')" and fs: "fs = nested_field al nm name # gs"
          using step Some target child by (auto simp: res_simps name_def)
        have one: "run_ok st st1" "has_preset st1 (RModel rel) name"
          using 3(4) [OF False Some target st(1) target child] by (simp_all add: name_def)
        then have st1: "gstate_ok st1" "map_of (GModels st1) mn \<noteq> None"
          using state_grows_lookup [of st st1 mn] st(2) by (simp_all add: run_ok_def)
        have more: "run_ok st1 st' \<and> (\<forall>f \<in> set gs. field_resolves st' mn f)"
          by (rule 3(5) [OF False Some target child st1 st(3) rest])
        have "state_grows st st1" "state_grows st1 st'" using one(1) more by (simp_all add: run_ok_def)
        then have "map_of (Relations (model_data st1 mn)) nm = Some rel" using Some state_grows_relations [of st st1 mn] by simp
        then have "field_resolves st1 mn (nested_field al nm name)"
          using one(2) by (simp add: field_resolves_def nested_field_def)
        then have "field_resolves st' mn (nested_field al nm name)" using \<open>state_grows st1 st'\<close> by (rule field_resolves_grows)
        then show ?thesis using run_ok_trans [OF one(1)] more fs by simp
      qed
    qed
  qed
qed

section \<open>Whole documents\<close>

text \<open>An operation whose root fields are imported.\<close>

definition is_query :: "operation \<Rightarrow> bool" where
  "is_query opn = (OpType opn = [] \<or> OpType opn = ''query'')"

definition root_imported :: "genv \<Rightarrow> import_state \<Rightarrow> import_state \<Rightarrow> operation \<Rightarrow> selection \<Rightarrow> bool" where
  "root_imported env st st' opn root =
     (map_of (GModels st) (rootFieldToModelName (SelName root)) \<noteq> None \<longrightarrow>
      has_preset st' (rootFieldToModelName (SelName root)) (presetNameForSelection env opn root []))"

lemma root_imported_grows: "root_imported env st st1 opn root \<Longrightarrow> state_grows st1 st2 \<Longrightarrow> root_imported env st st2 opn root"
  by (auto simp: root_imported_def state_grows_def)

lemma root_imported_earlier: "root_imported env st1 st2 opn root \<Longrightarrow> state_grows st st1 \<Longrightarrow> root_imported env st st2 opn root"
  using state_grows_lookup [of st st1 "rootFieldToModelName (SelName root)"] by (auto simp: root_imported_def)

lemma apply_root_ok:
  assumes "gstate_ok st" "apply_root env replace opn root st = Inr st'"
  shows "run_ok st st' \<and> root_imported env st st' opn root"
proof (cases "map_of (GModels st) (rootFieldToModelName (SelName root)) = None")
  case True
  then show ?thesis using assms by (auto simp: apply_root_def root_imported_def run_ok_def)
next
  case False
  have "ensurePresetForSelection env replace opn (rootFieldToModelName (SelName root)) root [] st = Inr st'"
    using assms(2) unfolding apply_root_def Let_def if_not_P [OF False] .
  from import_ok(1) [OF assms(1) False this] show ?thesis by (simp add: root_imported_def)
qed

text \<open>A loop whose steps each leave a fact that later steps keep.\<close>

lemma fold_res_collects:
  assumes step: "\<And>x s s'. x \<in> set xs \<Longrightarrow> gstate_ok s \<Longrightarrow> f x s = Inr s' \<Longrightarrow> run_ok s s' \<and> P s s' x"
    and later: "\<And>x a b c. P a b x \<Longrightarrow> state_grows b c \<Longrightarrow> P a c x"
    and earlier: "\<And>x a b c. P b c x \<Longrightarrow> state_grows a b \<Longrightarrow> P a c x"
  shows "gstate_ok st \<Longrightarrow> fold_res f xs st = Inr st' \<Longrightarrow> run_ok st st' \<and> (\<forall>x \<in> set xs. P st st' x)"
  using step
proof (induction xs arbitrary: st)
  case Nil
  then show ?case by (simp add: run_ok_def)
next
  case (Cons x xs)
  obtain s where s: "f x st = Inr s" "fold_res f xs s = Inr st'" using Cons.prems(2) by (cases "f x st") auto
  have one: "run_ok st s" "P st s x" using Cons.prems(3) [of x st s] Cons.prems(1) s(1) by simp_all
  have more: "run_ok s st'" "\<forall>y \<in> set xs. P s st' y"
    using Cons.IH [OF _ s(2)] one(1) Cons.prems(3) by (auto simp: run_ok_def)
  have g: "state_grows st s" "state_grows s st'" using one(1) more(1) by (simp_all add: run_ok_def)
  show ?case using run_ok_trans [OF one(1) more(1)] later [OF one(2) g(2)] earlier [OF _ g(1)] more(2) by simp
qed

lemma apply_operation_ok:
  assumes "gstate_ok st" "apply_operation env replace opn st = Inr st'"
  shows "run_ok st st' \<and> (is_query opn \<longrightarrow> (\<forall>root \<in> set (OpSelections opn). root_imported env st st' opn root))"
proof (cases "is_query opn")
  case True
  then have "fold_res (apply_root env replace opn) (OpSelections opn) st = Inr st'"
    using assms(2) by (auto simp: apply_operation_def is_query_def split: if_splits)
  then have "run_ok st st' \<and> (\<forall>root \<in> set (OpSelections opn). root_imported env st st' opn root)"
    by (rule fold_res_collects [rotated 4])
      (use assms(1) apply_root_ok root_imported_grows root_imported_earlier in blast)+
  then show ?thesis by blast
next
  case False
  then show ?thesis using assms by (auto simp: apply_operation_def is_query_def run_ok_def split: if_splits)
qed

text \<open>
  C9. An import of queries keeps every preset resolvable: when each nested preset of the loaded models
  leads, through a relation, to a preset that exists, and the YAML of each model names the presets that
  were decoded from it, then both hold of the models after the import, no relation is changed and no
  preset is lost, and each root field of a query whose model exists has its preset there. It holds with
  and without replacing presets, and for every digest, encoder and order of map iteration.
\<close>

theorem imported_presets_resolve:
  assumes "gstate_ok st" "apply_operations env replace doc st = Inr st'"
  shows "gstate_ok st' \<and> state_grows st st' \<and>
    (\<forall>opn \<in> set doc. is_query opn \<longrightarrow> (\<forall>root \<in> set (OpSelections opn). root_imported env st st' opn root))"
proof -
  have "run_ok st st' \<and> (\<forall>opn \<in> set doc. is_query opn \<longrightarrow> (\<forall>root \<in> set (OpSelections opn). root_imported env st st' opn root))"
    using assms unfolding apply_operations_def
    by (rule fold_res_collects [where P = "\<lambda>a b opn. is_query opn \<longrightarrow> (\<forall>root \<in> set (OpSelections opn). root_imported env a b opn root)", rotated 3])
      (use apply_operation_ok root_imported_grows root_imported_earlier in blast)+
  then show ?thesis by (simp add: run_ok_def)
qed

section \<open>A small import\<close>

definition demo_env :: genv where
  "demo_env = \<lparr>Digest = \<lambda>s. ''00000000'' @ s, Encode = \<lambda>fs. Some (GNode GMapping ''!!map'' [] []), Visit = \<lambda>ps. ps,
     IsDir = \<lambda>p. Some False, Glob = \<lambda>d p. Some [], ReadFile = \<lambda>p. None, ParseYAML = \<lambda>raw. None,
     DecodeNode = \<lambda>n. None, MarshalNode = \<lambda>n. None\<rparr>"

definition demo_node :: gnode where
  "demo_node = GNode GOther [] [] [GNode GMapping ''!!map'' []
     [scalarNode ''presets'', GNode GMapping ''!!map'' [] [scalarNode ''item'', empty_mapping]]]"

definition demo_presets :: "(string, data_preset) gomap" where
  "demo_presets = [(''item'', empty_preset\<lparr>Fields := [empty_field\<lparr>FSource := ''id'', FType := ''int''\<rparr>]\<rparr>)]"

definition demo_models :: "(string, parsed_model) gomap" where
  "demo_models =
     [(''User'', \<lparr>PMName = ''User'', PMPath = ''db/User.yml'', PMNode = demo_node,
         PMData = empty_model\<lparr>MName := ''User'', Relations := [(''posts'', empty_relation\<lparr>RType := ''has_many'', RModel := ''Post''\<rparr>)],
                              Presets := demo_presets\<rparr>\<rparr>),
      (''Post'', \<lparr>PMName = ''Post'', PMPath = ''db/Post.yml'', PMNode = demo_node,
         PMData = empty_model\<lparr>MName := ''Post'', Presets := demo_presets\<rparr>\<rparr>)]"

definition demo_state :: import_state where
  "demo_state = \<lparr>GModels = demo_models, GCache = [], GWarnings = []\<rparr>"

definition demo_query :: operation where
  "demo_query = \<lparr>OpType = ''query'', OpName = ''Q'', OpSelections = [Sel [] ''user'' [Sel [] ''id'' [], Sel ''all'' ''posts'' [Sel [] ''title'' []]]]\<rparr>"

lemma demo_state_ok: "gstate_ok demo_state"
proof -
  have keys: "set (node_presets pm) = {''item''}" "paired pm" if "PMNode pm = demo_node" for pm
    using that by (simp_all add: node_presets_def node_root_def presets_node_def demo_node_def scalarNode_def empty_mapping_def paired_def)
  have "model_ok demo_state mn pm" if "map_of demo_models mn = Some pm" for mn pm
    using that keys [of pm]
    by (auto simp: demo_models_def model_ok_def demo_presets_def field_resolves_def empty_field_def split: if_splits)
  then show ?thesis by (simp add: gstate_ok_def demo_state_def cache_ok_def)
qed

lemma demo_run: "is_ok (apply_operations demo_env False [demo_query] demo_state)"
  by code_simp

theorem imported_presets_resolve_witness:
  "\<exists>st'. apply_operations demo_env False [demo_query] demo_state = Inr st' \<and> gstate_ok st' \<and>
     has_preset st' ''User'' ''user__Q__00000000''"
proof -
  obtain st' where st': "apply_operations demo_env False [demo_query] demo_state = Inr st'"
    using demo_run by (cases "apply_operations demo_env False [demo_query] demo_state") auto
  have name: "presetNameForSelection demo_env demo_query (Sel [] ''user'' [Sel [] ''id'' [], Sel ''all'' ''posts'' [Sel [] ''title'' []]]) [] = ''user__Q__00000000''"
    "rootFieldToModelName ''user'' = ''User''"
    by code_simp+
  show ?thesis
    using imported_presets_resolve [OF demo_state_ok st'] st' name
    by (intro exI [of _ st']) (simp add: is_query_def demo_query_def root_imported_def demo_state_def demo_models_def)
qed

text \<open>The type of a field comes from the preset the loop over the presets visits first.\<close>

lemma known_type_depends_on_order:
  "\<exists>m. map_of (collectKnownFieldTypes (demo_env\<lparr>Visit := \<lambda>ps. ps\<rparr>) m) ''at'' \<noteq>
       map_of (collectKnownFieldTypes (demo_env\<lparr>Visit := rev\<rparr>) m) ''at''"
  by (rule exI [of _ "empty_model\<lparr>Presets :=
        [(''a'', empty_preset\<lparr>Fields := [empty_field\<lparr>FSource := ''at'', FType := ''date''\<rparr>]\<rparr>),
         (''b'', empty_preset\<lparr>Fields := [empty_field\<lparr>FSource := ''at'', FType := ''datetime''\<rparr>]\<rparr>)]\<rparr>"])
    (simp add: collectKnownFieldTypes_def known_type_def gomap_simps)

end
