(* ===== verification/Prisma_Import.thy ===== *)
theory Prisma_Import
  imports Import_Common Formatter
begin

text \<open>
  The importer of Prisma schemas (\<^verbatim>\<open>internal/importer/prismaimport/prismaimport.go\<close>). Its regular
  expressions are written out as scanners; the YAML library, the file system and the order in which
  maps are visited are parameters.
\<close>

section \<open>Scanners\<close>

text \<open>\<^verbatim>\<open>\s\<close> and the characters of identifiers.\<close>

definition re_space :: "char \<Rightarrow> bool" where
  "re_space c = (c = CHR '' '' \<or> c = CHR 0x09 \<or> c = CHR 0x0A \<or> c = CHR 0x0C \<or> c = CHR 0x0D)"

definition ident_start :: "char \<Rightarrow> bool" where
  "ident_start c = (let n = of_char c :: nat in 65 \<le> n \<and> n \<le> 90 \<or> 97 \<le> n \<and> n \<le> 122 \<or> n = 95)"

definition ident_part :: "char \<Rightarrow> bool" where
  "ident_part c = (ident_start c \<or> is_digit c)"

definition skip_spaces :: "string \<Rightarrow> string" where
  "skip_spaces s = dropWhile re_space s"

definition expect :: "string \<Rightarrow> string \<Rightarrow> string option" where
  "expect p s = (if has_prefix s p then Some (drop (length p) s) else None)"

text \<open>\<^verbatim>\<open>^\s*kw\s+([A-Za-z_][A-Za-z0-9_]*)\s*\{\s*$\<close>: \<open>modelStartRe\<close> and \<open>enumStartRe\<close>.\<close>

definition block_start :: "string \<Rightarrow> string \<Rightarrow> string option" where
  "block_start kw s =
     (case expect kw (skip_spaces s) of
        None \<Rightarrow> None
      | Some rest \<Rightarrow>
          (let t = skip_spaces rest
           in if t = rest \<or> t = [] \<or> \<not> ident_start (hd t) then None
              else (case expect ''{'' (skip_spaces (dropWhile ident_part t)) of
                  None \<Rightarrow> None
                | Some r \<Rightarrow> if skip_spaces r = [] then Some (takeWhile ident_part t) else None)))"

text \<open>The leftmost place where a match succeeds.\<close>

fun first_match :: "(string \<Rightarrow> 'a option) \<Rightarrow> string \<Rightarrow> 'a option" where
  "first_match f [] = f []"
| "first_match f (c # s) = (case f (c # s) of Some x \<Rightarrow> Some x | None \<Rightarrow> first_match f s)"

text \<open>\<^verbatim>\<open>([^c]+)\<close> followed by \<^verbatim>\<open>c\<close> and the text \<open>after\<close>.\<close>

definition run_until :: "char \<Rightarrow> string \<Rightarrow> string \<Rightarrow> string option" where
  "run_until c after s =
     (let v = takeWhile (\<lambda>x. x \<noteq> c) s
      in if v = [] then None else map_option (\<lambda>_. v) (expect (c # after) (dropWhile (\<lambda>x. x \<noteq> c) s)))"

text \<open>\<^verbatim>\<open>@@map\("([^"]+)"\)\<close>\<close>

definition mapRe :: "string \<Rightarrow> string option" where
  "mapRe = first_match (\<lambda>s. Option.bind (expect (''@@map('' @ [CHR 0x22]) s) (run_until (CHR 0x22) '')''))"

text \<open>\<^verbatim>\<open>@relation\((.*)\)\<close>: up to the last closing parenthesis; the text has no line break.\<close>

definition relationRe :: "string \<Rightarrow> string option" where
  "relationRe = first_match (\<lambda>s. Option.bind (expect ''@relation('' s) (\<lambda>r. map_option fst (last_split (CHR '')'') r)))"

text \<open>\<^verbatim>\<open>key\s*:\s*\[([^\]]+)\]\<close>\<close>

definition listRe :: "string \<Rightarrow> string \<Rightarrow> string option" where
  "listRe key = first_match (\<lambda>s. Option.bind (expect key s) (\<lambda>r. Option.bind (expect '':'' (skip_spaces r)) (\<lambda>r.
     Option.bind (expect ''['' (skip_spaces r)) (run_until (CHR '']'') []))))"

definition fieldsListRe :: "string \<Rightarrow> string option" where
  "fieldsListRe = listRe ''fields''"

definition refsListRe :: "string \<Rightarrow> string option" where
  "refsListRe = listRe ''references''"

text \<open>\<^verbatim>\<open>@@id\(\s*\[([^\]]+)\]\<close>\<close>

definition modelIDRe :: "string \<Rightarrow> string option" where
  "modelIDRe = first_match (\<lambda>s. Option.bind (expect ''@@id('' s) (\<lambda>r.
     Option.bind (expect ''['' (skip_spaces r)) (run_until (CHR '']'') [])))"

text \<open>\<^verbatim>\<open>name\s*:\s*"([^"]+)"\<close>\<close>

definition relNameKVRe :: "string \<Rightarrow> string option" where
  "relNameKVRe = first_match (\<lambda>s. Option.bind (expect ''name'' s) (\<lambda>r. Option.bind (expect '':'' (skip_spaces r)) (\<lambda>r.
     Option.bind (expect [CHR 0x22] (skip_spaces r)) (run_until (CHR 0x22) []))))"

section \<open>Schemas\<close>

record prisma_enum =
  EName :: string
  EValues :: "string list"

record prisma_field =
  PFName :: string
  PFType :: string
  BaseType :: string
  IsList :: bool
  IsOptional :: bool
  IsEnum :: bool
  Attrs :: string

record belongs_to =
  RelName :: string
  ToModel :: string
  FKColumn :: string
  PKColumn :: string
  RelationName :: string

record list_relation =
  LName :: string
  LToModel :: string
  LRelationName :: string

record prisma_model =
  PrName :: string
  PrTable :: string
  PrFields :: "prisma_field list"
  PrPKCols :: "string list"
  BelongsTo :: "belongs_to list"
  ListRels :: "list_relation list"
  ScalarNames :: "string list"

record prisma_fk =
  FromModel :: string
  InFKColumn :: string
  InPKColumn :: string
  InRelationName :: string

record column_info =
  CIType :: string
  CILocalize :: bool

type_synonym enums = "(string, prisma_enum) gomap"
type_synonym columns = "(string, column_info) gomap"
type_synonym locale_defaults = "(string, (nat, string) gomap) gomap"

datatype prisma_error =
    UnclosedEnum string
  | UnclosedModel string
  | ModelMarshalFailed string string
  | SchemaReadFailed string

definition stripComment :: "string \<Rightarrow> string" where
  "stripComment s = (case str_index ''//'' s of None \<Rightarrow> s | Some i \<Rightarrow> take i s)"

definition parseCSVNames :: "string \<Rightarrow> string list" where
  "parseCSVNames s = filter (\<lambda>v. v \<noteq> []) (map trim_space (split_char (CHR '','') s))"

definition isScalarType :: "string \<Rightarrow> bool" where
  "isScalarType t = (to_lower (trim_space t) \<in>
     {''string'', ''boolean'', ''int'', ''bigint'', ''float'', ''decimal'', ''datetime'', ''json'', ''bytes'', ''unsupported''})"

definition mapPrismaTypeToYAML :: "string \<Rightarrow> string" where
  "mapPrismaTypeToYAML t0 =
     (let t = to_lower (trim_space t0)
      in if t = ''int'' \<or> t = ''bigint'' then ''int''
         else if t = ''float'' \<or> t = ''decimal'' then ''float''
         else if t = ''boolean'' then ''bool''
         else if t = ''datetime'' then ''datetime''
         else if t = ''date'' then ''date''
         else ''string'')"

subsection \<open>Enums\<close>

text \<open>One line; the second part of the state is the enum whose block is open.\<close>

definition enum_line :: "string \<Rightarrow> enums \<times> prisma_enum option \<Rightarrow> enums \<times> prisma_enum option" where
  "enum_line raw st =
     (case st of (out, cur) \<Rightarrow>
       (let trimmed = trim_space (stripComment raw)
        in if trimmed = [] then (out, cur)
           else (case cur of
               None \<Rightarrow> (case block_start ''enum'' trimmed of
                   Some n \<Rightarrow> (out, Some \<lparr>EName = n, EValues = []\<rparr>) | None \<Rightarrow> (out, None))
             | Some e \<Rightarrow>
                 if trimmed = ''}'' then (AList.update (EName e) e out, None)
                 else if has_prefix trimmed ''@'' then (out, Some e)
                 else (case str_fields trimmed of
                     [] \<Rightarrow> (out, Some e) | v # _ \<Rightarrow> (out, Some (e\<lparr>EValues := EValues e @ [v]\<rparr>))))))"

definition schema_lines :: "string \<Rightarrow> string list" where
  "schema_lines schema = split_char (CHR 0x0A) schema"

definition parseEnums :: "string \<Rightarrow> prisma_error + enums" where
  "parseEnums schema =
     (case fold enum_line (schema_lines schema) ([], None) of
        (out, None) \<Rightarrow> Inr out
      | (out, Some e) \<Rightarrow> Inl (UnclosedEnum (EName e)))"

subsection \<open>Models\<close>

definition strip_suffix :: "string \<Rightarrow> string \<Rightarrow> string" where
  "strip_suffix s p = (if has_suffix s p then take (length s - length p) s else s)"

definition parseField :: "string \<Rightarrow> prisma_field option" where
  "parseField line =
     (case str_fields line of
        name0 # typ0 # attrs \<Rightarrow>
          (let typ = trim_space typ0;
               base = strip_suffix typ ''[]''
           in Some \<lparr>PFName = trim_space name0, PFType = typ, BaseType = strip_suffix base ''?'',
                    IsList = has_suffix typ ''[]'', IsOptional = has_suffix base ''?'', IsEnum = False,
                    Attrs = join_str '' '' attrs\<rparr>)
      | _ \<Rightarrow> None)"

definition prisma_relationNameFromFK :: "string \<Rightarrow> string \<Rightarrow> string" where
  "prisma_relationNameFromFK columnName refTable =
     (let snaked = toSnakeCase (trim_space columnName);
          name = trim_space (if has_suffix snaked ''_id'' \<and> length snaked > 3 then take (length snaked - 3) snaked else snaked)
      in if name \<noteq> [] then name else to_lower (trim_space refTable))"

definition trim_double_quotes :: "string \<Rightarrow> string" where
  "trim_double_quotes s = rev (dropWhile (\<lambda>c. c = CHR 0x22) (rev (dropWhile (\<lambda>c. c = CHR 0x22) s)))"

definition parseRelationName :: "string \<Rightarrow> string" where
  "parseRelationName body0 =
     (let body = trim_space body0; first = trim_space (fst (split2 '','' body))
      in if body = [] then []
         else if has_prefix first [CHR 0x22] \<and> has_suffix first [CHR 0x22] \<and> length first \<ge> 2 then trim_double_quotes first
         else (case relNameKVRe body of Some n \<Rightarrow> n | None \<Rightarrow> []))"

definition parseRelationNameFromAttrs :: "string \<Rightarrow> string" where
  "parseRelationNameFromAttrs attrs = (case relationRe attrs of None \<Rightarrow> [] | Some body \<Rightarrow> parseRelationName body)"

definition parseBelongsToRelation :: "prisma_field \<Rightarrow> string \<Rightarrow> belongs_to option" where
  "parseBelongsToRelation f refTable =
     (if IsList f then None
      else (case relationRe (Attrs f) of
          None \<Rightarrow> None
        | Some body \<Rightarrow>
            (case (fieldsListRe body, refsListRe body) of
               (Some fm, Some rm) \<Rightarrow>
                 (case (parseCSVNames fm, parseCSVNames rm) of
                    (fk # _, pk # _) \<Rightarrow>
                      Some \<lparr>RelName = prisma_relationNameFromFK fk refTable, ToModel = BaseType f, FKColumn = fk, PKColumn = pk,
                            RelationName = parseRelationName body\<rparr>
                  | _ \<Rightarrow> None)
             | _ \<Rightarrow> None)))"

definition parseListRelation :: "prisma_field \<Rightarrow> list_relation option" where
  "parseListRelation f =
     (if IsList f then Some \<lparr>LName = PFName f, LToModel = BaseType f, LRelationName = parseRelationNameFromAttrs (Attrs f)\<rparr> else None)"

definition model_attribute :: "string \<Rightarrow> prisma_model \<Rightarrow> prisma_model" where
  "model_attribute trimmed cur =
     (let cur1 = (case mapRe trimmed of Some t \<Rightarrow> cur\<lparr>PrTable := t\<rparr> | None \<Rightarrow> cur)
      in case modelIDRe trimmed of Some ids \<Rightarrow> cur1\<lparr>PrPKCols := parseCSVNames ids\<rparr> | None \<Rightarrow> cur1)"

definition add_field :: "enums \<Rightarrow> prisma_field \<Rightarrow> prisma_model \<Rightarrow> prisma_model" where
  "add_field es f0 cur0 =
     (let f = (if BaseType f0 \<in> gokeys es then f0\<lparr>IsEnum := True\<rparr> else f0);
          cur = cur0\<lparr>PrFields := PrFields cur0 @ [f]\<rparr>
      in if isScalarType (BaseType f) \<or> BaseType f = ''Unsupported'' \<or> IsEnum f then
           cur\<lparr>ScalarNames := ScalarNames cur @ [PFName f],
               PrPKCols := (if contains (Attrs f) ''@id'' then PrPKCols cur @ [PFName f] else PrPKCols cur)\<rparr>
         else (case parseListRelation f of
             Some rel \<Rightarrow> cur\<lparr>ListRels := ListRels cur @ [rel]\<rparr>
           | None \<Rightarrow>
               (case parseBelongsToRelation f (PrTable cur) of
                  Some rel \<Rightarrow> cur\<lparr>BelongsTo := BelongsTo cur @ [rel]\<rparr>
                | None \<Rightarrow> cur)))"

definition new_model :: "string \<Rightarrow> prisma_model" where
  "new_model n = \<lparr>PrName = n, PrTable = n, PrFields = [], PrPKCols = [], BelongsTo = [], ListRels = [], ScalarNames = []\<rparr>"

definition model_line :: "enums \<Rightarrow> string \<Rightarrow> prisma_model list \<times> prisma_model option \<Rightarrow> prisma_model list \<times> prisma_model option" where
  "model_line es raw st =
     (case st of (models, cur) \<Rightarrow>
       (let trimmed = trim_space (stripComment raw)
        in if trimmed = [] then (models, cur)
           else (case cur of
               None \<Rightarrow> (models, map_option new_model (block_start ''model'' trimmed))
             | Some m \<Rightarrow>
                 if trimmed = ''}'' then (models @ [m], None)
                 else if has_prefix trimmed ''@@'' then (models, Some (model_attribute trimmed m))
                 else (case parseField trimmed of
                     None \<Rightarrow> (models, Some m) | Some f \<Rightarrow> (models, Some (add_field es f m))))))"

definition parseModels :: "string \<Rightarrow> enums \<Rightarrow> prisma_error + prisma_model list" where
  "parseModels schema es =
     (case fold (model_line es) (schema_lines schema) ([], None) of
        (models, None) \<Rightarrow> Inr models
      | (models, Some m) \<Rightarrow> Inl (UnclosedModel (PrName m)))"

section \<open>Columns\<close>

text \<open>The orders in which two maps are visited, and the encoder.\<close>

record prisma_env =
  VisitCols :: "columns \<Rightarrow> columns"
  VisitRels :: "(string, yaml_relation) gomap \<Rightarrow> (string, yaml_relation) gomap"
  PMarshal :: "yaml_model \<Rightarrow> string + string"

definition scalar_column :: "prisma_model \<Rightarrow> enums \<Rightarrow> prisma_field \<Rightarrow> columns \<Rightarrow> columns" where
  "scalar_column m es f out =
     (if PFName f \<notin> set (ScalarNames m) then out
      else if BaseType f \<in> gokeys es then AList.update (PFName f) \<lparr>CIType = ''int'', CILocalize = True\<rparr> out
      else AList.update (PFName f) \<lparr>CIType = mapPrismaTypeToYAML (BaseType f), CILocalize = False\<rparr> out)"

definition scalarColumns :: "prisma_model \<Rightarrow> enums \<Rightarrow> columns" where
  "scalarColumns m es = fold (scalar_column m es) (PrFields m) []"

definition fieldBaseType :: "prisma_model \<Rightarrow> string \<Rightarrow> string" where
  "fieldBaseType m fieldName = (case List.find (\<lambda>f. PFName f = fieldName) (PrFields m) of Some f \<Rightarrow> BaseType f | None \<Rightarrow> [])"

definition prisma_chooseIDColumn :: "columns \<Rightarrow> string list \<Rightarrow> (string \<times> string) option" where
  "prisma_chooseIDColumn cols pkCols =
     (case map_of cols ''id'' of
        Some t \<Rightarrow> Some (''id'', CIType t)
      | None \<Rightarrow> (case pkCols of [pk] \<Rightarrow> map_option (\<lambda>t. (pk, CIType t)) (map_of cols pk) | _ \<Rightarrow> None))"

definition prisma_chooseNameLikeColumn :: "prisma_env \<Rightarrow> columns \<Rightarrow> string \<Rightarrow> string" where
  "prisma_chooseNameLikeColumn env cols idSource =
     choose_name (map (\<lambda>(n, t). (n, score_name n (CIType t = ''string''))) (VisitCols env cols)) idSource"

definition relationNameFromModel :: "string \<Rightarrow> string" where
  "relationNameFromModel m = toSnakeCase m"

definition chooseHasManyRelationName :: "prisma_model \<Rightarrow> prisma_fk \<Rightarrow> string" where
  "chooseHasManyRelationName m inc =
     (let candidates = filter (\<lambda>rel. LToModel rel = FromModel inc) (ListRels m)
      in case candidates of
           [] \<Rightarrow> relationNameFromModel (FromModel inc)
         | c # cs \<Rightarrow>
             (case (if InRelationName inc \<noteq> [] then List.find (\<lambda>rel. LRelationName rel = InRelationName inc) candidates else None) of
                Some rel \<Rightarrow> LName rel
              | None \<Rightarrow> if cs = [] then LName c else relationNameFromModel (FromModel inc)))"

section \<open>Generation\<close>

definition updateLocaleEnumMap :: "locale_defaults \<Rightarrow> string \<Rightarrow> prisma_enum \<Rightarrow> locale_defaults" where
  "updateLocaleEnumMap dst key e =
     (if key = [] \<or> EValues e = [] then dst
      else AList.update key
        (fold (\<lambda>(i, v). AList.update i v) (enumerate 0 (EValues e)) (case map_of dst key of Some m \<Rightarrow> m | None \<Rightarrow> [])) dst)"

definition fk_of :: "prisma_model \<Rightarrow> belongs_to \<Rightarrow> prisma_fk" where
  "fk_of m rel = \<lparr>FromModel = PrName m, InFKColumn = FKColumn rel, InPKColumn = PKColumn rel, InRelationName = RelationName rel\<rparr>"

text \<open>The list that \<^verbatim>\<open>incoming\<close> holds for a model.\<close>

definition prisma_incoming :: "prisma_model list \<Rightarrow> string \<Rightarrow> prisma_fk list" where
  "prisma_incoming models target =
     concat (map (\<lambda>m. map (fk_of m) (filter (\<lambda>rel. ToModel rel = target) (BelongsTo m))) models)"

definition belongs_entry :: "belongs_to \<Rightarrow> (string, yaml_relation) gomap \<Rightarrow> (string, yaml_relation) gomap" where
  "belongs_entry rel = AList.update (RelName rel)
     \<lparr>YRType = ''belongs_to'', YRModel = ToModel rel, YFk = FKColumn rel, YPk = PKColumn rel\<rparr>"

definition has_many_entry :: "prisma_model \<Rightarrow> prisma_fk \<Rightarrow> (string, yaml_relation) gomap \<Rightarrow> (string, yaml_relation) gomap" where
  "has_many_entry m inc relations = AList.update (uniqueRelationName relations (chooseHasManyRelationName m inc))
     \<lparr>YRType = ''has_many'', YRModel = FromModel inc, YFk = InFKColumn inc, YPk = InPKColumn inc\<rparr> relations"

definition prisma_relations :: "prisma_model list \<Rightarrow> prisma_model \<Rightarrow> (string, yaml_relation) gomap" where
  "prisma_relations models m =
     fold (has_many_entry m) (prisma_incoming models (PrName m)) (fold belongs_entry (BelongsTo m) [])"

definition column_field :: "columns \<Rightarrow> string \<Rightarrow> yaml_field" where
  "column_field cols c =
     (case map_of cols c of
        Some t \<Rightarrow> (yfield c (CIType t))\<lparr>YLocalize := CILocalize t\<rparr>
      | None \<Rightarrow> yfield c [])"

definition localized_columns :: "columns \<Rightarrow> string list" where
  "localized_columns cols = filter (\<lambda>c. YLocalize (column_field cols c)) (sort (map fst cols))"

definition prisma_item :: "prisma_env \<Rightarrow> columns \<Rightarrow> string \<times> string \<Rightarrow> yaml_preset" where
  "prisma_item env cols ident =
     (case ident of (idSource, idType) \<Rightarrow>
       (let nameCol = prisma_chooseNameLikeColumn env cols idSource
        in [(if idSource \<noteq> ''id'' then (yfield idSource idType)\<lparr>YAlias := ''id''\<rparr> else yfield idSource idType)] @
           (if nameCol \<noteq> [] then [yfield nameCol (YType (column_field cols nameCol))] else []) @
           map (column_field cols) (localized_columns cols)))"

definition prisma_full :: "columns \<Rightarrow> prisma_model \<Rightarrow> yaml_preset" where
  "prisma_full cols m = map (column_field cols) (sort (map fst cols)) @ map (\<lambda>rel. item_field (RelName rel)) (BelongsTo m)"

text \<open>The model that is written; \<open>None\<close> when no column identifies the rows.\<close>

definition prisma_yaml :: "prisma_env \<Rightarrow> enums \<Rightarrow> prisma_model list \<Rightarrow> prisma_model \<Rightarrow> yaml_model option" where
  "prisma_yaml env es models m =
     (let cols = scalarColumns m es; relations = prisma_relations models m
      in case prisma_chooseIDColumn cols (PrPKCols m) of
           None \<Rightarrow> None
         | Some ident \<Rightarrow>
             (let presets = [(''item'', prisma_item env cols ident)];
                  presets' = (if length cols > 2 then AList.update ''full_info'' (prisma_full cols m) presets else presets)
              in Some \<lparr>YTable = PrTable m, YRelations = relations,
                       YPresets = addHasManyRelationPresets presets' (VisitRels env relations)\<rparr>))"

definition locale_entry :: "prisma_model \<Rightarrow> enums \<Rightarrow> string \<Rightarrow> locale_defaults \<Rightarrow> locale_defaults" where
  "locale_entry m es c dst =
     (case map_of es (fieldBaseType m c) of Some e \<Rightarrow> updateLocaleEnumMap dst c e | None \<Rightarrow> dst)"

definition prisma_step ::
  "prisma_env \<Rightarrow> enums \<Rightarrow> prisma_model list \<Rightarrow> prisma_model \<Rightarrow>
   (string \<times> string) list \<times> locale_defaults \<Rightarrow> prisma_error + (string \<times> string) list \<times> locale_defaults" where
  "prisma_step env es models m st =
     (case prisma_yaml env es models m of
        None \<Rightarrow> Inr st
      | Some y \<Rightarrow>
          (case PMarshal env y of
             Inl e \<Rightarrow> Inl (ModelMarshalFailed (PrName m) e)
           | Inr raw \<Rightarrow> Inr (fst st @ [(PrName m @ ''.yml'', raw)],
                            fold (locale_entry m es) (localized_columns (scalarColumns m es)) (snd st))))"

definition GenerateResultFromSchema ::
  "prisma_env \<Rightarrow> string \<Rightarrow> prisma_error + (string \<times> string) list \<times> locale_defaults" where
  "GenerateResultFromSchema env schema =
     bind_res (parseEnums schema) (\<lambda>es.
     bind_res (parseModels schema es) (\<lambda>models.
       if models = [] then Inr ([], [])
       else bind_res (fold_res (prisma_step env es models) models ([], [])) (\<lambda>(out, localeDefaults).
         Inr (sort_key fst out, localeDefaults))))"

definition GenerateFromSchema :: "prisma_env \<Rightarrow> string \<Rightarrow> prisma_error + (string \<times> string) list" where
  "GenerateFromSchema env schema = bind_res (GenerateResultFromSchema env schema) (\<lambda>(files, _). Inr files)"

definition GenerateResultFromFile ::
  "prisma_env \<Rightarrow> string + string \<Rightarrow> prisma_error + (string \<times> string) list \<times> locale_defaults" where
  "GenerateResultFromFile env file =
     (case file of Inl e \<Rightarrow> Inl (SchemaReadFailed e) | Inr raw \<Rightarrow> GenerateResultFromSchema env raw)"

definition GenerateFromFile :: "prisma_env \<Rightarrow> string + string \<Rightarrow> prisma_error + (string \<times> string) list" where
  "GenerateFromFile env file = bind_res (GenerateResultFromFile env file) (\<lambda>(files, _). Inr files)"

section \<open>The defaults of the locale\<close>

text \<open>
  A value of the locale file: a mapping with text keys, a mapping with keys of any type, or another
  value.
\<close>

datatype locale_value =
    StrMap "(string, gany) gomap"
  | KeyMap "(gany \<times> gany) list"
  | OtherValue gany

definition normalizeAnyMap :: "float_text \<Rightarrow> locale_value \<Rightarrow> (string, gany) gomap" where
  "normalizeAnyMap fl v =
     (case v of
        StrMap m \<Rightarrow> fold (\<lambda>(k, x). AList.update k x) m []
      | KeyMap m \<Rightarrow> fold (\<lambda>(k, x). AList.update (sprint fl k) x) m []
      | OtherValue x \<Rightarrow> [])"

definition add_label :: "nat \<times> string \<Rightarrow> (string, gany) gomap \<Rightarrow> (string, gany) gomap" where
  "add_label e node = (case e of (idx, label) \<Rightarrow>
     if show_nat idx \<in> gokeys node then node else AList.update (show_nat idx) (GStr label) node)"

definition merge_entry ::
  "float_text \<Rightarrow> string \<times> (nat, string) gomap \<Rightarrow> (string, locale_value) gomap \<Rightarrow> (string, locale_value) gomap" where
  "merge_entry fl e data =
     (case e of (key, vals) \<Rightarrow>
       (let node = (case map_of data key of Some existing \<Rightarrow> normalizeAnyMap fl existing | None \<Rightarrow> [])
        in AList.update key (StrMap (fold add_label vals node)) data))"

definition merge_locale :: "float_text \<Rightarrow> locale_defaults \<Rightarrow> (string, locale_value) gomap \<Rightarrow> (string, locale_value) gomap" where
  "merge_locale fl defaults data = fold (merge_entry fl) defaults data"

datatype locale_merge_error =
    LocaleRead string
  | LocaleUnmarshal
  | LocaleMarshal
  | LocaleMkdir string
  | LocaleWrite string

text \<open>
  What reading the file gives: an error (of which a missing file is one) or its text. The result is
  the text that is written; \<open>None\<close> when there is nothing to merge.
\<close>

datatype file_content = MissingFile | UnreadableFile string | FileText string

record locale_env =
  LDecode :: "string \<Rightarrow> (string, locale_value) gomap option"
  LMarshal :: "(string, locale_value) gomap \<Rightarrow> string option"
  LMkdir :: "string option"
  LWrite :: "string option"

definition MergeLocaleDefaults ::
  "float_text \<Rightarrow> locale_env \<Rightarrow> file_content \<Rightarrow> locale_defaults \<Rightarrow> locale_merge_error + string option" where
  "MergeLocaleDefaults fl env file defaults =
     (if defaults = [] then Inr None
      else bind_res
        (case file of
           FileText raw \<Rightarrow> (case LDecode env raw of Some data \<Rightarrow> Inr data | None \<Rightarrow> Inl LocaleUnmarshal)
         | MissingFile \<Rightarrow> Inr []
         | UnreadableFile e \<Rightarrow> Inl (LocaleRead e))
        (\<lambda>data. case LMarshal env (merge_locale fl defaults data) of
            None \<Rightarrow> Inl LocaleMarshal
          | Some out \<Rightarrow>
              (case LMkdir env of Some e \<Rightarrow> Inl (LocaleMkdir e) | None \<Rightarrow>
                (case LWrite env of Some e \<Rightarrow> Inl (LocaleWrite e) | None \<Rightarrow> Inr (Some out)))))"

definition LocaleDefaultsYAML :: "(locale_defaults \<Rightarrow> string option) \<Rightarrow> locale_defaults \<Rightarrow> string option" where
  "LocaleDefaultsYAML marshal defaults =
     (if defaults = [] then Some [] else marshal (fold (\<lambda>(k, v). AList.update k v) defaults []))"

section \<open>What is generated for a model\<close>

definition visits :: "prisma_env \<Rightarrow> bool" where
  "visits env = ((\<forall>cols. set (VisitCols env cols) = set cols) \<and> (\<forall>rels. set (VisitRels env rels) = set rels))"

text \<open>Every model has a column that identifies its rows, refers to models of the schema, and no name holds a brace.\<close>

definition importable_model :: "enums \<Rightarrow> prisma_model list \<Rightarrow> prisma_model \<Rightarrow> bool" where
  "importable_model es models m =
     (prisma_chooseIDColumn (scalarColumns m es) (PrPKCols m) \<noteq> None \<and> no_brace (PrName m) \<and>
      (\<forall>f \<in> set (PrFields m). no_brace (PFName f)) \<and> (\<forall>rel \<in> set (ListRels m). no_brace (LName rel)) \<and>
      (\<forall>rel \<in> set (BelongsTo m). no_brace (RelName rel) \<and> ToModel rel \<in> PrName ` set models))"

lemma no_brace_snake: "no_brace s \<Longrightarrow> no_brace (toSnakeCase s)"
proof -
  have low: "lower_char c = CHR ''{'' \<Longrightarrow> c = CHR ''{''" for c
    by (simp add: lower_char_def Let_def split: if_split_asm) (auto dest!: arg_cong [of _ _ "of_char :: char \<Rightarrow> nat"])
  have "no_brace s \<Longrightarrow> no_brace (snake b s)" for b
    by (induction b s rule: snake.induct) (auto simp: no_brace_def dest: low low [OF sym])
  then show "no_brace s \<Longrightarrow> no_brace (toSnakeCase s)" by (simp add: toSnakeCase_def)
qed

lemma find_mem: "List.find P xs = Some x \<Longrightarrow> x \<in> set xs"
  by (auto simp: find_Some_iff)

lemma has_many_name_no_brace:
  assumes "no_brace (FromModel inc)" "\<forall>rel \<in> set (ListRels m). no_brace (LName rel)"
  shows "no_brace (chooseHasManyRelationName m inc)"
proof -
  define cands where "cands = filter (\<lambda>rel. LToModel rel = FromModel inc) (ListRels m)"
  have cands: "no_brace (LName rel)" if "rel \<in> set cands" for rel using that assms(2) by (simp add: cands_def)
  have model: "no_brace (relationNameFromModel (FromModel inc))"
    unfolding relationNameFromModel_def by (rule no_brace_snake) (fact assms(1))
  show ?thesis
    unfolding chooseHasManyRelationName_def cands_def [symmetric] Let_def
    using cands model by (auto split: list.split option.split dest!: find_mem)
qed

definition prisma_relation_ok :: "prisma_model list \<Rightarrow> string \<times> yaml_relation \<Rightarrow> bool" where
  "prisma_relation_ok models e =
     (no_brace (fst e) \<and> YRType (snd e) \<in> {''belongs_to'', ''has_many''} \<and> YRModel (snd e) \<in> PrName ` set models)"

lemma relations_update_ok:
  "\<forall>e \<in> set rels. prisma_relation_ok models e \<Longrightarrow> prisma_relation_ok models (k, r) \<Longrightarrow>
   \<forall>e \<in> set (AList.update k r rels). prisma_relation_ok models e"
  by (auto dest!: update_members)

lemma prisma_relations_ok:
  assumes m: "importable_model es models m" and all: "\<forall>m \<in> set models. no_brace (PrName m)"
  shows "\<forall>e \<in> set (prisma_relations models m). prisma_relation_ok models e"
    and "RelName ` set (BelongsTo m) \<subseteq> fst ` set (prisma_relations models m)"
proof -
  have belongs: "(\<forall>e \<in> set (fold belongs_entry rels acc). prisma_relation_ok models e) \<and>
      RelName ` set rels \<union> fst ` set acc \<subseteq> fst ` set (fold belongs_entry rels acc)"
    if "set rels \<subseteq> set (BelongsTo m)" "\<forall>e \<in> set acc. prisma_relation_ok models e" for rels acc
    using that
  proof (induction rels arbitrary: acc)
    case (Cons rel rels)
    have "\<forall>e \<in> set (belongs_entry rel acc). prisma_relation_ok models e"
      unfolding belongs_entry_def
      by (rule relations_update_ok) (use Cons.prems m in \<open>auto simp: prisma_relation_ok_def importable_model_def\<close>)
    then have "(\<forall>e \<in> set (fold belongs_entry rels (belongs_entry rel acc)). prisma_relation_ok models e) \<and>
        RelName ` set rels \<union> fst ` set (belongs_entry rel acc) \<subseteq> fst ` set (fold belongs_entry rels (belongs_entry rel acc))"
      using Cons by simp
    moreover have "fst ` set (belongs_entry rel acc) = insert (RelName rel) (fst ` set acc)" by (simp add: belongs_entry_def gomap_simps)
    ultimately show ?case by simp
  qed simp
  have incoming: "FromModel inc \<in> PrName ` set models" if "inc \<in> set (prisma_incoming models t)" for inc t
    using that by (auto simp: prisma_incoming_def fk_of_def)
  have many: "(\<forall>e \<in> set (fold (has_many_entry m) incs acc). prisma_relation_ok models e) \<and>
      fst ` set acc \<subseteq> fst ` set (fold (has_many_entry m) incs acc)"
    if "\<forall>inc \<in> set incs. FromModel inc \<in> PrName ` set models" "\<forall>e \<in> set acc. prisma_relation_ok models e" for incs acc
    using that
  proof (induction incs arbitrary: acc)
    case (Cons inc incs)
    have from_model: "FromModel inc \<in> PrName ` set models" "no_brace (FromModel inc)" using Cons.prems(1) all by auto
    have "no_brace (uniqueRelationName acc (chooseHasManyRelationName m inc))"
      unfolding uniqueRelationName_def
      by (intro no_brace_unique has_many_name_no_brace) (use from_model m in \<open>auto simp: importable_model_def\<close>)
    then have "\<forall>e \<in> set (has_many_entry m inc acc). prisma_relation_ok models e"
      unfolding has_many_entry_def
      by (intro relations_update_ok) (use Cons.prems from_model in \<open>auto simp: prisma_relation_ok_def\<close>)
    then have "(\<forall>e \<in> set (fold (has_many_entry m) incs (has_many_entry m inc acc)). prisma_relation_ok models e) \<and>
        fst ` set (has_many_entry m inc acc) \<subseteq> fst ` set (fold (has_many_entry m) incs (has_many_entry m inc acc))"
      using Cons by simp
    moreover have "fst ` set acc \<subseteq> fst ` set (has_many_entry m inc acc)" by (auto simp: has_many_entry_def gomap_simps)
    ultimately show ?case by (simp only: fold_simps) (blast intro: subset_trans)
  qed simp
  note first = belongs [of "BelongsTo m" "[]", simplified]
  note second = many [of "prisma_incoming models (PrName m)" "fold belongs_entry (BelongsTo m) []"]
  have incs: "\<forall>inc \<in> set (prisma_incoming models (PrName m)). FromModel inc \<in> PrName ` set models" using incoming by blast
  show "\<forall>e \<in> set (prisma_relations models m). prisma_relation_ok models e"
    unfolding prisma_relations_def using second incs first by blast
  show "RelName ` set (BelongsTo m) \<subseteq> fst ` set (prisma_relations models m)"
    unfolding prisma_relations_def using second incs first by (meson order_trans)
qed

lemma scalar_columns_members:
  "(c, t) \<in> set (scalarColumns m es) \<Longrightarrow> c \<in> PFName ` set (PrFields m) \<and> CIType t \<notin> {''preset'', ''computable''}"
proof -
  have "(c, t) \<in> set (fold (scalar_column m es) fs acc) \<Longrightarrow>
      (c, t) \<in> set acc \<or> c \<in> PFName ` set fs \<and> CIType t \<notin> {''preset'', ''computable''}" for fs acc
  proof (induction fs arbitrary: acc)
    case (Cons f fs)
    have "(c, t) \<in> set (scalar_column m es f acc) \<Longrightarrow>
        (c, t) \<in> set acc \<or> c = PFName f \<and> CIType t \<notin> {''preset'', ''computable''}"
      by (auto simp: scalar_column_def mapPrismaTypeToYAML_def Let_def split: if_split_asm dest!: update_members)
    then show ?case using Cons.IH [of "scalar_column m es f acc"] Cons.prems by auto
  qed simp
  from this [of "PrFields m" "[]"] show "(c, t) \<in> set (scalarColumns m es) \<Longrightarrow> ?thesis" by (simp add: scalarColumns_def)
qed

lemma column_field_ok:
  assumes "c \<in> fst ` set (scalarColumns m es)" "\<forall>f \<in> set (PrFields m). no_brace (PFName f)"
  shows "yaml_field_ok relations (column_field (scalarColumns m es) c)" "no_brace c"
    "YType (column_field (scalarColumns m es) c) \<notin> {''preset'', ''computable''}"
proof -
  obtain t where t: "map_of (scalarColumns m es) c = Some t" using gokeys_lookup [OF assms(1)] by blast
  note mem = scalar_columns_members [OF map_of_SomeD [OF t]]
  show "no_brace c" using mem assms(2) by auto
  show "YType (column_field (scalarColumns m es) c) \<notin> {''preset'', ''computable''}"
    using mem t by (simp add: column_field_def yfield_def)
  then show "yaml_field_ok relations (column_field (scalarColumns m es) c)"
    using t \<open>no_brace c\<close> by (simp add: column_field_def yaml_field_ok_def yfield_def)
qed

lemma plain_field_ok: "no_brace c \<Longrightarrow> ty \<notin> {''preset'', ''computable''} \<Longrightarrow> yaml_field_ok relations (yfield c ty)"
  by (simp add: yaml_field_ok_def yfield_def)

lemma prisma_item_ok:
  assumes ident: "prisma_chooseIDColumn (scalarColumns m es) pk = Some ident"
    and fs: "\<forall>f \<in> set (PrFields m). no_brace (PFName f)" and env: "visits env"
  shows "\<forall>f \<in> set (prisma_item env (scalarColumns m es) ident). yaml_field_ok relations f"
proof -
  let ?cols = "scalarColumns m es"
  obtain src ty where i: "ident = (src, ty)" by (cases ident)
  have "\<exists>t. map_of ?cols src = Some t \<and> ty = CIType t"
    using ident i by (auto simp: prisma_chooseIDColumn_def split: option.splits list.splits)
  then obtain t where t: "(src, t) \<in> set ?cols" "ty = CIType t" by (auto dest: map_of_SomeD)
  have id_ok: "yaml_field_ok relations (yfield src ty)" "yaml_field_ok relations ((yfield src ty)\<lparr>YAlias := ''id''\<rparr>)"
    using scalar_columns_members [OF t(1)] t(2) fs by (auto simp: yaml_field_ok_def yfield_def)
  define nm where "nm = prisma_chooseNameLikeColumn env ?cols src"
  have nm: "yaml_field_ok relations (yfield nm (YType (column_field ?cols nm)))" if "nm \<noteq> []"
  proof -
    have "nm \<in> fst ` set (map (\<lambda>(n, t). (n, score_name n (CIType t = ''string''))) (VisitCols env ?cols))"
      using that unfolding nm_def prisma_chooseNameLikeColumn_def by (rule choose_name_mem)
    then have "nm \<in> fst ` set ?cols" using env by (force simp: visits_def)
    then show ?thesis using column_field_ok [of nm m es] fs by (intro plain_field_ok) blast+
  qed
  have locs: "yaml_field_ok relations (column_field ?cols c)" if "c \<in> set (localized_columns ?cols)" for c
    using that fs by (intro column_field_ok) (auto simp: localized_columns_def)
  show ?thesis unfolding i prisma_item_def prod.case nm_def [symmetric] Let_def using id_ok nm locs by auto
qed

lemma prisma_yaml_ok:
  assumes m: "importable_model es models m" and all: "\<forall>m \<in> set models. no_brace (PrName m)" and env: "visits env"
    and y: "prisma_yaml env es models m = Some y"
  shows "yaml_ok y \<and> (\<forall>e \<in> set (YRelations y). prisma_relation_ok models e)"
proof -
  let ?cols = "scalarColumns m es" and ?rels = "prisma_relations models m"
  obtain ident where ident: "prisma_chooseIDColumn ?cols (PrPKCols m) = Some ident"
    using y by (auto simp: prisma_yaml_def Let_def split: option.splits)
  have fs: "\<forall>f \<in> set (PrFields m). no_brace (PFName f)" using m by (simp add: importable_model_def)
  note rels = prisma_relations_ok [OF m all]
  have item: "yaml_presets_ok ?rels [(''item'', prisma_item env ?cols ident)]"
    using prisma_item_ok [OF ident fs env] by (simp add: yaml_presets_ok_def)
  have "yaml_field_ok ?rels f" if "f \<in> set (prisma_full ?cols m)" for f
  proof -
    have "f \<in> column_field ?cols ` fst ` set ?cols \<or> f \<in> (\<lambda>rel. item_field (RelName rel)) ` set (BelongsTo m)"
      using that unfolding prisma_full_def set_append list.set_map set_sort by (simp only: Un_iff)
    then consider c where "c \<in> fst ` set ?cols" "f = column_field ?cols c" | rel where "rel \<in> set (BelongsTo m)" "f = item_field (RelName rel)"
      by (elim disjE imageE) blast+
    then show ?thesis
    proof cases
      case 1
      then show ?thesis using column_field_ok(1) [OF _ fs] by simp
    next
      case 2
      then show ?thesis using rels(2) m by (auto simp: importable_model_def intro!: item_field_ok)
    qed
  qed
  then have full: "yaml_presets_ok ?rels (AList.update ''full_info'' (prisma_full ?cols m) [(''item'', prisma_item env ?cols ident)])"
    by (intro yaml_presets_ok_update item) simp
  define presets where "presets = (if length ?cols > 2 then AList.update ''full_info'' (prisma_full ?cols m) [(''item'', prisma_item env ?cols ident)]
    else [(''item'', prisma_item env ?cols ident)])"
  have set_visit: "set (VisitRels env ?rels) = set ?rels" using env by (simp add: visits_def)
  have same: "yaml_presets_ok (VisitRels env ?rels) p = yaml_presets_ok ?rels p" for p
    using set_visit by (simp add: yaml_presets_ok_def yaml_field_ok_def)
  have "yaml_presets_ok (VisitRels env ?rels) (addHasManyRelationPresets presets (VisitRels env ?rels))"
  proof (rule add_relation_presets_ok)
    show "yaml_presets_ok (VisitRels env ?rels) presets" using item full by (simp add: same presets_def)
    show "\<forall>n \<in> fst ` set (VisitRels env ?rels). no_brace n" using rels(1) set_visit by (auto simp: prisma_relation_ok_def)
  qed
  moreover have "y = \<lparr>YTable = PrTable m, YRelations = ?rels, YPresets = addHasManyRelationPresets presets (VisitRels env ?rels)\<rparr>"
    using y ident by (simp add: prisma_yaml_def Let_def presets_def)
  ultimately show ?thesis using rels(1) same by (auto simp: yaml_ok_def prisma_relation_ok_def)
qed

section \<open>What is generated for a schema\<close>

lemma prisma_files:
  assumes "fold_res (prisma_step env es models) ms st = Inr st'"
  shows "(f, raw) \<in> set (fst st') \<Longrightarrow> (f, raw) \<in> set (fst st) \<or>
      (\<exists>m \<in> set ms. \<exists>y. prisma_yaml env es models m = Some y \<and> PMarshal env y = Inr raw \<and> f = PrName m @ ''.yml'')"
    and "f \<in> fst ` set (fst st) \<Longrightarrow> f \<in> fst ` set (fst st')"
    and "m \<in> set ms \<Longrightarrow> prisma_yaml env es models m \<noteq> None \<Longrightarrow> PrName m @ ''.yml'' \<in> fst ` set (fst st')"
  using assms
proof (induction ms arbitrary: st f)
  case (Cons x ms)
  {
    case 1
    then obtain s where s: "prisma_step env es models x st = Inr s" "fold_res (prisma_step env es models) ms s = Inr st'"
      by (cases "prisma_step env es models x st") auto
    from Cons.IH(1) [OF 1(1) s(2)] show ?case
      using s(1) by (auto simp: prisma_step_def split: option.split_asm sum.split_asm)
  next
    case 2
    then obtain s where s: "prisma_step env es models x st = Inr s" "fold_res (prisma_step env es models) ms s = Inr st'"
      by (cases "prisma_step env es models x st") auto
    have "f \<in> fst ` set (fst s)" using s(1) 2(1) by (auto simp: prisma_step_def split: option.split_asm sum.split_asm)
    then show ?case using Cons.IH(2) s(2) by blast
  next
    case 3
    then obtain s where s: "prisma_step env es models x st = Inr s" "fold_res (prisma_step env es models) ms s = Inr st'"
      by (cases "prisma_step env es models x st") auto
    show ?case
    proof (cases "m \<in> set ms")
      case True
      then show ?thesis using Cons.IH(3) 3(2) s(2) by blast
    next
      case False
      then have "m = x" using 3(1) by simp
      then have "PrName m @ ''.yml'' \<in> fst ` set (fst s)"
        using s(1) 3(2) by (auto simp: prisma_step_def split: option.split_asm sum.split_asm)
      then show ?thesis using Cons.IH(2) s(2) by blast
    qed
  }
qed simp_all

text \<open>
  C10. What is imported from a Prisma schema can be served: when every model has a column that
  identifies its rows, refers to models of the schema, and no name holds a brace, the server links the
  models of the written files. It holds for every order in which the maps are visited. The YAML decoder
  is assumed to read back what the encoder wrote.
\<close>

theorem imported_schema_links:
  assumes gen: "GenerateResultFromSchema env schema = Inr (files, locale)"
    and parse: "parseEnums schema = Inr es" "parseModels schema es = Inr models"
    and ok: "\<forall>m \<in> set models. importable_model es models m" "visits env"
    and readback: "\<And>m y raw name. m \<in> set models \<Longrightarrow> prisma_yaml env es models m = Some y \<Longrightarrow> PMarshal env y = Inr raw \<Longrightarrow>
      (read raw)\<lparr>MName := name\<rparr> = decode_model name y"
  shows "\<exists>reg. LinkModelRelations (read_registry read files) = Inr reg"
proof (rule written_models_link)
  fix f raw
  assume written: "(f, raw) \<in> set files"
  have ne: "models \<noteq> []" using gen parse written by (auto simp: GenerateResultFromSchema_def)
  obtain out where out: "fold_res (prisma_step env es models) models ([], []) = Inr (out, locale)" "files = sort_key fst out"
    using gen parse ne by (auto simp: GenerateResultFromSchema_def res_simps)
  have same: "set files = set out" using out(2) by simp
  have all: "\<forall>m \<in> set models. no_brace (PrName m)" using ok(1) by (simp add: importable_model_def)
  obtain m y where m: "m \<in> set models" "prisma_yaml env es models m = Some y" "PMarshal env y = Inr raw" "f = PrName m @ ''.yml''"
    using prisma_files(1) [OF out(1)] written same by fastforce
  have yaml: "yaml_ok y" "\<forall>e \<in> set (YRelations y). prisma_relation_ok models e"
    using prisma_yaml_ok [OF _ all ok(2) m(2)] ok(1) m(1) by blast+
  have "YRModel r @ ''.yml'' \<in> fst ` set files" if r: "r \<in> snd ` set (YRelations y)" for r
  proof -
    obtain t where t: "t \<in> set models" "YRModel r = PrName t" using yaml(2) r by (auto simp: prisma_relation_ok_def)
    have "prisma_yaml env es models t \<noteq> None"
      using ok(1) t(1) by (auto simp: importable_model_def prisma_yaml_def Let_def split: option.split)
    from prisma_files(3) [OF out(1) t(1) this] show ?thesis using t(2) same by simp
  qed
  then show "\<exists>name y. f = name @ ''.yml'' \<and> yaml_ok y \<and> (read raw)\<lparr>MName := name\<rparr> = decode_model name y \<and>
      (\<forall>r \<in> snd ` set (YRelations y). YRModel r @ ''.yml'' \<in> fst ` set files)"
    using m(4) yaml(1) readback [OF m(1-3)] by blast
qed

text \<open>The schema of two models and an enum.\<close>

definition demo_schema :: string where
  "demo_schema = join_str [CHR 0x0A]
     [''enum Role {'', ''USER'', ''ADMIN // all rights'', ''}'',
      ''model User {'', ''id Int @id @default(autoincrement())'', ''name String?'', ''role Role'', ''posts Post[]'',
      ''@@map('' @ [CHR 0x22] @ ''users'' @ [CHR 0x22] @ '')'', ''}'',
      ''model Post {'', ''uid String @id'', ''title String'', ''authorId Int'',
      ''author User @relation(fields: [authorId], references: [id])'', ''}'']"

definition demo_post :: yaml_model where
  "demo_post = \<lparr>YTable = ''Post'',
     YRelations = [(''author'', \<lparr>YRType = ''belongs_to'', YRModel = ''User'', YFk = ''authorId'', YPk = ''id''\<rparr>)],
     YPresets = [(''item'', [(yfield ''uid'' ''string'')\<lparr>YAlias := ''id''\<rparr>, yfield ''title'' ''string'']),
       (''full_info'', [yfield ''authorId'' ''int'', yfield ''title'' ''string'', yfield ''uid'' ''string'', item_field ''author''])]\<rparr>"

definition demo_user :: yaml_model where
  "demo_user = \<lparr>YTable = ''users'',
     YRelations = [(''posts'', \<lparr>YRType = ''has_many'', YRModel = ''Post'', YFk = ''authorId'', YPk = ''id''\<rparr>)],
     YPresets = [(''item'', [yfield ''id'' ''int'', yfield ''name'' ''string'', (yfield ''role'' ''int'')\<lparr>YLocalize := True\<rparr>]),
       (''full_info'', [yfield ''id'' ''int'', yfield ''name'' ''string'', (yfield ''role'' ''int'')\<lparr>YLocalize := True\<rparr>]),
       (''with_posts'', [item_field ''posts''])]\<rparr>"

definition demo_prisma :: prisma_env where
  "demo_prisma = \<lparr>VisitCols = \<lambda>cols. cols, VisitRels = \<lambda>rels. rels, PMarshal = \<lambda>y. Inr (YTable y)\<rparr>"

definition demo_prisma_read :: "string \<Rightarrow> model" where
  "demo_prisma_read raw = decode_model [] (if raw = ''users'' then demo_user else demo_post)"

definition demo_enums :: enums where
  "demo_enums = [(''Role'', \<lparr>EName = ''Role'', EValues = [''USER'', ''ADMIN'']\<rparr>)]"

definition demo_scalar :: "string \<Rightarrow> string \<Rightarrow> string \<Rightarrow> prisma_field" where
  "demo_scalar n t attrs = \<lparr>PFName = n, PFType = t, BaseType = t, IsList = False, IsOptional = False, IsEnum = False, Attrs = attrs\<rparr>"

definition demo_user_model :: prisma_model where
  "demo_user_model = \<lparr>PrName = ''User'', PrTable = ''users'',
     PrFields = [demo_scalar ''id'' ''Int'' ''@id @default(autoincrement())'',
       (demo_scalar ''name'' ''String'' [])\<lparr>PFType := ''String?'', IsOptional := True\<rparr>,
       (demo_scalar ''role'' ''Role'' [])\<lparr>IsEnum := True\<rparr>,
       (demo_scalar ''posts'' ''Post'' [])\<lparr>PFType := ''Post[]'', IsList := True\<rparr>],
     PrPKCols = [''id''], BelongsTo = [], ListRels = [\<lparr>LName = ''posts'', LToModel = ''Post'', LRelationName = []\<rparr>],
     ScalarNames = [''id'', ''name'', ''role'']\<rparr>"

definition demo_post_model :: prisma_model where
  "demo_post_model = \<lparr>PrName = ''Post'', PrTable = ''Post'',
     PrFields = [demo_scalar ''uid'' ''String'' ''@id'', demo_scalar ''title'' ''String'' [], demo_scalar ''authorId'' ''Int'' [],
       demo_scalar ''author'' ''User'' ''@relation(fields: [authorId], references: [id])''],
     PrPKCols = [''uid''],
     BelongsTo = [\<lparr>RelName = ''author'', ToModel = ''User'', FKColumn = ''authorId'', PKColumn = ''id'', RelationName = []\<rparr>],
     ListRels = [], ScalarNames = [''uid'', ''title'', ''authorId'']\<rparr>"

lemma demo_prisma_parsed:
  "parseEnums demo_schema = Inr demo_enums"
  "parseModels demo_schema demo_enums = Inr [demo_user_model, demo_post_model]"
  by code_simp+

lemma demo_prisma_yaml:
  "prisma_yaml demo_prisma demo_enums [demo_user_model, demo_post_model] demo_user_model = Some demo_user"
  "prisma_yaml demo_prisma demo_enums [demo_user_model, demo_post_model] demo_post_model = Some demo_post"
  by code_simp+

lemma demo_prisma_locale:
  "fold (locale_entry demo_user_model demo_enums) (localized_columns (scalarColumns demo_user_model demo_enums)) [] = [(''role'', [(0, ''USER''), (1, ''ADMIN'')])]"
  "localized_columns (scalarColumns demo_post_model demo_enums) = []"
  by code_simp+

lemma demo_prisma_generated:
  "GenerateResultFromSchema demo_prisma demo_schema =
     Inr ([(''Post.yml'', ''Post''), (''User.yml'', ''users'')], [(''role'', [(0, ''USER''), (1, ''ADMIN'')])])"
proof -
  have "PMarshal demo_prisma y = Inr (YTable y)" for y by (simp add: demo_prisma_def)
  moreover have "PrName demo_user_model = ''User''" "PrName demo_post_model = ''Post''" "YTable demo_user = ''users''" "YTable demo_post = ''Post''"
    by (simp_all add: demo_user_model_def demo_post_model_def demo_user_def demo_post_def)
  moreover have "sort_key fst [(''User.yml'', ''users''), (''Post.yml'', ''Post'')] = [(''Post.yml'', ''Post''), (''User.yml'', ''users'')]"
    by code_simp
  ultimately show ?thesis
    unfolding GenerateResultFromSchema_def
    by (simp add: demo_prisma_parsed prisma_step_def demo_prisma_yaml demo_prisma_locale del: sort_key_simps)
qed

lemma demo_prisma_importable:
  "importable_model demo_enums [demo_user_model, demo_post_model] demo_user_model"
  "importable_model demo_enums [demo_user_model, demo_post_model] demo_post_model"
  by code_simp+

theorem imported_schema_links_witness:
  "\<exists>reg. LinkModelRelations (read_registry demo_prisma_read [(''Post.yml'', ''Post''), (''User.yml'', ''users'')]) = Inr reg"
proof (rule imported_schema_links [OF demo_prisma_generated demo_prisma_parsed])
  show "\<forall>m \<in> set [demo_user_model, demo_post_model]. importable_model demo_enums [demo_user_model, demo_post_model] m"
    using demo_prisma_importable by simp
  show "visits demo_prisma" by (simp add: visits_def demo_prisma_def)
  fix m y raw name
  assume m: "m \<in> set [demo_user_model, demo_post_model]"
    "prisma_yaml demo_prisma demo_enums [demo_user_model, demo_post_model] m = Some y" "PMarshal demo_prisma y = Inr raw"
  then have "y = demo_user \<or> y = demo_post" using demo_prisma_yaml by auto
  then show "(demo_prisma_read raw)\<lparr>MName := name\<rparr> = decode_model name y"
    using m(3) by (auto simp: demo_prisma_def demo_prisma_read_def decode_model_def demo_user_def demo_post_def)
qed

section \<open>Merging the labels of enums\<close>

lemma add_label_lookup:
  "map_of (fold add_label vals node) k =
     (case map_of node k of Some v \<Rightarrow> Some v | None \<Rightarrow> map_option GStr (map_of (map (\<lambda>(i, l). (show_nat i, l)) vals) k))"
proof (induction vals arbitrary: node)
  case (Cons e vals)
  obtain i l where e: "e = (i, l)" by (cases e)
  show ?case
  proof (cases "map_of node (show_nat i)")
    case None
    then have "show_nat i \<notin> gokeys node" by (simp add: map_of_None_gokeys)
    then have "add_label e node = AList.update (show_nat i) (GStr l) node" by (simp add: add_label_def e)
    then show ?thesis by (auto simp: Cons.IH e gomap_simps None split: option.split)
  next
    case (Some v)
    then have "show_nat i \<in> gokeys node" by (rule map_of_Some_gokeys)
    then have "add_label e node = node" by (simp add: add_label_def e)
    then show ?thesis using Some by (auto simp: Cons.IH e split: option.split)
  qed
qed (simp split: option.split)

definition old_labels :: "float_text \<Rightarrow> (string, locale_value) gomap \<Rightarrow> string \<Rightarrow> (string, gany) gomap" where
  "old_labels fl data key = (case map_of data key of Some existing \<Rightarrow> normalizeAnyMap fl existing | None \<Rightarrow> [])"

lemma merge_locale_lookup:
  "gowf defaults \<Longrightarrow> map_of (merge_locale fl defaults data) key =
     (case map_of defaults key of
        None \<Rightarrow> map_of data key
      | Some vals \<Rightarrow> Some (StrMap (fold add_label vals (old_labels fl data key))))"
proof (induction defaults arbitrary: data)
  case Nil
  then show ?case by (simp add: merge_locale_def)
next
  case (Cons e defaults)
  obtain k vals where e: "e = (k, vals)" by (cases e)
  have wf: "gowf defaults" "k \<notin> fst ` set defaults" using Cons.prems by (simp_all add: e)
  have step: "merge_locale fl (e # defaults) data = merge_locale fl defaults (merge_entry fl e data)" by (simp add: merge_locale_def)
  have none: "map_of defaults k = None" using wf(2) by (simp add: map_of_None_gokeys)
  have node: "key \<noteq> k \<Longrightarrow> old_labels fl (merge_entry fl e data) key = old_labels fl data key"
    by (simp add: old_labels_def merge_entry_def e gomap_simps)
  show ?case unfolding step
    using Cons.IH [OF wf(1), of "merge_entry fl e data"] none node
    by (cases "key = k") (auto simp: merge_entry_def e gomap_simps old_labels_def [symmetric] split: option.split)
qed

text \<open>
  Merging the labels of the enums into a locale file changes no label that the file has and adds
  exactly the ones it lacks: a key that no enum names keeps its value, and under the others each index
  reads the old label when there is one, else the name of the enum's value.
\<close>

theorem locale_merge_keeps_labels:
  assumes "gowf defaults"
  shows "(map_of defaults key = None \<longrightarrow> map_of (merge_locale fl defaults data) key = map_of data key) \<and>
    (\<forall>vals. map_of defaults key = Some vals \<longrightarrow>
       (\<exists>node. map_of (merge_locale fl defaults data) key = Some (StrMap node) \<and>
          (\<forall>k. map_of node k = (case map_of (old_labels fl data key) k of
             Some v \<Rightarrow> Some v
           | None \<Rightarrow> map_option GStr (map_of (map (\<lambda>(i, l). (show_nat i, l)) vals) k)))))"
  using merge_locale_lookup [OF assms, of fl data key] add_label_lookup by simp

theorem locale_merge_keeps_labels_witness:
  "\<exists>node. map_of (merge_locale demo_floats [(''role'', [(0, ''USER''), (1, ''ADMIN'')])]
       [(''role'', StrMap [(''0'', GStr ''Member'')]), (''name'', StrMap [])]) ''role'' = Some (StrMap node) \<and>
     map_of node ''0'' = Some (GStr ''Member'') \<and> map_of node ''1'' = Some (GStr ''ADMIN'')"
proof -
  have shown: "show_nat 0 = ''0''" "show_nat (Suc 0) = ''1''" by code_simp+
  let ?defaults = "[(''role'', [(0, ''USER''), (Suc 0, ''ADMIN'')])]"
  let ?data = "[(''role'', StrMap [(''0'', GStr ''Member'')]), (''name'', StrMap [])]"
  have old: "old_labels demo_floats ?data ''role'' = [(''0'', GStr ''Member'')]"
    by (simp add: old_labels_def normalizeAnyMap_def)
  obtain node where node: "map_of (merge_locale demo_floats ?defaults ?data) ''role'' = Some (StrMap node)"
    "\<forall>k. map_of node k = (case map_of (old_labels demo_floats ?data ''role'') k of Some v \<Rightarrow> Some v
       | None \<Rightarrow> map_option GStr (map_of (map (\<lambda>(i, l). (show_nat i, l)) [(0, ''USER''), (Suc 0, ''ADMIN'')]) k))"
    using locale_merge_keeps_labels [of ?defaults "''role''" demo_floats ?data] by auto
  have "map_of node ''0'' = Some (GStr ''Member'')" "map_of node ''1'' = Some (GStr ''ADMIN'')"
    using node(2) by (simp_all add: old shown)
  with node(1) show ?thesis by auto
qed

section \<open>What an import can break\<close>

text \<open>A value of the locale that is no mapping is replaced.\<close>

lemma locale_merge_drops_text:
  "merge_locale demo_floats [(''role'', [(0, ''USER'')])] [(''role'', OtherValue (GStr ''Role''))] = [(''role'', StrMap [(''0'', GStr ''USER'')])]"
  by code_simp

text \<open>
  The labels are kept under the name of the column: two enums under one column name are mixed.
\<close>

lemma enums_of_one_column_mix:
  "updateLocaleEnumMap (updateLocaleEnumMap [] ''status'' \<lparr>EName = ''OrderStatus'', EValues = [''NEW'', ''PAID'', ''SENT'']\<rparr>)
     ''status'' \<lparr>EName = ''UserStatus'', EValues = [''ACTIVE'', ''BLOCKED'']\<rparr> =
   [(''status'', [(0, ''ACTIVE''), (1, ''BLOCKED''), (2, ''SENT'')])]"
  by code_simp

text \<open>The column of an enum that is the only one beside the key stands twice in the preset, once untranslated.\<close>

lemma enum_column_twice:
  "prisma_item demo_prisma [(''id'', \<lparr>CIType = ''int'', CILocalize = False\<rparr>), (''role'', \<lparr>CIType = ''int'', CILocalize = True\<rparr>)] (''id'', ''int'') =
     [yfield ''id'' ''int'', yfield ''role'' ''int'', (yfield ''role'' ''int'')\<lparr>YLocalize := True\<rparr>]"
  by code_simp

text \<open>Of two columns with the same score the name is the one the loop over the map visits first.\<close>

lemma name_column_depends_on_order:
  "prisma_chooseNameLikeColumn demo_prisma [(''a'', \<lparr>CIType = ''string'', CILocalize = False\<rparr>), (''b'', \<lparr>CIType = ''string'', CILocalize = False\<rparr>)] ''id'' \<noteq>
   prisma_chooseNameLikeColumn (demo_prisma\<lparr>VisitCols := rev\<rparr>) [(''a'', \<lparr>CIType = ''string'', CILocalize = False\<rparr>), (''b'', \<lparr>CIType = ''string'', CILocalize = False\<rparr>)] ''id''"
  by code_simp

text \<open>A column of an unsupported type is written with its database type in parentheses, and is left out.\<close>

lemma unsupported_column_left_out:
  "ScalarNames (add_field [] (demo_scalar ''pos'' (''Unsupported('' @ [CHR 0x22] @ ''point'' @ [CHR 0x22] @ '')'') []) (new_model ''M'')) = []"
  by code_simp

text \<open>Two slashes inside a text start a comment: here the key of the model is lost.\<close>

lemma slashes_in_text_cut:
  "map_option Attrs (parseField (trim_space (stripComment (''url String @default('' @ [CHR 0x22] @ ''http://x'' @ [CHR 0x22] @ '') @id'')))) =
     Some (''@default('' @ [CHR 0x22] @ ''http:'')"
  by code_simp

text \<open>Of a relation over two columns only the first is kept.\<close>

lemma composite_relation_truncated:
  "map_option (\<lambda>r. (FKColumn r, PKColumn r))
     (parseBelongsToRelation (demo_scalar ''b'' ''B'' ''@relation(fields: [x, y], references: [x, y])'') ''A'') = Some (''x'', ''x'')"
  by code_simp

text \<open>
  A model whose key has two columns is left out, but the relation back from the model it refers to
  still leads to it.
\<close>

definition demo_member_model :: prisma_model where
  "demo_member_model = \<lparr>PrName = ''Member'', PrTable = ''Member'',
     PrFields = [demo_scalar ''userId'' ''Int'' [], demo_scalar ''teamId'' ''Int'' [],
       demo_scalar ''user'' ''User'' ''@relation(fields: [userId], references: [id])''],
     PrPKCols = [''userId'', ''teamId''],
     BelongsTo = [\<lparr>RelName = ''user'', ToModel = ''User'', FKColumn = ''userId'', PKColumn = ''id'', RelationName = []\<rparr>],
     ListRels = [], ScalarNames = [''userId'', ''teamId'']\<rparr>"

lemma compound_key_model_left_out:
  "prisma_yaml demo_prisma [] [demo_user_model, demo_member_model] demo_member_model = None \<and>
   map_option YRModel (map_of (prisma_relations [demo_user_model, demo_member_model] demo_user_model) ''member'') = Some ''Member''"
  by code_simp

end
