(* ===== verification/Import_Command.thy ===== *)
theory Import_Command
  imports Sql_Import Graphql_Import Prisma_Import
begin

text \<open>
  The command that runs the importers (\<^verbatim>\<open>cmd/sqlimport/main.go\<close>), after its flags were parsed. The
  world answers for the files that are read, the databases, the environment (with the \<^verbatim>\<open>.env\<close> of the
  repository loaded) and the calls that fail; the directories that are written are the state.
\<close>

record import_flags =
  Dsn :: string
  Help :: bool
  SchemaFlag :: string
  OnlySimpleFlag :: bool
  PrismaSchema :: string
  GraphqlQueries :: string
  ModelsDirFlag :: string
  ReplaceFlag :: bool
  OutDir :: string
  DryRun :: bool

record import_world =
  GqlEnv :: genv
  Letters :: unicode
  PrismaEnv :: prisma_env
  ReadSchema :: "string \<Rightarrow> string + string"
  Connect :: "string \<Rightarrow> string + catalogue"
  SqlMarshal :: "yaml_model \<Rightarrow> string + string"
  GetEnv :: "string \<Rightarrow> string"
  MkdirFails :: "string \<Rightarrow> string option"
  WriteFails :: "string \<Rightarrow> string \<Rightarrow> string option"
  LocaleEnv :: "string \<Rightarrow> locale_env"
  LocaleText :: "string \<Rightarrow> file_content"
  LocaleYAML :: "locale_defaults \<Rightarrow> string option"
  LocaleFloats :: float_text

datatype import_source = FromGraphql | FromPrisma | FromDatabase

datatype generation_error =
    GraphqlFailed graphql_error
  | PrismaFailed prisma_error
  | DatabaseFailed import_error

datatype import_failure =
    EmptyOutDir
  | NoDsn
  | EmptySchema
  | ConnectFailed string
  | GenerationFailed generation_error
  | WriteFailed string string
  | LocaleFailed locale_merge_error

datatype import_done =
    ShowHelp
  | NothingFound import_source
  | Printed import_source "(string \<times> string) list" "import_warning list" "string option"
  | Written import_source string "import_warning list" "string option"

record generated =
  Source :: import_source
  GenFiles :: "(string \<times> string) list"
  GenWarnings :: "import_warning list"
  GenLocale :: locale_defaults

text \<open>The exit status of a failure: 2 for the uses of the command that are wrong.\<close>

definition exit_code :: "import_failure \<Rightarrow> nat" where
  "exit_code e = (case e of EmptyOutDir \<Rightarrow> 2 | NoDsn \<Rightarrow> 2 | EmptySchema \<Rightarrow> 2 | _ \<Rightarrow> 1)"

text \<open>The queries come first, then the schema, then the database.\<close>

definition generate_files :: "import_world \<Rightarrow> import_flags \<Rightarrow> import_failure + generated" where
  "generate_files w fl =
     (let graphqlPath = trim_space (GraphqlQueries fl); prismaPath = trim_space (PrismaSchema fl)
      in if graphqlPath \<noteq> [] then
           (case ImportFromPath (GqlEnv w) (Letters w) graphqlPath \<lparr>GqlModelsDir = ModelsDirFlag fl, ReplacePresets = ReplaceFlag fl\<rparr> of
              Inl e \<Rightarrow> Inl (GenerationFailed (GraphqlFailed e))
            | Inr (files, warnings) \<Rightarrow>
                Inr \<lparr>Source = FromGraphql, GenFiles = files, GenWarnings = warnings, GenLocale = []\<rparr>)
         else if prismaPath \<noteq> [] then
           (case GenerateResultFromFile (PrismaEnv w) (ReadSchema w prismaPath) of
              Inl e \<Rightarrow> Inl (GenerationFailed (PrismaFailed e))
            | Inr (files, defaults) \<Rightarrow>
                Inr \<lparr>Source = FromPrisma, GenFiles = files, GenWarnings = [], GenLocale = defaults\<rparr>)
         else
           (let dsn = (if trim_space (Dsn fl) \<noteq> [] then trim_space (Dsn fl) else trim_space (GetEnv w ''POSTGRES_DSN''))
            in if dsn = [] then Inl NoDsn
               else if trim_space (SchemaFlag fl) = [] then Inl EmptySchema
               else (case Connect w dsn of
                   Inl e \<Rightarrow> Inl (ConnectFailed e)
                 | Inr db \<Rightarrow>
                     (case Generate db (SqlMarshal w) \<lparr>Schema = SchemaFlag fl, OnlySimple = OnlySimpleFlag fl\<rparr> of
                        Inl e \<Rightarrow> Inl (GenerationFailed (DatabaseFailed e))
                      | Inr files \<Rightarrow>
                          Inr \<lparr>Source = FromDatabase, GenFiles = files, GenWarnings = [], GenLocale = []\<rparr>))))"

type_synonym disk = "string \<Rightarrow> (string, string) gomap"

text \<open>The path is not cleaned here, as \<^verbatim>\<open>filepath.Join\<close> does when the name of the locale holds dots and slashes.\<close>

definition locale_file :: "import_world \<Rightarrow> string" where
  "locale_file w =
     (let name = trim_space (GetEnv w ''LOCALE'') in ''cfg/locales/'' @ (if name = [] then ''en'' else name) @ ''.yml'')"

text \<open>What a loop of writes leaves when one of them fails, which changes no file itself.\<close>

fun written_part :: "(string \<Rightarrow> string option) \<Rightarrow> (string \<times> string) list \<Rightarrow> (string, string) gomap \<Rightarrow> (string, string) gomap" where
  "written_part fails [] dir = dir"
| "written_part fails (f # fs) dir = (case write_file fails f dir of Inl e \<Rightarrow> dir | Inr dir' \<Rightarrow> written_part fails fs dir')"

text \<open>The files are written; for a Prisma schema the labels are merged into the locale after that.\<close>

definition write_import :: "import_world \<Rightarrow> import_flags \<Rightarrow> generated \<Rightarrow> disk \<Rightarrow> disk \<times> (import_failure + import_done)" where
  "write_import w fl g d =
     (let dir = (if Source g = FromGraphql then ModelsDirFlag fl else OutDir fl)
      in case WriteFiles (MkdirFails w dir) (WriteFails w dir) (GenFiles g) (d dir) of
           Inl (f, e) \<Rightarrow>
             (if MkdirFails w dir = None then d(dir := written_part (WriteFails w dir) (GenFiles g) (d dir)) else d,
              Inl (WriteFailed f e))
         | Inr written \<Rightarrow>
             (d(dir := written),
              if Source g = FromPrisma then
                (case MergeLocaleDefaults (LocaleFloats w) (LocaleEnv w (locale_file w)) (LocaleText w (locale_file w)) (GenLocale g) of
                   Inl e \<Rightarrow> Inl (LocaleFailed e)
                 | Inr merged \<Rightarrow> Inr (Written FromPrisma dir [] merged))
              else Inr (Written (Source g) dir (GenWarnings g) None)))"

definition run_import :: "import_world \<Rightarrow> import_flags \<Rightarrow> disk \<Rightarrow> disk \<times> (import_failure + import_done)" where
  "run_import w fl d =
     (if Help fl then (d, Inr ShowHelp)
      else if trim_space (OutDir fl) = [] then (d, Inl EmptyOutDir)
      else (case generate_files w fl of
          Inl e \<Rightarrow> (d, Inl e)
        | Inr g \<Rightarrow>
            if GenFiles g = [] then (d, Inr (NothingFound (Source g)))
            else if DryRun fl then
              (d, Inr (Printed (Source g) (GenFiles g) (GenWarnings g)
                 (if Source g = FromPrisma \<and> GenLocale g \<noteq> [] then LocaleYAML w (GenLocale g) else None)))
            else write_import w fl g d))"

section \<open>What the command writes\<close>

lemma write_files_members:
  assumes "fold_res (write_file fails) files dir = Inr dir'"
  shows "map_of dir' f = (if f \<in> fst ` set files then map_of (rev files) f else map_of dir f)"
  using assms
proof (induction files arbitrary: dir)
  case (Cons x files)
  obtain n c where x: "x = (n, c)" by (cases x)
  have first: "fails n = None" using Cons.prems by (auto simp: x write_file_def split: option.split_asm)
  have "write_file fails (n, c) dir = Inr (AList.update n c dir)" by (simp add: write_file_def first)
  then have rest: "fold_res (write_file fails) files (AList.update n c dir) = Inr dir'" using Cons.prems by (simp add: x)
  have none: "map_of (rev files) f = None \<longleftrightarrow> f \<notin> fst ` set files" by (simp add: map_of_eq_None_iff)
  show ?case using Cons.IH [OF rest] none by (cases "map_of (rev files) f") (auto simp: x map_add_def gomap_simps)
qed simp


definition demo_flags :: import_flags where
  "demo_flags = \<lparr>Dsn = [], Help = False, SchemaFlag = ''public'', OnlySimpleFlag = False, PrismaSchema = '' s.prisma'',
     GraphqlQueries = [], ModelsDirFlag = ''./db'', ReplaceFlag = False, OutDir = ''out'', DryRun = False\<rparr>"

definition demo_import_world :: import_world where
  "demo_import_world = \<lparr>GqlEnv = demo_env, Letters = ascii_only, PrismaEnv = demo_prisma,
     ReadSchema = \<lambda>p. if p = ''s.prisma'' then Inr demo_schema else Inl ''missing'', Connect = \<lambda>dsn. Inl ''down'',
     SqlMarshal = \<lambda>y. Inr (YTable y), GetEnv = \<lambda>k. [], MkdirFails = \<lambda>d. None, WriteFails = \<lambda>d f. None,
     LocaleEnv = \<lambda>f. \<lparr>LDecode = \<lambda>raw. None, LMarshal = \<lambda>data. Some ''labels'', LMkdir = None, LWrite = None\<rparr>,
     LocaleText = \<lambda>f. MissingFile, LocaleYAML = \<lambda>l. None, LocaleFloats = demo_floats\<rparr>"


text \<open>
  With blank \<^verbatim>\<open>-models-dir\<close> the presets are imported into the models of \<^verbatim>\<open>./db\<close>, and written under
  the blank name.
\<close>

lemma blank_models_dir_reads_default:
  assumes "is_blank blank"
  shows "ApplyDocument env doc \<lparr>GqlModelsDir = blank, ReplacePresets = r\<rparr> = ApplyDocument env doc \<lparr>GqlModelsDir = ''./db'', ReplacePresets = r\<rparr>"
proof -
  have "\<not> is_blank ''./db''" "trim_space ''./db'' = ''./db''" by code_simp+
  then show ?thesis using assms by (simp add: ApplyDocument_def)
qed

end
