(* ===== verification/Spec2Isabelle.thy ===== *)
theory Spec2Isabelle
  imports Prelude Go_Strings Model_Types Alias_Path Computable_Utils Field_Expr Alias_Map
    Preset_Graph Preset_Inherit Linker Alias_Cache Detect_Joins Where_Clause
    Scan_Columns Query_Builder Index_Query Count_Queries Scan_Rows
    Formatter Through_Request Localization Finalize_Items Resolver
    Auth Log_Tail Config_Env Http_Front Api_Handlers Start_Up
    Import_Common Sql_Import Graphql_Parser Graphql_Import Prisma_Import Import_Command
begin

text \<open>
  YrestAPI is an HTTP service in Go that answers JSON requests on a relational database from
  YAML configuration. At start-up the files of a directory become a registry of models; a
  request names a model and a preset (a list of fields, possibly of related models), filters and
  sorts, and is turned into SQL text whose rows are shaped into JSON. A second command writes such
  configuration files from the catalogue of a database, a Prisma schema or GraphQL queries.

  \<^bold>\<open>The parts and the theories.\<close>
  The paths below are under \<^verbatim>\<open>src/internal/model\<close> unless they say otherwise.

  \<^item> \<open>Prelude\<close>, \<open>Go_Strings\<close>: Go's maps as association lists, errors as sums, folds that stop
    at the first error; the functions of the package \<^verbatim>\<open>strings\<close> that the source uses, on bytes.
  \<^item> \<open>Model_Types\<close> (\<^verbatim>\<open>types.go\<close>, \<^verbatim>\<open>max_depth.go\<close>, \<^verbatim>\<open>group_by_helpers.go\<close>): the configuration
    records and the registry. A pointer to a model is the name of its registry entry.
  \<^item> \<open>Preset_Inherit\<close> (\<^verbatim>\<open>loader.go\<close>, \<^verbatim>\<open>validateYAML.go\<close>): reading, checking and decoding of the
    files (the YAML decoder is a parameter), templates, inheritance of presets.
  \<^item> \<open>Linker\<close> (\<^verbatim>\<open>linker.go\<close>, \<^verbatim>\<open>registry.go\<close>): defaults, references, checks; \<^verbatim>\<open>InitRegistry\<close>.
  \<^item> \<open>Preset_Graph\<close> (\<^verbatim>\<open>registry_validation.go\<close>, \<^verbatim>\<open>CreateAliasMap.go\<close>): the walks over nested
    presets: validation, and the alias map of each preset.
  \<^item> \<open>Alias_Path\<close> (\<^verbatim>\<open>alias_helpers.go\<close>): expansion of short aliases in paths, filters, sorts.
  \<^item> \<open>Computable_Utils\<close>, \<open>Field_Expr\<close> (\<^verbatim>\<open>computable_utils.go\<close>,
    \<^verbatim>\<open>field_expression_resolver.go\<close>, \<^verbatim>\<open>computable_paths.go\<close>): SQL text of fields.
  \<^item> \<open>Alias_Map\<close> (\<^verbatim>\<open>BuildAliasMap.go\<close>): the alias map of a request.
  \<^item> \<open>Alias_Cache\<close> (\<^verbatim>\<open>alias_cache.go\<close>, \<^verbatim>\<open>CreateAliasMap.go\<close>): the cache of these maps as a state
    machine; each operation holds the mutex, so an interleaving is a sequence of operations.

  \<^item> \<open>Where_Clause\<close> (\<^verbatim>\<open>BuildWhereClause.go\<close>): the conditions of filters, split into \<^verbatim>\<open>WHERE\<close> and
    \<^verbatim>\<open>HAVING\<close>, as terms of the constructors of the package squirrel.
  \<^item> \<open>Detect_Joins\<close> (\<^verbatim>\<open>DetectJoins.go\<close>): the joins that paths need.
  \<^item> \<open>Scan_Columns\<close>, \<open>Scan_Rows\<close> (\<^verbatim>\<open>ScanPresetFields.go\<close>, \<^verbatim>\<open>ScanColumns.go\<close>, \<^verbatim>\<open>ScanFlatRows.go\<close>): the
    paths and columns of a preset; conversion of the rows and folding into nested objects.
  \<^item> \<open>Query_Builder\<close>, \<open>Index_Query\<close>, \<open>Count_Queries\<close> (\<^verbatim>\<open>cte_helpers.go\<close>, \<^verbatim>\<open>BuildIndexQuery.go\<close>,
    \<^verbatim>\<open>BuildCountQuery.go\<close>, \<^verbatim>\<open>distinct.go\<close>, \<^verbatim>\<open>aggregates.go\<close>): the statements of a page, of counts, of
    distinct values and of aggregates. A statement is the record of the clauses given to the
    builder.
  \<^item> \<open>Formatter\<close>, \<open>Localization\<close>, \<open>Finalize_Items\<close> (\<^verbatim>\<open>internal/resolver/finalizeItems.go\<close>,
    \<^verbatim>\<open>locales.go\<close>, \<^verbatim>\<open>Localization.go\<close>): the last stage of a request, that gives the items their
    aliases, translations, formatted texts, and takes the internal fields out.
  \<^item> \<open>Through_Request\<close>, \<open>Resolver\<close> (\<^verbatim>\<open>MakeThroughRequest.go\<close>, \<^verbatim>\<open>parsecondition.go\<close>, \<^verbatim>\<open>resolver.go\<close>
    of \<^verbatim>\<open>internal/resolver\<close>): requests for related rows, the recursion over them, the goroutines that
    run them as a step relation, and how their rows are attached to the items.
  \<^item> \<open>Config_Env\<close>, \<open>Auth\<close> (\<^verbatim>\<open>internal/config\<close>, \<^verbatim>\<open>internal/auth\<close>): the settings from the environment;
    the parsing and checking of tokens. Signatures and key formats of the package crypto are
    parameters.
  \<^item> \<open>Log_Tail\<close>, \<open>Http_Front\<close> (\<^verbatim>\<open>internal/router\<close>): the end of the log file read in chunks from
    behind; CORS, authentication, logging, health checks and routes. A handler is a function from
    the request and the state to the state, which holds what was written so far.
  \<^item> \<open>Api_Handlers\<close> (\<^verbatim>\<open>internal/handler\<close>): the handlers of pages, counts, statistics and distinct
    values over the query builders and the resolver.
  \<^item> \<open>Start_Up\<close> (\<^verbatim>\<open>cmd/main.go\<close>, \<^verbatim>\<open>internal/FindRoot.go\<close>, \<^verbatim>\<open>memory_stats.go\<close>, \<^verbatim>\<open>FormatTemplate.go\<close>): the
    start of the server, composed of the settings, the registry, the locales and the routes.
  \<^item> \<open>Import_Common\<close>, \<open>Sql_Import\<close>, \<open>Prisma_Import\<close> (\<^verbatim>\<open>internal/importer\<close>): from a catalogue and from a
    Prisma schema to the written models. \<open>written_models_link\<close> is the contract of both with the
    linker of the server: the files they write can be linked.
  \<^item> \<open>Graphql_Parser\<close>, \<open>Graphql_Import\<close> (\<^verbatim>\<open>internal/importer/graphqlimport\<close>): lexer, parser, and the
    presets that the selections of a query become, in the decoded models and in the YAML nodes.
  \<^item> \<open>Import_Command\<close> (\<^verbatim>\<open>cmd/sqlimport/main.go\<close>): the choice of the importer and what it writes where.
  \<^item> This theory: how the alias map of a request and its joins fit together.

  \<^bold>\<open>Bounds and fuel.\<close>
  Expanding an alias may loop, so \<open>expand_loop\<close>, \<open>expand_rel_loop\<close> and \<open>ensure_loop\<close> are partial
  functions into \<open>option\<close>, and that they return is a theorem for acyclic aliases. The walks of
  \<open>Preset_Graph\<close> are total: a measure counts the entries into models that the depth limits still
  allow. \<open>build_model_maps\<close> recurses over models with the number of registry entries as fuel;
  \<open>preset_maps_built\<close> shows that it never runs out. The joins, the paths and the columns of a
  preset are partial functions too (\<open>detect_rec\<close>, \<open>scan_fields\<close>, \<open>scan_cols\<close>): they return for
  normalised paths and for presets that are not nested in themselves. So are the passes of
  \<open>Finalize_Items\<close> and the collections of \<open>Resolver\<close>: they are instances of the locale
  \<open>preset_walk\<close>, which return when the nesting of presets is bounded. The draws of random join
  aliases are an input list, and running out of it is an error of its own. The parser of queries
  recurses with three times the number of the tokens that can remain as fuel (\<open>enough\<close>), of which
  \<open>parser_settled\<close> shows that every call leaves a smaller state, so that it never runs out. Searching
  for a free name terminates since a map is finite (\<open>unique_from\<close>).

  \<^bold>\<open>Not modelled.\<close>
  The database and its pool, the files, the log and the network are input and output: their answers
  are arguments. Not modelled are \<^verbatim>\<open>internal/db\<close>, \<^verbatim>\<open>internal/logger\<close> and the test database of
  \<^verbatim>\<open>internal/itests\<close>, the parsing of command-line flags and the texts the commands print. The package
  squirrel turns statements into text and is a parameter, as are the YAML and JSON packages, the
  digests and signatures of the package crypto, the parsing and printing of floating-point numbers,
  and the formatting of times. Objects of a row are values, so that two names of one object are two
  copies.
\<close>

section \<open>The alias map of a request and its joins\<close>

text \<open>
  A path all of whose segments are relations that \<^verbatim>\<open>DetectJoins\<close> follows.
\<close>

fun joinable_path :: "registry \<Rightarrow> model \<Rightarrow> string list \<Rightarrow> bool" where
  "joinable_path reg m [] = True"
| "joinable_path reg m (seg # segs) =
     (case join_relation reg m seg of None \<Rightarrow> False | Some (rel, target) \<Rightarrow> joinable_path reg target segs)"

lemma joinable_plain:
  assumes "joinable_path reg m segs"
  shows "plain_path reg (Some m) segs"
  using assms
proof (induction segs arbitrary: m)
  case (Cons seg segs)
  then show ?case
    by (auto simp: join_relation_def split: option.splits if_splits)
qed simp

lemma joinable_aliases:
  assumes "joinable_path reg m segs" "registered am done segs" "no_dots (done @ segs)" "[] \<notin> set done"
  shows "None \<notin> set (join_aliases reg am m (if done = [] then [] else join_str ''.'' done @ ''.'') segs) \<and>
    (\<forall>n \<in> {1..length segs}. alias_at am (join_str ''.'' (done @ take n segs)) \<in>
       set (join_aliases reg am m (if done = [] then [] else join_str ''.'' done @ ''.'') segs))"
  using assms
proof (induction segs arbitrary: m "done")
  case (Cons seg segs)
  obtain rel target where j: "join_relation reg m seg = Some (rel, target)" "joinable_path reg target segs"
    using Cons.prems(1) by (auto split: option.splits)
  have "seg \<noteq> []" using j(1) by (auto simp: join_relation_def split: if_splits)
  let ?pre = "if done = [] then [] else join_str ''.'' done @ ''.''"
  have p: "?pre @ seg = join_str ''.'' (done @ [seg])"
    using extend_path_snoc [of "done" seg] Cons.prems(3,4)
    by (cases "done = []"; cases "done = [[]]") (auto simp: extend_path_def join_str_eq_Nil)
  have pre': "(if done @ [seg] = [] then [] else join_str ''.'' (done @ [seg]) @ ''.'') = ?pre @ seg @ ''.''"
    using p by simp
  have reg: "alias_at am (?pre @ seg) \<noteq> None" "registered am (done @ [seg]) segs"
    using Cons.prems(2) unfolding registered_Cons p by auto
  have IH: "None \<notin> set (join_aliases reg am target (?pre @ seg @ ''.'') segs) \<and>
    (\<forall>n \<in> {1..length segs}. alias_at am (join_str ''.'' ((done @ [seg]) @ take n segs)) \<in>
       set (join_aliases reg am target (?pre @ seg @ ''.'') segs))"
    unfolding pre' [symmetric] by (rule Cons.IH [OF j(2) reg(2)]) (use Cons.prems(3,4) \<open>seg \<noteq> []\<close> in simp_all)
  have J: "join_aliases reg am m ?pre (seg # segs) =
      alias_at am (?pre @ seg) # join_aliases reg am target (?pre @ seg @ ''.'') segs"
    by (simp add: j(1))
  have all: "alias_at am (join_str ''.'' (done @ take n (seg # segs))) \<in> set (join_aliases reg am m ?pre (seg # segs))"
    if n: "n \<in> {1..length (seg # segs)}" for n
  proof (cases "n = 1")
    case True
    then show ?thesis unfolding J using p by simp
  next
    case False
    then obtain k where k: "n = Suc k" "k \<in> {1..length segs}" using n False by (cases n) simp_all
    then show ?thesis unfolding J using IH by simp
  qed
  have "None \<notin> set (join_aliases reg am m ?pre (seg # segs))"
    unfolding J using IH reg(1) by auto
  then show ?case using all by blast
qed simp



end
